(* ===== verification/Prelude.thy ===== *)
theory Prelude
  imports Main "HOL-Library.Word" "HOL-Library.AList"
begin

text \<open>
  Shared vocabulary of the development: the machine integers of the Rust code, its
  \<open>Result\<close> type with panics made explicit, slices of byte buffers, and the
  \<open>HashMap\<close> operations the code uses, with the laws the components rely on.
\<close>

section \<open>Machine integers\<close>

type_synonym u8 = "8 word"
type_synonym u16 = "16 word"
type_synonym u32 = "32 word"
type_synonym u64 = "64 word"

named_theorems wire "lengths and round trips of the serialised pieces"
named_theorems handler_defs "definitions of the node handlers"

section \<open>Results, errors and panics\<close>

text \<open>
  A Rust call either returns \<open>Ok x\<close>, returns \<open>Err e\<close>, or panics (an index out of
  range, \<open>unwrap\<close>/\<open>expect\<close> on nothing, \<open>todo!()\<close>, an arithmetic overflow of a
  debug build). The three outcomes are the values \<open>Inr x\<close>, \<open>Inl (Err e)\<close> and
  \<open>Inl Panic\<close>.
\<close>

datatype 'e failure = Err 'e | Panic

type_synonym ('e, 'a) result = "'e failure + 'a"

abbreviation Ok :: "'a \<Rightarrow> ('e, 'a) result" where
  "Ok x \<equiv> Inr x"

abbreviation Error :: "'e \<Rightarrow> ('e, 'a) result" where
  "Error e \<equiv> Inl (Err e)"

abbreviation Panicked :: "('e, 'a) result" where
  "Panicked \<equiv> Inl Panic"

text \<open>The \<open>?\<close> operator: go on with the value, or return the failure at once.\<close>

fun and_then :: "('e, 'a) result \<Rightarrow> ('a \<Rightarrow> ('e, 'b) result) \<Rightarrow> ('e, 'b) result" where
  "and_then (Inl f) k = Inl f"
| "and_then (Inr x) k = k x"

lemma and_then_Ok_iff:
  "and_then m k = Ok y \<longleftrightarrow> (\<exists>x. m = Ok x \<and> k x = Ok y)"
  by (cases m) auto

lemma and_then_assoc: "and_then (and_then m f) g = and_then m (\<lambda>x. and_then (f x) g)"
  by (cases m) auto

lemma and_then_cong [fundef_cong]:
  "m = m' \<Longrightarrow> (\<And>x. m' = Inr x \<Longrightarrow> f x = g x) \<Longrightarrow> and_then m f = and_then m' g"
  by (cases m') auto

fun is_ok :: "('e, 'a) result \<Rightarrow> bool" where
  "is_ok (Inr x) = True"
| "is_ok (Inl f) = False"

section \<open>Slices\<close>

text \<open>
  \<open>payload[i..]\<close>, \<open>payload[i..j]\<close> and \<open>payload[0]\<close>: out of range is a panic.
\<close>

definition slice_from :: "'a list \<Rightarrow> nat \<Rightarrow> ('e, 'a list) result" where
  "slice_from xs i = (if i \<le> length xs then Ok (drop i xs) else Panicked)"

definition slice :: "'a list \<Rightarrow> nat \<Rightarrow> nat \<Rightarrow> ('e, 'a list) result" where
  "slice xs i j = (if i \<le> j \<and> j \<le> length xs then Ok (take (j - i) (drop i xs)) else Panicked)"

definition index0 :: "'a list \<Rightarrow> ('e, 'a) result" where
  "index0 xs = (case xs of [] \<Rightarrow> Panicked | x # _ \<Rightarrow> Ok x)"

lemma slice_from_append [simp]:
  "length xs = n \<Longrightarrow> slice_from (xs @ ys) n = Ok ys"
  by (simp add: slice_from_def)

lemma slice_from_0 [simp]: "slice_from xs 0 = Ok xs"
  by (simp add: slice_from_def)

lemma slice_from_all [simp]: "length xs = n \<Longrightarrow> slice_from xs n = Ok []"
  by (simp add: slice_from_def)

lemma slice_from_Cons [simp]: "slice_from (x # xs) (Suc n) = slice_from xs n"
  by (simp add: slice_from_def)

lemma slice_prefix_append [simp]:
  "length xs = n \<Longrightarrow> slice (xs @ ys) 0 n = Ok xs"
  by (simp add: slice_def)

lemma slice_prefix_all [simp]: "length xs = n \<Longrightarrow> slice xs 0 n = Ok xs"
  by (simp add: slice_def)

lemma index0_Cons [simp]: "index0 (x # xs) = Ok x"
  by (simp add: index0_def)

lemma index0_Nil [simp]: "index0 [] = Panicked"
  by (simp add: index0_def)

text \<open>
  Buffers are built as a concatenation of fields of known length, and read with a growing
  offset: an offset past the first field is an offset into the rest.
\<close>

lemma slice_from_skip:
  "length xs = n \<Longrightarrow> n \<le> i \<Longrightarrow> slice_from (xs @ ys) i = slice_from ys (i - n)"
  by (auto simp: slice_from_def)

section \<open>Hash maps\<close>

text \<open>
  \<open>std::collections::HashMap\<close>: an association list with one entry per key. The order
  of the list stands for the iteration order, which Rust leaves unspecified; a theorem
  stated for every list therefore covers every order.
\<close>

type_synonym ('k, 'v) hash_map = "('k \<times> 'v) list"

definition hm_get :: "('k, 'v) hash_map \<Rightarrow> 'k \<Rightarrow> 'v option" where
  "hm_get m k = map_of m k"

definition hm_insert :: "'k \<Rightarrow> 'v \<Rightarrow> ('k, 'v) hash_map \<Rightarrow> ('k, 'v) hash_map" where
  "hm_insert k v m = AList.update k v m"

definition hm_remove :: "'k \<Rightarrow> ('k, 'v) hash_map \<Rightarrow> ('k, 'v) hash_map" where
  "hm_remove k m = AList.delete k m"

definition hm_contains :: "('k, 'v) hash_map \<Rightarrow> 'k \<Rightarrow> bool" where
  "hm_contains m k \<longleftrightarrow> hm_get m k \<noteq> None"

definition hm_keys :: "('k, 'v) hash_map \<Rightarrow> 'k list" where
  "hm_keys m = map fst m"

definition hm_values :: "('k, 'v) hash_map \<Rightarrow> 'v list" where
  "hm_values m = map snd m"

definition hm_len :: "('k, 'v) hash_map \<Rightarrow> nat" where
  "hm_len m = length m"

definition hm_wf :: "('k, 'v) hash_map \<Rightarrow> bool" where
  "hm_wf m \<longleftrightarrow> distinct (map fst m)"

text \<open>The contract of a map, and what clients may conclude from it.\<close>

locale key_value_map =
  fixes get :: "'m \<Rightarrow> 'k \<Rightarrow> 'v option"
    and insert_kv :: "'k \<Rightarrow> 'v \<Rightarrow> 'm \<Rightarrow> 'm"
    and remove :: "'k \<Rightarrow> 'm \<Rightarrow> 'm"
    and entries :: "'m \<Rightarrow> ('k \<times> 'v) list"
    and wf_map :: "'m \<Rightarrow> bool"
  assumes get_insert: "get (insert_kv k v m) k' = (if k' = k then Some v else get m k')"
    and get_remove: "get (remove k m) k' = (if k' = k then None else get m k')"
    and wf_insert: "wf_map m \<Longrightarrow> wf_map (insert_kv k v m)"
    and wf_remove: "wf_map m \<Longrightarrow> wf_map (remove k m)"
    and entries_get: "wf_map m \<Longrightarrow> (k, v) \<in> set (entries m) \<longleftrightarrow> get m k = Some v"
    and entries_distinct: "wf_map m \<Longrightarrow> distinct (map fst (entries m))"
begin

lemma get_insert_same: "get (insert_kv k v m) k = Some v"
  by (simp add: get_insert)

lemma get_insert_other: "k' \<noteq> k \<Longrightarrow> get (insert_kv k v m) k' = get m k'"
  by (simp add: get_insert)

lemma get_remove_same: "get (remove k m) k = None"
  by (simp add: get_remove)

lemma entries_keys: "wf_map m \<Longrightarrow> set (map fst (entries m)) = dom (get m)"
proof -
  assume wf: "wf_map m"
  have "k \<in> set (map fst (entries m)) \<longleftrightarrow> k \<in> dom (get m)" for k
    by (force simp: dom_def entries_get [OF wf, symmetric])
  then show ?thesis by blast
qed

lemma size_entries: "wf_map m \<Longrightarrow> length (entries m) = card (dom (get m))"
  by (metis entries_distinct entries_keys distinct_card length_map)

lemma finite_dom: "wf_map m \<Longrightarrow> finite (dom (get m))"
  by (metis entries_keys List.finite_set)

lemma dom_insert: "dom (get (insert_kv k v m)) = insert k (dom (get m))"
  by (auto simp: get_insert split: if_splits)

lemma dom_remove: "dom (get (remove k m)) = dom (get m) - {k}"
  by (auto simp: get_remove split: if_splits)

lemma size_insert:
  "wf_map m \<Longrightarrow> length (entries (insert_kv k v m)) =
     (if get m k = None then Suc (length (entries m)) else length (entries m))"
  by (simp add: size_entries wf_insert dom_insert finite_dom card_insert_if domIff)

lemma size_remove:
  "wf_map m \<Longrightarrow> length (entries (remove k m)) =
     (if get m k = None then length (entries m) else length (entries m) - 1)"
  by (simp add: size_entries wf_remove dom_remove finite_dom card_Diff_singleton_if domIff)

end

interpretation hm: key_value_map hm_get hm_insert hm_remove "\<lambda>m. m" hm_wf
proof unfold_locales
  fix k k' :: 'a and v :: 'b and m :: "('a, 'b) hash_map"
  show "hm_get (hm_insert k v m) k' = (if k' = k then Some v else hm_get m k')"
    by (simp add: hm_get_def hm_insert_def update_conv)
  show "hm_get (hm_remove k m) k' = (if k' = k then None else hm_get m k')"
    by (simp add: hm_get_def hm_remove_def delete_conv)
  show "hm_wf m \<Longrightarrow> hm_wf (hm_insert k v m)"
    by (simp add: hm_wf_def hm_insert_def distinct_update)
  show "hm_wf m \<Longrightarrow> hm_wf (hm_remove k m)"
    by (simp add: hm_wf_def hm_remove_def distinct_delete)
  show "hm_wf m \<Longrightarrow> (k, v) \<in> set m \<longleftrightarrow> hm_get m k = Some v"
    by (simp add: hm_wf_def hm_get_def)
  show "hm_wf m \<Longrightarrow> distinct (map fst m)"
    by (simp add: hm_wf_def)
qed

lemmas hm_get_simps [simp] = hm.get_insert_same hm.get_insert_other hm.get_remove_same

lemma hm_wf_Nil [simp]: "hm_wf []"
  by (simp add: hm_wf_def)

lemma hm_get_Nil [simp]: "hm_get [] k = None"
  by (simp add: hm_get_def)

lemma hm_len_insert:
  "hm_wf m \<Longrightarrow>
     hm_len (hm_insert k v m) = (if hm_contains m k then hm_len m else Suc (hm_len m))"
  by (simp add: hm_len_def hm_contains_def hm.size_insert)

lemma hm_len_remove:
  "hm_wf m \<Longrightarrow>
     hm_len (hm_remove k m) = (if hm_contains m k then hm_len m - 1 else hm_len m)"
  by (simp add: hm_len_def hm_contains_def hm.size_remove)

text \<open>The same without assuming one entry per key.\<close>

lemma hm_len_facts:
  "hm_len (hm_insert k v m) \<le> Suc (hm_len m)"
  "hm_get m k = Some x \<Longrightarrow> hm_len (hm_insert k v m) = hm_len m"
  "hm_get m k = Some x \<Longrightarrow> hm_len (hm_remove k m) < hm_len m"
proof -
  show "hm_len (hm_insert k v m) \<le> Suc (hm_len m)"
    by (induction m) (auto simp: hm_len_def hm_insert_def)
  show "hm_get m k = Some x \<Longrightarrow> hm_len (hm_insert k v m) = hm_len m"
    by (induction m) (auto simp: hm_len_def hm_insert_def hm_get_def split: if_splits)
  show "hm_get m k = Some x \<Longrightarrow> hm_len (hm_remove k m) < hm_len m"
    using length_filter_less [of "(k, x)" m "\<lambda>e. k \<noteq> fst e"] map_of_SomeD [of m k x]
    by (auto simp: hm_len_def hm_remove_def hm_get_def AList.delete_eq split_def comp_def)
qed

end
