(* ===== verification/F32.thy ===== *)
theory F32
  imports Prelude
begin

text \<open>
  The \<open>f32\<close> of the Rust code, as IEEE 754 binary32 bit patterns, executable. Limits,
  amounts and consumptions are \<open>f32\<close> everywhere in the program, and what the limit checks
  enforce depends on rounding, on NaN and on the comparison rules, so none of them is
  abstracted to a real number.

  Every finite \<open>f32\<close> is an integer multiple of \<open>2 ^ -149\<close>, so its value is kept as that
  integer. A sum is the exact integer sum, rounded to nearest, ties to even. Rust leaves the
  sign and payload of a NaN produced by arithmetic unspecified; the model returns the
  canonical quiet NaN, and no theorem depends on which NaN it is.
\<close>

section \<open>Bit patterns, classes, values\<close>

datatype f32 = F32 (f32_bits: u32)

definition sign_bit :: nat where "sign_bit = 2 ^ 31"
definition inf_mag :: nat where "inf_mag = 255 * 2 ^ 23"

definition f32_neg :: "f32 \<Rightarrow> bool" where
  "f32_neg x \<longleftrightarrow> sign_bit \<le> unat (f32_bits x)"

text \<open>The 31 bits below the sign: exponent and fraction.\<close>

definition f32_mag :: "f32 \<Rightarrow> nat" where
  "f32_mag x = unat (f32_bits x) mod sign_bit"

definition f32_make :: "bool \<Rightarrow> nat \<Rightarrow> f32" where
  "f32_make neg m = F32 (of_nat ((if neg then sign_bit else 0) + m))"

definition f32_is_nan :: "f32 \<Rightarrow> bool" where
  "f32_is_nan x \<longleftrightarrow> inf_mag < f32_mag x"

definition f32_is_inf :: "f32 \<Rightarrow> bool" where
  "f32_is_inf x \<longleftrightarrow> f32_mag x = inf_mag"

definition f32_is_finite :: "f32 \<Rightarrow> bool" where
  "f32_is_finite x \<longleftrightarrow> f32_mag x < inf_mag"

definition f32_nan :: f32 where "f32_nan = F32 0x7FC00000"

text \<open>The value of a magnitude, in units of \<open>2 ^ -149\<close>.\<close>

definition mag_val :: "nat \<Rightarrow> nat" where
  "mag_val m = (let e = m div 2 ^ 23; f = m mod 2 ^ 23
                in if e = 0 then f else (2 ^ 23 + f) * 2 ^ (e - 1))"

definition f32_val :: "f32 \<Rightarrow> int" where
  "f32_val x = (if f32_neg x then - int (mag_val (f32_mag x)) else int (mag_val (f32_mag x)))"

section \<open>Rounding\<close>

fun bit_len :: "nat \<Rightarrow> nat" where
  "bit_len n = (if n = 0 then 0 else Suc (bit_len (n div 2)))"

declare bit_len.simps [simp del]

text \<open>
  The magnitude nearest to the value \<open>v\<close> (units of \<open>2 ^ -149\<close>), ties to even: \<open>s\<close> low
  bits do not fit in the 24 bits of the significand. A carry out of the significand moves
  into the exponent by itself, and everything past the largest finite value is infinity.
\<close>

definition mag_round :: "nat \<Rightarrow> nat" where
  "mag_round v =
     (let s = bit_len v - 24; q = v div 2 ^ s; r = v mod 2 ^ s;
          up = (2 ^ s < 2 * r \<or> (2 * r = 2 ^ s \<and> odd q))
      in min inf_mag (s * 2 ^ 23 + q + (if up then 1 else 0)))"

definition f32_of_val :: "int \<Rightarrow> f32" where
  "f32_of_val v = f32_make (v < 0) (mag_round (nat \<bar>v\<bar>))"

section \<open>The operations the program uses\<close>

text \<open>\<open>x + y\<close>.\<close>

definition f32_add :: "f32 \<Rightarrow> f32 \<Rightarrow> f32" where
  "f32_add x y =
     (if f32_is_nan x \<or> f32_is_nan y then f32_nan
      else if f32_is_inf x then
        (if f32_is_inf y \<and> f32_neg x \<noteq> f32_neg y then f32_nan else x)
      else if f32_is_inf y then y
      else let s = f32_val x + f32_val y
           in if s = 0 then f32_make (f32_neg x \<and> f32_neg y) 0 else f32_of_val s)"

text \<open>
  Comparisons read sign and magnitude: magnitudes are ordered as their values are, the two
  zeros are equal, and nothing compares with a NaN.
\<close>

definition f32_key :: "f32 \<Rightarrow> int" where
  "f32_key x = (if f32_neg x then - int (f32_mag x) else int (f32_mag x))"

definition f32_lt :: "f32 \<Rightarrow> f32 \<Rightarrow> bool" where
  "f32_lt x y \<longleftrightarrow> \<not> f32_is_nan x \<and> \<not> f32_is_nan y \<and> f32_key x < f32_key y"

definition f32_le :: "f32 \<Rightarrow> f32 \<Rightarrow> bool" where
  "f32_le x y \<longleftrightarrow> \<not> f32_is_nan x \<and> \<not> f32_is_nan y \<and> f32_key x \<le> f32_key y"

definition f32_eq :: "f32 \<Rightarrow> f32 \<Rightarrow> bool" where
  "f32_eq x y \<longleftrightarrow> \<not> f32_is_nan x \<and> \<not> f32_is_nan y \<and> f32_key x = f32_key y"

definition f32_uminus :: "f32 \<Rightarrow> f32" where
  "f32_uminus x = f32_make (\<not> f32_neg x) (f32_mag x)"

text \<open>
  The arithmetic classes give these operations the source's operators: \<open>consumed + amount\<close>
  and \<open>limit < total\<close> below are the IEEE operations, with no algebraic law attached.
\<close>

instantiation f32 :: "{zero, plus, uminus, ord}"
begin

definition zero_f32 :: f32 where "0 = F32 0"
definition plus_f32 :: "f32 \<Rightarrow> f32 \<Rightarrow> f32" where "x + y = f32_add x y"
definition uminus_f32 :: "f32 \<Rightarrow> f32" where "- x = f32_uminus x"
definition less_f32 :: "f32 \<Rightarrow> f32 \<Rightarrow> bool" where "x < y \<longleftrightarrow> f32_lt x y"
definition less_eq_f32 :: "f32 \<Rightarrow> f32 \<Rightarrow> bool" where "x \<le> y \<longleftrightarrow> f32_le x y"

instance ..

end

text \<open>\<open>iter().sum::<f32>()\<close> adds from the left, starting at \<open>-0.0\<close>.\<close>

definition f32_sum :: "f32 list \<Rightarrow> f32" where
  "f32_sum xs = foldl (+) (F32 0x80000000) xs"

text \<open>
  \<open>n as f32\<close>, \<open>x / 2f32\<close>, and \<open>x.round() as usize\<close> (\<open>round\<close> takes halves away from
  zero, the cast saturates and sends NaN to 0).
\<close>

definition f32_one :: f32 where "f32_one = F32 0x3F800000"

definition f32_of_usize :: "nat \<Rightarrow> f32" where
  "f32_of_usize n = f32_of_val (int n * 2 ^ 149)"

definition mag_half :: "nat \<Rightarrow> nat" where
  "mag_half v = (if even v then v div 2 else v div 2 + (v div 2) mod 2)"

definition f32_half :: "f32 \<Rightarrow> f32" where
  "f32_half x = (if f32_is_finite x
     then f32_make (f32_neg x) (mag_round (mag_half (mag_val (f32_mag x)))) else x)"

definition f32_round_to_usize :: "f32 \<Rightarrow> nat" where
  "f32_round_to_usize x =
     (if f32_is_nan x \<or> f32_neg x then 0
      else if f32_is_inf x then 2 ^ 64 - 1
      else min (2 ^ 64 - 1) ((2 * mag_val (f32_mag x) + 2 ^ 149) div 2 ^ 150))"


section \<open>Laws\<close>

subsection \<open>Fields of a bit pattern\<close>

lemma unat_of_nat_u32: "n < 2 ^ 32 \<Longrightarrow> unat (of_nat n :: u32) = n"
  by (simp add: unat_of_nat)

lemma f32_make_fields:
  assumes "m < sign_bit"
  shows "f32_mag (f32_make b m) = m" and "f32_neg (f32_make b m) = b"
proof -
  have "(if b then sign_bit else 0) + m < 2 ^ 32"
    using assms by (simp add: sign_bit_def)
  then have "unat (f32_bits (f32_make b m)) = (if b then sign_bit else 0) + m"
    by (simp only: f32_make_def f32.sel unat_of_nat_u32)
  with assms show "f32_mag (f32_make b m) = m" and "f32_neg (f32_make b m) = b"
    by (simp_all add: f32_mag_def f32_neg_def split: if_splits)
qed

lemma inf_mag_lt: "m \<le> inf_mag \<Longrightarrow> m < sign_bit"
  by (simp add: inf_mag_def sign_bit_def)

lemma f32_make_collapse: "f32_make (f32_neg x) (f32_mag x) = x"
proof -
  have "unat (f32_bits x) < 2 * sign_bit"
    using unsigned_less [of "f32_bits x", where ?'a = nat] by (simp add: sign_bit_def)
  then have "(if f32_neg x then sign_bit else 0) + f32_mag x = unat (f32_bits x)"
    by (auto simp: f32_neg_def f32_mag_def le_mod_geq)
  then have "f32_make (f32_neg x) (f32_mag x) = F32 (of_nat (unat (f32_bits x)))"
    by (simp only: f32_make_def)
  then show ?thesis by simp
qed

lemma f32_eqI:
  assumes "f32_neg x = f32_neg y" and "f32_mag x = f32_mag y"
  shows "x = y"
proof -
  have "x = f32_make (f32_neg x) (f32_mag x)" by (simp only: f32_make_collapse)
  also have "\<dots> = f32_make (f32_neg y) (f32_mag y)" by (simp only: assms)
  also have "\<dots> = y" by (rule f32_make_collapse)
  finally show ?thesis .
qed

lemma f32_make_class:
  "m \<le> inf_mag \<Longrightarrow> \<not> f32_is_nan (f32_make b m)"
  "m \<le> inf_mag \<Longrightarrow> f32_is_inf (f32_make b m) \<longleftrightarrow> m = inf_mag"
  by (simp_all add: f32_is_nan_def f32_is_inf_def f32_make_fields inf_mag_lt)

lemma f32_classes: "f32_is_nan x \<or> f32_is_inf x \<or> f32_is_finite x"
  by (auto simp: f32_is_nan_def f32_is_inf_def f32_is_finite_def)

lemma f32_nan_is_nan [simp]: "f32_is_nan f32_nan"
  by (simp add: f32_is_nan_def f32_nan_def f32_mag_def inf_mag_def sign_bit_def)

lemma f32_zero_fields [simp]:
  "f32_mag 0 = 0" "\<not> f32_neg 0" "\<not> f32_is_nan 0" "\<not> f32_is_inf 0" "f32_is_finite 0"
  by (simp_all add: zero_f32_def f32_mag_def f32_neg_def f32_is_nan_def f32_is_inf_def
      f32_is_finite_def sign_bit_def inf_mag_def)

subsection \<open>Bit length\<close>

lemma bit_len_bounds: "0 < n \<Longrightarrow> 2 ^ (bit_len n - 1) \<le> n \<and> n < 2 ^ bit_len n"
proof (induction n rule: bit_len.induct)
  case (1 n)
  show ?case
  proof (cases "n div 2 = 0")
    case True
    with "1.prems" have "n = 1" by auto
    then show ?thesis by (simp add: bit_len.simps)
  next
    case False
    then have IH: "2 ^ (bit_len (n div 2) - 1) \<le> n div 2" "n div 2 < 2 ^ bit_len (n div 2)"
      using 1 by auto
    have pos: "0 < bit_len (n div 2)"
      using False by (simp add: bit_len.simps [of "n div 2"])
    have eq: "bit_len n = Suc (bit_len (n div 2))"
      using "1.prems" by (simp add: bit_len.simps [of n])
    obtain k where k: "bit_len (n div 2) = Suc k"
      using pos by (cases "bit_len (n div 2)") auto
    from IH k have "2 * 2 ^ k \<le> n \<and> n < 4 * 2 ^ k" by auto
    with eq k show ?thesis by simp
  qed
qed

lemma bit_len_0 [simp]: "bit_len 0 = 0"
  by (simp add: bit_len.simps)

lemma bit_len_unique:
  assumes "2 ^ k \<le> n" and "n < 2 ^ Suc k"
  shows "bit_len n = Suc k"
proof -
  have n: "0 < n" using assms(1) by (metis zero_less_numeral zero_less_power order_less_le_trans)
  note b = bit_len_bounds [OF n]
  have "k < bit_len n"
    using b assms(1) by (meson order_le_less_trans power_less_imp_less_exp one_less_numeral_iff semiring_norm(76))
  moreover have "bit_len n - 1 < Suc k"
    using b assms(2) by (meson order_le_less_trans power_less_imp_less_exp one_less_numeral_iff semiring_norm(76))
  ultimately show ?thesis by simp
qed

lemma bit_len_mono: "m \<le> n \<Longrightarrow> bit_len m \<le> bit_len n"
proof (cases "m = 0")
  case False
  assume le: "m \<le> n"
  have "2 ^ (bit_len m - 1) < (2::nat) ^ bit_len n"
    using bit_len_bounds [of m] bit_len_bounds [of n] False le
    by (meson bot_nat_0.not_eq_extremum le_less_trans less_le_trans le_trans)
  then have "bit_len m - 1 < bit_len n" by (rule power_less_imp_less_exp [rotated]) simp
  moreover have "0 < bit_len m" using False by (simp add: bit_len.simps)
  ultimately show ?thesis by simp
qed simp

lemma bit_len_small: "n < 2 ^ k \<Longrightarrow> bit_len n \<le> k"
proof (cases "n = 0")
  case False
  assume "n < 2 ^ k"
  then have "2 ^ (bit_len n - 1) < (2::nat) ^ k"
    using bit_len_bounds [of n] False by (meson bot_nat_0.not_eq_extremum le_less_trans)
  then have "bit_len n - 1 < k" by (rule power_less_imp_less_exp [rotated]) simp
  then show ?thesis by simp
qed simp

subsection \<open>Magnitudes and their values\<close>

lemma mag_val_fields:
  "f < 2 ^ 23 \<Longrightarrow> mag_val (e * 2 ^ 23 + f) = (if e = 0 then f else (2 ^ 23 + f) * 2 ^ (e - 1))"
  by (simp add: mag_val_def Let_def)

lemma mag_fields: obtains e f where "m = e * 2 ^ 23 + f" and "f < (2::nat) ^ 23"
  using that [of "m div 2 ^ 23" "m mod 2 ^ 23"] by simp

lemma mag_val_Suc: "mag_val m < mag_val (Suc m)"
proof -
  obtain e f where m: "m = e * 2 ^ 23 + f" and f: "f < (2::nat) ^ 23"
    by (rule mag_fields)
  show ?thesis
  proof (cases "Suc f < 2 ^ 23")
    case True
    then have "mag_val (e * 2 ^ 23 + Suc f) =
        (if e = 0 then Suc f else (2 ^ 23 + Suc f) * 2 ^ (e - 1))"
      by (rule mag_val_fields)
    with m mag_val_fields [OF f, of e] show ?thesis by auto
  next
    case False
    with f have ff: "f = 2 ^ 23 - 1" by simp
    then have S: "Suc m = Suc e * 2 ^ 23 + 0" using m by simp
    have "mag_val (Suc m) = 2 ^ 23 * 2 ^ e"
      unfolding S by (subst mag_val_fields) simp_all
    moreover have "mag_val m = (if e = 0 then f else (2 ^ 23 + f) * 2 ^ (e - 1))"
      unfolding m by (rule mag_val_fields [OF f])
    ultimately show ?thesis using ff by (cases e) auto
  qed
qed

lemma mag_val_less: "m < n \<longleftrightarrow> mag_val m < mag_val n"
  by (metis lift_Suc_mono_less mag_val_Suc linorder_neqE_nat order_less_asym order_less_irrefl)

lemma mag_val_le: "m \<le> n \<longleftrightarrow> mag_val m \<le> mag_val n"
  by (meson mag_val_less linorder_not_less)

lemma mag_val_0 [simp]: "mag_val 0 = 0"
  by (simp add: mag_val_def)

lemma mag_val_eq_0 [simp]: "mag_val m = 0 \<longleftrightarrow> m = 0"
  using mag_val_less [of 0 m] by auto

subsection \<open>Rounding\<close>

definition rne :: "nat \<Rightarrow> nat \<Rightarrow> nat" where
  "rne v s = v div 2 ^ s +
     (if 2 ^ s < 2 * (v mod 2 ^ s) \<or> (2 * (v mod 2 ^ s) = 2 ^ s \<and> odd (v div 2 ^ s))
      then 1 else 0)"

lemma mag_round_rne:
  "mag_round v = min inf_mag ((bit_len v - 24) * 2 ^ 23 + rne v (bit_len v - 24))"
  by (simp add: mag_round_def rne_def Let_def add.assoc)

lemma mag_round_le: "mag_round v \<le> inf_mag"
  by (simp add: mag_round_rne)

lemma rne_bounds: "v div 2 ^ s \<le> rne v s" "rne v s \<le> Suc (v div 2 ^ s)"
  by (simp_all add: rne_def)

lemma rne_mono:
  assumes "v \<le> w" shows "rne v s \<le> rne w s"
proof (cases "v div 2 ^ s = w div 2 ^ s")
  case True
  have "v mod 2 ^ s \<le> w mod 2 ^ s"
    using assms True by (metis add_le_cancel_left mult_div_mod_eq)
  then show ?thesis using True by (auto simp: rne_def)
next
  case False
  with assms have "v div 2 ^ s < w div 2 ^ s"
    by (simp add: div_le_mono order_le_neq_trans)
  then show ?thesis using rne_bounds [of v s] rne_bounds [of w s] by linarith
qed

lemma rne_exact: "rne (q * 2 ^ s) s = q"
  by (simp add: rne_def)

lemma quotient_bounds:
  assumes "0 < bit_len v - 24"
  shows "2 ^ 23 \<le> v div 2 ^ (bit_len v - 24)"
proof -
  let ?s = "bit_len v - 24"
  have "v \<noteq> 0" using assms by (cases "v = 0") auto
  then have "2 ^ (bit_len v - 1) \<le> v" using bit_len_bounds [of v] by simp
  moreover have "bit_len v - 1 = 23 + ?s" using assms by simp
  ultimately have "2 ^ 23 * 2 ^ ?s \<le> v" by (simp only: power_add)
  then have "2 ^ 23 * 2 ^ ?s div 2 ^ ?s \<le> v div 2 ^ ?s" by (rule div_le_mono)
  then show ?thesis by simp
qed

lemma quotient_upper: "v div 2 ^ (bit_len v - 24) < 2 ^ 24"
proof -
  let ?s = "bit_len v - 24"
  have "v < 2 ^ bit_len v" using bit_len_bounds [of v] by (cases "v = 0") auto
  also have "(2::nat) ^ bit_len v \<le> 2 ^ (24 + ?s)" by (rule power_increasing) simp_all
  finally have "v < 2 ^ 24 * 2 ^ ?s" by (simp add: power_add)
  then show ?thesis by (simp add: less_mult_imp_div_less)
qed

lemma mag_round_mono:
  assumes "v \<le> w" shows "mag_round v \<le> mag_round w"
proof -
  let ?s = "bit_len v - 24" and ?t = "bit_len w - 24"
  have st: "?s \<le> ?t" using bit_len_mono [OF assms] by simp
  have "?s * 2 ^ 23 + rne v ?s \<le> ?t * 2 ^ 23 + rne w ?t"
  proof (cases "?s = ?t")
    case True
    with rne_mono [OF assms] show ?thesis by simp
  next
    case False
    with st have lt: "?s < ?t" by simp
    then have "2 ^ 23 \<le> rne w ?t"
      using quotient_bounds [of w] rne_bounds [of w ?t] by linarith
    moreover have "rne v ?s \<le> 2 ^ 24"
      using quotient_upper [of v] rne_bounds [of v ?s] by linarith
    moreover have "Suc ?s * 2 ^ 23 \<le> ?t * 2 ^ 23"
      using lt by (metis Suc_leI mult_le_mono1)
    ultimately show ?thesis by simp
  qed
  then show ?thesis by (auto simp: mag_round_rne)
qed

text \<open>Rounding returns a value that is already representable.\<close>

lemma bit_len_shift:
  assumes "f < (2::nat) ^ 23" shows "bit_len ((2 ^ 23 + f) * 2 ^ k) = 24 + k"
proof -
  have "(2::nat) ^ (23 + k) \<le> (2 ^ 23 + f) * 2 ^ k" by (simp add: power_add)
  moreover have "(2 ^ 23 + f) * 2 ^ k < (2::nat) ^ 24 * 2 ^ k" using assms by simp
  then have "(2 ^ 23 + f) * 2 ^ k < (2::nat) ^ Suc (23 + k)" by (simp add: power_add)
  ultimately have "bit_len ((2 ^ 23 + f) * 2 ^ k) = Suc (23 + k)" by (rule bit_len_unique)
  then show ?thesis by simp
qed

lemma mag_round_val:
  assumes "m \<le> inf_mag" shows "mag_round (mag_val m) = m"
proof -
  obtain e f where m: "m = e * 2 ^ 23 + f" and f: "f < (2::nat) ^ 23"
    by (rule mag_fields)
  have v: "mag_val m = (if e = 0 then f else (2 ^ 23 + f) * 2 ^ (e - 1))"
    unfolding m by (rule mag_val_fields [OF f])
  show ?thesis
  proof (cases "e = 0")
    case True
    then have "bit_len (mag_val m) \<le> 23" using bit_len_small [OF f] v by simp
    with True v m assms show ?thesis by (simp add: mag_round_rne rne_def)
  next
    case False
    then have b: "bit_len (mag_val m) - 24 = e - 1" using v bit_len_shift [OF f] by simp
    have "rne (mag_val m) (e - 1) = 2 ^ 23 + f" using v False rne_exact by simp
    moreover have "(e - 1) * 2 ^ 23 + (2 ^ 23 + f) = m"
      using False m by (cases e) simp_all
    ultimately show ?thesis using b assms by (simp add: mag_round_rne)
  qed
qed

lemma mag_val_round:
  assumes "v = k * 2 ^ j" and "k < 2 ^ 24" and "v < 2 ^ 277"
  shows "mag_val (mag_round v) = v" and "mag_round v < inf_mag"
proof -
  have "\<exists>m < inf_mag. mag_val m = v"
  proof (cases "bit_len v \<le> 24")
    case True
    then have "v < 2 ^ 24"
      using bit_len_bounds [of v] power_increasing [of "bit_len v" 24 "2::nat"]
      by (cases "v = 0") auto
    then have "mag_val v = v"
      using mag_val_fields [of v 0] mag_val_fields [of "v - 2 ^ 23" 1] by (cases "v < 2 ^ 23") auto
    then show ?thesis using \<open>v < 2 ^ 24\<close> by (auto intro!: exI [of _ v] simp: inf_mag_def)
  next
    case False
    let ?s = "bit_len v - 24"
    have "v < 2 ^ (24 + j)" using assms(1,2) by (simp add: power_add)
    then have "bit_len v \<le> 24 + j" by (rule bit_len_small)
    then have "(2::nat) ^ ?s dvd v" using assms(1) by (simp add: le_imp_power_dvd)
    then obtain q where q: "v = q * 2 ^ ?s" by (metis dvd_def mult.commute)
    then have qq: "v div 2 ^ ?s = q"
      by (metis nonzero_mult_div_cancel_right power_not_zero zero_neq_numeral)
    then have "2 ^ 23 \<le> q" "q < 2 ^ 24"
      using quotient_bounds [of v] quotient_upper [of v] False unfolding qq by simp_all
    then obtain f where f: "q = 2 ^ 23 + f" "f < 2 ^ 23"
      by (auto dest: le_Suc_ex)
    have "bit_len v \<le> 277" using assms(3) by (rule bit_len_small)
    then have s: "?s \<le> 253" by simp
    have "mag_val (Suc ?s * 2 ^ 23 + f) = v"
      using mag_val_fields [OF f(2), of "Suc ?s"] f(1) q by simp
    moreover have "Suc ?s * 2 ^ 23 + f < inf_mag"
    proof -
      have "Suc ?s * 2 ^ 23 \<le> 254 * 2 ^ 23" using s by simp
      then show ?thesis using f(2) by (simp add: inf_mag_def)
    qed
    ultimately show ?thesis by blast
  qed
  then obtain m where m: "m < inf_mag" "mag_val m = v" by blast
  then have "mag_round v = m" using mag_round_val [of m] by simp
  with m show "mag_val (mag_round v) = v" and "mag_round v < inf_mag" by simp_all
qed

subsection \<open>Comparison and addition\<close>

lemma f32_less_iff: "x < y \<longleftrightarrow> \<not> f32_is_nan x \<and> \<not> f32_is_nan y \<and> f32_key x < f32_key y"
  by (simp add: less_f32_def f32_lt_def)

lemma f32_less_eq_iff:
  "x \<le> y \<longleftrightarrow> \<not> f32_is_nan x \<and> \<not> f32_is_nan y \<and> f32_key x \<le> f32_key y"
  by (simp add: less_eq_f32_def f32_le_def)

lemma f32_not_less:
  "\<not> f32_is_nan x \<Longrightarrow> \<not> f32_is_nan y \<Longrightarrow> \<not> (y < x) \<longleftrightarrow> x \<le> (y::f32)"
  by (simp add: f32_less_iff f32_less_eq_iff linorder_not_less)

lemma f32_le_refl: "\<not> f32_is_nan x \<Longrightarrow> x \<le> (x::f32)"
  by (simp add: f32_less_eq_iff)

lemma f32_le_trans: "x \<le> y \<Longrightarrow> y \<le> z \<Longrightarrow> x \<le> (z::f32)"
  by (simp add: f32_less_eq_iff)

lemma f32_key_val: "f32_key x < f32_key y \<longleftrightarrow> f32_val x < f32_val y"
  using mag_val_less [of "f32_mag x" "f32_mag y"] mag_val_less [of "f32_mag y" "f32_mag x"]
    mag_val_less [of 0 "f32_mag x"] mag_val_less [of 0 "f32_mag y"]
  by (auto simp: f32_key_def f32_val_def)

lemma f32_key_val_le: "f32_key x \<le> f32_key y \<longleftrightarrow> f32_val x \<le> f32_val y"
  using f32_key_val [of y x] by (simp add: linorder_not_less [symmetric])

text \<open>The key of the rounded value, as a function of the exact value.\<close>

definition round_key :: "int \<Rightarrow> int" where
  "round_key v = (if v < 0 then - int (mag_round (nat \<bar>v\<bar>)) else int (mag_round (nat \<bar>v\<bar>)))"

lemma round_key_mono: "v \<le> w \<Longrightarrow> round_key v \<le> round_key w"
  unfolding round_key_def
  using mag_round_mono [of "nat \<bar>v\<bar>" "nat \<bar>w\<bar>"] mag_round_mono [of "nat \<bar>w\<bar>" "nat \<bar>v\<bar>"]
  by (auto split: if_splits)

lemma f32_key_of_val: "f32_key (f32_of_val v) = round_key v"
proof -
  have "mag_round n < sign_bit" for n by (rule inf_mag_lt [OF mag_round_le])
  then show ?thesis
    by (simp add: f32_key_def f32_of_val_def round_key_def f32_make_fields)
qed

lemma f32_of_val_not_nan [simp]: "\<not> f32_is_nan (f32_of_val v)"
  by (simp add: f32_of_val_def f32_make_class mag_round_le)

lemma round_key_0 [simp]: "round_key 0 = 0"
  using mag_round_val [of 0] by (simp add: round_key_def)

lemma round_key_val: "f32_mag x \<le> inf_mag \<Longrightarrow> round_key (f32_val x) = f32_key x"
  using mag_round_val [of "f32_mag x"]
  by (auto simp: round_key_def f32_val_def f32_key_def)

lemma f32_add_finite:
  assumes "f32_is_finite x" and "f32_is_finite y"
  shows "\<not> f32_is_nan (x + y)" and "f32_key (x + y) = round_key (f32_val x + f32_val y)"
proof -
  have n: "\<not> f32_is_nan x" "\<not> f32_is_nan y" "\<not> f32_is_inf x" "\<not> f32_is_inf y"
    using assms by (simp_all add: f32_is_finite_def f32_is_nan_def f32_is_inf_def)
  have z: "\<not> f32_is_nan (f32_make b 0)" "f32_key (f32_make b 0) = 0" for b
    by (simp_all add: f32_make_class f32_key_def f32_make_fields sign_bit_def)
  show "\<not> f32_is_nan (x + y)"
    using n z by (simp add: plus_f32_def f32_add_def Let_def)
  show "f32_key (x + y) = round_key (f32_val x + f32_val y)"
    using n z by (simp add: plus_f32_def f32_add_def Let_def f32_key_of_val)
qed

lemma f32_add_comm: "x + y = y + (x :: f32)"
proof -
  have "f32_add x y = f32_add y x"
  proof (cases "f32_is_inf x \<and> f32_is_inf y \<and> f32_neg x = f32_neg y")
    case True
    then have "x = y" by (auto intro: f32_eqI simp: f32_is_inf_def)
    then show ?thesis by simp
  next
    case False
    then show ?thesis by (auto simp: f32_add_def Let_def add.commute conj_commute)
  qed
  then show ?thesis by (simp add: plus_f32_def)
qed

lemma f32_add_nan: "f32_is_nan x \<or> f32_is_nan y \<Longrightarrow> f32_is_nan (x + y)"
  by (auto simp: plus_f32_def f32_add_def)

lemma f32_key_bounds: "\<not> f32_is_nan x \<Longrightarrow> \<bar>f32_key x\<bar> \<le> int inf_mag"
  by (auto simp: f32_key_def f32_is_nan_def)

lemma f32_inf_key: "f32_is_inf x \<Longrightarrow> f32_key x = (if f32_neg x then - int inf_mag else int inf_mag)"
  by (simp add: f32_key_def f32_is_inf_def)

lemma f32_add_inf:
  assumes "f32_is_inf x" and "\<not> f32_is_nan y" and "\<not> f32_is_nan (x + y)"
  shows "x + y = x"
proof -
  have "\<not> f32_is_nan x" using assms(1) by (simp add: f32_is_inf_def f32_is_nan_def)
  then show ?thesis
    using assms by (auto simp: plus_f32_def f32_add_def split: if_splits)
qed

text \<open>Addition is monotone, in spite of rounding, wherever it is not a NaN.\<close>

lemma f32_add_mono:
  assumes le: "y \<le> z" and ny: "\<not> f32_is_nan (x + y)" and nz: "\<not> f32_is_nan (x + z)"
  shows "x + y \<le> x + (z :: f32)"
proof -
  have nan: "\<not> f32_is_nan x" "\<not> f32_is_nan y" "\<not> f32_is_nan z"
    using ny nz f32_add_nan by auto
  consider (inf) "f32_is_inf x" | (fin) "f32_is_finite x" "f32_is_finite y" "f32_is_finite z"
    | (yi) "\<not> f32_is_inf x" "f32_is_inf y" | (zi) "\<not> f32_is_inf x" "f32_is_inf z"
    using f32_classes nan by blast
  then show ?thesis
  proof cases
    case inf
    then show ?thesis using f32_add_inf nan ny nz f32_le_refl by metis
  next
    case fin
    then have "f32_val y \<le> f32_val z" using le by (simp add: f32_less_eq_iff f32_key_val_le)
    then show ?thesis
      using fin ny nz by (simp add: f32_less_eq_iff f32_add_finite round_key_mono)
  next
    case yi
    then have "x + y = y" using f32_add_inf [of y x] nan ny by (simp add: f32_add_comm)
    moreover have "f32_key z = f32_key y \<or> f32_neg y"
      using yi(2) le f32_key_bounds [OF nan(3)] by (auto simp: f32_less_eq_iff f32_inf_key)
    moreover have "f32_key z = f32_key y \<Longrightarrow> f32_key (x + z) = f32_key z"
      using yi nan nz f32_add_inf [of z x] by (auto simp: f32_add_comm f32_key_def f32_is_inf_def inf_mag_def split: if_splits)
    moreover have "f32_neg y \<Longrightarrow> f32_key y \<le> f32_key (x + z)"
      using yi(2) f32_key_bounds [OF nz] by (simp add: f32_inf_key)
    ultimately show ?thesis using ny nz by (auto simp: f32_less_eq_iff)
  next
    case zi
    then have "x + z = z" using f32_add_inf [of z x] nan nz by (simp add: f32_add_comm)
    moreover have "f32_key y = f32_key z \<or> \<not> f32_neg z"
      using zi(2) le f32_key_bounds [OF nan(2)] by (auto simp: f32_less_eq_iff f32_inf_key)
    moreover have "f32_key y = f32_key z \<Longrightarrow> f32_key (x + y) = f32_key y"
      using zi nan ny f32_add_inf [of y x] by (auto simp: f32_add_comm f32_key_def f32_is_inf_def inf_mag_def split: if_splits)
    moreover have "\<not> f32_neg z \<Longrightarrow> f32_key (x + y) \<le> f32_key z"
      using zi(2) f32_key_bounds [OF ny] by (simp add: f32_inf_key)
    ultimately show ?thesis using ny nz by (auto simp: f32_less_eq_iff)
  qed
qed

lemma f32_add_0_key: "\<not> f32_is_nan x \<Longrightarrow> \<not> f32_is_nan (x + 0) \<and> f32_key (x + 0) = f32_key x"
proof (cases "f32_is_inf x")
  case True
  assume "\<not> f32_is_nan x"
  then show ?thesis using True by (simp add: plus_f32_def f32_add_def)
next
  case False
  assume "\<not> f32_is_nan x"
  then have "f32_is_finite x" using False f32_classes by blast
  then show ?thesis
    using f32_add_finite [of x 0] round_key_val [of x]
    by (simp add: f32_is_finite_def f32_val_def [of 0])
qed

text \<open>Adding a charge that is not negative never lowers a consumption.\<close>

lemma f32_add_increases:
  assumes "0 \<le> y" and "\<not> f32_is_nan (x + y)"
  shows "x \<le> x + (y :: f32)"
proof -
  have nx: "\<not> f32_is_nan x" using assms(2) f32_add_nan by auto
  note z = f32_add_0_key [OF nx]
  have "x + 0 \<le> x + y"
    using f32_add_mono [OF assms(1)] z assms(2) by blast
  then show ?thesis using z nx by (simp add: f32_less_eq_iff)
qed

lemma f32_nonneg_inf: "0 \<le> x \<Longrightarrow> f32_is_inf x \<Longrightarrow> \<not> f32_neg x"
  by (auto simp: f32_less_eq_iff f32_inf_key f32_key_def [of 0] inf_mag_def)

lemma f32_add_nonneg:
  assumes "0 \<le> x" and "0 \<le> (y :: f32)"
  shows "\<not> f32_is_nan (x + y)" and "x \<le> x + y" and "0 \<le> x + y"
proof -
  have n: "\<not> f32_is_nan x" "\<not> f32_is_nan y" using assms by (simp_all add: f32_less_eq_iff)
  show nan: "\<not> f32_is_nan (x + y)"
  proof (cases "f32_is_inf x \<or> f32_is_inf y")
    case True
    then show ?thesis
      using n f32_nonneg_inf [OF assms(1)] f32_nonneg_inf [OF assms(2)]
      by (auto simp: plus_f32_def f32_add_def)
  next
    case False
    then show ?thesis using n f32_classes f32_add_finite by blast
  qed
  show le: "x \<le> x + y" by (rule f32_add_increases [OF assms(2) nan])
  show "0 \<le> x + y" by (rule f32_le_trans [OF assms(1) le])
qed

subsection \<open>Exact integers\<close>

lemma f32_of_val_exact:
  assumes "n = k * 2 ^ j" and "k < 2 ^ 24" and "n < 2 ^ 277"
  shows "f32_val (f32_of_val (int n)) = int n" and "f32_is_finite (f32_of_val (int n))"
    and "\<not> f32_neg (f32_of_val (int n))" and "mag_val (f32_mag (f32_of_val (int n))) = n"
proof -
  note m = mag_val_round [OF assms]
  have s: "mag_round n < sign_bit" using m(2) by (intro inf_mag_lt) simp
  have f: "f32_of_val (int n) = f32_make False (mag_round n)" by (simp add: f32_of_val_def)
  from s m show "f32_val (f32_of_val (int n)) = int n" "f32_is_finite (f32_of_val (int n))"
    "\<not> f32_neg (f32_of_val (int n))" "mag_val (f32_mag (f32_of_val (int n))) = n"
    by (simp_all add: f f32_val_def f32_is_finite_def f32_make_fields)
qed

lemma f32_minus_one:
  "f32_neg (- f32_one)" "f32_is_finite (- f32_one)" "f32_val (- f32_one) = - (2 ^ 149)"
proof -
  have b: "- f32_one = F32 0xBF800000"
    by (simp add: uminus_f32_def f32_uminus_def f32_one_def f32_neg_def f32_mag_def f32_make_def
        sign_bit_def)
  show "f32_neg (- f32_one)" "f32_is_finite (- f32_one)" "f32_val (- f32_one) = - (2 ^ 149)"
    by (simp_all add: b f32_neg_def f32_is_finite_def f32_mag_def f32_val_def mag_val_def
        sign_bit_def inf_mag_def Let_def)
qed

text \<open>\<open>((n as f32 - 1f32) / 2f32).round() as usize\<close> is \<open>n / 2\<close> for the sizes that fit.\<close>

lemma f32_half_round:
  assumes "0 < n" and "n < 2 ^ 24"
  shows "f32_round_to_usize (f32_half (f32_of_usize n + - f32_one)) = n div 2"
proof -
  obtain k where n: "n = Suc k" using assms(1) by (cases n) auto
  let ?x = "f32_of_usize n"
  have "n * 2 ^ 149 < 2 ^ 24 * (2::nat) ^ 149" using assms(2) by simp
  also have "\<dots> \<le> 2 ^ 277" by simp
  finally have lt: "n * 2 ^ 149 < (2::nat) ^ 277" .
  have x: "f32_val ?x = int (n * 2 ^ 149)" "f32_is_finite ?x" "\<not> f32_neg ?x"
    using f32_of_val_exact [OF refl assms(2) lt] by (simp_all add: f32_of_usize_def)
  have fin: "\<not> f32_is_nan y" "\<not> f32_is_inf y" if "f32_is_finite y" for y
    using that by (simp_all add: f32_is_finite_def f32_is_nan_def f32_is_inf_def)
  have sum: "f32_val ?x + f32_val (- f32_one) = int (k * 2 ^ 149)"
  proof -
    have "f32_val ?x + f32_val (- f32_one) = int (n * 2 ^ 149) + - (2 ^ 149)"
      by (simp only: x f32_minus_one)
    also have "\<dots> = int (k * 2 ^ 149)" by (simp add: n algebra_simps)
    finally show ?thesis .
  qed
  have "k < 2 ^ 24" using assms(2) n by simp
  have lt': "k * 2 ^ 149 < (2::nat) ^ 277" using lt n by simp
  let ?y = "?x + - f32_one"
  have y: "f32_is_finite ?y" "\<not> f32_neg ?y" "mag_val (f32_mag ?y) = k * 2 ^ 149"
  proof -
    have add: "?y = (if k = 0 then f32_make False 0 else f32_of_val (int (k * 2 ^ 149)))"
      using fin [OF x(2)] fin [OF f32_minus_one(2)] x(3)
      by (simp add: plus_f32_def f32_add_def sum Let_def del: of_nat_mult)
    have z: "0 < sign_bit" "0 < inf_mag" by (simp_all add: sign_bit_def inf_mag_def)
    show "f32_is_finite ?y" "\<not> f32_neg ?y" "mag_val (f32_mag ?y) = k * 2 ^ 149"
      using f32_of_val_exact [OF refl \<open>k < 2 ^ 24\<close> lt'] z
      by (auto simp: add f32_is_finite_def f32_make_fields simp del: of_nat_mult)
  qed
  let ?h = "k * 2 ^ 148"
  have half: "mag_half (k * 2 ^ 149) = ?h" by (simp add: mag_half_def)
  have "?h \<le> k * 2 ^ 149" by simp
  then have "?h < 2 ^ 277" using lt' by (rule le_less_trans)
  note mh = mag_val_round [OF refl \<open>k < 2 ^ 24\<close> this]
  have hs: "mag_round ?h < sign_bit" using mh(2) by (intro inf_mag_lt) simp
  have h: "f32_half ?y = f32_make False (mag_round ?h)"
    using y half by (simp add: f32_half_def)
  have v: "(2 * (k * 2 ^ 148) + 2 ^ 149) div 2 ^ 150 = Suc k div 2"
  proof -
    have e: "2 * (k * 2 ^ 148) + 2 ^ 149 = Suc k * (2::nat) ^ 149" by simp
    have "Suc k * (2::nat) ^ 149 div (2 * 2 ^ 149) = Suc k div 2"
      by (rule div_mult_mult2) simp
    moreover have "(2::nat) ^ 150 = 2 * 2 ^ 149" by simp
    ultimately show ?thesis by (simp only: e)
  qed
  let ?H = "f32_half ?y"
  have H: "\<not> f32_neg ?H" "f32_is_finite ?H" "mag_val (f32_mag ?H) = ?h"
    using hs mh by (simp_all only: h f32_make_fields f32_is_finite_def not_False_eq_True)
  have "f32_round_to_usize ?H = min (2 ^ 64 - 1) ((2 * mag_val (f32_mag ?H) + 2 ^ 149) div 2 ^ 150)"
    using H(1) fin [OF H(2)] by (simp only: f32_round_to_usize_def if_False simp_thms)
  also have "\<dots> = min (2 ^ 64 - 1) (Suc k div 2)" by (simp only: H(3) v)
  also have "\<dots> = Suc k div 2"
  proof (rule min_absorb2)
    have "Suc k div 2 \<le> Suc k" by simp
    also have "Suc k \<le> 2 ^ 24" using assms(2) n by simp
    also have "(2::nat) ^ 24 \<le> 2 ^ 64 - 1" by simp
    finally show "Suc k div 2 \<le> 2 ^ 64 - 1" .
  qed
  finally show ?thesis by (simp only: n)
qed

end
