(* ===== verification/Domain.thy ===== *)
theory Domain
  imports F32
begin

text \<open>
  The data the components exchange: addresses, operations and their results
  (\<open>common/src/operation.rs\<close>, \<open>operation_result.rs\<close>), the error enums
  (\<open>errors.rs\<close>), the node roles and the network messages (\<open>node_role.rs\<close>,
  \<open>network/message.rs\<close>). Field names carry a prefix where two Rust structs share a
  field name. The \<open>details\<close> texts of \<open>AppError\<close> are diagnostics that no code
  branches on; the variants are kept, the texts are not.
\<close>

section \<open>Addresses\<close>

text \<open>
  \<open>std::net::SocketAddr\<close>. An IPv6 address is kept as its 128 bits; the protocol supports
  IPv4 only and panics on the other.
\<close>

datatype ip_addr = V4 u8 u8 u8 u8 | V6 "128 word"

datatype socket_addr = SocketAddr (sa_ip: ip_addr) (sa_port: u16)

fun is_ipv4 :: "socket_addr \<Rightarrow> bool" where
  "is_ipv4 (SocketAddr (V4 a b c d) p) = True"
| "is_ipv4 (SocketAddr (V6 w) p) = False"

section \<open>Errors\<close>

datatype limit_check_error = CardLimitExceeded | AccountLimitExceeded

datatype limit_update_error = BelowCurrentUsage

datatype verify_error =
    ChargeLimit limit_check_error
  | LimitUpdate limit_update_error

datatype app_error =
    Config
  | ConnectionRefused
  | ConnectionLostWith socket_addr
  | ConnectionLost
  | ActorSystem
  | Channel
  | ChannelClosed
  | InvalidData
  | InvalidProtocol

type_synonym 'a app_result = "(app_error, 'a) result"

section \<open>Operations\<close>

text \<open>A Rust \<open>String\<close> is its UTF-8 bytes.\<close>

type_synonym rust_string = "u8 list"

record account_snapshot =
  as_account_id :: u64
  as_limit :: "f32 option"
  as_consumed :: f32

record card_snapshot =
  cs_account_id :: u64
  cs_card_id :: u64
  cs_limit :: "f32 option"
  cs_consumed :: f32

record database_snapshot =
  ds_addr :: socket_addr
  ds_accounts :: "account_snapshot list"
  ds_cards :: "card_snapshot list"

text \<open>
  \<open>Operation\<close>: \<open>Charge account_id card_id amount from_offline_station\<close>,
  \<open>LimitAccount account_id new_limit\<close>, \<open>LimitCard account_id card_id new_limit\<close>,
  \<open>AccountQuery account_id\<close>, \<open>Bill account_id period\<close>, \<open>GetDatabase addr\<close>,
  \<open>ReplaceDatabase snapshot\<close>.
\<close>

datatype operation =
    Charge u64 u64 f32 bool
  | LimitAccount u64 "f32 option"
  | LimitCard u64 u64 "f32 option"
  | AccountQuery u64
  | Bill u64 "rust_string option"
  | GetDatabase socket_addr
  | ReplaceDatabase database_snapshot

section \<open>Results\<close>

datatype charge_result = ChargeOk | ChargeFailed verify_error

datatype limit_result = LimitOk | LimitFailed verify_error

record account_query_result =
  aq_account_id :: u64
  aq_total_spent :: f32
  aq_per_card_spent :: "(u64 \<times> f32) list"

datatype operation_result =
    ResCharge charge_result
  | ResLimitAccount limit_result
  | ResLimitCard limit_result
  | ResAccountQuery account_query_result
  | ResDatabaseSnapshot database_snapshot
  | ResReplaceDatabase

section \<open>Roles and messages\<close>

datatype node_role = RoleLeader | RoleReplica | RoleStation

datatype message =
    Request u32 operation socket_addr
  | Response u32 operation_result
  | Log u32 operation
  | Ack u32
  | Election u64 socket_addr
  | ElectionOk u64
  | Coordinator u64 socket_addr
  | Join socket_addr
  | ClusterView "(u64 \<times> socket_addr) list" socket_addr database_snapshot
  | ClusterUpdate "u64 \<times> socket_addr"
  | RoleQuery socket_addr
  | RoleResponse u64 node_role

section \<open>Between a station and its node\<close>

text \<open>
  \<open>StationToNodeMsg\<close> and \<open>NodeToStationMsg\<close> of \<open>common/src/station.rs\<close>:
  \<open>ChargeRequest account_id card_id amount request_id\<close> and
  \<open>StationChargeResult request_id allowed error\<close>.
\<close>

datatype station_to_node_msg =
    ChargeRequest u64 u64 f32 u32
  | DisconnectNode
  | ConnectNode

datatype node_to_station_msg =
    StationChargeResult u32 bool "verify_error option"
  | StationDebug

text \<open>How a \<open>ChargeResult\<close> is reported to a pump: \<open>(allowed, error)\<close>.\<close>

fun charge_outcome :: "charge_result \<Rightarrow> bool \<times> verify_error option" where
  "charge_outcome ChargeOk = (True, None)"
| "charge_outcome (ChargeFailed e) = (False, Some e)"

end
