(* ===== verification/ActorMessages.thy ===== *)
theory ActorMessages
  imports Domain
begin

text \<open>
  The messages of the actor system (\<open>server/src/node/actors/messages.rs\<close>). An actor address
  is the key under which the router keeps the actor: \<open>account_id\<close> for an account,
  \<open>(account_id, card_id)\<close> for a card. The texts of the \<open>Debug\<close> messages are diagnostics and
  are not kept.
\<close>

type_synonym card_key = "u64 \<times> u64"

record account_charge_reply =
  re_op_id :: u32
  re_success :: bool
  re_error :: "verify_error option"

text \<open>\<open>ApplyChargeFromCard op_id amount card_id from_offline_station reply_to\<close>.\<close>

datatype account_msg =
    ApplyChargeFromCard u32 f32 u64 bool card_key
  | ApplyAccountLimit u32 "f32 option"
  | StartAccountQuery u32 nat
  | StartAccountBill u32 nat
  | CardQueryReply u32 u64 f32
  | AccountGetSnapshot u32
  | AccountReplaceState "f32 option" f32

text \<open>
  \<open>ExecuteCharge op_id account_id card_id amount from_offline_station\<close> and
  \<open>QueryCardState op_id account_id reset_after_report\<close>.
\<close>

datatype card_msg =
    ExecuteCharge u32 u64 u64 f32 bool
  | ExecuteLimitChange u32 "f32 option"
  | QueryCardState u32 u64 bool
  | CardGetSnapshot u32
  | CardReplaceState "f32 option" f32
  | CardDebug

text \<open>\<open>AccountQueryCompleted op_id account_id total_spent per_card_spent\<close>.\<close>

datatype router_internal_msg =
    OperationCompleted u32 bool "verify_error option"
  | AccountQueryCompleted u32 u64 f32 "(u64 \<times> f32) list"
  | AccountSnapshotCollected u32 account_snapshot
  | CardSnapshotCollected u32 card_snapshot
  | RouterDebug

datatype router_cmd =
    Execute u32 operation
  | GetLog

text \<open>\<open>OperationResult op_id operation result success error\<close>.\<close>

datatype actor_event =
    OperationResult u32 operation operation_result bool "verify_error option"
  | ActorDebug

section \<open>What an actor promises about its messages\<close>

text \<open>
  An actor is a handler from a state and a message to a state and the messages it sends. A
  property of its states that every allowed message keeps holds after any sequence of allowed
  messages, in whatever order the mailbox delivers them.
\<close>

fun actor_run :: "('m \<Rightarrow> 's \<Rightarrow> 's \<times> 'o list) \<Rightarrow> 'm list \<Rightarrow> 's \<Rightarrow> 's \<times> 'o list" where
  "actor_run handle [] s = (s, [])"
| "actor_run handle (m # ms) s =
     (let (s', out) = handle m s; (s'', out') = actor_run handle ms s' in (s'', out @ out'))"

lemma actor_run_Cons:
  "fst (actor_run handle (m # ms) s) = fst (actor_run handle ms (fst (handle m s)))"
  "snd (actor_run handle (m # ms) s) =
     snd (handle m s) @ snd (actor_run handle ms (fst (handle m s)))"
  by (simp_all add: split_def Let_def)

lemma actor_run_append: "actor_run handle (ms @ ns) s =
   (let (s', out) = actor_run handle ms s; (s'', out') = actor_run handle ns s'
    in (s'', out @ out'))"
  by (induction ms arbitrary: s) (auto simp: split_def Let_def)

locale actor =
  fixes handle :: "'m \<Rightarrow> 's \<Rightarrow> 's \<times> 'o list"
    and inv :: "'s \<Rightarrow> bool"
    and allowed :: "'m \<Rightarrow> bool"
    and good_output :: "'o \<Rightarrow> bool"
  assumes handle_inv: "inv s \<Longrightarrow> allowed m \<Longrightarrow> inv (fst (handle m s))"
    and handle_output: "inv s \<Longrightarrow> allowed m \<Longrightarrow> list_all good_output (snd (handle m s))"
begin

lemma run_inv: "inv s \<Longrightarrow> list_all allowed ms \<Longrightarrow> inv (fst (actor_run handle ms s))"
proof (induction ms arbitrary: s)
  case (Cons m ms)
  then show ?case using handle_inv [of s m] by (auto simp: split_def Let_def)
qed simp

lemma run_output: "inv s \<Longrightarrow> list_all allowed ms \<Longrightarrow> list_all good_output (snd (actor_run handle ms s))"
proof (induction ms arbitrary: s)
  case (Cons m ms)
  then show ?case
    using handle_inv [of s m] handle_output [of s m] by (auto simp: split_def Let_def)
qed simp

end

end
