(* ===== verification/AccountActor.thy ===== *)
theory AccountActor
  imports ActorMessages
begin

text \<open>
  \<open>AccountActor\<close> (\<open>server/src/node/actors/account.rs\<close>): one account, its optional limit, its
  consumption, and at most one query or bill in progress. The handler returns the new state
  and the messages it sends, in order.
\<close>

record account_pending_query =
  pq_op_id :: u32
  pq_remaining :: nat
  pq_per_card_spent :: "(u64 \<times> f32) list"
  pq_billing :: bool

record account_actor =
  ac_account_id :: u64
  ac_limit :: "f32 option"
  ac_consumed :: f32
  ac_pending_query :: "account_pending_query option"

datatype account_output =
    AccountToRouter router_internal_msg
  | AccountToCard card_key account_charge_reply

definition account_new :: "u64 \<Rightarrow> account_actor" where
  "account_new account_id =
     \<lparr>ac_account_id = account_id, ac_limit = None, ac_consumed = 0, ac_pending_query = None\<rparr>"

definition check_account_limit :: "f32 \<Rightarrow> account_actor \<Rightarrow> (limit_check_error, unit) result" where
  "check_account_limit amount acc =
     (case ac_limit acc of
        Some limit \<Rightarrow>
          if limit < ac_consumed acc + amount then Error AccountLimitExceeded else Ok ()
      | None \<Rightarrow> Ok ())"

definition can_raise_limit :: "f32 option \<Rightarrow> f32 \<Rightarrow> (limit_update_error, unit) result" where
  "can_raise_limit new_limit already_consumed =
     (case new_limit of
        None \<Rightarrow> Ok ()
      | Some lim \<Rightarrow> if already_consumed \<le> lim then Ok () else Error BelowCurrentUsage)"

text \<open>\<open>map_err\<close>.\<close>

fun map_err :: "('e \<Rightarrow> 'f) \<Rightarrow> ('e, 'a) result \<Rightarrow> ('f, 'a) result" where
  "map_err g (Inr x) = Ok x"
| "map_err g (Inl (Err e)) = Error (g e)"
| "map_err g (Inl Panic) = Panicked"

text \<open>The outcome of a check, as the fields of a reply; a check never panics.\<close>

fun outcome_error :: "(verify_error, unit) result \<Rightarrow> verify_error option" where
  "outcome_error (Inl (Err e)) = Some e"
| "outcome_error r = None"

definition handle_apply_charge :: "u32 \<Rightarrow> f32 \<Rightarrow> bool \<Rightarrow> card_key \<Rightarrow> account_actor \<Rightarrow>
    account_actor \<times> account_output list" where
  "handle_apply_charge op_id amount from_offline_station reply_to acc =
     (if from_offline_station then
        (acc\<lparr>ac_consumed := ac_consumed acc + amount\<rparr>,
         [AccountToCard reply_to \<lparr>re_op_id = op_id, re_success = True, re_error = None\<rparr>])
      else
        (case map_err ChargeLimit (check_account_limit amount acc) of
           Inr _ \<Rightarrow>
             (acc\<lparr>ac_consumed := ac_consumed acc + amount\<rparr>,
              [AccountToCard reply_to \<lparr>re_op_id = op_id, re_success = True, re_error = None\<rparr>])
         | Inl (Err err) \<Rightarrow>
             (acc, [AccountToCard reply_to
                      \<lparr>re_op_id = op_id, re_success = False, re_error = Some err\<rparr>])
         | Inl Panic \<Rightarrow> (acc, [])))"

definition handle_apply_limit :: "u32 \<Rightarrow> f32 option \<Rightarrow> account_actor \<Rightarrow>
    account_actor \<times> account_output list" where
  "handle_apply_limit op_id new_limit acc =
     (case map_err LimitUpdate (can_raise_limit new_limit (ac_consumed acc)) of
        Inr _ \<Rightarrow>
          (acc\<lparr>ac_limit := new_limit\<rparr>, [AccountToRouter (OperationCompleted op_id True None)])
      | Inl (Err err) \<Rightarrow> (acc, [AccountToRouter (OperationCompleted op_id False (Some err))])
      | Inl Panic \<Rightarrow> (acc, []))"

definition handle_start_query :: "u32 \<Rightarrow> nat \<Rightarrow> account_actor \<Rightarrow>
    account_actor \<times> account_output list" where
  "handle_start_query op_id num_cards acc =
     (if num_cards = 0 then
        (acc, [AccountToRouter
                 (AccountQueryCompleted op_id (ac_account_id acc) (ac_consumed acc) [])])
      else
        (acc\<lparr>ac_pending_query := Some \<lparr>pq_op_id = op_id, pq_remaining = num_cards,
               pq_per_card_spent = [], pq_billing = False\<rparr>\<rparr>, []))"

definition handle_start_bill :: "u32 \<Rightarrow> nat \<Rightarrow> account_actor \<Rightarrow>
    account_actor \<times> account_output list" where
  "handle_start_bill op_id num_cards acc =
     (if num_cards = 0 then
        (acc\<lparr>ac_consumed := 0\<rparr>,
         [AccountToRouter
            (AccountQueryCompleted op_id (ac_account_id acc) (ac_consumed acc) [])])
      else
        (acc\<lparr>ac_pending_query := Some \<lparr>pq_op_id = op_id, pq_remaining = num_cards,
               pq_per_card_spent = [], pq_billing = True\<rparr>\<rparr>, []))"

definition handle_card_query_reply :: "u32 \<Rightarrow> u64 \<Rightarrow> f32 \<Rightarrow> account_actor \<Rightarrow>
    account_actor \<times> account_output list" where
  "handle_card_query_reply op_id card_id consumed acc =
     (case ac_pending_query acc of
        None \<Rightarrow> (acc, [AccountToRouter RouterDebug])
      | Some p \<Rightarrow>
          if pq_op_id p \<noteq> op_id then (acc, [AccountToRouter RouterDebug])
          else
            let per_card_spent = pq_per_card_spent p @ [(card_id, consumed)];
                remaining = (if 0 < pq_remaining p then pq_remaining p - 1 else pq_remaining p)
            in if remaining = 0 then
                 (acc\<lparr>ac_pending_query := None,
                      ac_consumed := (if pq_billing p then 0 else ac_consumed acc)\<rparr>,
                  [AccountToRouter (AccountQueryCompleted (pq_op_id p) (ac_account_id acc)
                     (f32_sum (map snd per_card_spent)) per_card_spent)])
               else
                 (acc\<lparr>ac_pending_query := Some (p\<lparr>pq_per_card_spent := per_card_spent,
                                                pq_remaining := remaining\<rparr>)\<rparr>, []))"

fun account_handle :: "account_msg \<Rightarrow> account_actor \<Rightarrow> account_actor \<times> account_output list" where
  "account_handle (ApplyChargeFromCard op_id amount card_id off reply_to) acc =
     handle_apply_charge op_id amount off reply_to acc"
| "account_handle (ApplyAccountLimit op_id new_limit) acc = handle_apply_limit op_id new_limit acc"
| "account_handle (StartAccountQuery op_id num_cards) acc = handle_start_query op_id num_cards acc"
| "account_handle (StartAccountBill op_id num_cards) acc = handle_start_bill op_id num_cards acc"
| "account_handle (CardQueryReply op_id card_id consumed) acc =
     handle_card_query_reply op_id card_id consumed acc"
| "account_handle (AccountGetSnapshot op_id) acc =
     (acc, [AccountToRouter (AccountSnapshotCollected op_id
              \<lparr>as_account_id = ac_account_id acc, as_limit = ac_limit acc,
               as_consumed = ac_consumed acc\<rparr>)])"
| "account_handle (AccountReplaceState new_limit new_consumed) acc =
     (acc\<lparr>ac_limit := new_limit, ac_consumed := new_consumed\<rparr>, [])"

section \<open>Every reply is well formed\<close>

text \<open>A failure carries its error and a success carries none: the router's \<open>expect\<close> holds.\<close>

fun outcome_consistent :: "router_internal_msg \<Rightarrow> bool" where
  "outcome_consistent (OperationCompleted op_id success error) \<longleftrightarrow> success = (error = None)"
| "outcome_consistent m \<longleftrightarrow> True"

fun account_output_ok :: "account_output \<Rightarrow> bool" where
  "account_output_ok (AccountToRouter m) = outcome_consistent m"
| "account_output_ok (AccountToCard k r) = (re_success r = (re_error r = None))"

lemmas account_handler_defs = handle_apply_charge_def handle_apply_limit_def
  handle_start_query_def handle_start_bill_def handle_card_query_reply_def

lemma account_checks_total [simp]:
  "check_account_limit x acc \<noteq> Panicked" "can_raise_limit l c \<noteq> Panicked"
  by (simp_all add: check_account_limit_def can_raise_limit_def split: option.split)

lemma map_err_cases [simp]:
  "map_err g r = Ok x \<longleftrightarrow> r = Ok x"
  "map_err g r = Panicked \<longleftrightarrow> r = Panicked"
  "map_err g r = Error e' \<longleftrightarrow> (\<exists>e. r = Error e \<and> e' = g e)"
  by (cases "(g, r)" rule: map_err.cases; auto)+

lemma account_output_consistent: "list_all account_output_ok (snd (account_handle m acc))"
  by (cases m) (auto simp: account_handler_defs Let_def split: option.split sum.split failure.split)

interpretation account_replies: actor account_handle "\<lambda>acc. True" "\<lambda>m. True" account_output_ok
  by unfold_locales (simp_all add: account_output_consistent)

section \<open>The account limit\<close>

text \<open>The consumption is a number, not negative, and within the limit.\<close>

definition within_limit :: "f32 option \<Rightarrow> f32 \<Rightarrow> bool" where
  "within_limit limit consumed \<longleftrightarrow>
     0 \<le> consumed \<and> (case limit of None \<Rightarrow> True | Some l \<Rightarrow> consumed \<le> l)"

definition account_within_limit :: "account_actor \<Rightarrow> bool" where
  "account_within_limit acc \<longleftrightarrow> within_limit (ac_limit acc) (ac_consumed acc)"

text \<open>
  The messages that go through the checks: charges of online stations for an amount that is
  not negative, and everything but the replacement of the state by a snapshot, which must
  itself be within its limit.
\<close>

fun account_checked :: "account_msg \<Rightarrow> bool" where
  "account_checked (ApplyChargeFromCard op_id amount card_id off reply_to) \<longleftrightarrow> \<not> off \<and> 0 \<le> amount"
| "account_checked (AccountReplaceState new_limit new_consumed) \<longleftrightarrow>
     within_limit new_limit new_consumed"
| "account_checked m \<longleftrightarrow> True"

lemma f32_zero_le_zero [simp]: "(0 :: f32) \<le> 0"
  by (simp add: f32_less_eq_iff)

lemma f32_zero_le_one [simp]: "(0 :: f32) \<le> f32_one"
  by (simp add: f32_less_eq_iff f32_key_def f32_one_def f32_is_nan_def f32_mag_def f32_neg_def
      sign_bit_def inf_mag_def zero_f32_def)

lemma within_limit_add:
  "within_limit l c \<Longrightarrow> 0 \<le> x \<Longrightarrow> (case l of None \<Rightarrow> True | Some m \<Rightarrow> \<not> m < c + x) \<Longrightarrow>
     within_limit l (c + x)"
  using f32_add_nonneg [of c x]
  by (auto simp: within_limit_def f32_less_iff f32_less_eq_iff split: option.splits)

lemma within_limit_reset: "within_limit l c \<Longrightarrow> within_limit l 0"
  by (auto simp: within_limit_def split: option.splits intro: f32_le_trans)

lemma within_limit_new:
  "within_limit l c \<Longrightarrow> (case l' of None \<Rightarrow> True | Some m \<Rightarrow> c \<le> m) \<Longrightarrow> within_limit l' c"
  by (simp add: within_limit_def)

lemma account_within_limit_step:
  assumes "account_within_limit acc" and "account_checked m"
  shows "account_within_limit (fst (account_handle m acc))"
proof (cases m)
  case (ApplyChargeFromCard op_id amount card_id off reply_to)
  with assms show ?thesis
    by (auto simp: handle_apply_charge_def account_within_limit_def check_account_limit_def
        intro!: within_limit_add split: option.splits if_splits)
next
  case (ApplyAccountLimit op_id new_limit)
  with assms show ?thesis
    by (auto simp: handle_apply_limit_def account_within_limit_def can_raise_limit_def
        intro: within_limit_new split: option.splits if_splits)
next
  case (StartAccountBill op_id num_cards)
  with assms show ?thesis
    by (auto simp: handle_start_bill_def account_within_limit_def intro: within_limit_reset)
next
  case (CardQueryReply op_id card_id consumed)
  with assms show ?thesis
    by (auto simp: handle_card_query_reply_def account_within_limit_def Let_def
        intro: within_limit_reset split: option.splits)
qed (use assms in \<open>auto simp: handle_start_query_def account_within_limit_def\<close>)

interpretation account_limit: actor account_handle account_within_limit account_checked account_output_ok
  by unfold_locales (simp_all add: account_within_limit_step account_output_consistent)

text \<open>C13: An account that only takes checked messages never exceeds its limit: from a fresh
  account, after any sequence of online charges of non-negative amounts, limit changes,
  queries, bills and snapshots that respect their own limit, the consumption is a non-negative
  number and no larger than the limit, if there is one.\<close>

theorem account_never_exceeds_limit:
  assumes "list_all account_checked ms"
    and "acc = fst (actor_run account_handle ms (account_new account_id))"
  shows "0 \<le> ac_consumed acc \<and> (\<forall>l. ac_limit acc = Some l \<longrightarrow> ac_consumed acc \<le> l)"
proof -
  have "account_within_limit (account_new account_id)"
    by (simp add: account_within_limit_def account_new_def within_limit_def)
  then have "account_within_limit acc"
    using assms account_limit.run_inv by simp
  then show ?thesis by (auto simp: account_within_limit_def within_limit_def)
qed

theorem account_never_exceeds_limit_witness:
  "0 \<le> ac_consumed (fst (actor_run account_handle
     [ApplyAccountLimit 1 (Some f32_one), ApplyChargeFromCard 2 f32_one 5 False (3, 5),
      ApplyChargeFromCard 3 f32_one 5 False (3, 5)] (account_new 3)))"
proof -
  show ?thesis
    using account_never_exceeds_limit [of "[ApplyAccountLimit 1 (Some f32_one),
      ApplyChargeFromCard 2 f32_one 5 False (3, 5), ApplyChargeFromCard 3 f32_one 5 False (3, 5)]"
      _ 3, OF _ refl]
    by (simp add: f32_zero_le_one del: actor_run.simps)
qed

text \<open>A charge for a NaN amount passes the check of every limit and disables it: the account
  accepts it, and from then on every charge, whatever its amount and the limit.\<close>

theorem nan_charge_disables_account_limit:
  assumes "f32_is_nan amount"
    and "(acc', out) = account_handle (ApplyChargeFromCard op_id amount card_id off reply_to) acc"
  shows "out = [AccountToCard reply_to \<lparr>re_op_id = op_id, re_success = True, re_error = None\<rparr>] \<and>
    snd (account_handle (ApplyChargeFromCard op_id' amount' card_id' False reply_to')
      (acc'\<lparr>ac_limit := limit'\<rparr>)) =
    [AccountToCard reply_to' \<lparr>re_op_id = op_id', re_success = True, re_error = None\<rparr>]"
proof -
  have nan: "\<not> l < c + amount" "\<not> l < c + amount + x" for l c x
    using assms(1) f32_add_nan by (auto simp: f32_less_iff)
  from assms(2) show ?thesis
    by (cases "ac_limit acc"; cases limit')
      (auto simp: handle_apply_charge_def check_account_limit_def nan split: if_splits)
qed

theorem nan_charge_disables_account_limit_witness:
  "snd (account_handle (ApplyChargeFromCard 2 f32_one 5 False (3, 5))
     ((fst (account_handle (ApplyChargeFromCard 1 f32_nan 5 False (3, 5)) (account_new 3)))
       \<lparr>ac_limit := Some 0\<rparr>)) =
   [AccountToCard (3, 5) \<lparr>re_op_id = 2, re_success = True, re_error = None\<rparr>]"
  using nan_charge_disables_account_limit [of f32_nan _ _ 1 5 False "(3, 5)" "account_new 3",
      OF _ surjective_pairing [symmetric]]
  by simp

section \<open>Queries and bills\<close>

fun replies_for :: "u32 \<Rightarrow> account_msg list \<Rightarrow> (u64 \<times> f32) list" where
  "replies_for op_id [] = []"
| "replies_for op_id (CardQueryReply op_id' card_id consumed # ms) =
     (if op_id' = op_id then (card_id, consumed) # replies_for op_id ms else replies_for op_id ms)"
| "replies_for op_id (m # ms) = replies_for op_id ms"

fun starts_query :: "account_msg \<Rightarrow> bool" where
  "starts_query (StartAccountQuery op_id n) = True"
| "starts_query (StartAccountBill op_id n) = True"
| "starts_query m = False"

fun query_completed :: "account_output \<Rightarrow> bool" where
  "query_completed (AccountToRouter (AccountQueryCompleted op_id a t cs)) = True"
| "query_completed out = False"

lemma replies_for_Cons_other:
  "(\<And>c x. m \<noteq> CardQueryReply op_id c x) \<Longrightarrow> replies_for op_id (m # ms) = replies_for op_id ms"
  by (cases m) auto

lemma other_message_keeps_pending:
  assumes "\<not> starts_query m" and "\<And>c x. m \<noteq> CardQueryReply op_id c x"
    and "ac_pending_query acc = None \<or> (\<exists>p. ac_pending_query acc = Some p \<and> pq_op_id p = op_id)"
  shows "ac_pending_query (fst (account_handle m acc)) = ac_pending_query acc"
    and "ac_account_id (fst (account_handle m acc)) = ac_account_id acc"
    and "filter query_completed (snd (account_handle m acc)) = []"
  using assms by (cases m; auto simp: account_handler_defs Let_def
      split: option.split sum.split failure.split)+

lemma no_query_run:
  "ac_pending_query acc = None \<Longrightarrow> list_all (\<lambda>m. \<not> starts_query m) ms \<Longrightarrow>
   filter query_completed (snd (actor_run account_handle ms acc)) = []"
proof (induction ms arbitrary: acc)
  case (Cons m ms)
  have "ac_pending_query (fst (account_handle m acc)) = None \<and>
      filter query_completed (snd (account_handle m acc)) = []"
    using Cons.prems by (cases m) (auto simp: account_handler_defs split: option.split sum.split failure.split)
  then show ?case using Cons by (simp add: actor_run_Cons del: actor_run.simps)
qed simp

lemma query_run:
  "ac_pending_query acc = Some \<lparr>pq_op_id = op_id, pq_remaining = length rs,
     pq_per_card_spent = got, pq_billing = b\<rparr> \<Longrightarrow> rs \<noteq> [] \<Longrightarrow>
   replies_for op_id ms = rs \<Longrightarrow> list_all (\<lambda>m. \<not> starts_query m) ms \<Longrightarrow>
   filter query_completed (snd (actor_run account_handle ms acc)) =
     [AccountToRouter (AccountQueryCompleted op_id (ac_account_id acc)
        (f32_sum (map snd (got @ rs))) (got @ rs))]"
proof (induction ms arbitrary: acc rs got)
  case Nil
  then show ?case by simp
next
  case (Cons m ms)
  show ?case
  proof (cases "\<exists>c x. m = CardQueryReply op_id c x")
    case True
    then obtain c x where m: "m = CardQueryReply op_id c x" by blast
    with Cons.prems(3) have rs: "rs = (c, x) # replies_for op_id ms" by simp
    show ?thesis
    proof (cases "replies_for op_id ms")
      case Nil
      with m rs Cons.prems show ?thesis
        by (simp add: actor_run_Cons handle_card_query_reply_def no_query_run del: actor_run.simps)
    next
      case (Cons r rs')
      let ?acc = "fst (account_handle m acc)"
      have "filter query_completed (snd (actor_run account_handle ms ?acc)) =
          [AccountToRouter (AccountQueryCompleted op_id (ac_account_id ?acc)
            (f32_sum (map snd ((got @ [(c, x)]) @ (r # rs')))) ((got @ [(c, x)]) @ (r # rs')))]"
        by (rule Cons.IH) (use m rs Cons Cons.prems in
            \<open>simp_all add: handle_card_query_reply_def Let_def\<close>)
      with m rs Cons Cons.prems(1) show ?thesis
        by (simp add: actor_run_Cons handle_card_query_reply_def Let_def del: actor_run.simps)
    qed
  next
    case False
    with Cons.prems(4) have o: "\<not> starts_query m" "\<And>c x. m \<noteq> CardQueryReply op_id c x" by auto
    have p: "\<exists>p. ac_pending_query acc = Some p \<and> pq_op_id p = op_id" using Cons.prems(1) by simp
    note keep = other_message_keeps_pending [OF o disjI2, OF p]
    have "replies_for op_id ms = rs" using Cons.prems(3) replies_for_Cons_other [OF o(2)] by simp
    with Cons.IH [of "fst (account_handle m acc)" rs got] Cons.prems keep show ?thesis
      by (simp add: actor_run_Cons del: actor_run.simps)
  qed
qed



section \<open>Overlapping queries\<close>

fun restarts_query :: "u32 \<Rightarrow> account_msg \<Rightarrow> bool" where
  "restarts_query i (StartAccountQuery j n) \<longleftrightarrow> j = i"
| "restarts_query i (StartAccountBill j n) \<longleftrightarrow> j = i"
| "restarts_query i m \<longleftrightarrow> False"

fun answers_query :: "u32 \<Rightarrow> account_output \<Rightarrow> bool" where
  "answers_query i (AccountToRouter (AccountQueryCompleted j a t cards)) \<longleftrightarrow> j = i"
| "answers_query i out \<longleftrightarrow> False"

definition not_pending :: "u32 \<Rightarrow> account_actor \<Rightarrow> bool" where
  "not_pending i acc \<longleftrightarrow> (\<forall>p. ac_pending_query acc = Some p \<longrightarrow> pq_op_id p \<noteq> i)"

interpretation query_lost: actor account_handle "not_pending i" "\<lambda>m. \<not> restarts_query i m" "\<lambda>out. \<not> answers_query i out"
proof unfold_locales
  fix acc m assume "not_pending i acc" "\<not> restarts_query i m"
  then show "not_pending i (fst (account_handle m acc))" "list_all (\<lambda>out. \<not> answers_query i out) (snd (account_handle m acc))"
    by (cases m; auto simp: account_handler_defs not_pending_def Let_def split: option.split sum.split failure.split)+
qed

text \<open>C28: A second query replaces the first: a query or bill that starts while another one of the same
  account waits for its cards takes its place, and whatever the account receives from then on, the
  first is never answered (unless it is started again).\<close>

theorem overlapping_query_never_answered:
  assumes "ac_pending_query acc = Some p" "pq_op_id p = i" and "j \<noteq> i" "0 < n"
    and "m \<in> {StartAccountQuery j n, StartAccountBill j n}" and "list_all (\<lambda>x. \<not> restarts_query i x) ms"
    and "actor_run account_handle (m # ms) acc = (acc', out)"
  shows "list_all (\<lambda>x. \<not> answers_query i x) out \<and> not_pending i acc'"
proof -
  obtain acc1 out1 where h: "account_handle m acc = (acc1, out1)" by (rule prod.exhaust)
  have "out1 = []" "not_pending i acc1"
    using h assms(3-5) by (auto simp: account_handler_defs not_pending_def)
  with query_lost.run_inv [of i acc1 ms] query_lost.run_output [of i acc1 ms] assms(6,7) h show ?thesis
    by (auto split: prod.splits)
qed

theorem overlapping_query_never_answered_witness:
  "list_all (\<lambda>x. \<not> answers_query 7 x) (snd (actor_run account_handle
     [StartAccountQuery 8 2, CardQueryReply 7 1 0, CardQueryReply 7 2 0, CardQueryReply 8 1 0, CardQueryReply 8 2 0]
     ((account_new 3)\<lparr>ac_pending_query := Some \<lparr>pq_op_id = 7, pq_remaining = 2, pq_per_card_spent = [], pq_billing = False\<rparr>\<rparr>)))"
proof -
  let ?p = "\<lparr>pq_op_id = 7, pq_remaining = 2, pq_per_card_spent = [], pq_billing = False\<rparr>"
  let ?acc = "(account_new 3)\<lparr>ac_pending_query := Some ?p\<rparr>"
  let ?ms = "[CardQueryReply 7 1 0, CardQueryReply 7 2 0, CardQueryReply 8 1 0, CardQueryReply 8 2 0]"
  have "ac_pending_query ?acc = Some ?p" "pq_op_id ?p = 7" "list_all (\<lambda>x. \<not> restarts_query 7 x) ?ms" by simp_all
  from overlapping_query_never_answered [OF this(1,2) _ _ _ this(3) surjective_pairing, of 8 2 "StartAccountQuery 8 2"]
  show ?thesis by (simp del: actor_run.simps)
qed

end
