(* ===== verification/CardActor.thy ===== *)
theory CardActor
  imports AccountActor
begin

text \<open>
  \<open>CardActor\<close> (\<open>server/src/node/actors/self.rs\<close>): one self, its limit and consumption, the
  task in progress and the queue of the tasks behind it. A charge waits for the reply of the
  account before the next task starts; a limit change finishes at once. Handlers return the
  new state and the messages sent, in order.
\<close>

record card_charge_op =
  co_op_id :: u32
  co_account_id :: u64
  co_amount :: f32
  co_from_offline_station :: bool

datatype card_task =
    TaskCharge card_charge_op
  | TaskLimitChange u32 "f32 option"

record card_actor =
  ca_card_id :: u64
  ca_account_id :: u64
  ca_limit :: "f32 option"
  ca_consumed :: f32
  ca_current_task :: "card_task option"
  ca_queue :: "card_task list"

datatype card_output =
    CardToRouter router_internal_msg
  | CardToAccount account_msg

text \<open>The mailbox of a card takes commands of the router and replies of its account.\<close>

datatype card_input = CardCommand card_msg | CardChargeReply account_charge_reply

definition card_new :: "u64 \<Rightarrow> u64 \<Rightarrow> card_actor" where
  "card_new card_id account_id =
     \<lparr>ca_card_id = card_id, ca_account_id = account_id, ca_limit = None, ca_consumed = 0,
      ca_current_task = None, ca_queue = []\<rparr>"

definition check_charge_limit :: "f32 \<Rightarrow> card_actor \<Rightarrow> (limit_check_error, unit) result" where
  "check_charge_limit amount self =
     (case ca_limit self of
        Some limit \<Rightarrow>
          if limit < ca_consumed self + amount then Error CardLimitExceeded else Ok ()
      | None \<Rightarrow> Ok ())"

definition can_set_new_limit :: "f32 option \<Rightarrow> card_actor \<Rightarrow> (limit_update_error, unit) result"
  where
  "can_set_new_limit new_limit self =
     (case new_limit of
        None \<Rightarrow> Ok ()
      | Some lim \<Rightarrow> if ca_consumed self \<le> lim then Ok () else Error BelowCurrentUsage)"

definition own_key :: "card_actor \<Rightarrow> card_key" where
  "own_key self = (ca_account_id self, ca_card_id self)"

text \<open>
  Starting a task may finish it on the spot, and finishing one starts the next of the queue:
  the two call each other until a charge waits for the account or the queue is empty.
\<close>

function start_current_task :: "card_actor \<Rightarrow> card_actor \<times> card_output list"
  and finish_current_task :: "u32 \<Rightarrow> bool \<Rightarrow> verify_error option \<Rightarrow> card_actor \<Rightarrow>
    card_actor \<times> card_output list" where
  "start_current_task self =
     (case ca_current_task self of
        None \<Rightarrow> (self, [])
      | Some (TaskCharge op) \<Rightarrow>
          (case (if co_from_offline_station op then Ok ()
                 else map_err ChargeLimit (check_charge_limit (co_amount op) self)) of
             Inl (Err err) \<Rightarrow> finish_current_task (co_op_id op) False (Some err) self
           | Inl Panic \<Rightarrow> (self, [])
           | Inr _ \<Rightarrow>
               (self, [CardToAccount (ApplyChargeFromCard (co_op_id op) (co_amount op)
                         (ca_card_id self) (co_from_offline_station op) (own_key self))]))
      | Some (TaskLimitChange op_id new_limit) \<Rightarrow>
          (case map_err LimitUpdate (can_set_new_limit new_limit self) of
             Inr _ \<Rightarrow> finish_current_task op_id True None (self\<lparr>ca_limit := new_limit\<rparr>)
           | Inl (Err err) \<Rightarrow> finish_current_task op_id False (Some err) self
           | Inl Panic \<Rightarrow> (self, [])))"
| "finish_current_task op_id success error self =
     (let (card', out) =
        (case ca_queue self of
           next # rest \<Rightarrow> start_current_task (self\<lparr>ca_queue := rest, ca_current_task := Some next\<rparr>)
         | [] \<Rightarrow> (self\<lparr>ca_current_task := None\<rparr>, []))
      in (card', CardToRouter (OperationCompleted op_id success error) # out))"
  by pat_completeness auto

termination
  by (relation "measure (\<lambda>x. case x of
        Inl self \<Rightarrow> 2 * length (ca_queue self) + 1
      | Inr (op_id, success, error, self) \<Rightarrow> 2 * length (ca_queue self))") auto

declare start_current_task.simps [simp del] finish_current_task.simps [simp del]

text \<open>Run the task now if the card is idle, else behind the others.\<close>

definition submit_task :: "card_task \<Rightarrow> card_actor \<Rightarrow> card_actor \<times> card_output list" where
  "submit_task task self =
     (if ca_current_task self = None then start_current_task (self\<lparr>ca_current_task := Some task\<rparr>)
      else (self\<lparr>ca_queue := ca_queue self @ [task]\<rparr>, []))"

fun card_handle_cmd :: "card_msg \<Rightarrow> card_actor \<Rightarrow> card_actor \<times> card_output list" where
  "card_handle_cmd (ExecuteCharge op_id account_id card_id amount off) self =
     (if account_id \<noteq> ca_account_id self \<or> card_id \<noteq> ca_card_id self then
        (self, [CardToRouter RouterDebug,
                CardToRouter (OperationCompleted op_id False (Some (ChargeLimit CardLimitExceeded)))])
      else
        submit_task (TaskCharge \<lparr>co_op_id = op_id, co_account_id = account_id,
          co_amount = amount, co_from_offline_station = off\<rparr>) self)"
| "card_handle_cmd (ExecuteLimitChange op_id new_limit) self =
     submit_task (TaskLimitChange op_id new_limit) self"
| "card_handle_cmd (QueryCardState op_id account_id reset_after_report) self =
     (if account_id \<noteq> ca_account_id self then (self, [CardToRouter RouterDebug])
      else
        (if reset_after_report then self\<lparr>ca_consumed := 0\<rparr> else self,
         [CardToAccount (CardQueryReply op_id (ca_card_id self) (ca_consumed self))]))"
| "card_handle_cmd (CardGetSnapshot op_id) self =
     (self, [CardToRouter (CardSnapshotCollected op_id
               \<lparr>cs_account_id = ca_account_id self, cs_card_id = ca_card_id self,
                cs_limit = ca_limit self, cs_consumed = ca_consumed self\<rparr>)])"
| "card_handle_cmd (CardReplaceState new_limit new_consumed) self =
     (self\<lparr>ca_limit := new_limit, ca_consumed := new_consumed, ca_current_task := None,
           ca_queue := []\<rparr>, [])"
| "card_handle_cmd CardDebug self = (self, [CardToRouter RouterDebug])"

definition card_handle_reply :: "account_charge_reply \<Rightarrow> card_actor \<Rightarrow>
    card_actor \<times> card_output list" where
  "card_handle_reply reply self =
     (case ca_current_task self of
        Some (TaskCharge op) \<Rightarrow>
          if co_op_id op = re_op_id reply then
            finish_current_task (re_op_id reply) (re_success reply) (re_error reply)
              (if re_success reply then self\<lparr>ca_consumed := ca_consumed self + co_amount op\<rparr>
               else self)
          else (self, [CardToRouter RouterDebug])
      | _ \<Rightarrow> (self, [CardToRouter RouterDebug]))"

fun card_handle :: "card_input \<Rightarrow> card_actor \<Rightarrow> card_actor \<times> card_output list" where
  "card_handle (CardCommand msg) self = card_handle_cmd msg self"
| "card_handle (CardChargeReply reply) self = card_handle_reply reply self"

section \<open>Starting and finishing tasks\<close>

lemma card_checks_total [simp]:
  "check_charge_limit x self \<noteq> Panicked" "can_set_new_limit l self \<noteq> Panicked"
  by (simp_all add: check_charge_limit_def can_set_new_limit_def split: option.split)

text \<open>What a start comes to, task by task.\<close>

lemma start_none: "ca_current_task self = None \<Longrightarrow> start_current_task self = (self, [])"
  by (simp add: start_current_task.simps)

lemma start_charge:
  assumes "ca_current_task self = Some (TaskCharge op)"
  obtains (ask) "co_from_offline_station op \<or> check_charge_limit (co_amount op) self = Ok ()"
      "start_current_task self = (self, [CardToAccount (ApplyChargeFromCard (co_op_id op)
         (co_amount op) (ca_card_id self) (co_from_offline_station op) (own_key self))])"
  | (refuse) e where "\<not> co_from_offline_station op" "check_charge_limit (co_amount op) self = Error e"
      "start_current_task self = finish_current_task (co_op_id op) False (Some (ChargeLimit e)) self"
proof (cases "co_from_offline_station op")
  case True
  with assms ask show thesis by (simp add: start_current_task.simps)
next
  case False
  show thesis
  proof (cases "check_charge_limit (co_amount op) self")
    case (Inl f)
    then obtain e where "f = Err e" using card_checks_total(1) by (cases f) auto
    with Inl False assms refuse show thesis by (simp add: start_current_task.simps)
  next
    case (Inr u)
    with False assms ask show thesis by (simp add: start_current_task.simps)
  qed
qed

lemma start_limit:
  assumes "ca_current_task self = Some (TaskLimitChange op_id l)"
  obtains (allowed) "can_set_new_limit l self = Ok ()"
      "start_current_task self = finish_current_task op_id True None (self\<lparr>ca_limit := l\<rparr>)"
  | (refuse) e where "can_set_new_limit l self = Error e"
      "start_current_task self = finish_current_task op_id False (Some (LimitUpdate e)) self"
proof (cases "can_set_new_limit l self")
  case (Inl f)
  then obtain e where "f = Err e" using card_checks_total(2) by (cases f) auto
  with Inl assms refuse show thesis by (simp add: start_current_task.simps)
next
  case (Inr u)
  with assms allowed show thesis by (simp add: start_current_task.simps)
qed

lemma finish_cases:
  "ca_queue self = [] \<Longrightarrow> finish_current_task op_id success e self =
     (self\<lparr>ca_current_task := None\<rparr>, [CardToRouter (OperationCompleted op_id success e)])"
  "ca_queue self = t # ts \<Longrightarrow> finish_current_task op_id success e self =
     (fst (start_current_task (self\<lparr>ca_queue := ts, ca_current_task := Some t\<rparr>)),
      CardToRouter (OperationCompleted op_id success e) #
        snd (start_current_task (self\<lparr>ca_queue := ts, ca_current_task := Some t\<rparr>)))"
  by (simp_all add: finish_current_task.simps split_def Let_def)

text \<open>
  One induction for both calls: a property of the results that holds of a charge that waits
  and of an idle card, and that prefixing a completion keeps, holds of every start and finish.
\<close>

lemma start_finish_induct:
  assumes ask: "\<And>s op. ca_current_task s = Some (TaskCharge op) \<Longrightarrow>
      co_from_offline_station op \<or> check_charge_limit (co_amount op) s = Ok () \<Longrightarrow>
      P s (s, [CardToAccount (ApplyChargeFromCard (co_op_id op) (co_amount op) (ca_card_id s)
        (co_from_offline_station op) (own_key s))])"
    and refuse: "\<And>s op e. ca_current_task s = Some (TaskCharge op) \<Longrightarrow>
      \<not> co_from_offline_station op \<Longrightarrow> check_charge_limit (co_amount op) s = Error e \<Longrightarrow>
      Q (co_op_id op) False (Some (ChargeLimit e)) s
        (finish_current_task (co_op_id op) False (Some (ChargeLimit e)) s) \<Longrightarrow>
      P s (finish_current_task (co_op_id op) False (Some (ChargeLimit e)) s)"
    and limit: "\<And>s op_id l. ca_current_task s = Some (TaskLimitChange op_id l) \<Longrightarrow>
      can_set_new_limit l s = Ok () \<Longrightarrow>
      Q op_id True None (s\<lparr>ca_limit := l\<rparr>) (finish_current_task op_id True None (s\<lparr>ca_limit := l\<rparr>)) \<Longrightarrow>
      P s (finish_current_task op_id True None (s\<lparr>ca_limit := l\<rparr>))"
    and limit_refused: "\<And>s op_id l e. ca_current_task s = Some (TaskLimitChange op_id l) \<Longrightarrow>
      can_set_new_limit l s = Error e \<Longrightarrow>
      Q op_id False (Some (LimitUpdate e)) s (finish_current_task op_id False (Some (LimitUpdate e)) s) \<Longrightarrow>
      P s (finish_current_task op_id False (Some (LimitUpdate e)) s)"
    and none: "\<And>s. ca_current_task s = None \<Longrightarrow> P s (s, [])"
    and idle: "\<And>op_id b e s. ca_queue s = [] \<Longrightarrow>
      Q op_id b e s (s\<lparr>ca_current_task := None\<rparr>, [CardToRouter (OperationCompleted op_id b e)])"
    and more: "\<And>op_id b e s t ts s' out. ca_queue s = t # ts \<Longrightarrow>
      P (s\<lparr>ca_queue := ts, ca_current_task := Some t\<rparr>) (s', out) \<Longrightarrow>
      Q op_id b e s (s', CardToRouter (OperationCompleted op_id b e) # out)"
  shows "P s (start_current_task s)" and "Q op_id b e s (finish_current_task op_id b e s)"
proof (induction s and op_id b e s rule: start_current_task_finish_current_task.induct)
  case (1 s)
  show ?case
  proof (cases "ca_current_task s")
    case None
    then show ?thesis using none by (simp add: start_none)
  next
    case (Some t)
    show ?thesis
    proof (cases t)
      case (TaskCharge op)
      show ?thesis
        by (rule start_charge [OF Some [unfolded TaskCharge]])
          (use 1 ask refuse Some TaskCharge in auto)
    next
      case (TaskLimitChange i l)
      show ?thesis
        by (rule start_limit [OF Some [unfolded TaskLimitChange]])
          (use 1 limit limit_refused Some TaskLimitChange in auto)
    qed
  qed
next
  case (2 op_id b e s)
  show ?case
  proof (cases "ca_queue s")
    case Nil
    with idle show ?thesis by (simp add: finish_cases)
  next
    case (Cons t ts)
    have "P (s\<lparr>ca_queue := ts, ca_current_task := Some t\<rparr>)
        (start_current_task (s\<lparr>ca_queue := ts, ca_current_task := Some t\<rparr>))"
      using 2 Cons by simp
    with more [OF Cons] show ?thesis
      by (simp add: finish_cases(2) [OF Cons])
  qed
qed

section \<open>First in, first out\<close>

fun task_op_id :: "card_task \<Rightarrow> u32" where
  "task_op_id (TaskCharge op) = co_op_id op"
| "task_op_id (TaskLimitChange op_id l) = op_id"

text \<open>The operations a card has taken and not completed, in order.\<close>

definition pending_ops :: "card_actor \<Rightarrow> u32 list" where
  "pending_ops self =
     (case ca_current_task self of None \<Rightarrow> [] | Some t \<Rightarrow> [task_op_id t]) @
     map task_op_id (ca_queue self)"

fun completed_op :: "card_output \<Rightarrow> u32 list" where
  "completed_op (CardToRouter (OperationCompleted op_id success e)) = [op_id]"
| "completed_op out = []"

definition completed_ops :: "card_output list \<Rightarrow> u32 list" where
  "completed_ops outs = concat (map completed_op outs)"

lemma completed_ops_simps [simp]:
  "completed_ops [] = []"
  "completed_ops (out # outs) = completed_op out @ completed_ops outs"
  "completed_ops (outs @ outs') = completed_ops outs @ completed_ops outs'"
  by (simp_all add: completed_ops_def)

text \<open>A card at rest has no task and nothing queued, or a charge that waits for its account.\<close>

fun awaits_reply :: "card_task \<Rightarrow> bool" where
  "awaits_reply (TaskCharge op) = True"
| "awaits_reply (TaskLimitChange op_id l) = False"

definition card_settled :: "card_actor \<Rightarrow> bool" where
  "card_settled self \<longleftrightarrow>
     (case ca_current_task self of None \<Rightarrow> ca_queue self = [] | Some t \<Rightarrow> awaits_reply t)"

lemma start_finish_fifo:
  "ca_current_task self = None \<and> ca_queue self \<noteq> [] \<or>
     completed_ops (snd (start_current_task self)) @ pending_ops (fst (start_current_task self)) =
       pending_ops self"
  "completed_ops (snd (finish_current_task op_id b e self)) @
     pending_ops (fst (finish_current_task op_id b e self)) =
     op_id # map task_op_id (ca_queue self)"
  by (rule start_finish_induct [where
      P = "\<lambda>s r. ca_current_task s = None \<and> ca_queue s \<noteq> [] \<or>
        completed_ops (snd r) @ pending_ops (fst r) = pending_ops s" and
      Q = "\<lambda>op_id b e s r. completed_ops (snd r) @ pending_ops (fst r) =
        op_id # map task_op_id (ca_queue s)"]; force simp: pending_ops_def)+

lemma start_finish_settled:
  "ca_current_task self = None \<and> ca_queue self \<noteq> [] \<or> card_settled (fst (start_current_task self))"
  "card_settled (fst (finish_current_task op_id b e self))"
  by (rule start_finish_induct [where
      P = "\<lambda>s r. ca_current_task s = None \<and> ca_queue s \<noteq> [] \<or> card_settled (fst r)" and
      Q = "\<lambda>op_id b e s r. card_settled (fst r)"]; force simp: card_settled_def)+

text \<open>The operations a message adds to the card; a replaced state drops the pending ones.\<close>

fun new_op :: "card_input \<Rightarrow> u32 list" where
  "new_op (CardCommand (ExecuteCharge op_id a c x off)) = [op_id]"
| "new_op (CardCommand (ExecuteLimitChange op_id l)) = [op_id]"
| "new_op m = []"

fun addressed_to :: "card_key \<Rightarrow> card_input \<Rightarrow> bool" where
  "addressed_to k (CardCommand (ExecuteCharge op_id a c x off)) \<longleftrightarrow> (a, c) = k"
| "addressed_to k (CardCommand (QueryCardState op_id a r)) \<longleftrightarrow> a = fst k"
| "addressed_to k m \<longleftrightarrow> True"

fun replaces_state :: "card_input \<Rightarrow> bool" where
  "replaces_state (CardCommand (CardReplaceState l x)) = True"
| "replaces_state m = False"

lemma start_finish_key:
  "own_key (fst (start_current_task self)) = own_key self"
  "own_key (fst (finish_current_task op_id b e self)) = own_key self"
  by (rule start_finish_induct [where P = "\<lambda>s r. own_key (fst r) = own_key s" and
      Q = "\<lambda>op_id b e s r. own_key (fst r) = own_key s"]; simp add: own_key_def)+

lemma own_key_updates [simp]:
  "own_key (s\<lparr>ca_consumed := x\<rparr>) = own_key s" "own_key (s\<lparr>ca_limit := l\<rparr>) = own_key s"
  "own_key (s\<lparr>ca_queue := q\<rparr>) = own_key s" "own_key (s\<lparr>ca_current_task := t\<rparr>) = own_key s"
  by (simp_all add: own_key_def)

lemma submit_task_key: "own_key (fst (submit_task t self)) = own_key self"
  by (simp add: submit_task_def start_finish_key)

lemma card_handle_key: "own_key (fst (card_handle m self)) = own_key self"
proof (cases m)
  case (CardCommand msg)
  then show ?thesis by (cases msg) (auto simp: submit_task_key)
next
  case (CardChargeReply reply)
  then show ?thesis
    by (auto simp: card_handle_reply_def start_finish_key split: option.split card_task.split)
qed

lemma consumed_update [simp]:
  "card_settled (s\<lparr>ca_consumed := x\<rparr>) = card_settled s"
  "pending_ops (s\<lparr>ca_consumed := x\<rparr>) = pending_ops s"
  by (simp_all add: card_settled_def pending_ops_def split: option.split)

lemma card_settled_idle [simp]:
  "card_settled (s\<lparr>ca_current_task := None, ca_queue := []\<rparr>)"
  by (simp add: card_settled_def)

lemma submit_task_fifo:
  assumes "card_settled self"
  shows "completed_ops (snd (submit_task t self)) @ pending_ops (fst (submit_task t self)) =
      pending_ops self @ [task_op_id t]"
    and "card_settled (fst (submit_task t self))"
proof -
  have "completed_ops (snd (submit_task t self)) @ pending_ops (fst (submit_task t self)) =
      pending_ops self @ [task_op_id t] \<and> card_settled (fst (submit_task t self))"
  proof (cases "ca_current_task self")
    case None
    with assms have "ca_queue self = []" by (simp add: card_settled_def)
    with None show ?thesis
      using start_finish_fifo(1) [of "self\<lparr>ca_current_task := Some t\<rparr>"]
        start_finish_settled(1) [of "self\<lparr>ca_current_task := Some t\<rparr>"]
      by (simp add: submit_task_def pending_ops_def)
  next
    case (Some u)
    with assms show ?thesis by (simp add: submit_task_def pending_ops_def card_settled_def)
  qed
  then show "completed_ops (snd (submit_task t self)) @ pending_ops (fst (submit_task t self)) =
      pending_ops self @ [task_op_id t]" and "card_settled (fst (submit_task t self))" by simp_all
qed

lemma card_handle_fifo:
  assumes "card_settled self" and "addressed_to (own_key self) m"
  shows "card_settled (fst (card_handle m self))"
    and "\<not> replaces_state m \<Longrightarrow>
      completed_ops (snd (card_handle m self)) @ pending_ops (fst (card_handle m self)) =
      pending_ops self @ new_op m"
proof -
  have "card_settled (fst (card_handle m self)) \<and> (\<not> replaces_state m \<longrightarrow>
      completed_ops (snd (card_handle m self)) @ pending_ops (fst (card_handle m self)) =
      pending_ops self @ new_op m)"
  proof (cases m)
    case (CardCommand msg)
    with assms submit_task_fifo [OF assms(1)] show ?thesis
      by (cases msg) (simp_all add: own_key_def)
  next
    case (CardChargeReply reply)
    show ?thesis
    proof (cases "\<exists>op. ca_current_task self = Some (TaskCharge op) \<and> co_op_id op = re_op_id reply")
      case True
      then have "pending_ops self = re_op_id reply # map task_op_id (ca_queue self)"
        by (auto simp: pending_ops_def)
      with True CardChargeReply show ?thesis
        by (auto simp: card_handle_reply_def start_finish_fifo(2) start_finish_settled(2))
    next
      case False
      with CardChargeReply assms(1) show ?thesis
        by (auto simp: card_handle_reply_def split: option.split card_task.split)
    qed
  qed
  then show "card_settled (fst (card_handle m self))"
    and "\<not> replaces_state m \<Longrightarrow>
      completed_ops (snd (card_handle m self)) @ pending_ops (fst (card_handle m self)) =
      pending_ops self @ new_op m" by simp_all
qed

lemma card_settled_run:
  "card_settled self \<Longrightarrow> list_all (addressed_to (own_key self)) ms \<Longrightarrow>
   list_all (\<lambda>m. \<not> replaces_state m) ms \<Longrightarrow>
   card_settled (fst (actor_run card_handle ms self)) \<and>
   completed_ops (snd (actor_run card_handle ms self)) @
     pending_ops (fst (actor_run card_handle ms self)) = pending_ops self @ concat (map new_op ms)"
proof (induction ms arbitrary: self)
  case (Cons m ms)
  from Cons.prems have a: "addressed_to (own_key self) m" "\<not> replaces_state m" by simp_all
  note step = card_handle_fifo [OF Cons.prems(1) a(1)]
  note IH = Cons.IH [OF step(1)]
  from IH Cons.prems step(2) [OF a(2)] show ?case
    by (simp add: actor_run_Cons card_handle_key del: actor_run.simps)
qed simp



section \<open>Well-formed messages\<close>

fun card_output_ok :: "card_output \<Rightarrow> bool" where
  "card_output_ok (CardToRouter m) = outcome_consistent m"
| "card_output_ok (CardToAccount m) = True"

fun card_input_ok :: "card_input \<Rightarrow> bool" where
  "card_input_ok (CardChargeReply r) \<longleftrightarrow> re_success r = (re_error r = None)"
| "card_input_ok (CardCommand m) \<longleftrightarrow> True"

lemma start_finish_output:
  "list_all card_output_ok (snd (start_current_task self))"
  "b = (e = None) \<longrightarrow> list_all card_output_ok (snd (finish_current_task op_id b e self))"
  by (rule start_finish_induct [where P = "\<lambda>s r. list_all card_output_ok (snd r)" and
      Q = "\<lambda>op_id b e s r. b = (e = None) \<longrightarrow> list_all card_output_ok (snd r)"]; simp)+

lemma card_output_consistent:
  assumes "card_input_ok m"
  shows "list_all card_output_ok (snd (card_handle m self))"
proof (cases m)
  case (CardCommand msg)
  then show ?thesis by (cases msg) (auto simp: submit_task_def start_finish_output)
next
  case (CardChargeReply reply)
  with assms show ?thesis
    by (auto simp: card_handle_reply_def start_finish_output split: option.split card_task.split)
qed

interpretation card_replies: actor card_handle "\<lambda>self. True" card_input_ok card_output_ok
  by unfold_locales (simp_all add: card_output_consistent)

section \<open>The card limit\<close>

text \<open>The tasks that go through the check.\<close>

fun task_checked :: "card_task \<Rightarrow> bool" where
  "task_checked (TaskCharge op) \<longleftrightarrow> \<not> co_from_offline_station op \<and> 0 \<le> co_amount op"
| "task_checked (TaskLimitChange op_id l) \<longleftrightarrow> True"

text \<open>
  The charge that waits for the account still fits the limit when the reply comes: nothing
  raises the consumption or changes the limit in the meantime.
\<close>

definition card_within_limit :: "card_actor \<Rightarrow> bool" where
  "card_within_limit self \<longleftrightarrow> within_limit (ca_limit self) (ca_consumed self) \<and>
     list_all task_checked (ca_queue self) \<and>
     (\<forall>op. ca_current_task self = Some (TaskCharge op) \<longrightarrow> task_checked (TaskCharge op) \<and>
        within_limit (ca_limit self) (ca_consumed self + co_amount op)) \<and>
     card_settled self"

fun card_checked :: "card_input \<Rightarrow> bool" where
  "card_checked (CardCommand (ExecuteCharge op_id a c amount off)) \<longleftrightarrow> \<not> off \<and> 0 \<le> amount"
| "card_checked (CardCommand (CardReplaceState l x)) \<longleftrightarrow> within_limit l x"
| "card_checked m \<longleftrightarrow> True"

lemma check_charge_limit_Ok:
  "check_charge_limit x self = Ok () \<longleftrightarrow>
     (case ca_limit self of None \<Rightarrow> True | Some l \<Rightarrow> \<not> l < ca_consumed self + x)"
  by (simp add: check_charge_limit_def split: option.split)

lemma can_set_new_limit_Ok:
  "can_set_new_limit l self = Ok () \<longleftrightarrow>
     (case l of None \<Rightarrow> True | Some m \<Rightarrow> ca_consumed self \<le> m)"
  by (simp add: can_set_new_limit_def split: option.split)

definition ready_to_start :: "card_actor \<Rightarrow> bool" where
  "ready_to_start self \<longleftrightarrow> within_limit (ca_limit self) (ca_consumed self) \<and>
     list_all task_checked (ca_queue self) \<and>
     (case ca_current_task self of None \<Rightarrow> ca_queue self = [] | Some t \<Rightarrow> task_checked t)"

definition ready_to_finish :: "card_actor \<Rightarrow> bool" where
  "ready_to_finish self \<longleftrightarrow> within_limit (ca_limit self) (ca_consumed self) \<and>
     list_all task_checked (ca_queue self)"

lemma asked_within:
  assumes "ca_current_task s = Some (TaskCharge op)" "ready_to_start s"
    and "co_from_offline_station op \<or> check_charge_limit (co_amount op) s = Ok ()"
  shows "card_within_limit s"
proof -
  from assms have "within_limit (ca_limit s) (ca_consumed s)" "0 \<le> co_amount op"
    "case ca_limit s of None \<Rightarrow> True | Some m \<Rightarrow> \<not> m < ca_consumed s + co_amount op"
    by (auto simp: ready_to_start_def check_charge_limit_Ok)
  from within_limit_add [OF this] assms(1,2) show ?thesis
    by (simp add: card_within_limit_def ready_to_start_def card_settled_def)
qed

lemma limit_changed_ready:
  assumes "ca_current_task s = Some (TaskLimitChange op_id l)" "ready_to_start s"
    and "can_set_new_limit l s = Ok ()"
  shows "ready_to_finish (s\<lparr>ca_limit := l\<rparr>)"
  using assms within_limit_new [of "ca_limit s" "ca_consumed s" l]
  by (simp add: ready_to_start_def ready_to_finish_def can_set_new_limit_Ok)

lemma ready_simps:
  "ready_to_start s \<Longrightarrow> ready_to_finish s"
  "ready_to_start s \<Longrightarrow> ca_current_task s = None \<Longrightarrow> card_within_limit s"
  "ready_to_finish s \<Longrightarrow> ca_queue s = [] \<Longrightarrow> card_within_limit (s\<lparr>ca_current_task := None\<rparr>)"
  "ready_to_finish s \<Longrightarrow> ca_queue s = t # ts \<Longrightarrow>
     ready_to_start (s\<lparr>ca_queue := ts, ca_current_task := Some t\<rparr>)"
  by (simp_all add: ready_to_start_def ready_to_finish_def card_within_limit_def card_settled_def)

lemma start_finish_within:
  "ready_to_start self \<longrightarrow> card_within_limit (fst (start_current_task self))"
  "ready_to_finish self \<longrightarrow> card_within_limit (fst (finish_current_task op_id b e self))"
  by (rule start_finish_induct [where
      P = "\<lambda>s r. ready_to_start s \<longrightarrow> card_within_limit (fst r)" and
      Q = "\<lambda>op_id b e s r. ready_to_finish s \<longrightarrow> card_within_limit (fst r)"];
      auto intro: asked_within limit_changed_ready simp: ready_simps)+

lemma submit_task_within:
  "card_within_limit self \<Longrightarrow> task_checked t \<Longrightarrow> card_within_limit (fst (submit_task t self))"
  using start_finish_within(1) [of "self\<lparr>ca_current_task := Some t\<rparr>"]
  by (auto simp: submit_task_def card_within_limit_def card_settled_def ready_to_start_def
      split: option.splits)

lemma within_limit_nonneg: "within_limit l c \<Longrightarrow> 0 \<le> c"
  by (simp add: within_limit_def)

lemma within_limit_reset_add:
  assumes "within_limit l (c + x)" and "0 \<le> c" and "0 \<le> x"
  shows "within_limit l (0 + x)"
proof -
  have "0 + x \<le> c + x"
    using f32_add_mono [of 0 c x] assms(2,3) f32_add_nonneg(1) [of c x] f32_add_nonneg(1) [of 0 x]
    by (simp add: f32_add_comm)
  then show ?thesis
    using assms f32_add_nonneg(3) [of 0 x]
    by (auto simp: within_limit_def split: option.splits intro: f32_le_trans)
qed

lemma card_within_limit_step:
  assumes "card_within_limit self" and "card_checked m"
  shows "card_within_limit (fst (card_handle m self))"
proof (cases m)
  case (CardCommand msg)
  show ?thesis
  proof (cases msg)
    case (QueryCardState op_id a reset)
    then show ?thesis
      using CardCommand assms
      by (auto simp: card_within_limit_def intro: within_limit_reset
          dest: within_limit_nonneg intro!: within_limit_reset_add [of _ "ca_consumed self"])
  next
    case (CardReplaceState l x)
    then show ?thesis
      using CardCommand assms by (simp add: card_within_limit_def)
  qed (use CardCommand assms submit_task_within in auto)
next
  case (CardChargeReply reply)
  with assms(1) show ?thesis
    using start_finish_within(2)
    by (auto simp: card_handle_reply_def card_within_limit_def [of self] ready_to_finish_def
        split: option.split card_task.split)
qed

interpretation card_limit: actor card_handle card_within_limit "\<lambda>m. card_checked m \<and> card_input_ok m"
  card_output_ok
  by unfold_locales (simp_all add: card_within_limit_step card_output_consistent)

text \<open>C14: A card that only takes checked messages never exceeds its limit, although the check is
  made before the account is asked and the charge is applied when the account has replied: in
  between neither the limit nor the consumption can grow past it.\<close>

theorem card_never_exceeds_limit:
  assumes "list_all card_checked ms" and "list_all card_input_ok ms"
    and "self = fst (actor_run card_handle ms (card_new card_id account_id))"
  shows "0 \<le> ca_consumed self \<and> (\<forall>l. ca_limit self = Some l \<longrightarrow> ca_consumed self \<le> l)"
proof -
  have "card_within_limit (card_new card_id account_id)"
    by (simp add: card_within_limit_def card_new_def within_limit_def card_settled_def)
  then have "card_within_limit self"
    using assms card_limit.run_inv by (simp add: list_all_iff)
  then show ?thesis by (auto simp: card_within_limit_def within_limit_def)
qed

theorem card_never_exceeds_limit_witness:
  "0 \<le> ca_consumed (fst (actor_run card_handle
     [CardCommand (ExecuteLimitChange 1 (Some f32_one)),
      CardCommand (ExecuteCharge 2 3 5 f32_one False),
      CardChargeReply \<lparr>re_op_id = 2, re_success = True, re_error = None\<rparr>] (card_new 5 3)))"
  using card_never_exceeds_limit [of "[CardCommand (ExecuteLimitChange 1 (Some f32_one)),
      CardCommand (ExecuteCharge 2 3 5 f32_one False),
      CardChargeReply \<lparr>re_op_id = 2, re_success = True, re_error = None\<rparr>]" _ 5 3, OF _ _ refl]
  by (simp del: actor_run.simps)

section \<open>Waiting for the account\<close>

definition awaiting :: "card_actor \<Rightarrow> u32 list" where
  "awaiting self = (case ca_current_task self of Some (TaskCharge op) \<Rightarrow> [co_op_id op] | _ \<Rightarrow> [])"

text \<open>The charges asked of the account, with the card to reply to.\<close>

fun asked :: "card_output list \<Rightarrow> (u32 \<times> card_key) list" where
  "asked [] = []"
| "asked (CardToAccount (ApplyChargeFromCard op_id x c off k) # outs) = (op_id, k) # asked outs"
| "asked (out # outs) = asked outs"

lemma start_finish_asked:
  "asked (snd (start_current_task self)) =
     map (\<lambda>op. (op, own_key self)) (awaiting (fst (start_current_task self)))"
  "asked (snd (finish_current_task op_id b e self)) =
     map (\<lambda>op. (op, own_key self)) (awaiting (fst (finish_current_task op_id b e self)))"
  by (rule start_finish_induct [where P = "\<lambda>s r. asked (snd r) =
          map (\<lambda>op. (op, own_key s)) (awaiting (fst r))" and
      Q = "\<lambda>op_id b e s r. asked (snd r) = map (\<lambda>op. (op, own_key s)) (awaiting (fst r))"];
      force simp: awaiting_def)+

lemma awaiting_consumed [simp]: "awaiting (s\<lparr>ca_consumed := x\<rparr>) = awaiting s"
  by (simp add: awaiting_def)

text \<open>
  A charge the card waits for after a message was either waited for before, and the message is
  not its reply, or it has just been asked of the account.
\<close>

lemma card_handle_awaiting:
  assumes "card_settled self" and "op_id \<in> set (awaiting (fst (card_handle m self)))"
  shows "op_id \<in> set (awaiting self) \<and> (\<forall>r. m = CardChargeReply r \<longrightarrow> re_op_id r \<noteq> op_id) \<or>
    (op_id, own_key self) \<in> set (asked (snd (card_handle m self)))"
proof -
  have submit: "op_id \<in> set (awaiting self) \<or> (op_id, own_key self) \<in> set (asked (snd (submit_task t self)))"
    if "op_id \<in> set (awaiting (fst (submit_task t self)))" for t
  proof (cases "ca_current_task self")
    case None
    then show ?thesis
      using that start_finish_asked(1) [of "self\<lparr>ca_current_task := Some t\<rparr>"]
      by (auto simp: submit_task_def)
  next
    case (Some u)
    with that show ?thesis by (simp add: submit_task_def awaiting_def)
  qed
  show ?thesis
  proof (cases m)
    case (CardCommand msg)
    show ?thesis
    proof (cases msg)
      case (CardReplaceState l x)
      with CardCommand assms(2) show ?thesis by (simp add: awaiting_def)
    qed (use CardCommand assms(2) submit in \<open>auto split: if_splits\<close>)
  next
    case (CardChargeReply reply)
    show ?thesis
    proof (cases "\<exists>op. ca_current_task self = Some (TaskCharge op) \<and> co_op_id op = re_op_id reply")
      case True
      then show ?thesis
        using assms(2) CardChargeReply
        by (auto simp: card_handle_reply_def start_finish_asked(2))
    next
      case False
      with CardChargeReply assms(2) show ?thesis
        by (auto simp: card_handle_reply_def awaiting_def split: option.splits card_task.splits if_splits)
    qed
  qed
qed

end
