(* ===== verification/ActorRouter.thy ===== *)
theory ActorRouter
  imports CardActor
begin

text \<open>
  \<open>ActorRouter\<close> (\<open>server/src/node/actors/actor_router.rs\<close>): the owner of the account and card
  actors, which it creates on demand. An address is the key of its actor. The event channel to
  the node holds 128 events (\<open>database.rs\<close>); \<open>try_send\<close> drops the event when it is full or
  closed.
\<close>

record pending_database_snapshot =
  pd_addr :: socket_addr
  pd_expected_accounts :: nat
  pd_expected_cards :: nat
  pd_accounts :: "account_snapshot list"
  pd_cards :: "card_snapshot list"

record actor_router =
  rt_accounts :: "(u64, u64) hash_map"
  rt_cards :: "(card_key, card_key) hash_map"
  rt_operations :: "(u32, operation) hash_map"
  rt_pending_db_snapshots :: "(u32, pending_database_snapshot) hash_map"
  rt_events :: "actor_event list"
  rt_events_open :: bool

datatype router_output =
    SpawnAccount u64
  | SpawnCard card_key
  | TellAccount u64 account_msg
  | TellCard card_key card_msg

datatype router_input = RouterCommand router_cmd | RouterInternal router_internal_msg

definition EVENT_CHANNEL_CAPACITY :: nat where "EVENT_CHANNEL_CAPACITY = 128"

definition router_new :: actor_router where
  "router_new =
     \<lparr>rt_accounts = [], rt_cards = [], rt_operations = [], rt_pending_db_snapshots = [],
      rt_events = [], rt_events_open = True\<rparr>"

definition emit :: "actor_event \<Rightarrow> actor_router \<Rightarrow> actor_router" where
  "emit ev rt =
     (if rt_events_open rt \<and> length (rt_events rt) < EVENT_CHANNEL_CAPACITY
      then rt\<lparr>rt_events := rt_events rt @ [ev]\<rparr> else rt)"

definition get_or_create_account :: "u64 \<Rightarrow> actor_router \<Rightarrow>
    u64 \<times> actor_router \<times> router_output list" where
  "get_or_create_account account_id rt =
     (case hm_get (rt_accounts rt) account_id of
        Some a \<Rightarrow> (a, rt, [])
      | None \<Rightarrow>
          (account_id, rt\<lparr>rt_accounts := hm_insert account_id account_id (rt_accounts rt)\<rparr>,
           [SpawnAccount account_id]))"

definition get_or_create_card :: "u64 \<Rightarrow> u64 \<Rightarrow> actor_router \<Rightarrow>
    card_key \<times> actor_router \<times> router_output list" where
  "get_or_create_card account_id card_id rt =
     (let key = (account_id, card_id) in
      case hm_get (rt_cards rt) key of
        Some c \<Rightarrow> (c, rt, [])
      | None \<Rightarrow>
          (let (account_addr, rt', out) = get_or_create_account account_id rt
           in (key, rt'\<lparr>rt_cards := hm_insert key key (rt_cards rt')\<rparr>, out @ [SpawnCard key])))"

definition try_complete_db_snapshot :: "u32 \<Rightarrow> actor_router \<Rightarrow> actor_router" where
  "try_complete_db_snapshot op_id rt =
     (case hm_get (rt_pending_db_snapshots rt) op_id of
        None \<Rightarrow> rt
      | Some p \<Rightarrow>
          if length (pd_accounts p) = pd_expected_accounts p \<and>
             length (pd_cards p) = pd_expected_cards p
          then
            (let rt' = rt\<lparr>rt_pending_db_snapshots :=
                          hm_remove op_id (rt_pending_db_snapshots rt)\<rparr>
             in case hm_get (rt_operations rt') op_id of
                  None \<Rightarrow> emit ActorDebug rt'
                | Some operation \<Rightarrow>
                    emit (OperationResult op_id operation
                      (ResDatabaseSnapshot \<lparr>ds_addr = pd_addr p, ds_accounts = pd_accounts p,
                         ds_cards = pd_cards p\<rparr>) True None) rt')
          else rt)"

section \<open>Commands of the node\<close>

definition execute_charge :: "u32 \<Rightarrow> u64 \<Rightarrow> u64 \<Rightarrow> f32 \<Rightarrow> bool \<Rightarrow> actor_router \<Rightarrow>
    actor_router \<times> router_output list" where
  "execute_charge op_id account_id card_id amount from_offline_station rt =
     (let (c, rt', out) = get_or_create_card account_id card_id rt
      in (rt', out @ [TellCard c
            (ExecuteCharge op_id account_id card_id amount from_offline_station)]))"

definition execute_limit_account :: "u32 \<Rightarrow> u64 \<Rightarrow> f32 option \<Rightarrow> actor_router \<Rightarrow>
    actor_router \<times> router_output list" where
  "execute_limit_account op_id account_id new_limit rt =
     (let (acc, rt', out) = get_or_create_account account_id rt
      in (rt', out @ [TellAccount acc (ApplyAccountLimit op_id new_limit)]))"

definition execute_limit_card :: "u32 \<Rightarrow> u64 \<Rightarrow> u64 \<Rightarrow> f32 option \<Rightarrow> actor_router \<Rightarrow>
    actor_router \<times> router_output list" where
  "execute_limit_card op_id account_id card_id new_limit rt =
     (let (c, rt', out) = get_or_create_card account_id card_id rt
      in (rt', out @ [TellCard c (ExecuteLimitChange op_id new_limit)]))"

definition cards_of_account :: "u64 \<Rightarrow> actor_router \<Rightarrow> u64 list" where
  "cards_of_account account_id rt = map snd (filter (\<lambda>k. fst k = account_id) (hm_keys (rt_cards rt)))"

text \<open>The card addresses looked up again by key, with the query sent to each one found.\<close>

fun query_cards :: "u32 \<Rightarrow> u64 \<Rightarrow> bool \<Rightarrow> (card_key, card_key) hash_map \<Rightarrow> u64 list \<Rightarrow>
    router_output list" where
  "query_cards op_id account_id reset cards [] = []"
| "query_cards op_id account_id reset cards (card_id # card_ids) =
     (case hm_get cards (account_id, card_id) of
        Some c \<Rightarrow> [TellCard c (QueryCardState op_id account_id reset)]
      | None \<Rightarrow> []) @ query_cards op_id account_id reset cards card_ids"

definition execute_account_query :: "u32 \<Rightarrow> u64 \<Rightarrow> actor_router \<Rightarrow>
    actor_router \<times> router_output list" where
  "execute_account_query op_id account_id rt =
     (let (acc, rt', out) = get_or_create_account account_id rt;
          card_ids = cards_of_account account_id rt'
      in (rt', out @ [TellAccount acc (StartAccountQuery op_id (length card_ids))] @
            query_cards op_id account_id False (rt_cards rt') card_ids))"

definition execute_bill :: "u32 \<Rightarrow> u64 \<Rightarrow> actor_router \<Rightarrow> actor_router \<times> router_output list"
  where
  "execute_bill op_id account_id rt =
     (let (acc, rt', out) = get_or_create_account account_id rt;
          card_ids = cards_of_account account_id rt'
      in (rt', out @ [TellAccount acc (StartAccountBill op_id (length card_ids))] @
            query_cards op_id account_id True (rt_cards rt') card_ids))"

definition execute_get_database :: "u32 \<Rightarrow> socket_addr \<Rightarrow> actor_router \<Rightarrow>
    actor_router \<times> router_output list" where
  "execute_get_database op_id addr rt =
     (let expected_accounts = hm_len (rt_accounts rt); expected_cards = hm_len (rt_cards rt) in
      if expected_accounts = 0 \<and> expected_cards = 0 then
        (emit (OperationResult op_id (GetDatabase addr)
           (ResDatabaseSnapshot \<lparr>ds_addr = addr, ds_accounts = [], ds_cards = []\<rparr>) True None) rt, [])
      else
        (rt\<lparr>rt_pending_db_snapshots := hm_insert op_id
              \<lparr>pd_addr = addr, pd_expected_accounts = expected_accounts,
               pd_expected_cards = expected_cards, pd_accounts = [], pd_cards = []\<rparr>
              (rt_pending_db_snapshots rt)\<rparr>,
         map (\<lambda>a. TellAccount a (AccountGetSnapshot op_id)) (hm_values (rt_accounts rt)) @
         map (\<lambda>c. TellCard c (CardGetSnapshot op_id)) (hm_values (rt_cards rt))))"

fun replace_accounts :: "account_snapshot list \<Rightarrow> actor_router \<Rightarrow>
    actor_router \<times> router_output list" where
  "replace_accounts [] rt = (rt, [])"
| "replace_accounts (s # ss) rt =
     (let (acc, rt', out) = get_or_create_account (as_account_id s) rt;
          (rt'', out') = replace_accounts ss rt'
      in (rt'', out @ [TellAccount acc (AccountReplaceState (as_limit s) (as_consumed s))] @ out'))"

fun replace_cards :: "card_snapshot list \<Rightarrow> actor_router \<Rightarrow> actor_router \<times> router_output list"
  where
  "replace_cards [] rt = (rt, [])"
| "replace_cards (s # ss) rt =
     (let (c, rt', out) = get_or_create_card (cs_account_id s) (cs_card_id s) rt;
          (rt'', out') = replace_cards ss rt'
      in (rt'', out @ [TellCard c (CardReplaceState (cs_limit s) (cs_consumed s))] @ out'))"

definition execute_replace_database :: "u32 \<Rightarrow> database_snapshot \<Rightarrow> actor_router \<Rightarrow>
    actor_router \<times> router_output list" where
  "execute_replace_database op_id snapshot rt =
     (let (rt1, out1) = replace_accounts (ds_accounts snapshot) rt;
          (rt2, out2) = replace_cards (ds_cards snapshot) rt1
      in (emit (OperationResult op_id (ReplaceDatabase snapshot) ResReplaceDatabase True None) rt2,
          out1 @ out2))"

fun execute_operation :: "u32 \<Rightarrow> operation \<Rightarrow> actor_router \<Rightarrow> actor_router \<times> router_output list"
  where
  "execute_operation op_id (Charge account_id card_id amount off) rt =
     execute_charge op_id account_id card_id amount off rt"
| "execute_operation op_id (LimitAccount account_id new_limit) rt =
     execute_limit_account op_id account_id new_limit rt"
| "execute_operation op_id (LimitCard account_id card_id new_limit) rt =
     execute_limit_card op_id account_id card_id new_limit rt"
| "execute_operation op_id (AccountQuery account_id) rt = execute_account_query op_id account_id rt"
| "execute_operation op_id (Bill account_id period) rt = execute_bill op_id account_id rt"
| "execute_operation op_id (GetDatabase addr) rt = execute_get_database op_id addr rt"
| "execute_operation op_id (ReplaceDatabase snapshot) rt =
     execute_replace_database op_id snapshot rt"

fun router_handle_cmd :: "router_cmd \<Rightarrow> actor_router \<Rightarrow> actor_router \<times> router_output list" where
  "router_handle_cmd (Execute op_id operation) rt =
     execute_operation op_id operation
       (rt\<lparr>rt_operations := hm_insert op_id operation (rt_operations rt)\<rparr>)"
| "router_handle_cmd GetLog rt = (emit ActorDebug rt, [])"

section \<open>Messages of the actors\<close>

text \<open>\<open>error.clone().expect(..)\<close>: a failure without its error panics.\<close>

definition charge_result_of :: "bool \<Rightarrow> verify_error option \<Rightarrow> charge_result app_result" where
  "charge_result_of success error =
     (if success then Ok ChargeOk
      else (case error of Some e \<Rightarrow> Ok (ChargeFailed e) | None \<Rightarrow> Panicked))"

definition limit_result_of :: "bool \<Rightarrow> verify_error option \<Rightarrow> limit_result app_result" where
  "limit_result_of success error =
     (if success then Ok LimitOk
      else (case error of Some e \<Rightarrow> Ok (LimitFailed e) | None \<Rightarrow> Panicked))"

text \<open>The last four are fallbacks for completions that no actor sends.\<close>

fun completion_result :: "operation \<Rightarrow> bool \<Rightarrow> verify_error option \<Rightarrow> operation_result app_result"
  where
  "completion_result (Charge a c x off) success error =
     and_then (charge_result_of success error) (\<lambda>r. Ok (ResCharge r))"
| "completion_result (LimitAccount a l) success error =
     and_then (limit_result_of success error) (\<lambda>r. Ok (ResLimitAccount r))"
| "completion_result (LimitCard a c l) success error =
     and_then (limit_result_of success error) (\<lambda>r. Ok (ResLimitCard r))"
| "completion_result (AccountQuery a) success error =
     Ok (ResAccountQuery \<lparr>aq_account_id = 0, aq_total_spent = 0, aq_per_card_spent = []\<rparr>)"
| "completion_result (Bill a p) success error =
     Ok (ResAccountQuery \<lparr>aq_account_id = 0, aq_total_spent = 0, aq_per_card_spent = []\<rparr>)"
| "completion_result (GetDatabase addr) success error = Ok ResReplaceDatabase"
| "completion_result (ReplaceDatabase s) success error = Ok ResReplaceDatabase"

definition handle_operation_completed :: "u32 \<Rightarrow> bool \<Rightarrow> verify_error option \<Rightarrow> actor_router \<Rightarrow>
    actor_router app_result" where
  "handle_operation_completed op_id success error rt =
     (case hm_get (rt_operations rt) op_id of
        None \<Rightarrow> Ok (emit ActorDebug rt)
      | Some operation \<Rightarrow>
          and_then (completion_result operation success error) (\<lambda>result.
          Ok (emit (OperationResult op_id operation result success error) rt)))"

definition handle_account_query_completed :: "u32 \<Rightarrow> u64 \<Rightarrow> f32 \<Rightarrow> (u64 \<times> f32) list \<Rightarrow>
    actor_router \<Rightarrow> actor_router" where
  "handle_account_query_completed op_id account_id total_spent per_card_spent rt =
     (case hm_get (rt_operations rt) op_id of
        None \<Rightarrow> emit ActorDebug rt
      | Some operation \<Rightarrow>
          emit (OperationResult op_id operation
            (ResAccountQuery \<lparr>aq_account_id = account_id, aq_total_spent = total_spent,
               aq_per_card_spent = per_card_spent\<rparr>) True None) rt)"

definition handle_account_snapshot :: "u32 \<Rightarrow> account_snapshot \<Rightarrow> actor_router \<Rightarrow> actor_router"
  where
  "handle_account_snapshot op_id snapshot rt =
     (case hm_get (rt_pending_db_snapshots rt) op_id of
        Some p \<Rightarrow>
          try_complete_db_snapshot op_id (rt\<lparr>rt_pending_db_snapshots := hm_insert op_id
            (p\<lparr>pd_accounts := pd_accounts p @ [snapshot]\<rparr>) (rt_pending_db_snapshots rt)\<rparr>)
      | None \<Rightarrow> emit ActorDebug rt)"

definition handle_card_snapshot :: "u32 \<Rightarrow> card_snapshot \<Rightarrow> actor_router \<Rightarrow> actor_router" where
  "handle_card_snapshot op_id snapshot rt =
     (case hm_get (rt_pending_db_snapshots rt) op_id of
        Some p \<Rightarrow>
          try_complete_db_snapshot op_id (rt\<lparr>rt_pending_db_snapshots := hm_insert op_id
            (p\<lparr>pd_cards := pd_cards p @ [snapshot]\<rparr>) (rt_pending_db_snapshots rt)\<rparr>)
      | None \<Rightarrow> emit ActorDebug rt)"

fun router_handle_internal :: "router_internal_msg \<Rightarrow> actor_router \<Rightarrow> actor_router app_result"
  where
  "router_handle_internal (OperationCompleted op_id success error) rt =
     handle_operation_completed op_id success error rt"
| "router_handle_internal (AccountQueryCompleted op_id account_id total_spent per_card) rt =
     Ok (handle_account_query_completed op_id account_id total_spent per_card rt)"
| "router_handle_internal (AccountSnapshotCollected op_id snapshot) rt =
     Ok (handle_account_snapshot op_id snapshot rt)"
| "router_handle_internal (CardSnapshotCollected op_id snapshot) rt =
     Ok (handle_card_snapshot op_id snapshot rt)"
| "router_handle_internal RouterDebug rt = Ok (emit ActorDebug rt)"

fun router_handle :: "router_input \<Rightarrow> actor_router \<Rightarrow>
    (actor_router \<times> router_output list) app_result" where
  "router_handle (RouterCommand cmd) rt = Ok (router_handle_cmd cmd rt)"
| "router_handle (RouterInternal msg) rt =
     and_then (router_handle_internal msg rt) (\<lambda>rt'. Ok (rt', []))"

section \<open>The actors the router creates and addresses\<close>

text \<open>
  The router's tables map each key to the actor of that key, and every card has its account.
\<close>

definition router_keys_ok :: "actor_router \<Rightarrow> bool" where
  "router_keys_ok rt \<longleftrightarrow>
     (\<forall>a b. hm_get (rt_accounts rt) a = Some b \<longrightarrow> b = a) \<and>
     (\<forall>k c. hm_get (rt_cards rt) k = Some c \<longrightarrow> c = k \<and> hm_get (rt_accounts rt) (fst k) \<noteq> None)"

definition known_accounts :: "actor_router \<Rightarrow> u64 set" where
  "known_accounts rt = dom (hm_get (rt_accounts rt))"

definition known_cards :: "actor_router \<Rightarrow> card_key set" where
  "known_cards rt = dom (hm_get (rt_cards rt))"

text \<open>
  Reading a list of outputs against the actors that exist: an actor is created once, a card
  after its account, and a message goes to an actor that exists and is meant for it.
\<close>

fun well_routed :: "u64 set \<times> card_key set \<Rightarrow> router_output list \<Rightarrow>
    (u64 set \<times> card_key set) \<Rightarrow> bool" where
  "well_routed (A, C) [] AC \<longleftrightarrow> AC = (A, C)"
| "well_routed (A, C) (SpawnAccount a # outs) AC \<longleftrightarrow>
     a \<notin> A \<and> well_routed (insert a A, C) outs AC"
| "well_routed (A, C) (SpawnCard k # outs) AC \<longleftrightarrow>
     k \<notin> C \<and> fst k \<in> A \<and> well_routed (A, insert k C) outs AC"
| "well_routed (A, C) (TellAccount a m # outs) AC \<longleftrightarrow> a \<in> A \<and> well_routed (A, C) outs AC"
| "well_routed (A, C) (TellCard k m # outs) AC \<longleftrightarrow>
     k \<in> C \<and> addressed_to k (CardCommand m) \<and> well_routed (A, C) outs AC"

lemma well_routed_append:
  "well_routed AC outs AC' \<Longrightarrow> well_routed AC' outs' AC'' \<Longrightarrow> well_routed AC (outs @ outs') AC''"
proof (induction outs arbitrary: AC)
  case Nil
  then show ?case by (cases AC) simp
next
  case (Cons out outs)
  then show ?case by (cases AC; cases out) auto
qed

definition routes :: "actor_router \<Rightarrow> actor_router \<times> router_output list \<Rightarrow> bool" where
  "routes rt r \<longleftrightarrow> router_keys_ok (fst r) \<and>
     well_routed (known_accounts rt, known_cards rt) (snd r)
       (known_accounts (fst r), known_cards (fst r))"

lemma router_keys_card:
  "router_keys_ok rt \<Longrightarrow> hm_get (rt_cards rt) k = Some c \<Longrightarrow> c = k"
  unfolding router_keys_ok_def by blast

lemma routes_refl: "router_keys_ok rt \<Longrightarrow> routes rt (rt, [])"
  by (simp add: routes_def)

lemma get_or_create_account_routes:
  assumes "router_keys_ok rt" and "get_or_create_account a rt = (b, rt', out)"
  shows "b = a \<and> a \<in> known_accounts rt' \<and> routes rt (rt', out) \<and>
    rt_cards rt' = rt_cards rt \<and> known_accounts rt \<subseteq> known_accounts rt'"
proof (cases "hm_get (rt_accounts rt) a")
  case (Some b')
  with assms show ?thesis
    by (auto simp: get_or_create_account_def router_keys_ok_def routes_def known_accounts_def)
next
  case None
  then have "rt' = rt\<lparr>rt_accounts := hm_insert a a (rt_accounts rt)\<rparr>" "b = a" "out = [SpawnAccount a]"
    using assms(2) by (auto simp: get_or_create_account_def)
  then show ?thesis
    using assms(1) None
    by (auto simp: routes_def known_accounts_def known_cards_def router_keys_ok_def hm.get_insert
        hm.dom_insert domIff)
qed

lemma get_or_create_card_routes:
  assumes "router_keys_ok rt" and "get_or_create_card a c rt = (k, rt', out)"
  shows "k = (a, c) \<and> (a, c) \<in> known_cards rt' \<and> routes rt (rt', out)"
proof (cases "hm_get (rt_cards rt) (a, c)")
  case (Some k')
  with router_keys_card [OF assms(1)] have "k' = (a, c)" by blast
  with Some assms routes_refl show ?thesis
    by (auto simp: get_or_create_card_def known_cards_def)
next
  case None
  obtain b rt1 out1 where g: "get_or_create_account a rt = (b, rt1, out1)"
    by (metis prod_cases3)
  note acc = get_or_create_account_routes [OF assms(1) g]
  have r: "rt' = rt1\<lparr>rt_cards := hm_insert (a, c) (a, c) (rt_cards rt1)\<rparr>" "k = (a, c)"
      "out = out1 @ [SpawnCard (a, c)]"
    using assms(2) None g by (auto simp: get_or_create_card_def Let_def)
  have "known_accounts rt' = known_accounts rt1"
      "known_cards rt' = insert (a, c) (known_cards rt1)" "(a, c) \<notin> known_cards rt1"
    using r None acc by (auto simp: known_accounts_def known_cards_def hm.dom_insert domIff)
  then have "well_routed (known_accounts rt1, known_cards rt1) [SpawnCard (a, c)]
      (known_accounts rt', known_cards rt')"
    using acc by simp
  moreover have "router_keys_ok rt'"
    using acc r by (auto simp: routes_def router_keys_ok_def hm.get_insert known_accounts_def)
  moreover have "well_routed (known_accounts rt, known_cards rt) out1
      (known_accounts rt1, known_cards rt1)"
    using acc by (simp add: routes_def)
  ultimately have "routes rt (rt', out)"
    using r(3) well_routed_append by (auto simp only: routes_def fst_conv snd_conv)
  then show ?thesis using r by (simp add: known_cards_def domI)
qed

lemma routes_append:
  "routes rt (rt', out) \<Longrightarrow> routes rt' (rt'', out') \<Longrightarrow> routes rt (rt'', out @ out')"
  by (auto simp: routes_def intro: well_routed_append)

lemma routes_tell:
  "routes rt (rt', out) \<Longrightarrow>
     well_routed (known_accounts rt', known_cards rt') outs (known_accounts rt', known_cards rt') \<Longrightarrow>
     routes rt (rt', out @ outs)"
  by (auto simp: routes_def intro: well_routed_append)

lemma emit_keys [simp]:
  "rt_accounts (emit ev rt) = rt_accounts rt" "rt_cards (emit ev rt) = rt_cards rt"
  "rt_operations (emit ev rt) = rt_operations rt"
  "rt_pending_db_snapshots (emit ev rt) = rt_pending_db_snapshots rt"
  by (simp_all add: emit_def)

lemma same_keys:
  "rt_accounts rt' = rt_accounts rt \<Longrightarrow> rt_cards rt' = rt_cards rt \<Longrightarrow>
     router_keys_ok rt' = router_keys_ok rt \<and> known_accounts rt' = known_accounts rt \<and>
     known_cards rt' = known_cards rt"
  by (simp add: router_keys_ok_def known_accounts_def known_cards_def)

lemma routes_emit [simp]: "routes rt (emit ev rt', out) = routes rt (rt', out)"
  using same_keys [of "emit ev rt'" rt'] by (simp add: routes_def)

lemma query_cards_routed:
  "router_keys_ok rt \<Longrightarrow>
   well_routed (known_accounts rt, known_cards rt) (query_cards op_id a reset (rt_cards rt) ids)
     (known_accounts rt, known_cards rt)"
proof (induction ids)
  case (Cons i ids)
  show ?case
  proof (cases "hm_get (rt_cards rt) (a, i)")
    case (Some k)
    with router_keys_card [OF Cons.prems] have "k = (a, i)" by blast
    with Some Cons show ?thesis by (auto simp: known_cards_def)
  qed (use Cons in simp)
qed simp

lemma replace_accounts_routes:
  "router_keys_ok rt \<Longrightarrow> routes rt (replace_accounts ss rt)"
proof (induction ss arbitrary: rt)
  case Nil
  then show ?case by (simp add: routes_def)
next
  case (Cons s ss)
  obtain a rt1 out1 where g: "get_or_create_account (as_account_id s) rt = (a, rt1, out1)"
    by (metis prod_cases3)
  note acc = get_or_create_account_routes [OF Cons.prems g]
  obtain rt2 out2 where r: "replace_accounts ss rt1 = (rt2, out2)" by (rule prod.exhaust)
  have "routes rt1 (rt2, out2)" using Cons.IH [of rt1] acc r by (simp add: routes_def)
  moreover have "routes rt (rt1, out1 @ [TellAccount a (AccountReplaceState (as_limit s) (as_consumed s))])"
    using acc by (intro routes_tell) auto
  ultimately show ?case using g r routes_append by fastforce
qed

lemma replace_cards_routes: "router_keys_ok rt \<Longrightarrow> routes rt (replace_cards ss rt)"
proof (induction ss arbitrary: rt)
  case Nil
  then show ?case by (simp add: routes_def)
next
  case (Cons s ss)
  obtain k rt1 out1 where g: "get_or_create_card (cs_account_id s) (cs_card_id s) rt = (k, rt1, out1)"
    by (metis prod_cases3)
  note c = get_or_create_card_routes [OF Cons.prems g]
  obtain rt2 out2 where r: "replace_cards ss rt1 = (rt2, out2)" by (rule prod.exhaust)
  have "routes rt1 (rt2, out2)" using Cons.IH [of rt1] c r by (simp add: routes_def)
  moreover have "routes rt (rt1, out1 @ [TellCard k (CardReplaceState (cs_limit s) (cs_consumed s))])"
    using c by (intro routes_tell) auto
  ultimately show ?case using g r routes_append by fastforce
qed

fun told :: "u64 set \<Rightarrow> card_key set \<Rightarrow> router_output \<Rightarrow> bool" where
  "told A C (TellAccount a m) \<longleftrightarrow> a \<in> A"
| "told A C (TellCard k m) \<longleftrightarrow> k \<in> C \<and> addressed_to k (CardCommand m)"
| "told A C out \<longleftrightarrow> False"

lemma well_routed_all: "list_all (told A C) outs \<Longrightarrow> well_routed (A, C) outs (A, C)"
proof (induction outs)
  case (Cons out outs)
  then show ?case by (cases out) auto
qed simp

lemma execute_get_database_routes:
  assumes "router_keys_ok rt" "hm_wf (rt_accounts rt)" "hm_wf (rt_cards rt)"
  shows "routes rt (execute_get_database op_id addr rt)"
proof -
  have "a \<in> known_accounts rt" if "a \<in> set (hm_values (rt_accounts rt))" for a
  proof -
    from that obtain a' where "(a', a) \<in> set (rt_accounts rt)" by (auto simp: hm_values_def)
    then have "hm_get (rt_accounts rt) a' = Some a" using hm.entries_get [OF assms(2)] by blast
    with assms(1) show ?thesis by (auto simp: router_keys_ok_def known_accounts_def)
  qed
  then have "list_all (told (known_accounts rt) (known_cards rt))
      (map (\<lambda>a. TellAccount a (AccountGetSnapshot op_id)) (hm_values (rt_accounts rt)))"
    by (auto simp: list_all_iff)
  moreover have "k \<in> known_cards rt" if "k \<in> set (hm_values (rt_cards rt))" for k
  proof -
    from that obtain k' where "(k', k) \<in> set (rt_cards rt)"
      by (auto simp: hm_values_def simp del: split_paired_Ex)
    then have "hm_get (rt_cards rt) k' = Some k" using hm.entries_get [OF assms(3)] by blast
    with router_keys_card [OF assms(1) this] show ?thesis by (simp add: known_cards_def domI)
  qed
  then have "list_all (told (known_accounts rt) (known_cards rt))
      (map (\<lambda>c. TellCard c (CardGetSnapshot op_id)) (hm_values (rt_cards rt)))"
    by (auto simp: list_all_iff simp del: split_paired_All)
  ultimately have "well_routed (known_accounts rt, known_cards rt)
      (map (\<lambda>a. TellAccount a (AccountGetSnapshot op_id)) (hm_values (rt_accounts rt)) @
       map (\<lambda>c. TellCard c (CardGetSnapshot op_id)) (hm_values (rt_cards rt)))
      (known_accounts rt, known_cards rt)"
    by (intro well_routed_all) simp
  moreover have "routes rt (rt\<lparr>rt_pending_db_snapshots := p\<rparr>, out)" if
    "well_routed (known_accounts rt, known_cards rt) out (known_accounts rt, known_cards rt)" for p out
    using that assms(1) same_keys [of "rt\<lparr>rt_pending_db_snapshots := p\<rparr>" rt] by (simp add: routes_def)
  ultimately show ?thesis
    using assms(1) by (auto simp: execute_get_database_def Let_def routes_refl)
qed

lemma execute_query_routes:
  assumes "router_keys_ok rt"
  shows "routes rt (execute_account_query op_id a rt)" and "routes rt (execute_bill op_id a rt)"
proof -
  obtain b rt1 out1 where g: "get_or_create_account a rt = (b, rt1, out1)"
    by (metis prod_cases3)
  note acc = get_or_create_account_routes [OF assms g]
  have k: "router_keys_ok rt1" using acc by (simp add: routes_def)
  have "routes rt (rt1, out1 @ [TellAccount b m] @ query_cards op_id a r (rt_cards rt1) ids)" for m r ids
    using acc query_cards_routed [OF k] by (intro routes_tell) auto
  then show "routes rt (execute_account_query op_id a rt)" "routes rt (execute_bill op_id a rt)"
    using g by (simp_all add: execute_account_query_def execute_bill_def Let_def)
qed

lemma execute_replace_routes:
  assumes "router_keys_ok rt"
  shows "routes rt (execute_replace_database op_id d rt)"
proof -
  obtain rt1 out1 where 1: "replace_accounts (ds_accounts d) rt = (rt1, out1)" by (rule prod.exhaust)
  obtain rt2 out2 where 2: "replace_cards (ds_cards d) rt1 = (rt2, out2)" by (rule prod.exhaust)
  have "routes rt (rt1, out1)" using replace_accounts_routes [OF assms] 1 by metis
  moreover from this have "routes rt1 (rt2, out2)"
    using replace_cards_routes [of rt1] 2 by (metis routes_def fst_conv)
  ultimately show ?thesis using 1 2 routes_append by (simp add: execute_replace_database_def)
qed

lemma execute_operation_routes:
  assumes "router_keys_ok rt" "hm_wf (rt_accounts rt)" "hm_wf (rt_cards rt)"
  shows "routes rt (execute_operation op_id op rt)"
proof (cases op)
  case (Charge a c x off)
  obtain k rt1 out1 where g: "get_or_create_card a c rt = (k, rt1, out1)" by (metis prod_cases3)
  have "routes rt (rt1, out1 @ [TellCard k (ExecuteCharge op_id a c x off)])"
    using get_or_create_card_routes [OF assms(1) g] by (intro routes_tell) auto
  with Charge g show ?thesis by (simp add: execute_charge_def)
next
  case (LimitAccount a l)
  obtain b rt1 out1 where g: "get_or_create_account a rt = (b, rt1, out1)" by (metis prod_cases3)
  have "routes rt (rt1, out1 @ [TellAccount b (ApplyAccountLimit op_id l)])"
    using get_or_create_account_routes [OF assms(1) g] by (intro routes_tell) auto
  with LimitAccount g show ?thesis by (simp add: execute_limit_account_def)
next
  case (LimitCard a c l)
  obtain k rt1 out1 where g: "get_or_create_card a c rt = (k, rt1, out1)" by (metis prod_cases3)
  have "routes rt (rt1, out1 @ [TellCard k (ExecuteLimitChange op_id l)])"
    using get_or_create_card_routes [OF assms(1) g] by (intro routes_tell) auto
  with LimitCard g show ?thesis by (simp add: execute_limit_card_def)
qed (use assms in \<open>simp_all add: execute_query_routes execute_get_database_routes
      execute_replace_routes\<close>)

section \<open>The tables stay maps\<close>

definition router_maps_wf :: "actor_router \<Rightarrow> bool" where
  "router_maps_wf rt \<longleftrightarrow> hm_wf (rt_accounts rt) \<and> hm_wf (rt_cards rt)"

lemma router_maps_wf_emit [simp]: "router_maps_wf (emit ev rt) = router_maps_wf rt"
  by (simp add: router_maps_wf_def)

lemma get_or_create_account_wf:
  "router_maps_wf rt \<Longrightarrow> router_maps_wf (fst (snd (get_or_create_account a rt)))"
  by (simp add: get_or_create_account_def router_maps_wf_def hm.wf_insert split: option.split)

lemma get_or_create_card_wf:
  "router_maps_wf rt \<Longrightarrow> router_maps_wf (fst (snd (get_or_create_card a c rt)))"
  using get_or_create_account_wf [of rt a]
  by (auto simp: get_or_create_card_def router_maps_wf_def hm.wf_insert Let_def
      split: option.split prod.split)

lemma replace_accounts_wf:
  "router_maps_wf rt \<Longrightarrow> router_maps_wf (fst (replace_accounts ss rt))"
proof (induction ss arbitrary: rt)
  case (Cons s ss)
  then show ?case
    using get_or_create_account_wf [of rt "as_account_id s"] by (simp add: split_def Let_def)
qed simp

lemma replace_cards_wf:
  "router_maps_wf rt \<Longrightarrow> router_maps_wf (fst (replace_cards ss rt))"
proof (induction ss arbitrary: rt)
  case (Cons s ss)
  then show ?case
    using get_or_create_card_wf [of rt "cs_account_id s" "cs_card_id s"]
    by (simp add: split_def Let_def)
qed simp

lemma execute_operation_wf:
  assumes "router_maps_wf rt"
  shows "router_maps_wf (fst (execute_operation op_id op rt))"
proof (cases op)
  case (GetDatabase addr)
  with assms show ?thesis
    by (simp add: execute_get_database_def Let_def router_maps_wf_def)
next
  case (ReplaceDatabase d)
  with assms show ?thesis
    by (simp add: execute_replace_database_def split_def Let_def replace_accounts_wf replace_cards_wf)
qed (use assms in \<open>simp_all add: execute_charge_def execute_limit_account_def execute_limit_card_def
      execute_account_query_def execute_bill_def split_def Let_def get_or_create_account_wf
      get_or_create_card_wf\<close>)

section \<open>Completions never panic on well-formed outcomes\<close>

lemma completion_result_ok:
  "success = (error = None) \<Longrightarrow> \<exists>r. completion_result op success error = Ok r"
  by (cases op) (auto simp: charge_result_of_def limit_result_of_def)

lemma try_complete_keys [simp]:
  "rt_accounts (try_complete_db_snapshot op_id rt) = rt_accounts rt"
  "rt_cards (try_complete_db_snapshot op_id rt) = rt_cards rt"
  by (simp_all add: try_complete_db_snapshot_def Let_def split: option.split)

lemma router_handle_internal_ok:
  assumes "outcome_consistent m"
  obtains rt' where "router_handle_internal m rt = Ok rt'"
    and "rt_accounts rt' = rt_accounts rt" and "rt_cards rt' = rt_cards rt"
proof (cases m)
  case (OperationCompleted op_id success error)
  show thesis
  proof (cases "hm_get (rt_operations rt) op_id")
    case None
    with OperationCompleted that [of "emit ActorDebug rt"] show thesis
      by (simp add: handle_operation_completed_def)
  next
    case (Some op)
    obtain r where "completion_result op success error = Ok r"
      using completion_result_ok [of success error op] assms OperationCompleted by auto
    with Some OperationCompleted that [of "emit (OperationResult op_id op r success error) rt"]
    show thesis by (simp add: handle_operation_completed_def)
  qed
next
  case (AccountQueryCompleted op_id a t cs)
  show thesis
    by (rule that [of "handle_account_query_completed op_id a t cs rt"])
      (simp_all add: AccountQueryCompleted handle_account_query_completed_def split: option.split)
next
  case (AccountSnapshotCollected op_id s)
  show thesis
    by (rule that [of "handle_account_snapshot op_id s rt"])
      (simp_all add: AccountSnapshotCollected handle_account_snapshot_def split: option.split)
next
  case (CardSnapshotCollected op_id s)
  show thesis
    by (rule that [of "handle_card_snapshot op_id s rt"])
      (simp_all add: CardSnapshotCollected handle_card_snapshot_def split: option.split)
next
  case RouterDebug
  with that [of "emit ActorDebug rt"] show thesis by simp
qed

text \<open>The router answers each completion with one event that carries the operation it was
  given under that number and the outcome the actor reported; with the channel full or its
  receiver gone the event is dropped.\<close>

theorem completion_emits_operation_result:
  assumes "hm_get (rt_operations rt) op_id = Some op" and "success = (error = None)"
  shows "\<exists>r. completion_result op success error = Ok r \<and>
    router_handle_internal (OperationCompleted op_id success error) rt =
      Ok (if rt_events_open rt \<and> length (rt_events rt) < 128
          then rt\<lparr>rt_events := rt_events rt @ [OperationResult op_id op r success error]\<rparr>
          else rt)"
  using assms completion_result_ok [OF assms(2), of op]
  by (auto simp: handle_operation_completed_def emit_def EVENT_CHANNEL_CAPACITY_def)

theorem completion_emits_operation_result_witness:
  "router_handle_internal (OperationCompleted 7 False (Some (LimitUpdate BelowCurrentUsage)))
     (router_new\<lparr>rt_operations := [(7, LimitAccount 3 (Some 0))]\<rparr>) =
   Ok (router_new\<lparr>rt_operations := [(7, LimitAccount 3 (Some 0))],
     rt_events := [OperationResult 7 (LimitAccount 3 (Some 0))
       (ResLimitAccount (LimitFailed (LimitUpdate BelowCurrentUsage))) False
       (Some (LimitUpdate BelowCurrentUsage))]\<rparr>)"
  using completion_emits_operation_result [of "router_new\<lparr>rt_operations := [(7, LimitAccount 3 (Some 0))]\<rparr>"
      7 "LimitAccount 3 (Some 0)" False "Some (LimitUpdate BelowCurrentUsage)"]
  by (auto simp: router_new_def hm_get_def limit_result_of_def)

end
