(* ===== verification/ActorSystem.thy ===== *)
theory ActorSystem
  imports ActorRouter
begin

text \<open>
  The actor system behind \<open>Database\<close> (\<open>server/src/node/database.rs\<close>): the router, the
  accounts and the cards, each with its mailbox. A mailbox is delivered in the order it was
  filled; which actor runs next is left open, so the theorems hold for every interleaving. A
  panic of the router is the end of the system.
\<close>

record actor_system =
  sy_router :: actor_router
  sy_router_mail :: "router_input list"
  sy_accounts :: "(u64, account_actor \<times> account_msg list) hash_map"
  sy_cards :: "(card_key, card_actor \<times> card_input list) hash_map"

definition system_new :: actor_system where
  "system_new =
     \<lparr>sy_router = router_new, sy_router_mail = [], sy_accounts = [], sy_cards = []\<rparr>"

section \<open>Posting messages\<close>

definition post_router :: "router_input \<Rightarrow> actor_system \<Rightarrow> actor_system" where
  "post_router m sys = sys\<lparr>sy_router_mail := sy_router_mail sys @ [m]\<rparr>"

definition post_account :: "u64 \<Rightarrow> account_msg \<Rightarrow> actor_system \<Rightarrow> actor_system" where
  "post_account a m sys =
     (case hm_get (sy_accounts sys) a of
        Some (acc, mail) \<Rightarrow> sys\<lparr>sy_accounts := hm_insert a (acc, mail @ [m]) (sy_accounts sys)\<rparr>
      | None \<Rightarrow> sys)"

definition post_card :: "card_key \<Rightarrow> card_input \<Rightarrow> actor_system \<Rightarrow> actor_system" where
  "post_card k m sys =
     (case hm_get (sy_cards sys) k of
        Some (self, mail) \<Rightarrow> sys\<lparr>sy_cards := hm_insert k (self, mail @ [m]) (sy_cards sys)\<rparr>
      | None \<Rightarrow> sys)"

fun perform_router_output :: "router_output \<Rightarrow> actor_system \<Rightarrow> actor_system" where
  "perform_router_output (SpawnAccount a) sys =
     sys\<lparr>sy_accounts := hm_insert a (account_new a, []) (sy_accounts sys)\<rparr>"
| "perform_router_output (SpawnCard k) sys =
     sys\<lparr>sy_cards := hm_insert k (card_new (snd k) (fst k), []) (sy_cards sys)\<rparr>"
| "perform_router_output (TellAccount a m) sys = post_account a m sys"
| "perform_router_output (TellCard k m) sys = post_card k (CardCommand m) sys"

fun perform_account_output :: "account_output \<Rightarrow> actor_system \<Rightarrow> actor_system" where
  "perform_account_output (AccountToRouter m) sys = post_router (RouterInternal m) sys"
| "perform_account_output (AccountToCard k r) sys = post_card k (CardChargeReply r) sys"

text \<open>A card speaks to its own account.\<close>

fun perform_card_output :: "u64 \<Rightarrow> card_output \<Rightarrow> actor_system \<Rightarrow> actor_system" where
  "perform_card_output a (CardToRouter m) sys = post_router (RouterInternal m) sys"
| "perform_card_output a (CardToAccount m) sys = post_account a m sys"

section \<open>Delivering messages\<close>

datatype actor_id = RouterId | AccountId u64 | CardId card_key

definition deliver_router :: "actor_system \<Rightarrow> actor_system app_result" where
  "deliver_router sys =
     (case sy_router_mail sys of
        [] \<Rightarrow> Ok sys
      | m # mail \<Rightarrow>
          and_then (router_handle m (sy_router sys)) (\<lambda>(rt, out).
          Ok (fold perform_router_output out (sys\<lparr>sy_router := rt, sy_router_mail := mail\<rparr>))))"

definition deliver_account :: "u64 \<Rightarrow> actor_system \<Rightarrow> actor_system" where
  "deliver_account a sys =
     (case hm_get (sy_accounts sys) a of
        Some (acc, m # mail) \<Rightarrow>
          (let (acc', out) = account_handle m acc
           in fold perform_account_output out
                (sys\<lparr>sy_accounts := hm_insert a (acc', mail) (sy_accounts sys)\<rparr>))
      | _ \<Rightarrow> sys)"

definition deliver_card :: "card_key \<Rightarrow> actor_system \<Rightarrow> actor_system" where
  "deliver_card k sys =
     (case hm_get (sy_cards sys) k of
        Some (self, m # mail) \<Rightarrow>
          (let (self', out) = card_handle m self
           in fold (perform_card_output (ca_account_id self)) out
                (sys\<lparr>sy_cards := hm_insert k (self', mail) (sy_cards sys)\<rparr>))
      | _ \<Rightarrow> sys)"

fun deliver :: "actor_id \<Rightarrow> actor_system \<Rightarrow> actor_system app_result" where
  "deliver RouterId sys = deliver_router sys"
| "deliver (AccountId a) sys = Ok (deliver_account a sys)"
| "deliver (CardId k) sys = Ok (deliver_card k sys)"

section \<open>The interface of the node\<close>

text \<open>\<open>Database::send\<close> and \<open>Database::recv\<close>; \<open>None\<close>: no event yet.\<close>

definition database_send :: "u32 \<Rightarrow> operation \<Rightarrow> actor_system \<Rightarrow> actor_system" where
  "database_send op_id operation sys = post_router (RouterCommand (Execute op_id operation)) sys"

definition database_recv :: "actor_system \<Rightarrow> actor_system \<times> actor_event option" where
  "database_recv sys =
     (case rt_events (sy_router sys) of
        [] \<Rightarrow> (sys, None)
      | ev # evs \<Rightarrow> (sys\<lparr>sy_router := (sy_router sys)\<lparr>rt_events := evs\<rparr>\<rparr>, Some ev))"

text \<open>Everything that can happen to the system: commands, deliveries in any order, reads.\<close>

datatype system_event = SysSend u32 operation | SysDeliver actor_id | SysRecv

fun system_step :: "system_event \<Rightarrow> actor_system \<Rightarrow> actor_system app_result" where
  "system_step (SysSend op_id operation) sys = Ok (database_send op_id operation sys)"
| "system_step (SysDeliver i) sys = deliver i sys"
| "system_step SysRecv sys = Ok (fst (database_recv sys))"

fun system_run :: "system_event list \<Rightarrow> actor_system \<Rightarrow> actor_system app_result" where
  "system_run [] sys = Ok sys"
| "system_run (e # es) sys = and_then (system_step e sys) (system_run es)"

section \<open>The invariant of the actors\<close>

text \<open>The charges in flight: asked of an account, or answered and not yet read by the card.\<close>

fun asks_for :: "card_key \<Rightarrow> account_msg list \<Rightarrow> u32 list" where
  "asks_for k [] = []"
| "asks_for k (ApplyChargeFromCard op_id x c off k' # ms) =
     (if k' = k then op_id # asks_for k ms else asks_for k ms)"
| "asks_for k (m # ms) = asks_for k ms"

fun reply_ops :: "card_input list \<Rightarrow> u32 list" where
  "reply_ops [] = []"
| "reply_ops (CardChargeReply r # ms) = re_op_id r # reply_ops ms"
| "reply_ops (CardCommand m # ms) = reply_ops ms"

definition account_mail :: "u64 \<Rightarrow> actor_system \<Rightarrow> account_msg list" where
  "account_mail a sys = (case hm_get (sy_accounts sys) a of Some (acc, mail) \<Rightarrow> mail | None \<Rightarrow> [])"

definition card_mail :: "card_key \<Rightarrow> actor_system \<Rightarrow> card_input list" where
  "card_mail k sys = (case hm_get (sy_cards sys) k of Some (self, mail) \<Rightarrow> mail | None \<Rightarrow> [])"

definition in_flight :: "card_key \<Rightarrow> actor_system \<Rightarrow> u32 set" where
  "in_flight k sys =
     set (asks_for k (account_mail (fst k) sys)) \<union> set (reply_ops (card_mail k sys))"

fun router_input_ok :: "router_input \<Rightarrow> bool" where
  "router_input_ok (RouterInternal m) = outcome_consistent m"
| "router_input_ok (RouterCommand cmd) = True"

definition card_state_ok :: "card_key \<Rightarrow> card_actor \<Rightarrow> card_input list \<Rightarrow> bool" where
  "card_state_ok k self mail \<longleftrightarrow> own_key self = k \<and> card_settled self \<and>
     list_all (\<lambda>m. addressed_to k m \<and> card_input_ok m) mail"

text \<open>
  \<open>exempt\<close> is the card being served: its new state already waits for charges whose requests
  its handler has yet to post.
\<close>

definition actors_ok :: "card_key set \<Rightarrow> actor_system \<Rightarrow> bool" where
  "actors_ok exempt sys \<longleftrightarrow>
     (\<forall>a acc mail. hm_get (sy_accounts sys) a = Some (acc, mail) \<longrightarrow> ac_account_id acc = a) \<and>
     (\<forall>k self mail. hm_get (sy_cards sys) k = Some (self, mail) \<longrightarrow>
        card_state_ok k self mail \<and> hm_get (sy_accounts sys) (fst k) \<noteq> None \<and>
        (k \<notin> exempt \<longrightarrow> set (awaiting self) \<subseteq> in_flight k sys)) \<and>
     list_all router_input_ok (sy_router_mail sys)"

definition system_ok :: "actor_system \<Rightarrow> bool" where
  "system_ok sys \<longleftrightarrow> actors_ok {} sys \<and> router_keys_ok (sy_router sys) \<and>
     router_maps_wf (sy_router sys) \<and>
     known_accounts (sy_router sys) = dom (hm_get (sy_accounts sys)) \<and>
     known_cards (sy_router sys) = dom (hm_get (sy_cards sys))"

lemma asks_for_append [simp]: "asks_for k (ms @ ns) = asks_for k ms @ asks_for k ns"
  by (induction k ms rule: asks_for.induct) auto

lemma reply_ops_append [simp]: "reply_ops (ms @ ns) = reply_ops ms @ reply_ops ns"
  by (induction ms rule: reply_ops.induct) auto

lemma actors_okI:
  assumes "\<And>a acc mail. hm_get (sy_accounts sys) a = Some (acc, mail) \<Longrightarrow> ac_account_id acc = a"
    and "\<And>k self mail. hm_get (sy_cards sys) k = Some (self, mail) \<Longrightarrow> card_state_ok k self mail"
    and "\<And>k self mail. hm_get (sy_cards sys) k = Some (self, mail) \<Longrightarrow>
      hm_get (sy_accounts sys) (fst k) \<noteq> None"
    and "\<And>k self mail. hm_get (sy_cards sys) k = Some (self, mail) \<Longrightarrow> k \<notin> exempt \<Longrightarrow>
      set (awaiting self) \<subseteq> in_flight k sys"
    and "list_all router_input_ok (sy_router_mail sys)"
  shows "actors_ok exempt sys"
  using assms unfolding actors_ok_def by blast

lemma actors_okD:
  assumes "actors_ok exempt sys"
  shows "\<And>a acc mail. hm_get (sy_accounts sys) a = Some (acc, mail) \<Longrightarrow> ac_account_id acc = a"
    and "\<And>k self mail. hm_get (sy_cards sys) k = Some (self, mail) \<Longrightarrow> card_state_ok k self mail"
    and "\<And>k self mail. hm_get (sy_cards sys) k = Some (self, mail) \<Longrightarrow>
      hm_get (sy_accounts sys) (fst k) \<noteq> None"
    and "\<And>k self mail. hm_get (sy_cards sys) k = Some (self, mail) \<Longrightarrow> k \<notin> exempt \<Longrightarrow>
      set (awaiting self) \<subseteq> in_flight k sys"
    and "list_all router_input_ok (sy_router_mail sys)"
  using assms unfolding actors_ok_def by blast+

subsection \<open>Posting keeps it\<close>

lemma post_router_ok:
  "actors_ok E sys \<Longrightarrow> router_input_ok m \<Longrightarrow> actors_ok E (post_router m sys)"
  by (simp add: actors_ok_def post_router_def in_flight_def account_mail_def card_mail_def)

lemma post_account_get:
  "hm_get (sy_accounts (post_account a m sys)) b =
     (if b = a then map_option (\<lambda>(acc, mail). (acc, mail @ [m])) (hm_get (sy_accounts sys) a)
      else hm_get (sy_accounts sys) b)"
  "sy_cards (post_account a m sys) = sy_cards sys"
  "sy_router_mail (post_account a m sys) = sy_router_mail sys"
  "sy_router (post_account a m sys) = sy_router sys"
  by (auto simp: post_account_def hm.get_insert split: option.split)

lemma post_card_get:
  "hm_get (sy_cards (post_card k m sys)) k' =
     (if k' = k then map_option (\<lambda>(self, mail). (self, mail @ [m])) (hm_get (sy_cards sys) k)
      else hm_get (sy_cards sys) k')"
  "sy_accounts (post_card k m sys) = sy_accounts sys"
  "sy_router_mail (post_card k m sys) = sy_router_mail sys"
  "sy_router (post_card k m sys) = sy_router sys"
  by (auto simp: post_card_def hm.get_insert split: option.split)

lemma post_account_mail:
  "account_mail b (post_account a m sys) =
     account_mail b sys @ (if b = a \<and> hm_get (sy_accounts sys) a \<noteq> None then [m] else [])"
  "card_mail k (post_account a m sys) = card_mail k sys"
  by (auto simp: account_mail_def card_mail_def post_account_get split: option.split)

lemma post_card_mail:
  "card_mail k' (post_card k m sys) =
     card_mail k' sys @ (if k' = k \<and> hm_get (sy_cards sys) k \<noteq> None then [m] else [])"
  "account_mail b (post_card k m sys) = account_mail b sys"
  by (auto simp: account_mail_def card_mail_def post_card_get split: option.split)

lemma post_account_ok: "actors_ok E sys \<Longrightarrow> actors_ok E (post_account a m sys)"
proof (rule actors_okI)
  assume ok: "actors_ok E sys"
  note D = actors_okD [OF ok]
  show "ac_account_id acc = b"
    if "hm_get (sy_accounts (post_account a m sys)) b = Some (acc, mail)" for b acc mail
    using that D(1) by (auto simp: post_account_get split: if_splits)
  show "card_state_ok k self mail"
    if "hm_get (sy_cards (post_account a m sys)) k = Some (self, mail)" for k self mail
    using that D(2) by (simp add: post_account_get)
  show "hm_get (sy_accounts (post_account a m sys)) (fst k) \<noteq> None"
    if "hm_get (sy_cards (post_account a m sys)) k = Some (self, mail)" for k self mail
    using that D(3) [of k] by (auto simp: post_account_get)
  show "set (awaiting self) \<subseteq> in_flight k (post_account a m sys)"
    if "hm_get (sy_cards (post_account a m sys)) k = Some (self, mail)" "k \<notin> E" for k self mail
    using that D(4) [of k self mail] by (auto simp: post_account_get in_flight_def post_account_mail)
  show "list_all router_input_ok (sy_router_mail (post_account a m sys))"
    using D(5) by (simp add: post_account_get)
qed

lemma post_card_ok:
  assumes ok: "actors_ok E sys" and m: "addressed_to k m" "card_input_ok m"
  shows "actors_ok E (post_card k m sys)"
proof (rule actors_okI)
  note D = actors_okD [OF ok]
  show "ac_account_id acc = b"
    if "hm_get (sy_accounts (post_card k m sys)) b = Some (acc, mail)" for b acc mail
    using that D(1) by (simp add: post_card_get)
  show "card_state_ok k' self mail"
    if "hm_get (sy_cards (post_card k m sys)) k' = Some (self, mail)" for k' self mail
    using that D(2) [of k' self] m by (auto simp: post_card_get card_state_ok_def split: if_splits)
  show "hm_get (sy_accounts (post_card k m sys)) (fst k') \<noteq> None"
    if "hm_get (sy_cards (post_card k m sys)) k' = Some (self, mail)" for k' self mail
    using that D(3) [of k'] by (auto simp: post_card_get split: if_splits)
  show "set (awaiting self) \<subseteq> in_flight k' (post_card k m sys)"
    if "hm_get (sy_cards (post_card k m sys)) k' = Some (self, mail)" "k' \<notin> E" for k' self mail
    using that D(4) [of k' self]
    by (fastforce simp: post_card_get in_flight_def post_card_mail split: if_splits)
  show "list_all router_input_ok (sy_router_mail (post_card k m sys))"
    using D(5) by (simp add: post_card_get)
qed

subsection \<open>The router\<close>

lemma spawn_account_ok:
  assumes ok: "actors_ok E sys" and new: "hm_get (sy_accounts sys) a = None"
  shows "actors_ok E (sys\<lparr>sy_accounts := hm_insert a (account_new a, []) (sy_accounts sys)\<rparr>)"
    (is "actors_ok E ?sys")
proof (rule actors_okI)
  note D = actors_okD [OF ok]
  have mail: "account_mail b ?sys = account_mail b sys" "card_mail k ?sys = card_mail k sys" for b k
    using new by (auto simp: account_mail_def card_mail_def hm.get_insert)
  show "ac_account_id acc = b" if "hm_get (sy_accounts ?sys) b = Some (acc, mail)" for b acc mail
    using that D(1) by (auto simp: hm.get_insert account_new_def split: if_splits)
  show "card_state_ok k self mail" if "hm_get (sy_cards ?sys) k = Some (self, mail)" for k self mail
    using that D(2) by simp
  show "hm_get (sy_accounts ?sys) (fst k) \<noteq> None"
    if "hm_get (sy_cards ?sys) k = Some (self, mail)" for k self mail
    using that D(3) [of k] by (auto simp: hm.get_insert)
  show "set (awaiting self) \<subseteq> in_flight k ?sys"
    if "hm_get (sy_cards ?sys) k = Some (self, mail)" "k \<notin> E" for k self mail
    using that D(4) [of k self mail] by (simp add: in_flight_def mail)
  show "list_all router_input_ok (sy_router_mail ?sys)" using D(5) by simp
qed

lemma spawn_card_ok:
  assumes ok: "actors_ok E sys" and new: "hm_get (sy_cards sys) k = None"
    and acc: "hm_get (sy_accounts sys) (fst k) \<noteq> None"
  shows "actors_ok E (sys\<lparr>sy_cards := hm_insert k (card_new (snd k) (fst k), []) (sy_cards sys)\<rparr>)"
    (is "actors_ok E ?sys")
proof (rule actors_okI)
  note D = actors_okD [OF ok]
  have mail: "account_mail b ?sys = account_mail b sys" "card_mail k' ?sys = card_mail k' sys" for b k'
    using new by (auto simp: account_mail_def card_mail_def hm.get_insert)
  have fresh: "own_key (card_new (snd k) (fst k)) = k" "card_settled (card_new (snd k) (fst k))"
    "awaiting (card_new (snd k) (fst k)) = []"
    by (simp_all add: card_new_def own_key_def card_settled_def awaiting_def)
  show "ac_account_id acc = b" if "hm_get (sy_accounts ?sys) b = Some (acc, mail)" for b acc mail
    using that D(1) by simp
  show "card_state_ok k' self mail" if "hm_get (sy_cards ?sys) k' = Some (self, mail)" for k' self mail
    using that D(2) [of k' self mail] fresh by (auto simp: hm.get_insert card_state_ok_def split: if_splits)
  show "hm_get (sy_accounts ?sys) (fst k') \<noteq> None"
    if "hm_get (sy_cards ?sys) k' = Some (self, mail)" for k' self mail
    using that D(3) [of k' self mail] acc by (auto simp: hm.get_insert split: if_splits)
  show "set (awaiting self) \<subseteq> in_flight k' ?sys"
    if "hm_get (sy_cards ?sys) k' = Some (self, mail)" "k' \<notin> E" for k' self mail
    using that D(4) [of k' self mail] fresh
    by (auto simp: in_flight_def mail hm.get_insert split: if_splits)
  show "list_all router_input_ok (sy_router_mail ?sys)" using D(5) by simp
qed

lemma post_account_dom: "dom (hm_get (sy_accounts (post_account a m sys))) = dom (hm_get (sy_accounts sys))"
  by (auto simp: post_account_get dom_def split: if_splits)

lemma post_card_dom: "dom (hm_get (sy_cards (post_card k m sys))) = dom (hm_get (sy_cards sys))"
proof -
  have "hm_get (sy_cards (post_card k m sys)) k' = None \<longleftrightarrow> hm_get (sy_cards sys) k' = None" for k'
    by (simp add: post_card_get)
  then show ?thesis by (simp add: dom_def)
qed

lemma perform_router_outputs_ok:
  "actors_ok {} sys \<Longrightarrow>
   well_routed (dom (hm_get (sy_accounts sys)), dom (hm_get (sy_cards sys))) outs (A, C) \<Longrightarrow>
   actors_ok {} (fold perform_router_output outs sys) \<and>
   dom (hm_get (sy_accounts (fold perform_router_output outs sys))) = A \<and>
   dom (hm_get (sy_cards (fold perform_router_output outs sys))) = C \<and>
   sy_router (fold perform_router_output outs sys) = sy_router sys"
proof (induction outs arbitrary: sys)
  case (Cons out outs)
  show ?case
  proof (cases out)
    case (SpawnAccount a)
    with Cons.prems(2) have "a \<notin> dom (hm_get (sy_accounts sys))" by simp
    then have "hm_get (sy_accounts sys) a = None" by (simp only: domIff not_not)
    from spawn_account_ok [OF Cons.prems(1) this] show ?thesis
      using Cons.IH [of "perform_router_output out sys"] Cons.prems(2) SpawnAccount
      by (simp add: hm.dom_insert)
  next
    case (SpawnCard k)
    with Cons.prems(2) have "k \<notin> dom (hm_get (sy_cards sys))" "fst k \<in> dom (hm_get (sy_accounts sys))"
      by simp_all
    then have "hm_get (sy_cards sys) k = None" "hm_get (sy_accounts sys) (fst k) \<noteq> None"
      by (simp_all only: domIff not_not not_False_eq_True)
    from spawn_card_ok [OF Cons.prems(1) this] show ?thesis
      using Cons.IH [of "perform_router_output out sys"] Cons.prems(2) SpawnCard
      by (simp add: hm.dom_insert)
  next
    case (TellAccount a m)
    with Cons.IH [of "post_account a m sys"] Cons.prems post_account_ok [OF Cons.prems(1), of a m]
    show ?thesis by (simp add: post_account_dom post_account_get(2,4))
  next
    case (TellCard k m)
    with Cons.prems(2) have "addressed_to k (CardCommand m)" by simp
    from post_card_ok [OF Cons.prems(1) this] TellCard Cons.IH [of "post_card k (CardCommand m) sys"]
      Cons.prems(2)
    show ?thesis by (simp add: post_card_dom post_card_get(2,4))
  qed
qed simp

lemma actors_ok_router [simp]: "actors_ok E (sys\<lparr>sy_router := rt\<rparr>) = actors_ok E sys"
  by (simp add: actors_ok_def in_flight_def account_mail_def card_mail_def)

lemma actors_ok_tail:
  "actors_ok E sys \<Longrightarrow> sy_router_mail sys = m # mail \<Longrightarrow>
     actors_ok E (sys\<lparr>sy_router := rt, sy_router_mail := mail\<rparr>) \<and> router_input_ok m"
  by (auto simp: actors_ok_def in_flight_def account_mail_def card_mail_def)

lemma router_cmd_routes:
  assumes keys: "router_keys_ok rt" "router_maps_wf rt" and r: "router_handle_cmd cmd rt = (rt', out)"
  shows "routes rt (rt', out) \<and> router_maps_wf rt'"
proof (cases cmd)
  case (Execute op_id op)
  let ?rt = "rt\<lparr>rt_operations := hm_insert op_id op (rt_operations rt)\<rparr>"
  have same: "router_keys_ok ?rt = router_keys_ok rt \<and> known_accounts ?rt = known_accounts rt
      \<and> known_cards ?rt = known_cards rt" "router_maps_wf ?rt = router_maps_wf rt"
    using same_keys [of ?rt rt] by (simp_all add: router_maps_wf_def)
  have "routes ?rt (rt', out)" "router_maps_wf rt'"
    using execute_operation_routes [of ?rt op_id op] execute_operation_wf [of ?rt op_id op]
      keys same r Execute by (simp_all add: router_maps_wf_def)
  with same show ?thesis by (simp add: routes_def)
next
  case GetLog
  with r keys routes_refl [OF keys(1)] show ?thesis by auto
qed

lemma deliver_router_ok:
  assumes "system_ok sys"
  shows "\<exists>sys'. deliver_router sys = Ok sys' \<and> system_ok sys'"
proof (cases "sy_router_mail sys")
  case Nil
  with assms show ?thesis by (simp add: deliver_router_def)
next
  case (Cons m mail)
  let ?rt = "sy_router sys"
  have keys: "router_keys_ok ?rt" "router_maps_wf ?rt"
    "known_accounts ?rt = dom (hm_get (sy_accounts sys))"
    "known_cards ?rt = dom (hm_get (sy_cards sys))"
    using assms by (simp_all add: system_ok_def)
  have tail: "actors_ok {} (sys\<lparr>sy_router := rt', sy_router_mail := mail\<rparr>)" "router_input_ok m" for rt'
    using actors_ok_tail [of "{}" sys m mail] assms Cons by (auto simp: system_ok_def)
  show ?thesis
  proof (cases m)
    case (RouterCommand cmd)
    obtain rt' out where r: "router_handle_cmd cmd ?rt = (rt', out)" by (rule prod.exhaust)
    have "routes ?rt (rt', out) \<and> router_maps_wf rt'" by (rule router_cmd_routes [OF keys(1,2) r])
    then have rt': "router_keys_ok rt'" "router_maps_wf rt'"
      "well_routed (known_accounts ?rt, known_cards ?rt) out (known_accounts rt', known_cards rt')"
      by (simp_all add: routes_def)
    from perform_router_outputs_ok [OF tail(1), of rt' out "known_accounts rt'" "known_cards rt'"]
    show ?thesis
      using rt' keys Cons RouterCommand r by (simp add: deliver_router_def system_ok_def)
  next
    case (RouterInternal msg)
    with tail(2) obtain rt' where r: "router_handle_internal msg ?rt = Ok rt'"
      "rt_accounts rt' = rt_accounts ?rt" "rt_cards rt' = rt_cards ?rt"
      using router_handle_internal_ok [of msg ?rt] by auto
    with same_keys [OF r(2,3)] keys tail(1) [of rt'] Cons RouterInternal show ?thesis
      by (simp add: deliver_router_def system_ok_def router_maps_wf_def)
  qed
qed

subsection \<open>The accounts\<close>

lemma account_handle_shape:
  assumes "snd (account_handle m acc) = out"
  shows "(\<exists>op_id x c off k r. m = ApplyChargeFromCard op_id x c off k \<and> out = [AccountToCard k r] \<and>
      re_op_id r = op_id) \<or>
    (\<forall>k. asks_for k [m] = []) \<and> (\<forall>o' \<in> set out. \<exists>msg. o' = AccountToRouter msg)"
proof (cases m)
  case (ApplyChargeFromCard op_id x c off k)
  have "\<exists>r. out = [AccountToCard k r] \<and> re_op_id r = op_id"
  proof (cases "check_account_limit x acc")
    case (Inl f)
    then obtain e where "f = Err e" using account_checks_total(1) by (cases f) auto
    with Inl assms ApplyChargeFromCard show ?thesis by (auto simp: handle_apply_charge_def)
  next
    case (Inr u)
    with assms ApplyChargeFromCard show ?thesis by (auto simp: handle_apply_charge_def)
  qed
  with ApplyChargeFromCard show ?thesis by blast
qed (use assms in \<open>auto simp: account_handler_defs Let_def
      split: option.splits sum.splits failure.splits if_splits\<close>)

lemma account_handle_id: "ac_account_id (fst (account_handle m acc)) = ac_account_id acc"
  by (cases m) (auto simp: account_handler_defs Let_def split: option.split sum.split failure.split)

lemma post_router_simps [simp]:
  "sy_accounts (post_router m sys) = sy_accounts sys" "sy_cards (post_router m sys) = sy_cards sys"
  "sy_router (post_router m sys) = sy_router sys"
  by (simp_all add: post_router_def)

lemma account_to_router_ok:
  "actors_ok E sys \<Longrightarrow> list_all account_output_ok out \<Longrightarrow>
   \<forall>o' \<in> set out. \<exists>msg. o' = AccountToRouter msg \<Longrightarrow>
   actors_ok E (fold perform_account_output out sys) \<and>
   sy_accounts (fold perform_account_output out sys) = sy_accounts sys \<and>
   sy_cards (fold perform_account_output out sys) = sy_cards sys \<and>
   sy_router (fold perform_account_output out sys) = sy_router sys"
proof (induction out arbitrary: sys)
  case (Cons x out)
  then obtain msg where x: "x = AccountToRouter msg" by auto
  with Cons.prems have "actors_ok E (post_router (RouterInternal msg) sys)"
    by (intro post_router_ok) auto
  with Cons x show ?case by simp
qed simp

lemma actors_ok_mono: "actors_ok E sys \<Longrightarrow> E \<subseteq> E' \<Longrightarrow> actors_ok E' sys"
  unfolding actors_ok_def by blast

lemma deliver_account_ok:
  assumes "system_ok sys"
  shows "system_ok (deliver_account a sys)"
proof (cases "\<exists>acc m mail. hm_get (sy_accounts sys) a = Some (acc, m # mail)")
  case False
  then have "deliver_account a sys = sys"
    by (auto simp: deliver_account_def split: option.split list.split)
  with assms show ?thesis by simp
next
  case True
  then obtain acc m mail where get: "hm_get (sy_accounts sys) a = Some (acc, m # mail)" by blast
  obtain acc' out where h: "account_handle m acc = (acc', out)" by (rule prod.exhaust)
  let ?sys = "sys\<lparr>sy_accounts := hm_insert a (acc', mail) (sy_accounts sys)\<rparr>"
  have ok: "actors_ok {} sys" using assms by (simp add: system_ok_def)
  note D = actors_okD [OF ok]
  have id: "ac_account_id acc' = a"
    using account_handle_id [of m acc] D(1) [OF get] h by simp
  have out_ok: "list_all account_output_ok out"
    using account_output_consistent [of m acc] h by simp
  have fl: "account_mail b ?sys = (if b = a then mail else account_mail b sys)"
      "card_mail k ?sys = card_mail k sys" for b k
    by (auto simp: account_mail_def card_mail_def hm.get_insert)
  have am: "account_mail a sys = m # mail" using get by (simp add: account_mail_def)
  have dom: "dom (hm_get (sy_accounts ?sys)) = dom (hm_get (sy_accounts sys))"
    using get by (auto simp: hm.dom_insert)
  have base: "actors_ok E ?sys" if E: "\<And>k. k \<notin> E \<Longrightarrow> asks_for k [m] = []" for E
  proof (rule actors_okI)
    show "ac_account_id acc = b" if "hm_get (sy_accounts ?sys) b = Some (acc, mail)" for b acc mail
      using that D(1) id by (auto simp: hm.get_insert split: if_splits)
    show "card_state_ok k self mail" if "hm_get (sy_cards ?sys) k = Some (self, mail)" for k self mail
      using that D(2) by simp
    show "hm_get (sy_accounts ?sys) (fst k) \<noteq> None"
      if "hm_get (sy_cards ?sys) k = Some (self, mail)" for k self mail
      using that D(3) [of k] by (auto simp: hm.get_insert)
    show "set (awaiting self) \<subseteq> in_flight k ?sys"
      if "hm_get (sy_cards ?sys) k = Some (self, mail')" "k \<notin> E" for k self mail'
    proof -
      have "asks_for k (m # mail) = asks_for k mail"
        using E [OF that(2)] asks_for_append [of k "[m]" mail] by simp
      with that D(4) [of k self mail'] am show ?thesis by (auto simp: in_flight_def fl)
    qed
    show "list_all router_input_ok (sy_router_mail ?sys)" using D(5) by simp
  qed
  have d: "deliver_account a sys = fold perform_account_output out ?sys"
    using get h by (simp add: deliver_account_def)
  consider (charge) op_id x c off k r where "m = ApplyChargeFromCard op_id x c off k"
      "out = [AccountToCard k r]" "re_op_id r = op_id"
    | (other) "\<forall>k. asks_for k [m] = []" "\<forall>o' \<in> set out. \<exists>msg. o' = AccountToRouter msg"
    using account_handle_shape [of m acc out] h by auto
  then show ?thesis
  proof cases
    case charge
    let ?sys' = "post_card k (CardChargeReply r) ?sys"
    have "actors_ok {k} ?sys" using charge(1) by (intro base) auto
    then have ok': "actors_ok {k} ?sys'"
      using out_ok charge(2) by (intro post_card_ok) auto
    have "actors_ok {} ?sys'"
    proof (rule actors_okI)
      note D' = actors_okD [OF ok']
      show "set (awaiting self) \<subseteq> in_flight k' ?sys'"
        if "hm_get (sy_cards ?sys') k' = Some (self, mail')" for k' self mail'
      proof (cases "k' = k")
        case True
        with that obtain mail0 where "hm_get (sy_cards sys) k = Some (self, mail0)"
          by (auto simp: post_card_get)
        with D(4) [of k self mail0] am charge True show ?thesis
          by (auto simp: in_flight_def post_card_mail fl)
      next
        case False
        with that D'(4) [of k' self mail'] show ?thesis by simp
      qed
    qed (use actors_okD [OF ok'] in blast)+
    then show ?thesis
      using assms d charge dom post_card_dom [of k "CardChargeReply r" ?sys]
      by (simp add: system_ok_def post_card_get(2,4) del: post_card_dom)
  next
    case other
    from account_to_router_ok [OF base out_ok other(2), of "{}"] other(1) show ?thesis
      using assms d dom by (simp add: system_ok_def)
  qed
qed

subsection \<open>The cards\<close>

lemma card_outputs_ok:
  "actors_ok E sys \<Longrightarrow> list_all card_output_ok out \<Longrightarrow>
   actors_ok E (fold (perform_card_output a) out sys) \<and>
   dom (hm_get (sy_accounts (fold (perform_card_output a) out sys))) = dom (hm_get (sy_accounts sys)) \<and>
   sy_cards (fold (perform_card_output a) out sys) = sy_cards sys \<and>
   sy_router (fold (perform_card_output a) out sys) = sy_router sys"
proof (induction out arbitrary: sys)
  case (Cons x out)
  show ?case
  proof (cases x)
    case (CardToRouter msg)
    with Cons.prems have "actors_ok E (post_router (RouterInternal msg) sys)"
      by (intro post_router_ok) auto
    with Cons CardToRouter show ?thesis by simp
  next
    case (CardToAccount m)
    with Cons.IH [of "post_account a m sys"] Cons.prems post_account_ok [of E sys a m]
    show ?thesis by (simp add: post_account_dom post_account_get(2,4))
  qed
qed simp

lemma card_outputs_mail:
  assumes "hm_get (sy_accounts sys) a \<noteq> None"
  shows "set (asks_for k (account_mail a sys)) \<union> {op_id. (op_id, k) \<in> set (asked out)} \<subseteq>
      set (asks_for k (account_mail a (fold (perform_card_output a) out sys))) \<and>
    (\<forall>b. b \<noteq> a \<longrightarrow> account_mail b (fold (perform_card_output a) out sys) = account_mail b sys) \<and>
    card_mail k (fold (perform_card_output a) out sys) = card_mail k sys"
  using assms
proof (induction out arbitrary: sys)
  case (Cons x out)
  show ?case
  proof (cases x)
    case (CardToRouter msg)
    with Cons.IH [of "post_router (RouterInternal msg) sys"] Cons.prems show ?thesis
      by (simp add: account_mail_def card_mail_def)
  next
    case (CardToAccount m)
    have "hm_get (sy_accounts (post_account a m sys)) a \<noteq> None"
      using Cons.prems by (auto simp: post_account_get)
    from Cons.IH [OF this] CardToAccount Cons.prems show ?thesis
      by (cases m) (auto simp: post_account_mail)
  qed
qed simp

lemma deliver_card_ok:
  assumes "system_ok sys"
  shows "system_ok (deliver_card k sys)"
proof (cases "\<exists>self m mail. hm_get (sy_cards sys) k = Some (self, m # mail)")
  case False
  then have "deliver_card k sys = sys"
    by (auto simp: deliver_card_def split: option.split list.split)
  with assms show ?thesis by simp
next
  case True
  then obtain self m mail where get: "hm_get (sy_cards sys) k = Some (self, m # mail)" by blast
  obtain self' out where h: "card_handle m self = (self', out)" by (rule prod.exhaust)
  let ?sys = "sys\<lparr>sy_cards := hm_insert k (self', mail) (sy_cards sys)\<rparr>"
  let ?a = "ca_account_id self"
  let ?sys' = "fold (perform_card_output ?a) out ?sys"
  have ok: "actors_ok {} sys" using assms by (simp add: system_ok_def)
  note D = actors_okD [OF ok]
  have st: "own_key self = k" "card_settled self" "addressed_to k m" "card_input_ok m"
    "list_all (\<lambda>m. addressed_to k m \<and> card_input_ok m) mail"
    using D(2) [OF get] by (simp_all add: card_state_ok_def)
  have a: "?a = fst k" using st(1) by (auto simp: own_key_def)
  have acc: "hm_get (sy_accounts sys) ?a \<noteq> None" using D(3) [OF get] a by simp
  have st': "card_state_ok k self' mail"
    using card_handle_fifo(1) [of self m] card_handle_key [of m self] st h by (simp add: card_state_ok_def)
  have fl: "account_mail b ?sys = account_mail b sys"
      "card_mail k' ?sys = (if k' = k then mail else card_mail k' sys)" for b k'
    by (auto simp: account_mail_def card_mail_def hm.get_insert)
  have base: "actors_ok {k} ?sys"
  proof (rule actors_okI)
    show "ac_account_id acc = b" if "hm_get (sy_accounts ?sys) b = Some (acc, mail)" for b acc mail
      using that D(1) by simp
    show "card_state_ok k' s mail'" if "hm_get (sy_cards ?sys) k' = Some (s, mail')" for k' s mail'
      using that D(2) [of k' s mail'] st' by (auto simp: hm.get_insert split: if_splits)
    show "hm_get (sy_accounts ?sys) (fst k') \<noteq> None"
      if "hm_get (sy_cards ?sys) k' = Some (s, mail')" for k' s mail'
      using that D(3) [of k' s mail'] acc a by (auto simp: hm.get_insert split: if_splits)
    show "set (awaiting s) \<subseteq> in_flight k' ?sys"
      if "hm_get (sy_cards ?sys) k' = Some (s, mail')" "k' \<notin> {k}" for k' s mail'
      using that D(4) [of k' s mail'] by (auto simp: in_flight_def fl hm.get_insert)
    show "list_all router_input_ok (sy_router_mail ?sys)" using D(5) by simp
  qed
  have out_ok: "list_all card_output_ok out"
    using card_output_consistent [OF st(4), of self] h by simp
  note after = card_outputs_ok [OF base out_ok, of ?a]
  have acc': "hm_get (sy_accounts ?sys) ?a \<noteq> None" using acc by simp
  note mails = card_outputs_mail [OF acc', of k out]
  have waits: "set (awaiting self') \<subseteq> in_flight k ?sys'"
  proof
    fix op_id assume op: "op_id \<in> set (awaiting self')"
    have "op_id \<in> set (awaiting self) \<and> (\<forall>r. m = CardChargeReply r \<longrightarrow> re_op_id r \<noteq> op_id) \<or>
        (op_id, own_key self) \<in> set (asked out)"
      using card_handle_awaiting [OF st(2), of op_id m] op h by simp
    then show "op_id \<in> in_flight k ?sys'"
    proof
      assume old: "op_id \<in> set (awaiting self) \<and> (\<forall>r. m = CardChargeReply r \<longrightarrow> re_op_id r \<noteq> op_id)"
      then have "op_id \<in> set (asks_for k (account_mail (fst k) sys)) \<union> set (reply_ops (m # mail))"
        using D(4) [OF get] get by (auto simp: in_flight_def card_mail_def)
      with old have "op_id \<in> set (asks_for k (account_mail (fst k) sys)) \<union> set (reply_ops mail)"
        by (cases m) auto
      with mails fl a show ?thesis by (auto simp: in_flight_def)
    next
      assume "(op_id, own_key self) \<in> set (asked out)"
      with mails st(1) a show ?thesis by (auto simp: in_flight_def)
    qed
  qed
  have "actors_ok {} ?sys'"
  proof (rule actors_okI)
    show "set (awaiting s) \<subseteq> in_flight k' ?sys'"
      if "hm_get (sy_cards ?sys') k' = Some (s, mail')" for k' s mail'
    proof (cases "k' = k")
      case True
      with that after have "s = self'" by (simp add: hm.get_insert)
      with waits True show ?thesis by simp
    next
      case False
      with that actors_okD(4) [OF conjunct1 [OF after], of k' s mail'] show ?thesis by simp
    qed
  qed (use actors_okD [OF conjunct1 [OF after]] in blast)+
  moreover have "deliver_card k sys = ?sys'" using get h by (simp add: deliver_card_def)
  moreover have "dom (hm_get (sy_cards ?sys)) = dom (hm_get (sy_cards sys))"
    using get by (auto simp: hm.dom_insert)
  ultimately show ?thesis
    using assms after by (simp add: system_ok_def)
qed

section \<open>Every interleaving\<close>

lemma system_new_ok: "system_ok system_new"
  by (simp add: system_ok_def system_new_def actors_ok_def router_new_def router_keys_ok_def
      router_maps_wf_def known_accounts_def known_cards_def dom_def)

lemma router_field_update [simp]:
  "router_keys_ok (rt\<lparr>rt_events := evs\<rparr>) = router_keys_ok rt"
  "router_maps_wf (rt\<lparr>rt_events := evs\<rparr>) = router_maps_wf rt"
  "known_accounts (rt\<lparr>rt_events := evs\<rparr>) = known_accounts rt"
  "known_cards (rt\<lparr>rt_events := evs\<rparr>) = known_cards rt"
  by (simp_all add: router_keys_ok_def router_maps_wf_def known_accounts_def known_cards_def)

lemma system_step_ok:
  assumes "system_ok sys"
  shows "\<exists>sys'. system_step e sys = Ok sys' \<and> system_ok sys'"
proof (cases e)
  case (SysSend op_id op)
  with assms show ?thesis
    by (auto simp: database_send_def system_ok_def post_router_ok)
next
  case (SysDeliver i)
  with assms show ?thesis
    by (cases i) (simp_all add: deliver_router_ok deliver_account_ok deliver_card_ok)
next
  case SysRecv
  with assms show ?thesis
    by (auto simp: database_recv_def system_ok_def split: list.split)
qed

lemma system_run_ok:
  "system_ok sys \<Longrightarrow> \<exists>sys'. system_run es sys = Ok sys' \<and> system_ok sys'"
proof (induction es arbitrary: sys)
  case (Cons e es)
  then show ?case using system_step_ok [of sys e] by auto
qed simp

text \<open>C6: The database actors never panic: whatever operations the node submits, with whatever
  numbers, and in whatever order the mailboxes are served, every step succeeds; in particular
  the router always finds the error of a failure it reports.\<close>

theorem actor_system_never_panics:
  "\<exists>sys. system_run es system_new = Ok sys"
  using system_run_ok [OF system_new_ok] by blast

definition mailboxes_empty :: "actor_system \<Rightarrow> bool" where
  "mailboxes_empty sys \<longleftrightarrow> sy_router_mail sys = [] \<and>
     list_all (\<lambda>(a, acc, mail). mail = []) (sy_accounts sys) \<and>
     list_all (\<lambda>(k, self, mail). mail = []) (sy_cards sys)"

lemma mailboxes_empty_mail:
  assumes "mailboxes_empty sys"
  shows "account_mail a sys = []" and "card_mail k sys = []"
  using assms map_of_SomeD
  by (fastforce simp: mailboxes_empty_def account_mail_def card_mail_def hm_get_def list_all_iff
      split: option.split)+

lemma quiescent_cards_idle:
  assumes "system_ok sys" and "mailboxes_empty sys" and "hm_get (sy_cards sys) k = Some (self, mail)"
  shows "ca_current_task self = None \<and> ca_queue self = []"
proof -
  have ok: "actors_ok {} sys" using assms(1) by (simp add: system_ok_def)
  have "in_flight k sys = {}" using mailboxes_empty_mail [OF assms(2)] by (simp add: in_flight_def)
  with actors_okD(4) [OF ok assms(3)] have "awaiting self = []" by simp
  moreover have "card_settled self" using actors_okD(2) [OF ok assms(3)] by (simp add: card_state_ok_def)
  ultimately show ?thesis
    by (auto simp: awaiting_def card_settled_def split: option.splits card_task.splits)
qed

text \<open>No charge is ever stuck: in every state the system can reach in which no message is
  left to deliver, every card is idle and its queue is empty, so each charge and card limit
  change that was routed to a card has been answered (or dropped by a replaced database).\<close>

theorem no_charge_stuck:
  assumes "system_run es system_new = Ok sys" and "mailboxes_empty sys"
  shows "\<forall>k self mail. hm_get (sy_cards sys) k = Some (self, mail) \<longrightarrow>
    ca_current_task self = None \<and> ca_queue self = []"
  using system_run_ok [OF system_new_ok, of es] assms quiescent_cards_idle [of sys]
  by (auto simp del: split_paired_All)

definition charge_schedule :: "u64 \<Rightarrow> u64 \<Rightarrow> system_event list" where
  "charge_schedule a c = [SysDeliver RouterId, SysDeliver (CardId (a, c)), SysDeliver (AccountId a),
     SysDeliver (CardId (a, c)), SysDeliver RouterId]"

theorem no_charge_stuck_witness:
  "\<exists>sys. system_run (SysSend 1 (LimitAccount 3 None) # charge_schedule 3 5) system_new = Ok sys \<and>
    (\<forall>k self mail. hm_get (sy_cards sys) k = Some (self, mail) \<longrightarrow>
       ca_current_task self = None \<and> ca_queue self = [])"
proof -
  let ?es = "SysSend 1 (LimitAccount 3 None) # charge_schedule 3 5"
  have r: "\<exists>sys. system_run ?es system_new = Ok sys \<and> mailboxes_empty sys"
    by (simp add: charge_schedule_def system_new_def database_send_def post_router_def
        deliver_router_def execute_limit_account_def get_or_create_account_def router_new_def
        post_account_def hm_insert_def hm_get_def deliver_account_def deliver_card_def
        handle_apply_limit_def can_raise_limit_def handle_operation_completed_def
        limit_result_of_def emit_def mailboxes_empty_def)
  then obtain sys where "system_run ?es system_new = Ok sys" "mailboxes_empty sys" by blast
  with no_charge_stuck [of ?es sys] show ?thesis by blast
qed

end
