(* ===== verification/Serialization.thy ===== *)
theory Serialization
  imports Domain
begin

text \<open>
  The sending half of the binary protocol: the constants of
  \<open>common/src/network/serials/protocol.rs\<close> and the \<open>From<..> for Vec<u8>\<close>
  conversions of \<open>serials/serialization/\<close>. The target has 64-bit \<open>usize\<close>, so a vector
  length takes 8 bytes. A panic (an IPv6 address) makes the conversion \<open>Panicked\<close>.
\<close>

section \<open>Protocol constants\<close>

definition HEARTBEAT_REQUEST :: u8 where [simp]: "HEARTBEAT_REQUEST = 0xFE"
definition HEARBEAT_REPLY :: u8 where [simp]: "HEARBEAT_REPLY = 0xFF"
definition MSG_TYPE_HANDLER_FIRST :: u8 where [simp]: "MSG_TYPE_HANDLER_FIRST = 0x69"

definition MSG_TYPE_REQUEST :: u8 where [simp]: "MSG_TYPE_REQUEST = 0x00"
definition MSG_TYPE_LOG :: u8 where [simp]: "MSG_TYPE_LOG = 0x01"
definition MSG_TYPE_ACK :: u8 where [simp]: "MSG_TYPE_ACK = 0x02"
definition MSG_TYPE_JOIN :: u8 where [simp]: "MSG_TYPE_JOIN = 0x03"
definition MSG_TYPE_CLUSTER_VIEW :: u8 where [simp]: "MSG_TYPE_CLUSTER_VIEW = 0x04"
definition MSG_TYPE_CLUSTER_UPDATE :: u8 where [simp]: "MSG_TYPE_CLUSTER_UPDATE = 0x05"
definition MSG_TYPE_RESPONSE :: u8 where [simp]: "MSG_TYPE_RESPONSE = 0x06"
definition MSG_TYPE_ELECTION :: u8 where [simp]: "MSG_TYPE_ELECTION = 0x09"
definition MSG_TYPE_ELECTION_OK :: u8 where [simp]: "MSG_TYPE_ELECTION_OK = 0x0A"
definition MSG_TYPE_COORDINATOR :: u8 where [simp]: "MSG_TYPE_COORDINATOR = 0x0B"
definition MSG_TYPE_ROLE_QUERY :: u8 where [simp]: "MSG_TYPE_ROLE_QUERY = 0x07"
definition MSG_TYPE_ROLE_RESPONSE :: u8 where [simp]: "MSG_TYPE_ROLE_RESPONSE = 0x08"
definition NODE_ROLE_LEADER :: u8 where [simp]: "NODE_ROLE_LEADER = 0x00"
definition NODE_ROLE_REPLICA :: u8 where [simp]: "NODE_ROLE_REPLICA = 0x01"
definition NODE_ROLE_CLIENT :: u8 where [simp]: "NODE_ROLE_CLIENT = 0x02"

definition OP_TYPE_CHARGE :: u8 where [simp]: "OP_TYPE_CHARGE = 0x00"
definition OP_TYPE_LIMIT_CARD :: u8 where [simp]: "OP_TYPE_LIMIT_CARD = 0x01"
definition OP_TYPE_LIMIT_ACCOUNT :: u8 where [simp]: "OP_TYPE_LIMIT_ACCOUNT = 0x02"
definition OP_TYPE_QUERY_ACCOUNT :: u8 where [simp]: "OP_TYPE_QUERY_ACCOUNT = 0x03"
definition OP_TYPE_BILL :: u8 where [simp]: "OP_TYPE_BILL = 0x06"
definition OP_GET_DATABASE :: u8 where [simp]: "OP_GET_DATABASE = 0x07"
definition OP_REPLACE_DATABASE :: u8 where [simp]: "OP_REPLACE_DATABASE = 0x08"

definition CHARGE_RESULT :: u8 where [simp]: "CHARGE_RESULT = 0x00"
definition LIMIT_ACCOUNT_RESULT :: u8 where [simp]: "LIMIT_ACCOUNT_RESULT = 0x02"
definition LIMIT_CARD_RESULT :: u8 where [simp]: "LIMIT_CARD_RESULT = 0x03"
definition ACC_QUERY_RESULT :: u8 where [simp]: "ACC_QUERY_RESULT = 0x04"
definition DATABASE_SNAPSHOT :: u8 where [simp]: "DATABASE_SNAPSHOT = 0x05"
definition REPLACE_DATABASE :: u8 where [simp]: "REPLACE_DATABASE = 0x06"

definition LIMIT_UPDATE_ERR :: u8 where [simp]: "LIMIT_UPDATE_ERR = 0x00"
definition CHARGE_LIMIT_ERR :: u8 where [simp]: "CHARGE_LIMIT_ERR = 0x01"
definition BELOW_CURRENT_USAGE :: u8 where [simp]: "BELOW_CURRENT_USAGE = 0x00"
definition CARD_LIMIT_EXCEEDED :: u8 where [simp]: "CARD_LIMIT_EXCEEDED = 0x01"
definition ACC_LIMIT_EXCEEDED :: u8 where [simp]: "ACC_LIMIT_EXCEEDED = 0x02"

text \<open>\<open>NO_LIMIT\<close> is the bit pattern of \<open>-1.0f32\<close>.\<close>

definition NO_LIMIT :: f32 where "NO_LIMIT = F32 0xBF800000"
definition WIRE_TRUE :: u8 where [simp]: "WIRE_TRUE = 0x01"
definition WIRE_FALSE :: u8 where [simp]: "WIRE_FALSE = 0x00"
definition WIRE_OK :: u8 where [simp]: "WIRE_OK = 0x02"
definition WIRE_ERR :: u8 where [simp]: "WIRE_ERR = 0x03"

definition LIMIT_CHECK_ERR_LEN :: nat where [simp]: "LIMIT_CHECK_ERR_LEN = 1"
definition OP_ID_SRL_LEN :: nat where [simp]: "OP_ID_SRL_LEN = 4"
definition SOCKET_ADDR_LEN :: nat where [simp]: "SOCKET_ADDR_LEN = 6"
definition ACC_ID_SRL_LEN :: nat where [simp]: "ACC_ID_SRL_LEN = 8"
definition CARD_ID_SRL_LEN :: nat where [simp]: "CARD_ID_SRL_LEN = 8"
definition AMOUNT_SRL_LEN :: nat where [simp]: "AMOUNT_SRL_LEN = 4"
definition OFFLINE_SRL_LEN :: nat where [simp]: "OFFLINE_SRL_LEN = 1"
definition NODE_ID_SRL_LEN :: nat where [simp]: "NODE_ID_SRL_LEN = 8"
definition MEMBER_SRL_LEN :: nat where [simp]: "MEMBER_SRL_LEN = NODE_ID_SRL_LEN + SOCKET_ADDR_LEN"
definition VEC_LEN_LEN :: nat where [simp]: "VEC_LEN_LEN = 8"
definition PER_CARD_SPENT_LEN :: nat where [simp]: "PER_CARD_SPENT_LEN = 8"
definition CARD_SPENT_LEN :: nat where [simp]: "CARD_SPENT_LEN = CARD_ID_SRL_LEN + AMOUNT_SRL_LEN"
definition CHARGE_SRL_LEN :: nat where
  [simp]: "CHARGE_SRL_LEN = ACC_ID_SRL_LEN + CARD_ID_SRL_LEN + AMOUNT_SRL_LEN + OFFLINE_SRL_LEN"
definition LIMIT_ACC_SRL_LEN :: nat where
  [simp]: "LIMIT_ACC_SRL_LEN = ACC_ID_SRL_LEN + AMOUNT_SRL_LEN"
definition LIMIT_CARD_SRL_LEN :: nat where
  [simp]: "LIMIT_CARD_SRL_LEN = ACC_ID_SRL_LEN + CARD_ID_SRL_LEN + AMOUNT_SRL_LEN"
definition ACC_SNAPSHOT_SRL_LEN :: nat where
  [simp]: "ACC_SNAPSHOT_SRL_LEN = ACC_ID_SRL_LEN + AMOUNT_SRL_LEN + AMOUNT_SRL_LEN"
definition CARD_SNAPSHOT_SRL_LEN :: nat where
  [simp]: "CARD_SNAPSHOT_SRL_LEN =
     ACC_ID_SRL_LEN + CARD_ID_SRL_LEN + AMOUNT_SRL_LEN + AMOUNT_SRL_LEN"

section \<open>Big-endian integers\<close>

text \<open>\<open>to_be_bytes\<close> and \<open>from_be_bytes\<close> of the integer types and of \<open>f32\<close>.\<close>

fun be_of_nat :: "nat \<Rightarrow> nat \<Rightarrow> u8 list" where
  "be_of_nat 0 n = []"
| "be_of_nat (Suc k) n = be_of_nat k (n div 256) @ [of_nat n]"

definition nat_of_be :: "u8 list \<Rightarrow> nat" where
  "nat_of_be bs = foldl (\<lambda>a b. 256 * a + unat b) 0 bs"

definition to_be_bytes :: "'a::len word \<Rightarrow> u8 list" where
  "to_be_bytes w = be_of_nat (LENGTH('a) div 8) (unat w)"

definition from_be_bytes :: "u8 list \<Rightarrow> 'a::len word" where
  "from_be_bytes bs = of_nat (nat_of_be bs)"

definition f32_to_be_bytes :: "f32 \<Rightarrow> u8 list" where
  "f32_to_be_bytes x = to_be_bytes (f32_bits x)"

definition f32_from_be_bytes :: "u8 list \<Rightarrow> f32" where
  "f32_from_be_bytes bs = F32 (from_be_bytes bs)"

text \<open>A \<open>usize\<close> is written as a 64-bit integer.\<close>

definition usize_to_be_bytes :: "nat \<Rightarrow> u8 list" where
  "usize_to_be_bytes n = to_be_bytes (of_nat n :: u64)"

lemma length_be_of_nat [simp]: "length (be_of_nat k n) = k"
  by (induction k arbitrary: n) auto

lemma nat_of_be_append: "nat_of_be (xs @ [b]) = 256 * nat_of_be xs + unat b"
  by (simp add: nat_of_be_def)

lemma nat_of_be_of_nat: "nat_of_be (be_of_nat k n) = n mod 256 ^ k"
proof (induction k arbitrary: n)
  case 0
  then show ?case by (simp add: nat_of_be_def)
next
  case (Suc k)
  have "unat (of_nat n :: u8) = n mod 256" by (simp add: unat_of_nat)
  then show ?case by (simp add: Suc nat_of_be_append mod_mult2_eq)
qed

lemma from_to_be_bytes:
  assumes "LENGTH('a) = 8 * k"
  shows "from_be_bytes (to_be_bytes (w :: 'a::len word)) = w"
proof -
  have "(256::nat) ^ k = 2 ^ LENGTH('a)"
    using assms by (simp add: power_mult)
  moreover have "unat w < 2 ^ LENGTH('a)" by (rule unsigned_less)
  ultimately have "unat w mod 256 ^ k = unat w" by simp
  with assms show ?thesis
    by (simp add: from_be_bytes_def to_be_bytes_def nat_of_be_of_nat)
qed

lemma from_to_be_bytes_sizes [simp]:
  "from_be_bytes (to_be_bytes (a :: u16)) = a"
  "from_be_bytes (to_be_bytes (b :: u32)) = b"
  "from_be_bytes (to_be_bytes (c :: u64)) = c"
  using from_to_be_bytes [of 2 a] from_to_be_bytes [of 4 b] from_to_be_bytes [of 8 c] by simp_all

lemma length_to_be_bytes [simp]:
  "length (to_be_bytes (a :: u16)) = 2"
  "length (to_be_bytes (b :: u32)) = 4"
  "length (to_be_bytes (c :: u64)) = 8"
  by (simp_all add: to_be_bytes_def)

lemma f32_bytes [simp]:
  "length (f32_to_be_bytes x) = 4"
  "f32_from_be_bytes (f32_to_be_bytes x) = x"
  by (simp_all add: f32_to_be_bytes_def f32_from_be_bytes_def)

lemma length_usize_to_be_bytes [simp]: "length (usize_to_be_bytes n) = 8"
  by (simp add: usize_to_be_bytes_def)

lemma usize_from_to_be_bytes [simp]:
  "n < 2 ^ 64 \<Longrightarrow> unat (from_be_bytes (usize_to_be_bytes n) :: u64) = n"
  by (simp add: usize_to_be_bytes_def unat_of_nat)

section \<open>Addresses and limits\<close>

fun serialize_socket_address :: "socket_addr \<Rightarrow> u8 list app_result" where
  "serialize_socket_address (SocketAddr (V4 a b c d) p) = Ok ([a, b, c, d] @ to_be_bytes p)"
| "serialize_socket_address (SocketAddr (V6 w) p) = Panicked"

definition serialize_limit :: "f32 option \<Rightarrow> u8 list" where
  "serialize_limit l = f32_to_be_bytes (case l of None \<Rightarrow> NO_LIMIT | Some x \<Rightarrow> x)"

section \<open>Snapshots\<close>

definition serialize_account_snapshot :: "account_snapshot \<Rightarrow> u8 list" where
  "serialize_account_snapshot a =
     to_be_bytes (as_account_id a) @ serialize_limit (as_limit a) @ f32_to_be_bytes (as_consumed a)"

definition serialize_card_snapshot :: "card_snapshot \<Rightarrow> u8 list" where
  "serialize_card_snapshot c =
     to_be_bytes (cs_account_id c) @ to_be_bytes (cs_card_id c) @
     serialize_limit (cs_limit c) @ f32_to_be_bytes (cs_consumed c)"

definition serialize_database_snapshot :: "database_snapshot \<Rightarrow> u8 list app_result" where
  "serialize_database_snapshot d =
     and_then (serialize_socket_address (ds_addr d)) (\<lambda>addr_srl.
     Ok (addr_srl @
         usize_to_be_bytes (length (ds_accounts d)) @
         concat (map serialize_account_snapshot (ds_accounts d)) @
         usize_to_be_bytes (length (ds_cards d)) @
         concat (map serialize_card_snapshot (ds_cards d))))"

section \<open>Operations\<close>

definition serialize_replace_database_operation :: "database_snapshot \<Rightarrow> u8 list app_result" where
  "serialize_replace_database_operation snapshot =
     and_then (serialize_database_snapshot snapshot) (\<lambda>snapshot_srl.
     Ok (OP_REPLACE_DATABASE # snapshot_srl))"

definition serialize_get_database_operation :: "socket_addr \<Rightarrow> u8 list app_result" where
  "serialize_get_database_operation addr =
     and_then (serialize_socket_address addr) (\<lambda>addr_srl. Ok (OP_GET_DATABASE # addr_srl))"

definition serialize_charge_operation :: "u64 \<Rightarrow> u64 \<Rightarrow> f32 \<Rightarrow> bool \<Rightarrow> u8 list" where
  "serialize_charge_operation account_id card_id amount from_offline_station =
     [OP_TYPE_CHARGE] @ to_be_bytes account_id @ to_be_bytes card_id @ f32_to_be_bytes amount @
     (if from_offline_station then [WIRE_TRUE] else [WIRE_FALSE])"

definition serialize_limit_account_operation :: "u64 \<Rightarrow> f32 option \<Rightarrow> u8 list" where
  "serialize_limit_account_operation account_id new_limit =
     [OP_TYPE_LIMIT_ACCOUNT] @ to_be_bytes account_id @ serialize_limit new_limit"

definition serialize_limit_card_operation :: "u64 \<Rightarrow> u64 \<Rightarrow> f32 option \<Rightarrow> u8 list" where
  "serialize_limit_card_operation account_id card_id new_limit =
     [OP_TYPE_LIMIT_CARD] @ to_be_bytes account_id @ to_be_bytes card_id @ serialize_limit new_limit"

definition serialize_query_account_operation :: "u64 \<Rightarrow> u8 list" where
  "serialize_query_account_operation account_id =
     [OP_TYPE_QUERY_ACCOUNT] @ to_be_bytes account_id"

text \<open>The length byte is \<open>period_bytes.len() as u8\<close>: it wraps at 256.\<close>

definition serialize_bill_operation :: "u64 \<Rightarrow> rust_string option \<Rightarrow> u8 list" where
  "serialize_bill_operation account_id period =
     [OP_TYPE_BILL] @ to_be_bytes account_id @
     (case period of Some period_bytes \<Rightarrow> of_nat (length period_bytes) # period_bytes
      | None \<Rightarrow> [0])"

fun serialize_operation :: "operation \<Rightarrow> u8 list app_result" where
  "serialize_operation (Charge account_id card_id amount off) =
     Ok (serialize_charge_operation account_id card_id amount off)"
| "serialize_operation (LimitAccount account_id new_limit) =
     Ok (serialize_limit_account_operation account_id new_limit)"
| "serialize_operation (LimitCard account_id card_id new_limit) =
     Ok (serialize_limit_card_operation account_id card_id new_limit)"
| "serialize_operation (AccountQuery account_id) =
     Ok (serialize_query_account_operation account_id)"
| "serialize_operation (Bill account_id period) = Ok (serialize_bill_operation account_id period)"
| "serialize_operation (GetDatabase addr) = serialize_get_database_operation addr"
| "serialize_operation (ReplaceDatabase snapshot) = serialize_replace_database_operation snapshot"

section \<open>Results\<close>

fun serialize_limit_update_error :: "limit_update_error \<Rightarrow> u8 list" where
  "serialize_limit_update_error BelowCurrentUsage = [LIMIT_UPDATE_ERR, BELOW_CURRENT_USAGE]"

fun serialize_charge_limit_error :: "limit_check_error \<Rightarrow> u8 list" where
  "serialize_charge_limit_error CardLimitExceeded = [CHARGE_LIMIT_ERR, CARD_LIMIT_EXCEEDED]"
| "serialize_charge_limit_error AccountLimitExceeded = [CHARGE_LIMIT_ERR, ACC_LIMIT_EXCEEDED]"

fun serialize_verify_error :: "verify_error \<Rightarrow> u8 list" where
  "serialize_verify_error (ChargeLimit e) = serialize_charge_limit_error e"
| "serialize_verify_error (LimitUpdate e) = serialize_limit_update_error e"

definition serialize_replace_database_result :: "u8 list" where
  "serialize_replace_database_result = [REPLACE_DATABASE]"

definition serialize_database_snapshot_result :: "database_snapshot \<Rightarrow> u8 list app_result" where
  "serialize_database_snapshot_result result =
     and_then (serialize_database_snapshot result) (\<lambda>srl. Ok (DATABASE_SNAPSHOT # srl))"

definition serialize_card_spent :: "u64 \<times> f32 \<Rightarrow> u8 list" where
  "serialize_card_spent card_spent =
     to_be_bytes (fst card_spent) @ f32_to_be_bytes (snd card_spent)"

definition serialize_account_query_result :: "account_query_result \<Rightarrow> u8 list" where
  "serialize_account_query_result r =
     [ACC_QUERY_RESULT] @ to_be_bytes (aq_account_id r) @ f32_to_be_bytes (aq_total_spent r) @
     usize_to_be_bytes (length (aq_per_card_spent r)) @
     concat (map serialize_card_spent (aq_per_card_spent r))"

fun serialize_limit_result :: "limit_result \<Rightarrow> u8 list" where
  "serialize_limit_result LimitOk = [WIRE_OK]"
| "serialize_limit_result (LimitFailed e) = WIRE_ERR # serialize_verify_error e"

definition serialize_limit_card_result :: "limit_result \<Rightarrow> u8 list" where
  "serialize_limit_card_result r = LIMIT_CARD_RESULT # serialize_limit_result r"

definition serialize_limit_account_result :: "limit_result \<Rightarrow> u8 list" where
  "serialize_limit_account_result r = LIMIT_ACCOUNT_RESULT # serialize_limit_result r"

fun serialize_charge_result :: "charge_result \<Rightarrow> u8 list" where
  "serialize_charge_result ChargeOk = [CHARGE_RESULT, WIRE_OK]"
| "serialize_charge_result (ChargeFailed e) =
     [CHARGE_RESULT, WIRE_ERR] @ serialize_verify_error e"

fun serialize_operation_result :: "operation_result \<Rightarrow> u8 list app_result" where
  "serialize_operation_result (ResCharge r) = Ok (serialize_charge_result r)"
| "serialize_operation_result (ResLimitAccount r) = Ok (serialize_limit_account_result r)"
| "serialize_operation_result (ResLimitCard r) = Ok (serialize_limit_card_result r)"
| "serialize_operation_result (ResAccountQuery r) = Ok (serialize_account_query_result r)"
| "serialize_operation_result (ResDatabaseSnapshot d) = serialize_database_snapshot_result d"
| "serialize_operation_result ResReplaceDatabase = Ok serialize_replace_database_result"

section \<open>Messages\<close>

definition serialize_coordinator_message :: "u64 \<Rightarrow> socket_addr \<Rightarrow> u8 list app_result" where
  "serialize_coordinator_message leader_id leader_addr =
     and_then (serialize_socket_address leader_addr) (\<lambda>addr_srl.
     Ok (MSG_TYPE_COORDINATOR # to_be_bytes leader_id @ addr_srl))"

definition serialize_election_message :: "u64 \<Rightarrow> socket_addr \<Rightarrow> u8 list app_result" where
  "serialize_election_message candidate_id candidate_addr =
     and_then (serialize_socket_address candidate_addr) (\<lambda>addr_srl.
     Ok (MSG_TYPE_ELECTION # to_be_bytes candidate_id @ addr_srl))"

definition serialize_election_ok_message :: "u64 \<Rightarrow> u8 list" where
  "serialize_election_ok_message responder_id = MSG_TYPE_ELECTION_OK # to_be_bytes responder_id"

fun serialize_role :: "node_role \<Rightarrow> u8" where
  "serialize_role RoleLeader = NODE_ROLE_LEADER"
| "serialize_role RoleReplica = NODE_ROLE_REPLICA"
| "serialize_role RoleStation = NODE_ROLE_CLIENT"

definition serialize_role_response_message :: "u64 \<Rightarrow> node_role \<Rightarrow> u8 list" where
  "serialize_role_response_message node_id role =
     MSG_TYPE_ROLE_RESPONSE # to_be_bytes node_id @ [serialize_role role]"

definition serialize_role_query_message :: "socket_addr \<Rightarrow> u8 list app_result" where
  "serialize_role_query_message addr =
     and_then (serialize_socket_address addr) (\<lambda>addr_srl. Ok (MSG_TYPE_ROLE_QUERY # addr_srl))"

definition serialize_response_message :: "u32 \<Rightarrow> operation_result \<Rightarrow> u8 list app_result" where
  "serialize_response_message req_id op_result =
     and_then (serialize_operation_result op_result) (\<lambda>op_result_srl.
     Ok (MSG_TYPE_RESPONSE # to_be_bytes req_id @ op_result_srl))"

definition serialize_request_message :: "u32 \<Rightarrow> socket_addr \<Rightarrow> operation \<Rightarrow> u8 list app_result" where
  "serialize_request_message op_id addr op =
     and_then (serialize_socket_address addr) (\<lambda>addr_srl.
     and_then (serialize_operation op) (\<lambda>op_srl.
     Ok (MSG_TYPE_REQUEST # to_be_bytes op_id @ addr_srl @ op_srl)))"

definition serialize_log_message :: "u32 \<Rightarrow> operation \<Rightarrow> u8 list app_result" where
  "serialize_log_message op_id op =
     and_then (serialize_operation op) (\<lambda>op_srl. Ok (MSG_TYPE_LOG # to_be_bytes op_id @ op_srl))"

definition serialize_ack_message :: "u32 \<Rightarrow> u8 list" where
  "serialize_ack_message op_id = MSG_TYPE_ACK # to_be_bytes op_id"

definition serialize_join_message :: "socket_addr \<Rightarrow> u8 list app_result" where
  "serialize_join_message addr =
     and_then (serialize_socket_address addr) (\<lambda>addr_srl. Ok (MSG_TYPE_JOIN # addr_srl))"

definition serialize_member :: "u64 \<times> socket_addr \<Rightarrow> u8 list app_result" where
  "serialize_member member =
     and_then (serialize_socket_address (snd member)) (\<lambda>addr_srl.
     Ok (to_be_bytes (fst member) @ addr_srl))"

fun serialize_members :: "(u64 \<times> socket_addr) list \<Rightarrow> u8 list app_result" where
  "serialize_members [] = Ok []"
| "serialize_members (m # ms) =
     and_then (serialize_member m) (\<lambda>srl.
     and_then (serialize_members ms) (\<lambda>srls. Ok (srl @ srls)))"

definition serialize_cluster_view_message ::
    "(u64 \<times> socket_addr) list \<Rightarrow> socket_addr \<Rightarrow> database_snapshot \<Rightarrow> u8 list app_result" where
  "serialize_cluster_view_message members leader_addr database =
     and_then (serialize_socket_address leader_addr) (\<lambda>leader_addr_srl.
     and_then (serialize_database_snapshot database) (\<lambda>database_srl.
     and_then (serialize_members members) (\<lambda>members_srl.
     Ok (MSG_TYPE_CLUSTER_VIEW # usize_to_be_bytes (length members) @ members_srl @
         leader_addr_srl @ database_srl))))"

definition serialize_cluster_update_message :: "u64 \<times> socket_addr \<Rightarrow> u8 list app_result" where
  "serialize_cluster_update_message new_member =
     and_then (serialize_member new_member) (\<lambda>srl. Ok (MSG_TYPE_CLUSTER_UPDATE # srl))"

fun serialize_message :: "message \<Rightarrow> u8 list app_result" where
  "serialize_message (Request req_id op addr) = serialize_request_message req_id addr op"
| "serialize_message (Log op_id op) = serialize_log_message op_id op"
| "serialize_message (Ack op_id) = Ok (serialize_ack_message op_id)"
| "serialize_message (Join addr) = serialize_join_message addr"
| "serialize_message (ClusterView members leader_addr database) =
     serialize_cluster_view_message members leader_addr database"
| "serialize_message (ClusterUpdate new_member) = serialize_cluster_update_message new_member"
| "serialize_message (Response req_id op_result) = serialize_response_message req_id op_result"
| "serialize_message (RoleQuery addr) = serialize_role_query_message addr"
| "serialize_message (RoleResponse node_id role) =
     Ok (serialize_role_response_message node_id role)"
| "serialize_message (Coordinator leader_id leader_addr) =
     serialize_coordinator_message leader_id leader_addr"
| "serialize_message (Election candidate_id candidate_addr) =
     serialize_election_message candidate_id candidate_addr"
| "serialize_message (ElectionOk responder_id) = Ok (serialize_election_ok_message responder_id)"

end
