(* ===== verification/Deserialization.thy ===== *)
theory Deserialization
  imports Serialization
begin

text \<open>
  The receiving half of the binary protocol: the helpers and the \<open>TryFrom\<close> conversions of
  \<open>common/src/network/serials/deserialization/\<close>. A read past the end of the buffer is a
  slice index panic, exactly where the code slices; the length checks the code makes are kept
  and return \<open>InvalidProtocol\<close>.
\<close>

section \<open>Helpers\<close>

definition deserialize_amount :: "u8 list \<Rightarrow> f32 app_result" where
  "deserialize_amount payload =
     and_then (slice payload 0 AMOUNT_SRL_LEN) (\<lambda>bs. Ok (f32_from_be_bytes bs))"

text \<open>The pattern \<open>NO_LIMIT =>\<close> is a float pattern: it compares as \<open>==\<close> does.\<close>

definition deserialize_limit :: "u8 list \<Rightarrow> f32 option app_result" where
  "deserialize_limit payload =
     and_then (deserialize_amount payload) (\<lambda>limit.
     Ok (if f32_eq limit NO_LIMIT then None else Some limit))"

definition deserialize_vec_len :: "u8 list \<Rightarrow> nat app_result" where
  "deserialize_vec_len payload =
     and_then (slice payload 0 VEC_LEN_LEN) (\<lambda>bs. Ok (unat (from_be_bytes bs :: u64)))"

definition deserialize_account_id :: "u8 list \<Rightarrow> u64 app_result" where
  "deserialize_account_id payload =
     and_then (slice payload 0 ACC_ID_SRL_LEN) (\<lambda>bs. Ok (from_be_bytes bs))"

definition deserialize_card_id :: "u8 list \<Rightarrow> u64 app_result" where
  "deserialize_card_id payload =
     and_then (slice payload 0 CARD_ID_SRL_LEN) (\<lambda>bs. Ok (from_be_bytes bs))"

definition deserialize_socket_address_srl :: "u8 list \<Rightarrow> socket_addr app_result" where
  "deserialize_socket_address_srl payload =
     (if length payload < SOCKET_ADDR_LEN then Error InvalidProtocol
      else and_then (slice payload 0 4) (\<lambda>ip.
           and_then (slice payload 4 6) (\<lambda>port.
           Ok (SocketAddr (V4 (ip ! 0) (ip ! 1) (ip ! 2) (ip ! 3)) (from_be_bytes port)))))"

text \<open>
  The loop \<open>for _ in 0..n { xs.push(dec(&payload[ptr..])?); ptr += size }\<close> shared by the
  vector fields. Returns the elements and the final \<open>ptr\<close>.
\<close>

fun deserialize_vec ::
    "(u8 list \<Rightarrow> 'a app_result) \<Rightarrow> nat \<Rightarrow> nat \<Rightarrow> u8 list \<Rightarrow> nat \<Rightarrow> ('a list \<times> nat) app_result" where
  "deserialize_vec dec width 0 payload ptr = Ok ([], ptr)"
| "deserialize_vec dec width (Suc n) payload ptr =
     and_then (and_then (slice_from payload ptr) dec) (\<lambda>x.
     and_then (deserialize_vec dec width n payload (ptr + width)) (\<lambda>(xs, ptr').
     Ok (x # xs, ptr')))"

section \<open>Snapshots\<close>

definition deserialize_account_snapshot :: "u8 list \<Rightarrow> account_snapshot app_result" where
  "deserialize_account_snapshot payload =
     and_then (deserialize_account_id payload) (\<lambda>account_id.
     and_then (and_then (slice_from payload ACC_ID_SRL_LEN) deserialize_limit) (\<lambda>limit.
     and_then (and_then (slice_from payload (ACC_ID_SRL_LEN + AMOUNT_SRL_LEN)) deserialize_amount)
       (\<lambda>consumed.
     Ok \<lparr>as_account_id = account_id, as_limit = limit, as_consumed = consumed\<rparr>)))"

definition deserialize_card_snapshot :: "u8 list \<Rightarrow> card_snapshot app_result" where
  "deserialize_card_snapshot payload =
     and_then (deserialize_account_id payload) (\<lambda>account_id.
     and_then (and_then (slice_from payload ACC_ID_SRL_LEN) deserialize_card_id) (\<lambda>card_id.
     and_then (and_then (slice_from payload (ACC_ID_SRL_LEN + CARD_ID_SRL_LEN)) deserialize_limit)
       (\<lambda>limit.
     and_then (and_then (slice_from payload (ACC_ID_SRL_LEN + CARD_ID_SRL_LEN + AMOUNT_SRL_LEN))
       deserialize_amount) (\<lambda>consumed.
     Ok \<lparr>cs_account_id = account_id, cs_card_id = card_id, cs_limit = limit,
         cs_consumed = consumed\<rparr>))))"

definition deserialize_database_snapshot :: "u8 list \<Rightarrow> database_snapshot app_result" where
  "deserialize_database_snapshot payload =
     and_then (deserialize_socket_address_srl payload) (\<lambda>addr.
     let ptr = SOCKET_ADDR_LEN in
     and_then (and_then (slice_from payload ptr) deserialize_vec_len) (\<lambda>accounts_len.
     and_then (deserialize_vec deserialize_account_snapshot ACC_SNAPSHOT_SRL_LEN accounts_len
       payload (ptr + VEC_LEN_LEN)) (\<lambda>(accounts, ptr).
     and_then (and_then (slice_from payload ptr) deserialize_vec_len) (\<lambda>cards_len.
     and_then (deserialize_vec deserialize_card_snapshot CARD_SNAPSHOT_SRL_LEN cards_len
       payload (ptr + VEC_LEN_LEN)) (\<lambda>(cards, ptr).
     Ok \<lparr>ds_addr = addr, ds_accounts = accounts, ds_cards = cards\<rparr>)))))"

section \<open>Operations\<close>

definition deserialize_replace_database_operation :: "u8 list \<Rightarrow> operation app_result" where
  "deserialize_replace_database_operation payload =
     and_then (deserialize_database_snapshot payload) (\<lambda>snapshot. Ok (ReplaceDatabase snapshot))"

definition deserialize_get_database_operation :: "u8 list \<Rightarrow> operation app_result" where
  "deserialize_get_database_operation payload =
     and_then (deserialize_socket_address_srl payload) (\<lambda>addr. Ok (GetDatabase addr))"

definition deserialize_from_offline_station :: "u8 list \<Rightarrow> bool app_result" where
  "deserialize_from_offline_station payload =
     and_then (slice payload 0 OFFLINE_SRL_LEN) (\<lambda>bs.
     if bs = [WIRE_TRUE] then Ok True
     else if bs = [WIRE_FALSE] then Ok False
     else Error InvalidProtocol)"

definition deserialize_charge_operation :: "u8 list \<Rightarrow> operation app_result" where
  "deserialize_charge_operation payload =
     (if length payload \<noteq> CHARGE_SRL_LEN then Error InvalidProtocol
      else and_then (deserialize_account_id payload) (\<lambda>account_id.
           and_then (and_then (slice_from payload ACC_ID_SRL_LEN) deserialize_card_id) (\<lambda>card_id.
           and_then (and_then (slice_from payload (ACC_ID_SRL_LEN + CARD_ID_SRL_LEN))
             deserialize_amount) (\<lambda>amount.
           and_then (and_then (slice_from payload (ACC_ID_SRL_LEN + CARD_ID_SRL_LEN + AMOUNT_SRL_LEN))
             deserialize_from_offline_station) (\<lambda>from_offline_station.
           Ok (Charge account_id card_id amount from_offline_station))))))"

definition deserialize_limit_account_operation :: "u8 list \<Rightarrow> operation app_result" where
  "deserialize_limit_account_operation payload =
     (if length payload \<noteq> LIMIT_ACC_SRL_LEN then Error InvalidProtocol
      else and_then (deserialize_account_id payload) (\<lambda>account_id.
           and_then (and_then (slice_from payload ACC_ID_SRL_LEN) deserialize_limit) (\<lambda>new_limit.
           Ok (LimitAccount account_id new_limit))))"

definition deserialize_limit_card_operation :: "u8 list \<Rightarrow> operation app_result" where
  "deserialize_limit_card_operation payload =
     (if length payload \<noteq> LIMIT_CARD_SRL_LEN then Error InvalidProtocol
      else and_then (deserialize_account_id payload) (\<lambda>account_id.
           and_then (and_then (slice_from payload ACC_ID_SRL_LEN) deserialize_card_id) (\<lambda>card_id.
           and_then (and_then (slice_from payload (ACC_ID_SRL_LEN + CARD_ID_SRL_LEN))
             deserialize_limit) (\<lambda>new_limit.
           Ok (LimitCard account_id card_id new_limit)))))"

definition deserialize_query_account_operation :: "u8 list \<Rightarrow> operation app_result" where
  "deserialize_query_account_operation payload =
     (if length payload \<noteq> ACC_ID_SRL_LEN then Error InvalidProtocol
      else and_then (deserialize_account_id payload) (\<lambda>account_id. Ok (AccountQuery account_id)))"

subsection \<open>UTF-8, as \<open>str::from_utf8\<close> accepts it\<close>

definition utf8_cont :: "u8 \<Rightarrow> bool" where
  "utf8_cont b \<longleftrightarrow> 0x80 \<le> b \<and> b \<le> 0xBF"

fun utf8_valid :: "u8 list \<Rightarrow> bool" where
  "utf8_valid [] = True"
| "utf8_valid (b # bs) =
     (if b < 0x80 then utf8_valid bs
      else if 0xC2 \<le> b \<and> b \<le> 0xDF then
        (case bs of c # cs \<Rightarrow> utf8_cont c \<and> utf8_valid cs | _ \<Rightarrow> False)
      else if 0xE0 \<le> b \<and> b \<le> 0xEF then
        (case bs of c # d # ds \<Rightarrow> utf8_cont c \<and> utf8_cont d \<and> (b = 0xE0 \<longrightarrow> 0xA0 \<le> c) \<and>
           (b = 0xED \<longrightarrow> c \<le> 0x9F) \<and> utf8_valid ds | _ \<Rightarrow> False)
      else if 0xF0 \<le> b \<and> b \<le> 0xF4 then
        (case bs of c # d # e # es \<Rightarrow> utf8_cont c \<and> utf8_cont d \<and> utf8_cont e \<and>
           (b = 0xF0 \<longrightarrow> 0x90 \<le> c) \<and> (b = 0xF4 \<longrightarrow> c \<le> 0x8F) \<and> utf8_valid es | _ \<Rightarrow> False)
      else False)"

text \<open>\<open>s[1..]\<close> of a string panics unless offset 1 is a character boundary.\<close>

definition str_slice_from_1 :: "rust_string \<Rightarrow> rust_string app_result" where
  "str_slice_from_1 s =
     (case s of [] \<Rightarrow> Panicked
      | _ # [] \<Rightarrow> Ok []
      | _ # c # cs \<Rightarrow> if utf8_cont c then Panicked else Ok (c # cs))"

text \<open>
  The length byte is not used to delimit the period: the rest of the buffer, length byte
  included, is read as one UTF-8 string whose first byte is then dropped.
\<close>

definition deserialize_bill_operation :: "u8 list \<Rightarrow> operation app_result" where
  "deserialize_bill_operation payload =
     (if length payload < ACC_ID_SRL_LEN then Error InvalidProtocol
      else and_then (deserialize_account_id payload) (\<lambda>account_id.
           if ACC_ID_SRL_LEN < length payload then
             and_then (slice_from payload ACC_ID_SRL_LEN) (\<lambda>period_bytes.
             if utf8_valid period_bytes then
               (if period_bytes = [0] then Ok (Bill account_id None)
                else and_then (str_slice_from_1 period_bytes) (\<lambda>s. Ok (Bill account_id (Some s))))
             else Error InvalidProtocol)
           else Ok (Bill account_id None)))"

definition deserialize_operation :: "u8 list \<Rightarrow> operation app_result" where
  "deserialize_operation payload =
     and_then (index0 payload) (\<lambda>ty.
     and_then (slice_from payload 1) (\<lambda>rest.
     if ty = OP_TYPE_CHARGE then deserialize_charge_operation rest
     else if ty = OP_TYPE_LIMIT_ACCOUNT then deserialize_limit_account_operation rest
     else if ty = OP_TYPE_LIMIT_CARD then deserialize_limit_card_operation rest
     else if ty = OP_TYPE_QUERY_ACCOUNT then deserialize_query_account_operation rest
     else if ty = OP_TYPE_BILL then deserialize_bill_operation rest
     else if ty = OP_GET_DATABASE then deserialize_get_database_operation rest
     else if ty = OP_REPLACE_DATABASE then deserialize_replace_database_operation rest
     else Error InvalidProtocol))"

section \<open>Results\<close>

definition deserialize_card_spent :: "u8 list \<Rightarrow> (u64 \<times> f32) app_result" where
  "deserialize_card_spent payload =
     and_then (deserialize_card_id payload) (\<lambda>card_id.
     and_then (and_then (slice_from payload CARD_ID_SRL_LEN) deserialize_amount) (\<lambda>amount.
     Ok (card_id, amount)))"

definition deserialize_account_query_result :: "u8 list \<Rightarrow> operation_result app_result" where
  "deserialize_account_query_result payload =
     and_then (deserialize_account_id payload) (\<lambda>account_id.
     and_then (and_then (slice_from payload ACC_ID_SRL_LEN) deserialize_amount) (\<lambda>total_spent.
     let ptr = ACC_ID_SRL_LEN + AMOUNT_SRL_LEN in
     and_then (slice payload ptr (ptr + PER_CARD_SPENT_LEN)) (\<lambda>bs.
     and_then (deserialize_vec deserialize_card_spent CARD_SPENT_LEN
       (unat (from_be_bytes bs :: u64)) payload (ptr + PER_CARD_SPENT_LEN)) (\<lambda>(per_card_spent, ptr).
     Ok (ResAccountQuery \<lparr>aq_account_id = account_id, aq_total_spent = total_spent,
          aq_per_card_spent = per_card_spent\<rparr>)))))"

text \<open>The error payload of a card limit result is \<open>todo!()\<close>: reading one panics.\<close>

definition deserialize_limit_card_result :: "u8 list \<Rightarrow> operation_result app_result" where
  "deserialize_limit_card_result payload =
     and_then (index0 payload) (\<lambda>b.
     if b = WIRE_OK then Ok (ResLimitCard LimitOk)
     else if b = WIRE_ERR then Panicked
     else Error InvalidProtocol)"

definition deserialize_limit_check_error :: "u8 list \<Rightarrow> limit_check_error app_result" where
  "deserialize_limit_check_error payload =
     (if length payload < LIMIT_CHECK_ERR_LEN then Error InvalidProtocol
      else and_then (index0 payload) (\<lambda>b.
           if b = ACC_LIMIT_EXCEEDED then Ok AccountLimitExceeded
           else if b = CARD_LIMIT_EXCEEDED then Ok CardLimitExceeded
           else Error InvalidProtocol))"

definition deserialize_limit_update_error :: "u8 list \<Rightarrow> limit_update_error app_result" where
  "deserialize_limit_update_error payload =
     and_then (index0 payload) (\<lambda>b.
     if b = BELOW_CURRENT_USAGE then Ok BelowCurrentUsage else Error InvalidProtocol)"

definition deserialize_verify_error :: "u8 list \<Rightarrow> verify_error app_result" where
  "deserialize_verify_error payload =
     and_then (index0 payload) (\<lambda>b.
     and_then (slice_from payload 1) (\<lambda>rest.
     if b = CHARGE_LIMIT_ERR then
       and_then (deserialize_limit_check_error rest) (\<lambda>e. Ok (ChargeLimit e))
     else if b = LIMIT_UPDATE_ERR then
       and_then (deserialize_limit_update_error rest) (\<lambda>e. Ok (LimitUpdate e))
     else Error InvalidProtocol))"

definition deserialize_limit_account_result :: "u8 list \<Rightarrow> operation_result app_result" where
  "deserialize_limit_account_result payload =
     and_then (index0 payload) (\<lambda>b.
     if b = WIRE_OK then Ok (ResLimitAccount LimitOk)
     else if b = WIRE_ERR then
       and_then (and_then (slice_from payload 1) deserialize_verify_error) (\<lambda>e.
       Ok (ResLimitAccount (LimitFailed e)))
     else Error InvalidProtocol)"

definition deserialize_charge_result :: "u8 list \<Rightarrow> operation_result app_result" where
  "deserialize_charge_result payload =
     and_then (index0 payload) (\<lambda>b.
     if b = WIRE_OK then Ok (ResCharge ChargeOk)
     else if b = WIRE_ERR then
       and_then (and_then (slice_from payload 1) deserialize_verify_error) (\<lambda>e.
       Ok (ResCharge (ChargeFailed e)))
     else Error InvalidProtocol)"

definition deserialize_operation_result :: "u8 list \<Rightarrow> operation_result app_result" where
  "deserialize_operation_result payload =
     and_then (index0 payload) (\<lambda>ty.
     and_then (slice_from payload 1) (\<lambda>rest.
     if ty = CHARGE_RESULT then deserialize_charge_result rest
     else if ty = LIMIT_ACCOUNT_RESULT then deserialize_limit_account_result rest
     else if ty = LIMIT_CARD_RESULT then deserialize_limit_card_result rest
     else if ty = ACC_QUERY_RESULT then deserialize_account_query_result rest
     else Error InvalidProtocol))"

section \<open>Messages\<close>

definition deserialize_op_id :: "u8 list \<Rightarrow> u32 app_result" where
  "deserialize_op_id payload =
     (if length payload < OP_ID_SRL_LEN then Error InvalidProtocol
      else and_then (slice payload 0 4) (\<lambda>bs. Ok (from_be_bytes bs)))"

definition deserialize_node_id :: "u8 list \<Rightarrow> u64 app_result" where
  "deserialize_node_id payload =
     and_then (slice payload 0 NODE_ID_SRL_LEN) (\<lambda>bs. Ok (from_be_bytes bs))"

definition deserialize_coordinator_message :: "u8 list \<Rightarrow> message app_result" where
  "deserialize_coordinator_message payload =
     and_then (deserialize_node_id payload) (\<lambda>leader_id.
     and_then (and_then (slice_from payload NODE_ID_SRL_LEN) deserialize_socket_address_srl)
       (\<lambda>leader_addr. Ok (Coordinator leader_id leader_addr)))"

definition deserialize_election_message :: "u8 list \<Rightarrow> message app_result" where
  "deserialize_election_message payload =
     and_then (deserialize_node_id payload) (\<lambda>candidate_id.
     and_then (and_then (slice_from payload NODE_ID_SRL_LEN) deserialize_socket_address_srl)
       (\<lambda>candidate_addr. Ok (Election candidate_id candidate_addr)))"

definition deserialize_election_ok_message :: "u8 list \<Rightarrow> message app_result" where
  "deserialize_election_ok_message payload =
     and_then (deserialize_node_id payload) (\<lambda>responder_id. Ok (ElectionOk responder_id))"

definition deserialize_role_query_message :: "u8 list \<Rightarrow> message app_result" where
  "deserialize_role_query_message payload =
     and_then (deserialize_socket_address_srl payload) (\<lambda>addr. Ok (RoleQuery addr))"

definition deserialize_response_message :: "u8 list \<Rightarrow> message app_result" where
  "deserialize_response_message payload =
     and_then (deserialize_op_id payload) (\<lambda>req_id.
     and_then (and_then (slice_from payload OP_ID_SRL_LEN) deserialize_operation_result)
       (\<lambda>op_result. Ok (Response req_id op_result)))"

definition deserialize_request_message :: "u8 list \<Rightarrow> message app_result" where
  "deserialize_request_message payload =
     and_then (deserialize_op_id payload) (\<lambda>op_id.
     and_then (and_then (slice_from payload OP_ID_SRL_LEN) deserialize_socket_address_srl) (\<lambda>addr.
     and_then (and_then (slice_from payload (OP_ID_SRL_LEN + SOCKET_ADDR_LEN)) deserialize_operation)
       (\<lambda>op. Ok (Request op_id op addr))))"

definition deserialize_log_message :: "u8 list \<Rightarrow> message app_result" where
  "deserialize_log_message payload =
     and_then (deserialize_op_id payload) (\<lambda>op_id.
     and_then (and_then (slice_from payload OP_ID_SRL_LEN) deserialize_operation) (\<lambda>op.
     Ok (Log op_id op)))"

definition deserialize_ack_message :: "u8 list \<Rightarrow> message app_result" where
  "deserialize_ack_message payload =
     and_then (deserialize_op_id payload) (\<lambda>op_id. Ok (Ack op_id))"

definition deserialize_member :: "u8 list \<Rightarrow> (u64 \<times> socket_addr) app_result" where
  "deserialize_member payload =
     and_then (deserialize_node_id payload) (\<lambda>node_id.
     and_then (and_then (slice_from payload NODE_ID_SRL_LEN) deserialize_socket_address_srl)
       (\<lambda>addr. Ok (node_id, addr)))"

definition deserialize_cluster_update_message :: "u8 list \<Rightarrow> message app_result" where
  "deserialize_cluster_update_message payload =
     (if length payload < MEMBER_SRL_LEN then Error InvalidProtocol
      else and_then (deserialize_member payload) (\<lambda>new_member. Ok (ClusterUpdate new_member)))"

definition deserialize_join_message :: "u8 list \<Rightarrow> message app_result" where
  "deserialize_join_message payload =
     and_then (deserialize_socket_address_srl payload) (\<lambda>addr. Ok (Join addr))"

text \<open>\<open>MEMBER_SRL_LEN * members_len\<close> is a \<open>usize\<close> product: a debug build panics on overflow.\<close>

definition deserialize_cluster_view_message :: "u8 list \<Rightarrow> message app_result" where
  "deserialize_cluster_view_message payload =
     and_then (deserialize_vec_len payload) (\<lambda>members_len.
     if 2 ^ 64 \<le> MEMBER_SRL_LEN * members_len then Panicked
     else if length payload < MEMBER_SRL_LEN * members_len then Error InvalidProtocol
     else
       and_then (deserialize_vec deserialize_member MEMBER_SRL_LEN members_len payload VEC_LEN_LEN)
         (\<lambda>(members, ptr).
       and_then (and_then (slice_from payload ptr) deserialize_socket_address_srl) (\<lambda>leader_addr.
       and_then (and_then (slice_from payload (ptr + SOCKET_ADDR_LEN)) deserialize_database_snapshot)
         (\<lambda>database. Ok (ClusterView members leader_addr database)))))"

text \<open>There is no case for \<open>MSG_TYPE_ROLE_RESPONSE\<close>.\<close>

definition deserialize_message :: "u8 list \<Rightarrow> message app_result" where
  "deserialize_message payload =
     and_then (index0 payload) (\<lambda>ty.
     and_then (slice_from payload 1) (\<lambda>rest.
     if ty = MSG_TYPE_REQUEST then deserialize_request_message rest
     else if ty = MSG_TYPE_LOG then deserialize_log_message rest
     else if ty = MSG_TYPE_ACK then deserialize_ack_message rest
     else if ty = MSG_TYPE_JOIN then deserialize_join_message rest
     else if ty = MSG_TYPE_CLUSTER_VIEW then deserialize_cluster_view_message rest
     else if ty = MSG_TYPE_CLUSTER_UPDATE then deserialize_cluster_update_message rest
     else if ty = MSG_TYPE_RESPONSE then deserialize_response_message rest
     else if ty = MSG_TYPE_ROLE_QUERY then deserialize_role_query_message rest
     else if ty = MSG_TYPE_COORDINATOR then deserialize_coordinator_message rest
     else if ty = MSG_TYPE_ELECTION then deserialize_election_message rest
     else if ty = MSG_TYPE_ELECTION_OK then deserialize_election_ok_message rest
     else Error InvalidData))"

end
