(* ===== verification/Roundtrip.thy ===== *)
theory Roundtrip
  imports Deserialization
begin

text \<open>
  What a receiver reads when a peer serialises: for every message the code can build, the value
  that \<open>deserialize_message\<close> returns on the bytes of \<open>serialize_message\<close>, including the
  messages that do not survive the trip.
\<close>

section \<open>Fixed-width codecs\<close>

text \<open>
  The interface behind the vector loops: an element takes \<open>width\<close> bytes, and reading at its
  offset returns its image whatever follows.
\<close>

locale fixed_codec =
  fixes enc :: "'a \<Rightarrow> u8 list"
    and dec :: "u8 list \<Rightarrow> 'a app_result"
    and width :: nat
    and valid :: "'a \<Rightarrow> bool"
    and image :: "'a \<Rightarrow> 'a"
  assumes enc_width: "valid x \<Longrightarrow> length (enc x) = width"
    and dec_enc: "valid x \<Longrightarrow> dec (enc x @ rest) = Ok (image x)"
begin

lemma enc_all_width: "list_all valid xs \<Longrightarrow> length (concat (map enc xs)) = width * length xs"
  by (induction xs) (auto simp: enc_width)

lemma vec_enc:
  "list_all valid xs \<Longrightarrow> length pre = ptr \<Longrightarrow>
     deserialize_vec dec width (length xs) (pre @ concat (map enc xs) @ rest) ptr =
       Ok (map image xs, ptr + width * length xs)"
proof (induction xs arbitrary: pre ptr)
  case Nil
  then show ?case by simp
next
  case (Cons x xs)
  then have v: "valid x" "list_all valid xs" and p: "length pre = ptr" by simp_all
  have "deserialize_vec dec width (length xs) ((pre @ enc x) @ concat (map enc xs) @ rest)
      (ptr + width) = Ok (map image xs, ptr + width + width * length xs)"
    by (rule Cons.IH [OF v(2)]) (simp add: p enc_width [OF v(1)])
  then show ?case using p by (simp add: dec_enc [OF v(1)])
qed

end

section \<open>Scalars\<close>

lemma amount_read [simp]: "deserialize_amount (f32_to_be_bytes x @ rest) = Ok x"
  by (simp add: deserialize_amount_def)

lemma amount_read_all [simp]: "deserialize_amount (f32_to_be_bytes x) = Ok x"
  using amount_read [of x "[]"] by simp

lemma f32_eq_NO_LIMIT: "f32_eq x NO_LIMIT \<longleftrightarrow> x = NO_LIMIT"
proof
  assume "f32_eq x NO_LIMIT"
  then have key: "f32_key x = f32_key NO_LIMIT" by (simp add: f32_eq_def)
  have "f32_key NO_LIMIT = - 1065353216" "f32_neg NO_LIMIT" "f32_mag NO_LIMIT = 1065353216"
    by (simp_all add: f32_key_def f32_neg_def f32_mag_def NO_LIMIT_def sign_bit_def)
  with key have "f32_neg x = f32_neg NO_LIMIT" "f32_mag x = f32_mag NO_LIMIT"
    by (auto simp: f32_key_def [of x] split: if_splits)
  then show "x = NO_LIMIT" by (rule f32_eqI)
next
  assume "x = NO_LIMIT"
  then show "f32_eq x NO_LIMIT"
    by (simp add: f32_eq_def f32_is_nan_def f32_mag_def NO_LIMIT_def sign_bit_def inf_mag_def)
qed

text \<open>A limit of exactly \<open>-1.0\<close> is read back as no limit.\<close>

definition limit_image :: "f32 option \<Rightarrow> f32 option" where
  "limit_image l = (if l = Some NO_LIMIT then None else l)"

lemma length_limit [simp]: "length (serialize_limit l) = 4"
  by (simp add: serialize_limit_def)

lemma limit_read [simp]: "deserialize_limit (serialize_limit l @ rest) = Ok (limit_image l)"
  by (cases l) (auto simp: deserialize_limit_def serialize_limit_def limit_image_def f32_eq_NO_LIMIT)

lemma limit_read_all [simp]: "deserialize_limit (serialize_limit l) = Ok (limit_image l)"
  using limit_read [of l "[]"] by simp

lemma account_id_read [simp]: "deserialize_account_id (to_be_bytes a @ rest) = Ok a"
  by (simp add: deserialize_account_id_def)

lemma account_id_read_all [simp]: "deserialize_account_id (to_be_bytes a) = Ok a"
  using account_id_read [of a "[]"] by simp

lemma card_id_read [simp]: "deserialize_card_id (to_be_bytes a @ rest) = Ok a"
  by (simp add: deserialize_card_id_def)

lemma node_id_read [simp]: "deserialize_node_id (to_be_bytes a @ rest) = Ok a"
  by (simp add: deserialize_node_id_def)

lemma node_id_read_all [simp]: "deserialize_node_id (to_be_bytes a) = Ok a"
  using node_id_read [of a "[]"] by simp

lemma op_id_read [simp]: "deserialize_op_id (to_be_bytes a @ rest) = Ok a"
  by (simp add: deserialize_op_id_def)

lemma op_id_read_all [simp]: "deserialize_op_id (to_be_bytes a) = Ok a"
  using op_id_read [of a "[]"] by simp

lemma vec_len_read [simp]:
  "n < 2 ^ 64 \<Longrightarrow> deserialize_vec_len (usize_to_be_bytes n @ rest) = Ok n"
  by (simp add: deserialize_vec_len_def)

lemma socket_addr_srl_bytes:
  assumes "is_ipv4 a"
  obtains bs where "serialize_socket_address a = Ok bs" and "length bs = 6"
    and "\<And>rest. deserialize_socket_address_srl (bs @ rest) = Ok a"
proof -
  obtain w x y z p where a: "a = SocketAddr (V4 w x y z) p"
    using assms by (cases a rule: is_ipv4.cases) auto
  let ?bs = "[w, x, y, z] @ to_be_bytes p"
  have "slice (?bs @ rest) 0 4 = (Ok [w, x, y, z] :: u8 list app_result)" for rest
    by (simp add: slice_def)
  moreover have "slice (?bs @ rest) 4 6 = (Ok (to_be_bytes p) :: u8 list app_result)" for rest
    by (simp add: slice_def)
  ultimately have "deserialize_socket_address_srl (?bs @ rest) = Ok a" for rest
    using a by (simp add: deserialize_socket_address_srl_def)
  then show thesis using that [of ?bs] a by simp
qed

definition addr_bytes :: "socket_addr \<Rightarrow> u8 list" where
  "addr_bytes a = (case serialize_socket_address a of Inr bs \<Rightarrow> bs | Inl f \<Rightarrow> [])"

lemma addr_bytes_simps [simp]:
  "is_ipv4 a \<Longrightarrow> serialize_socket_address a = Ok (addr_bytes a)"
  "is_ipv4 a \<Longrightarrow> length (addr_bytes a) = 6"
  "is_ipv4 a \<Longrightarrow> deserialize_socket_address_srl (addr_bytes a @ rest) = Ok a"
  by (erule socket_addr_srl_bytes; simp add: addr_bytes_def)+

lemma addr_bytes_read_all [simp]:
  "is_ipv4 a \<Longrightarrow> deserialize_socket_address_srl (addr_bytes a) = Ok a"
  using addr_bytes_simps(3) [of a "[]"] by simp

section \<open>Snapshots\<close>

definition account_snapshot_image :: "account_snapshot \<Rightarrow> account_snapshot" where
  "account_snapshot_image a = a\<lparr>as_limit := limit_image (as_limit a)\<rparr>"

definition card_snapshot_image :: "card_snapshot \<Rightarrow> card_snapshot" where
  "card_snapshot_image c = c\<lparr>cs_limit := limit_image (cs_limit c)\<rparr>"

interpretation account_codec: fixed_codec
  serialize_account_snapshot deserialize_account_snapshot ACC_SNAPSHOT_SRL_LEN
  "\<lambda>_. True" account_snapshot_image
  by unfold_locales
    (simp_all add: serialize_account_snapshot_def deserialize_account_snapshot_def
      account_snapshot_image_def slice_from_skip)

interpretation card_codec: fixed_codec
  serialize_card_snapshot deserialize_card_snapshot CARD_SNAPSHOT_SRL_LEN
  "\<lambda>_. True" card_snapshot_image
  by unfold_locales
    (simp_all add: serialize_card_snapshot_def deserialize_card_snapshot_def
      card_snapshot_image_def slice_from_skip)

interpretation card_spent_codec: fixed_codec
  serialize_card_spent deserialize_card_spent CARD_SPENT_LEN "\<lambda>_. True" "\<lambda>x. x"
  by unfold_locales
    (simp_all add: serialize_card_spent_def deserialize_card_spent_def slice_from_skip)

definition member_bytes :: "u64 \<times> socket_addr \<Rightarrow> u8 list" where
  "member_bytes m = to_be_bytes (fst m) @ addr_bytes (snd m)"

definition member_ok :: "u64 \<times> socket_addr \<Rightarrow> bool" where
  "member_ok m \<longleftrightarrow> is_ipv4 (snd m)"

interpretation member_codec: fixed_codec
  member_bytes deserialize_member MEMBER_SRL_LEN member_ok "\<lambda>x. x"
  by unfold_locales
    (simp_all add: member_bytes_def member_ok_def deserialize_member_def slice_from_skip)

lemma serialize_member_bytes: "member_ok m \<Longrightarrow> serialize_member m = Ok (member_bytes m)"
  by (simp add: serialize_member_def member_bytes_def member_ok_def)

lemma serialize_members_bytes:
  "list_all member_ok ms \<Longrightarrow> serialize_members ms = Ok (concat (map member_bytes ms))"
  by (induction ms) (auto simp: serialize_member_bytes)

text \<open>
  Lengths a Rust vector can have: an allocation is at most \<open>isize::MAX\<close> bytes, and every
  element here takes at least 16 of them.
\<close>

definition vec_ok :: "'a list \<Rightarrow> bool" where
  "vec_ok xs \<longleftrightarrow> length xs < 2 ^ 60"

lemma vec_ok_u64: "vec_ok xs \<Longrightarrow> length xs < 2 ^ 64"
  by (simp add: vec_ok_def)

definition database_ok :: "database_snapshot \<Rightarrow> bool" where
  "database_ok d \<longleftrightarrow> is_ipv4 (ds_addr d) \<and> vec_ok (ds_accounts d) \<and> vec_ok (ds_cards d)"

definition database_image :: "database_snapshot \<Rightarrow> database_snapshot" where
  "database_image d = d\<lparr>ds_accounts := map account_snapshot_image (ds_accounts d),
                        ds_cards := map card_snapshot_image (ds_cards d)\<rparr>"

definition database_bytes :: "database_snapshot \<Rightarrow> u8 list" where
  "database_bytes d = addr_bytes (ds_addr d) @
     usize_to_be_bytes (length (ds_accounts d)) @
     concat (map serialize_account_snapshot (ds_accounts d)) @
     usize_to_be_bytes (length (ds_cards d)) @
     concat (map serialize_card_snapshot (ds_cards d))"

lemma serialize_database_bytes:
  "database_ok d \<Longrightarrow> serialize_database_snapshot d = Ok (database_bytes d)"
  by (simp add: serialize_database_snapshot_def database_bytes_def database_ok_def)

lemma database_read:
  assumes "database_ok d"
  shows "deserialize_database_snapshot (database_bytes d) = Ok (database_image d)"
proof -
  let ?A = "concat (map serialize_account_snapshot (ds_accounts d))"
  let ?C = "concat (map serialize_card_snapshot (ds_cards d))"
  let ?na = "usize_to_be_bytes (length (ds_accounts d))"
  let ?nc = "usize_to_be_bytes (length (ds_cards d))"
  let ?a = "addr_bytes (ds_addr d)"
  note ok = assms [unfolded database_ok_def]
  have la: "length ?A = 16 * length (ds_accounts d)"
    using account_codec.enc_all_width [of "ds_accounts d"] by (simp add: list_all_iff)
  have va: "deserialize_vec deserialize_account_snapshot 16 (length (ds_accounts d))
      ((?a @ ?na) @ ?A @ (?nc @ ?C)) 14 =
      Ok (map account_snapshot_image (ds_accounts d), 14 + 16 * length (ds_accounts d))"
    using account_codec.vec_enc [of "ds_accounts d" "?a @ ?na" 14 "?nc @ ?C"] ok
    by (simp add: list_all_iff)
  have vc: "deserialize_vec deserialize_card_snapshot 24 (length (ds_cards d))
      ((?a @ ?na @ ?A @ ?nc) @ ?C @ []) (22 + 16 * length (ds_accounts d)) =
      Ok (map card_snapshot_image (ds_cards d),
          22 + 16 * length (ds_accounts d) + 24 * length (ds_cards d))"
    using card_codec.vec_enc [of "ds_cards d" "?a @ ?na @ ?A @ ?nc"
        "22 + 16 * length (ds_accounts d)" "[]"] ok la
    by (simp add: list_all_iff)
  have sc: "slice_from (?a @ ?na @ ?A @ ?nc @ ?C) (14 + 16 * length (ds_accounts d)) =
      (Ok (?nc @ ?C) :: u8 list app_result)"
    using ok la slice_from_append [of "?a @ ?na @ ?A" _ "?nc @ ?C"] by simp
  show ?thesis
    using ok va vc sc vec_ok_u64 [of "ds_accounts d"] vec_ok_u64 [of "ds_cards d"]
    by (simp add: deserialize_database_snapshot_def database_bytes_def database_image_def Let_def
        add.commute [of "8::nat"])
qed

section \<open>Operations\<close>

subsection \<open>The period of a bill\<close>

lemma utf8_not_cont: "utf8_valid (c # cs) \<Longrightarrow> \<not> utf8_cont c"
  by (auto simp: utf8_cont_def word_less_nat_alt word_le_nat_alt split: if_splits)

text \<open>A length byte of 128 or more can never start the string it is read as part of.\<close>

lemma utf8_len_byte:
  assumes valid: "utf8_valid p" and "p \<noteq> []"
  shows "utf8_valid (b # p) \<longleftrightarrow> b < 0x80"
proof -
  obtain c cs where p: "p = c # cs" using assms(2) by (cases p) auto
  have c: "\<not> utf8_cont c" using utf8_not_cont valid p by blast
  show ?thesis
  proof
    assume "utf8_valid (b # p)"
    then show "b < 0x80"
      using c p by (auto split: if_splits list.splits)
  next
    assume "b < 0x80"
    then show "utf8_valid (b # p)" using valid by simp
  qed
qed

definition bill_image :: "u64 \<Rightarrow> rust_string option \<Rightarrow> operation app_result" where
  "bill_image account_id period =
     (case period of None \<Rightarrow> Ok (Bill account_id None)
      | Some p \<Rightarrow>
          if p = [] then Ok (Bill account_id None)
          else if length p mod 256 < 128 then Ok (Bill account_id (Some p))
          else Error InvalidProtocol)"

fun string_ok :: "rust_string option \<Rightarrow> bool" where
  "string_ok None = True"
| "string_ok (Some p) = utf8_valid p"

lemma bill_read_none:
  "deserialize_bill_operation (to_be_bytes a @ [0]) = Ok (Bill a None)"
  by (simp add: deserialize_bill_operation_def)

lemma bill_read_some:
  assumes "utf8_valid p" and "p \<noteq> []"
  shows "deserialize_bill_operation (to_be_bytes a @ b # p) =
     (if b < 0x80 then Ok (Bill a (Some p)) else Error InvalidProtocol)"
proof -
  obtain c cs where p: "p = c # cs" using assms(2) by (cases p) auto
  have "\<not> utf8_cont c" using utf8_not_cont assms(1) p by blast
  then have "str_slice_from_1 (b # p) = Ok p" using p by (simp add: str_slice_from_1_def)
  with assms(2) utf8_len_byte [OF assms, of b] show ?thesis
    by (simp add: deserialize_bill_operation_def del: utf8_valid.simps)
qed

lemma bill_read:
  assumes "string_ok period"
  shows "deserialize_bill_operation (drop 1 (serialize_bill_operation a period)) = bill_image a period"
proof (cases period)
  case None
  then show ?thesis by (simp add: serialize_bill_operation_def bill_image_def bill_read_none)
next
  case (Some p)
  show ?thesis
  proof (cases "p = []")
    case True
    with Some show ?thesis
      by (simp add: serialize_bill_operation_def bill_image_def bill_read_none)
  next
    case False
    have "(of_nat (length p) :: u8) < 0x80 \<longleftrightarrow> length p mod 256 < 128"
      by (simp add: word_less_nat_alt unat_of_nat)
    with Some False assms bill_read_some [of p a "of_nat (length p)"] show ?thesis
      by (simp add: serialize_bill_operation_def bill_image_def)
  qed
qed

subsection \<open>Every operation\<close>

fun operation_ok :: "operation \<Rightarrow> bool" where
  "operation_ok (Bill a period) = string_ok period"
| "operation_ok (GetDatabase addr) = is_ipv4 addr"
| "operation_ok (ReplaceDatabase d) = database_ok d"
| "operation_ok op = True"

fun operation_image :: "operation \<Rightarrow> operation app_result" where
  "operation_image (Charge a c x off) = Ok (Charge a c x off)"
| "operation_image (LimitAccount a l) = Ok (LimitAccount a (limit_image l))"
| "operation_image (LimitCard a c l) = Ok (LimitCard a c (limit_image l))"
| "operation_image (AccountQuery a) = Ok (AccountQuery a)"
| "operation_image (Bill a period) = bill_image a period"
| "operation_image (GetDatabase addr) = Ok (GetDatabase addr)"
| "operation_image (ReplaceDatabase d) = Ok (ReplaceDatabase (database_image d))"

fun operation_bytes :: "operation \<Rightarrow> u8 list" where
  "operation_bytes (GetDatabase addr) = OP_GET_DATABASE # addr_bytes addr"
| "operation_bytes (ReplaceDatabase d) = OP_REPLACE_DATABASE # database_bytes d"
| "operation_bytes op = (case serialize_operation op of Inr bs \<Rightarrow> bs | Inl f \<Rightarrow> [])"

lemma serialize_operation_bytes:
  "operation_ok op \<Longrightarrow> serialize_operation op = Ok (operation_bytes op)"
  by (cases op) (simp_all add: serialize_get_database_operation_def
      serialize_replace_database_operation_def serialize_database_bytes)

lemma from_offline_read [simp]:
  "deserialize_from_offline_station [b] =
     (if b = 1 then Ok True else if b = 0 then Ok False else Error InvalidProtocol)"
  by (simp add: deserialize_from_offline_station_def slice_def)

lemma operation_read:
  assumes "operation_ok op"
  shows "deserialize_operation (operation_bytes op) = operation_image op"
proof (cases op)
  case (Charge a c x off)
  then show ?thesis
    by (simp add: deserialize_operation_def serialize_charge_operation_def
        deserialize_charge_operation_def slice_from_skip)
next
  case (LimitAccount a l)
  then show ?thesis
    by (simp add: deserialize_operation_def serialize_limit_account_operation_def
        deserialize_limit_account_operation_def)
next
  case (LimitCard a c l)
  then show ?thesis
    by (simp add: deserialize_operation_def serialize_limit_card_operation_def
        deserialize_limit_card_operation_def slice_from_skip)
next
  case (AccountQuery a)
  then show ?thesis
    by (simp add: deserialize_operation_def serialize_query_account_operation_def
        deserialize_query_account_operation_def)
next
  case (Bill a period)
  then have "deserialize_bill_operation (drop 1 (serialize_bill_operation a period)) =
      bill_image a period"
    using assms bill_read by simp
  with Bill show ?thesis
    by (simp add: deserialize_operation_def serialize_bill_operation_def)
next
  case (GetDatabase addr)
  then show ?thesis
    using assms by (simp add: deserialize_operation_def deserialize_get_database_operation_def)
next
  case (ReplaceDatabase d)
  then show ?thesis
    using assms database_read [of d]
    by (simp add: deserialize_operation_def deserialize_replace_database_operation_def)
qed

section \<open>Results\<close>

fun operation_result_ok :: "operation_result \<Rightarrow> bool" where
  "operation_result_ok (ResAccountQuery r) = vec_ok (aq_per_card_spent r)"
| "operation_result_ok (ResDatabaseSnapshot d) = database_ok d"
| "operation_result_ok r = True"

fun operation_result_image :: "operation_result \<Rightarrow> operation_result app_result" where
  "operation_result_image (ResLimitCard (LimitFailed e)) = Panicked"
| "operation_result_image (ResDatabaseSnapshot d) = Error InvalidProtocol"
| "operation_result_image ResReplaceDatabase = Error InvalidProtocol"
| "operation_result_image r = Ok r"

fun operation_result_bytes :: "operation_result \<Rightarrow> u8 list" where
  "operation_result_bytes (ResDatabaseSnapshot d) = DATABASE_SNAPSHOT # database_bytes d"
| "operation_result_bytes r = (case serialize_operation_result r of Inr bs \<Rightarrow> bs | Inl f \<Rightarrow> [])"

lemma serialize_operation_result_bytes:
  "operation_result_ok r \<Longrightarrow> serialize_operation_result r = Ok (operation_result_bytes r)"
  by (cases r) (simp_all add: serialize_database_snapshot_result_def serialize_database_bytes)

lemma verify_error_read [simp]: "deserialize_verify_error (serialize_verify_error e) = Ok e"
proof (cases e)
  case (ChargeLimit x)
  then show ?thesis
    by (cases x) (simp_all add: deserialize_verify_error_def deserialize_limit_check_error_def)
next
  case (LimitUpdate x)
  then show ?thesis
    by (cases x) (simp add: deserialize_verify_error_def deserialize_limit_update_error_def)
qed

lemma account_query_read:
  assumes "vec_ok (aq_per_card_spent r)"
  shows "deserialize_account_query_result (drop 1 (serialize_account_query_result r)) =
    Ok (ResAccountQuery r)"
proof -
  let ?n = "usize_to_be_bytes (length (aq_per_card_spent r))"
  let ?pre = "to_be_bytes (aq_account_id r) @ f32_to_be_bytes (aq_total_spent r)"
  let ?C = "concat (map serialize_card_spent (aq_per_card_spent r))"
  have "slice (?pre @ ?n @ ?C) 12 20 = (Ok ?n :: u8 list app_result)"
    by (simp add: slice_def)
  moreover have "deserialize_vec deserialize_card_spent 12 (length (aq_per_card_spent r))
      ((?pre @ ?n) @ ?C @ []) 20 =
      Ok (map (\<lambda>x. x) (aq_per_card_spent r), 20 + 12 * length (aq_per_card_spent r))"
    using card_spent_codec.vec_enc [of "aq_per_card_spent r" "?pre @ ?n" 20 "[]"]
    by (simp add: list_all_iff)
  ultimately show ?thesis
    using vec_ok_u64 [OF assms]
    by (simp add: deserialize_account_query_result_def serialize_account_query_result_def Let_def)
qed

lemma operation_result_read:
  assumes "operation_result_ok r"
  shows "deserialize_operation_result (operation_result_bytes r) = operation_result_image r"
proof (cases r)
  case (ResCharge x)
  then show ?thesis
    by (cases x) (simp_all add: deserialize_operation_result_def deserialize_charge_result_def)
next
  case (ResLimitAccount x)
  then show ?thesis
    by (cases x) (simp_all add: deserialize_operation_result_def
        deserialize_limit_account_result_def serialize_limit_account_result_def)
next
  case (ResLimitCard x)
  then show ?thesis
    by (cases x) (simp_all add: deserialize_operation_result_def
        deserialize_limit_card_result_def serialize_limit_card_result_def)
next
  case (ResAccountQuery q)
  then show ?thesis
    using assms account_query_read [of q]
    by (simp add: deserialize_operation_result_def serialize_account_query_result_def)
next
  case (ResDatabaseSnapshot d)
  then show ?thesis by (simp add: deserialize_operation_result_def)
next
  case ResReplaceDatabase
  then show ?thesis
    by (simp add: deserialize_operation_result_def serialize_replace_database_result_def)
qed

section \<open>Messages\<close>

text \<open>The messages a node can build and send: IPv4 addresses, valid strings, real vectors.\<close>

fun message_ok :: "message \<Rightarrow> bool" where
  "message_ok (Request req_id op addr) \<longleftrightarrow> is_ipv4 addr \<and> operation_ok op"
| "message_ok (Response req_id r) \<longleftrightarrow> operation_result_ok r"
| "message_ok (Log op_id op) \<longleftrightarrow> operation_ok op"
| "message_ok (Ack op_id) \<longleftrightarrow> True"
| "message_ok (Election i addr) \<longleftrightarrow> is_ipv4 addr"
| "message_ok (ElectionOk i) \<longleftrightarrow> True"
| "message_ok (Coordinator i addr) \<longleftrightarrow> is_ipv4 addr"
| "message_ok (Join addr) \<longleftrightarrow> is_ipv4 addr"
| "message_ok (ClusterView ms addr d) \<longleftrightarrow>
     vec_ok ms \<and> list_all member_ok ms \<and> is_ipv4 addr \<and> database_ok d"
| "message_ok (ClusterUpdate m) \<longleftrightarrow> member_ok m"
| "message_ok (RoleQuery addr) \<longleftrightarrow> is_ipv4 addr"
| "message_ok (RoleResponse i r) \<longleftrightarrow> True"

text \<open>What the peer reads.\<close>

fun message_image :: "message \<Rightarrow> message app_result" where
  "message_image (Request req_id op addr) =
     and_then (operation_image op) (\<lambda>op'. Ok (Request req_id op' addr))"
| "message_image (Response req_id r) =
     and_then (operation_result_image r) (\<lambda>r'. Ok (Response req_id r'))"
| "message_image (Log op_id op) = and_then (operation_image op) (\<lambda>op'. Ok (Log op_id op'))"
| "message_image (ClusterView ms addr d) = Ok (ClusterView ms addr (database_image d))"
| "message_image (RoleResponse i r) = Error InvalidData"
| "message_image m = Ok m"

fun message_bytes :: "message \<Rightarrow> u8 list" where
  "message_bytes (Request req_id op addr) =
     MSG_TYPE_REQUEST # to_be_bytes req_id @ addr_bytes addr @ operation_bytes op"
| "message_bytes (Response req_id r) =
     MSG_TYPE_RESPONSE # to_be_bytes req_id @ operation_result_bytes r"
| "message_bytes (Log op_id op) = MSG_TYPE_LOG # to_be_bytes op_id @ operation_bytes op"
| "message_bytes (Ack op_id) = MSG_TYPE_ACK # to_be_bytes op_id"
| "message_bytes (Election i addr) = MSG_TYPE_ELECTION # to_be_bytes i @ addr_bytes addr"
| "message_bytes (ElectionOk i) = MSG_TYPE_ELECTION_OK # to_be_bytes i"
| "message_bytes (Coordinator i addr) = MSG_TYPE_COORDINATOR # to_be_bytes i @ addr_bytes addr"
| "message_bytes (Join addr) = MSG_TYPE_JOIN # addr_bytes addr"
| "message_bytes (ClusterView ms addr d) =
     MSG_TYPE_CLUSTER_VIEW # usize_to_be_bytes (length ms) @ concat (map member_bytes ms) @
       addr_bytes addr @ database_bytes d"
| "message_bytes (ClusterUpdate m) = MSG_TYPE_CLUSTER_UPDATE # member_bytes m"
| "message_bytes (RoleQuery addr) = MSG_TYPE_ROLE_QUERY # addr_bytes addr"
| "message_bytes (RoleResponse i r) = serialize_role_response_message i r"

lemma serialize_message_bytes: "message_ok m \<Longrightarrow> serialize_message m = Ok (message_bytes m)"
  by (cases m)
    (simp_all add: serialize_request_message_def serialize_response_message_def
      serialize_log_message_def serialize_ack_message_def serialize_election_message_def
      serialize_election_ok_message_def serialize_coordinator_message_def serialize_join_message_def
      serialize_cluster_view_message_def serialize_cluster_update_message_def
      serialize_role_query_message_def serialize_operation_bytes serialize_operation_result_bytes
      serialize_database_bytes serialize_members_bytes serialize_member_bytes)

lemma cluster_view_read:
  assumes "message_ok (ClusterView ms addr d)"
  shows "deserialize_cluster_view_message (drop 1 (message_bytes (ClusterView ms addr d))) =
    Ok (ClusterView ms addr (database_image d))"
proof -
  let ?n = "usize_to_be_bytes (length ms)"
  let ?M = "concat (map member_bytes ms)"
  let ?L = "addr_bytes addr"
  let ?D = "database_bytes d"
  from assms have ok: "vec_ok ms" "list_all member_ok ms" "is_ipv4 addr" "database_ok d"
    by simp_all
  have len: "length ?M = 14 * length ms"
    using member_codec.enc_all_width [OF ok(2)] by simp
  have small: "14 * length ms < 2 ^ 64"
    using ok(1) by (simp add: vec_ok_def)
  have v: "deserialize_vec deserialize_member 14 (length ms) (?n @ ?M @ ?L @ ?D) 8 =
      Ok (ms, 8 + 14 * length ms)"
    using member_codec.vec_enc [OF ok(2), of ?n 8 "?L @ ?D"] by simp
  have l: "slice_from (?n @ ?M @ ?L @ ?D) (8 + 14 * length ms) =
      (Ok (?L @ ?D) :: u8 list app_result)"
    using slice_from_append [of "?n @ ?M" _ "?L @ ?D"] len by simp
  have dd: "slice_from (?n @ ?M @ ?L @ ?D) (8 + 14 * length ms + 6) =
      (Ok ?D :: u8 list app_result)"
    using slice_from_append [of "?n @ ?M @ ?L" _ ?D] len ok(3) by (simp add: ac_simps)
  show ?thesis
    using v l dd ok small len vec_ok_u64 [OF ok(1)] database_read [OF ok(4)]
    by (simp add: deserialize_cluster_view_message_def)
qed

lemma message_read:
  assumes "message_ok m"
  shows "deserialize_message (message_bytes m) = message_image m"
proof (cases m)
  case (ClusterView ms addr d)
  with assms cluster_view_read show ?thesis
    by (simp add: deserialize_message_def)
next
  case (ClusterUpdate x)
  with assms member_codec.enc_width [of x] member_codec.dec_enc [of x "[]"] show ?thesis
    by (simp add: deserialize_message_def deserialize_cluster_update_message_def)
next
  case (RoleResponse i r)
  then show ?thesis
    by (simp add: deserialize_message_def serialize_role_response_message_def)
qed (use assms in \<open>simp_all add: deserialize_message_def deserialize_request_message_def
      deserialize_response_message_def deserialize_log_message_def deserialize_ack_message_def
      deserialize_election_message_def deserialize_election_ok_message_def
      deserialize_coordinator_message_def deserialize_join_message_def
      deserialize_role_query_message_def slice_from_skip operation_read operation_result_read\<close>)

text \<open>The messages that reach the peer unchanged.\<close>

fun limit_lossless :: "f32 option \<Rightarrow> bool" where
  "limit_lossless l \<longleftrightarrow> l \<noteq> Some NO_LIMIT"

fun database_lossless :: "database_snapshot \<Rightarrow> bool" where
  "database_lossless d \<longleftrightarrow> list_all (\<lambda>a. limit_lossless (as_limit a)) (ds_accounts d) \<and>
     list_all (\<lambda>c. limit_lossless (cs_limit c)) (ds_cards d)"

fun operation_lossless :: "operation \<Rightarrow> bool" where
  "operation_lossless (LimitAccount a l) \<longleftrightarrow> limit_lossless l"
| "operation_lossless (LimitCard a c l) \<longleftrightarrow> limit_lossless l"
| "operation_lossless (Bill a (Some p)) \<longleftrightarrow> p \<noteq> [] \<and> length p mod 256 < 128"
| "operation_lossless (ReplaceDatabase d) \<longleftrightarrow> database_lossless d"
| "operation_lossless op \<longleftrightarrow> True"

fun operation_result_lossless :: "operation_result \<Rightarrow> bool" where
  "operation_result_lossless (ResLimitCard (LimitFailed e)) \<longleftrightarrow> False"
| "operation_result_lossless (ResDatabaseSnapshot d) \<longleftrightarrow> False"
| "operation_result_lossless ResReplaceDatabase \<longleftrightarrow> False"
| "operation_result_lossless r \<longleftrightarrow> True"

fun message_lossless :: "message \<Rightarrow> bool" where
  "message_lossless (Request req_id op addr) \<longleftrightarrow> operation_lossless op"
| "message_lossless (Response req_id r) \<longleftrightarrow> operation_result_lossless r"
| "message_lossless (Log op_id op) \<longleftrightarrow> operation_lossless op"
| "message_lossless (ClusterView ms addr d) \<longleftrightarrow> database_lossless d"
| "message_lossless (RoleResponse i r) \<longleftrightarrow> False"
| "message_lossless m \<longleftrightarrow> True"

lemma limit_image_id: "limit_image l = l \<longleftrightarrow> limit_lossless l"
  by (auto simp: limit_image_def)

lemma map_image_id: "map f xs = xs \<longleftrightarrow> list_all (\<lambda>x. f x = x) xs"
  by (induction xs) auto

lemma database_image_id: "database_image d = d \<longleftrightarrow> database_lossless d"
proof -
  have a: "account_snapshot_image a = a \<longleftrightarrow> limit_lossless (as_limit a)" for a
    by (cases a) (simp add: account_snapshot_image_def limit_image_id)
  have c: "card_snapshot_image c = c \<longleftrightarrow> limit_lossless (cs_limit c)" for c
    by (cases c) (simp add: card_snapshot_image_def limit_image_id)
  show ?thesis
    by (cases d) (simp add: database_image_def map_image_id a c)
qed

lemma operation_image_id: "operation_image op = Ok op \<longleftrightarrow> operation_lossless op"
proof (cases op)
  case (Bill a period)
  then show ?thesis by (cases period) (auto simp: bill_image_def)
qed (simp_all add: limit_image_id database_image_id del: limit_lossless.simps database_lossless.simps)

lemma operation_result_image_id:
  "operation_result_image r = Ok r \<longleftrightarrow> operation_result_lossless r"
  by (cases r rule: operation_result_lossless.cases) simp_all

lemma message_image_id: "message_image m = Ok m \<longleftrightarrow> message_lossless m"
  by (cases m) (auto simp: and_then_Ok_iff operation_image_id [symmetric]
      operation_result_image_id [symmetric] database_image_id simp del: database_lossless.simps)


section \<open>Properties of the wire format\<close>

text \<open>Every address a message carries.\<close>

fun operation_addrs :: "operation \<Rightarrow> socket_addr list" where
  "operation_addrs (GetDatabase addr) = [addr]"
| "operation_addrs (ReplaceDatabase d) = [ds_addr d]"
| "operation_addrs op = []"

fun message_addrs :: "message \<Rightarrow> socket_addr list" where
  "message_addrs (Request req_id op addr) = addr # operation_addrs op"
| "message_addrs (Response req_id (ResDatabaseSnapshot d)) = [ds_addr d]"
| "message_addrs (Response req_id r) = []"
| "message_addrs (Log op_id op) = operation_addrs op"
| "message_addrs (Election i addr) = [addr]"
| "message_addrs (Coordinator i addr) = [addr]"
| "message_addrs (Join addr) = [addr]"
| "message_addrs (ClusterView ms addr d) = addr # ds_addr d # map snd ms"
| "message_addrs (ClusterUpdate m) = [snd m]"
| "message_addrs (RoleQuery addr) = [addr]"
| "message_addrs m = []"

lemma serialize_addr_cases:
  "serialize_socket_address a = (if is_ipv4 a then Ok (addr_bytes a) else Panicked)"
  by (cases a rule: is_ipv4.cases) (simp_all add: addr_bytes_def)

lemma serialize_database_cases:
  "serialize_database_snapshot d = (if is_ipv4 (ds_addr d) then Ok (database_bytes d) else Panicked)"
  by (simp add: serialize_database_snapshot_def database_bytes_def serialize_addr_cases)

lemma serialize_operation_cases:
  "serialize_operation op =
     (if list_all is_ipv4 (operation_addrs op) then Ok (operation_bytes op) else Panicked)"
  by (cases op) (simp_all add: serialize_get_database_operation_def serialize_addr_cases
      serialize_replace_database_operation_def serialize_database_cases)

lemma serialize_operation_result_cases:
  "serialize_operation_result r =
     (if list_all is_ipv4 (message_addrs (Response req_id r)) then Ok (operation_result_bytes r)
      else Panicked)"
  by (cases r) (simp_all add: serialize_database_snapshot_result_def serialize_database_cases)

lemma serialize_member_cases:
  "serialize_member m = (if is_ipv4 (snd m) then Ok (member_bytes m) else Panicked)"
  by (simp add: serialize_member_def member_bytes_def serialize_addr_cases)

lemma serialize_members_cases:
  "serialize_members ms =
     (if list_all is_ipv4 (map snd ms) then Ok (concat (map member_bytes ms)) else Panicked)"
  by (induction ms) (simp_all add: serialize_member_cases)

text \<open>C18: A message that a node can build is read back by its peer as \<open>message_image\<close> says:
  limits equal to the \<open>NO_LIMIT\<close> sentinel come back as no limit, an empty bill period comes
  back as none, a period whose length byte is 128 or more, a database snapshot as a result and
  a role response are refused, and everything else arrives as it was sent.\<close>

theorem wire_roundtrip_image:
  assumes "message_ok m"
  shows "and_then (serialize_message m) deserialize_message = message_image m"
  using assms by (simp add: serialize_message_bytes message_read)

theorem wire_roundtrip_image_witness:
  "and_then (serialize_message (Log 7 (LimitCard 1 2 (Some NO_LIMIT)))) deserialize_message =
     Ok (Log 7 (LimitCard 1 2 None))"
  using wire_roundtrip_image [of "Log 7 (LimitCard 1 2 (Some NO_LIMIT))"]
  by (simp add: limit_image_def)

text \<open>Exactness of the codec: a message that a node can build reaches its peer unchanged if
  and only if it is one of the lossless ones (no limit equal to the sentinel, no empty or
  over-long bill period, no result or message the reader has no case for).\<close>

theorem wire_roundtrip_exact:
  assumes "message_ok m"
  shows "and_then (serialize_message m) deserialize_message = Ok m \<longleftrightarrow> message_lossless m"
  using assms by (simp add: serialize_message_bytes message_read message_image_id)

theorem wire_roundtrip_exact_witness:
  "and_then (serialize_message (Request 3 (Charge 1 2 f32_one False)
       (SocketAddr (V4 127 0 0 1) 5000))) deserialize_message =
     Ok (Request 3 (Charge 1 2 f32_one False) (SocketAddr (V4 127 0 0 1) 5000))"
  using wire_roundtrip_exact [of "Request 3 (Charge 1 2 f32_one False)
       (SocketAddr (V4 127 0 0 1) 5000)"]
  by simp

text \<open>Serialising a message is total on IPv4 addresses and panics as soon as one of the
  addresses it carries (sender, snapshot, member) is not IPv4; it never returns an error.\<close>

theorem serialize_total_iff_ipv4:
  "serialize_message m =
     (if list_all is_ipv4 (message_addrs m) then Ok (message_bytes m) else Panicked)"
proof (cases m)
  case (Response req_id r)
  then show ?thesis
    by (simp add: serialize_response_message_def serialize_operation_result_cases [of r req_id])
next
  case (Request x op addr)
  then show ?thesis
    by (simp add: serialize_request_message_def serialize_operation_cases serialize_addr_cases)
next
  case (Log x op)
  then show ?thesis
    by (simp add: serialize_log_message_def serialize_operation_cases)
next
  case (Election i addr)
  then show ?thesis
    by (simp add: serialize_election_message_def serialize_addr_cases)
next
  case (Coordinator i addr)
  then show ?thesis
    by (simp add: serialize_coordinator_message_def serialize_addr_cases)
next
  case (Join addr)
  then show ?thesis
    by (simp add: serialize_join_message_def serialize_addr_cases)
next
  case (RoleQuery addr)
  then show ?thesis
    by (simp add: serialize_role_query_message_def serialize_addr_cases)
next
  case (ClusterUpdate x)
  then show ?thesis
    by (simp add: serialize_cluster_update_message_def serialize_member_cases)
next
  case (ClusterView ms addr d)
  then show ?thesis
    by (simp add: serialize_cluster_view_message_def serialize_members_cases
      serialize_addr_cases serialize_database_cases)
qed (simp_all add: serialize_ack_message_def serialize_election_ok_message_def)

text \<open>C29: Among the messages a node can build, the one that makes the reader panic is the
  response to a refused card limit change, whose error payload is a \<open>todo!()\<close>.\<close>

theorem reader_panics_iff:
  assumes "message_ok m"
  shows "deserialize_message (message_bytes m) = Panicked \<longleftrightarrow>
     (\<exists>req_id e. m = Response req_id (ResLimitCard (LimitFailed e)))"
proof -
  have op: "operation_image op \<noteq> Panicked" for op
    by (cases op) (auto simp: bill_image_def split: option.splits)
  have "message_image m = Panicked \<longleftrightarrow>
     (\<exists>req_id e. m = Response req_id (ResLimitCard (LimitFailed e)))"
  proof (cases m)
    case (Response req_id r)
    then show ?thesis by (cases r rule: operation_result_image.cases) simp_all
  next
    case (Request req_id x addr)
    then show ?thesis using op [of x] by (cases "operation_image x") auto
  next
    case (Log op_id x)
    then show ?thesis using op [of x] by (cases "operation_image x") auto
  qed simp_all
  with assms show ?thesis by (simp add: message_read del: message_bytes.simps)
qed

theorem reader_panics_iff_witness:
  "deserialize_message (message_bytes
     (Response 9 (ResLimitCard (LimitFailed (LimitUpdate BelowCurrentUsage))))) = Panicked"
  using reader_panics_iff [of "Response 9 (ResLimitCard (LimitFailed (LimitUpdate BelowCurrentUsage)))"]
  by simp

end
