(* ===== verification/Streams.thy ===== *)
theory Streams
  imports Roundtrip
begin

text \<open>
  One TCP connection to a peer: the frames of \<open>network/handler/sender.rs\<close>, the frame reader
  of \<open>receiver.rs\<close>, the handshake of \<open>serials/handler_first_messages.rs\<close> and the task
  loop of \<open>handler.rs\<close>. A stream is the list of bytes not yet read. The \<open>select!\<close> of the
  loop drops the branches that did not complete: a dropped \<open>recv\<close> loses the bytes its
  \<open>read_exact\<close> had already taken off the stream.
\<close>

section \<open>Sending frames\<close>

record stream_sender =
  tx_queue :: "message list"
  tx_open :: bool
  tx_stream :: "u8 list"
  tx_stream_ok :: bool
  tx_address :: socket_addr

definition write_all_bytes :: "u8 list \<Rightarrow> stream_sender \<Rightarrow> stream_sender \<times> unit app_result" where
  "write_all_bytes bytes tx =
     (if tx_stream_ok tx then (tx\<lparr>tx_stream := tx_stream tx @ bytes\<rparr>, Ok ())
      else (tx, Error (ConnectionLostWith (tx_address tx))))"

definition send_heartbeat_request :: "stream_sender \<Rightarrow> stream_sender \<times> unit app_result" where
  "send_heartbeat_request tx = write_all_bytes (to_be_bytes (1 :: u16) @ [HEARTBEAT_REQUEST]) tx"

definition send_heartbeat_reply :: "stream_sender \<Rightarrow> stream_sender \<times> unit app_result" where
  "send_heartbeat_reply tx = write_all_bytes (to_be_bytes (1 :: u16) @ [HEARBEAT_REPLY]) tx"

text \<open>\<open>bytes.len() as u16\<close> keeps the low 16 bits of the length.\<close>

definition frame :: "u8 list \<Rightarrow> u8 list" where
  "frame bytes = to_be_bytes (of_nat (length bytes) :: u16) @ bytes"

text \<open>\<open>None\<close>: the channel is open and empty, so the future is pending.\<close>

definition sender_send :: "stream_sender \<Rightarrow> stream_sender \<times> unit app_result option" where
  "sender_send tx =
     (case tx_queue tx of
        msg # msgs \<Rightarrow>
          let tx' = tx\<lparr>tx_queue := msgs\<rparr> in
          (case serialize_message msg of
             Inl f \<Rightarrow> (tx', Some (Inl f))
           | Inr bytes \<Rightarrow> (let (tx'', r) = write_all_bytes (frame bytes) tx' in (tx'', Some r)))
      | [] \<Rightarrow> if tx_open tx then (tx, None) else (tx, Some (Error ChannelClosed)))"

section \<open>Receiving frames\<close>

datatype message_kind = HeartbeatRequest | HeartbeatReply | NodeMessage

text \<open>How far a pending \<open>recv\<close> is: the bytes its current \<open>read_exact\<close> holds.\<close>

datatype recv_progress = ReadingLen "u8 list" | ReadingBody nat "u8 list"

record stream_receiver =
  rx_inbuf :: "u8 list"
  rx_eof :: bool
  rx_progress :: recv_progress
  rx_out :: "message app_result list"
  rx_out_open :: bool
  rx_address :: socket_addr

definition write_connection_lost :: "stream_receiver \<Rightarrow> stream_receiver \<times> unit app_result" where
  "write_connection_lost rx =
     (if rx_out_open rx
      then (rx\<lparr>rx_out := rx_out rx @ [Error (ConnectionLostWith (rx_address rx))]\<rparr>, Ok ())
      else (rx, Error ChannelClosed))"

definition recv_classify :: "u8 list \<Rightarrow> stream_receiver \<Rightarrow>
    stream_receiver \<times> message_kind app_result option" where
  "recv_classify bytes rx =
     (if bytes = [HEARTBEAT_REQUEST] then (rx, Some (Ok HeartbeatRequest))
      else if bytes = [HEARBEAT_REPLY] then (rx, Some (Ok HeartbeatReply))
      else (case deserialize_message bytes of
              Inl f \<Rightarrow> (rx, Some (Inl f))
            | Inr m \<Rightarrow>
                if rx_out_open rx then (rx\<lparr>rx_out := rx_out rx @ [Ok m]\<rparr>, Some (Ok NodeMessage))
                else (rx, Some (Error ChannelClosed))))"

definition recv_body :: "nat \<Rightarrow> u8 list \<Rightarrow> stream_receiver \<Rightarrow>
    stream_receiver \<times> message_kind app_result option" where
  "recv_body n got rx =
     (let k = n - length got in
      if k \<le> length (rx_inbuf rx) then
        recv_classify (got @ take k (rx_inbuf rx))
          (rx\<lparr>rx_inbuf := drop k (rx_inbuf rx), rx_progress := ReadingLen []\<rparr>)
      else if rx_eof rx then (rx, Some (Error (ConnectionLostWith (rx_address rx))))
      else (rx\<lparr>rx_inbuf := [], rx_progress := ReadingBody n (got @ rx_inbuf rx)\<rparr>, None))"

text \<open>One poll of \<open>recv\<close>: \<open>None\<close> when it needs more bytes than have arrived.\<close>

definition receiver_recv :: "stream_receiver \<Rightarrow>
    stream_receiver \<times> message_kind app_result option" where
  "receiver_recv rx =
     (case rx_progress rx of
        ReadingBody n got \<Rightarrow> recv_body n got rx
      | ReadingLen got \<Rightarrow>
          let k = 2 - length got in
          if k \<le> length (rx_inbuf rx) then
            recv_body (unat (from_be_bytes (got @ take k (rx_inbuf rx)) :: u16)) []
              (rx\<lparr>rx_inbuf := drop k (rx_inbuf rx)\<rparr>)
          else if rx_eof rx then (rx, Some (Error (ConnectionLostWith (rx_address rx))))
          else (rx\<lparr>rx_inbuf := [], rx_progress := ReadingLen (got @ rx_inbuf rx)\<rparr>, None))"

text \<open>The \<open>recv\<close> future of an iteration is dropped when another branch wins.\<close>

definition recv_dropped :: "stream_receiver \<Rightarrow> stream_receiver" where
  "recv_dropped rx = rx\<lparr>rx_progress := ReadingLen []\<rparr>"

section \<open>The handshake\<close>

definition send_handler_first_message :: "socket_addr \<Rightarrow> u8 list app_result" where
  "send_handler_first_message address =
     and_then (serialize_socket_address address) (\<lambda>address_srl.
     Ok (frame (MSG_TYPE_HANDLER_FIRST # address_srl)))"

text \<open>
  Nine bytes are read, the address is parsed from the last six; the length and the type byte
  are not looked at. A short stream is \<open>ConnectionLostWith\<close> the peer's socket address.
\<close>

definition read_handler_first_message :: "socket_addr \<Rightarrow> u8 list \<Rightarrow>
    (socket_addr \<times> u8 list) app_result" where
  "read_handler_first_message peer stream =
     (if length stream < 9 then Error (ConnectionLostWith peer)
      else and_then (slice (take 9 stream) 3 9) (\<lambda>address_srl.
           and_then (deserialize_socket_address_srl address_srl) (\<lambda>address.
           Ok (address, drop 9 stream))))"

section \<open>The handler task\<close>

text \<open>Times are milliseconds.\<close>

definition HEARTBEAT_FREQUENCY :: nat where "HEARTBEAT_FREQUENCY = 500"
definition HEARTBEAT_TIMEOUT :: nat where "HEARTBEAT_TIMEOUT = 10000"

text \<open>
  The task ends with a value (\<open>Ended None\<close> for \<open>Ok(())\<close>), dies in a panic, or is aborted
  by its owner.
\<close>

datatype task_status = Running | Ended "app_error option" | Died | Aborted

record handler_task =
  ht_tx :: stream_sender
  ht_rx :: stream_receiver
  ht_last_seen :: nat
  ht_status :: task_status

fun end_status :: "unit app_result \<Rightarrow> task_status" where
  "end_status (Inr u) = Ended None"
| "end_status (Inl (Err e)) = Ended (Some e)"
| "end_status (Inl Panic) = Died"

definition handle_recv_result :: "nat \<Rightarrow> message_kind app_result \<Rightarrow> handler_task \<Rightarrow>
    handler_task \<times> unit app_result" where
  "handle_recv_result now received t =
     (case received of
        Inl f \<Rightarrow> (t, Inl f)
      | Inr HeartbeatRequest \<Rightarrow>
          (let (tx, r) = send_heartbeat_reply (ht_tx t) in (t\<lparr>ht_tx := tx\<rparr>, r))
      | Inr HeartbeatReply \<Rightarrow> (t\<lparr>ht_last_seen := now\<rparr>, Ok ())
      | Inr NodeMessage \<Rightarrow> (t, Ok ()))"

text \<open>Report the loss to the connection layer and stop.\<close>

definition stop_connection_lost :: "handler_task \<Rightarrow> handler_task" where
  "stop_connection_lost t =
     (let (rx, r) = write_connection_lost (ht_rx t) in t\<lparr>ht_rx := rx, ht_status := end_status r\<rparr>)"

definition after_event :: "nat \<Rightarrow> handler_task \<times> unit app_result \<Rightarrow> handler_task" where
  "after_event now tr =
     (let (t, result) = tr in
      case result of
        Inr u \<Rightarrow>
          if HEARTBEAT_TIMEOUT < now - ht_last_seen t then stop_connection_lost t else t
      | Inl (Err ChannelClosed) \<Rightarrow> t\<lparr>ht_status := Ended None\<rparr>
      | Inl (Err (ConnectionLostWith a)) \<Rightarrow> stop_connection_lost t
      | Inl f \<Rightarrow> t\<lparr>ht_status := end_status (Inl f)\<rparr>)"

text \<open>
  What can happen to a running task: bytes or the end of the stream arrive, \<open>recv\<close> is polled
  and stays pending, one of the three branches completes, or the owner aborts the task.
\<close>

datatype handler_event =
    Arrive "u8 list"
  | PeerCloses
  | Poll
  | RecvReady
  | SendReady
  | Timer

definition drop_recv :: "handler_task \<Rightarrow> handler_task" where
  "drop_recv t = t\<lparr>ht_rx := recv_dropped (ht_rx t)\<rparr>"

fun handler_step :: "nat \<Rightarrow> handler_event \<Rightarrow> handler_task \<Rightarrow> handler_task" where
  "handler_step now (Arrive bs) t =
     t\<lparr>ht_rx := (ht_rx t)\<lparr>rx_inbuf := rx_inbuf (ht_rx t) @ bs\<rparr>\<rparr>"
| "handler_step now PeerCloses t = t\<lparr>ht_rx := (ht_rx t)\<lparr>rx_eof := True\<rparr>\<rparr>"
| "handler_step now Poll t =
     (case receiver_recv (ht_rx t) of
        (rx, None) \<Rightarrow> t\<lparr>ht_rx := rx\<rparr>
      | (rx, Some r) \<Rightarrow> t)"
| "handler_step now RecvReady t =
     (case receiver_recv (ht_rx t) of
        (rx, None) \<Rightarrow> t
      | (rx, Some r) \<Rightarrow> after_event now (handle_recv_result now r (t\<lparr>ht_rx := rx\<rparr>)))"
| "handler_step now SendReady t =
     (case sender_send (ht_tx t) of
        (tx, None) \<Rightarrow> t
      | (tx, Some r) \<Rightarrow> after_event now (drop_recv (t\<lparr>ht_tx := tx\<rparr>), r))"
| "handler_step now Timer t =
     (let (tx, r) = send_heartbeat_request (ht_tx t); t' = drop_recv (t\<lparr>ht_tx := tx\<rparr>)
      in case r of Inr u \<Rightarrow> after_event now (t', Ok ())
         | Inl f \<Rightarrow> t'\<lparr>ht_status := end_status (Inl f)\<rparr>)"

fun handler_run :: "(nat \<times> handler_event) list \<Rightarrow> handler_task \<Rightarrow> handler_task" where
  "handler_run [] t = t"
| "handler_run ((now, e) # es) t =
     (if ht_status t = Running then handler_run es (handler_step now e t) else t)"

section \<open>Frames are read back\<close>

lemma length_frame [simp]: "length (frame bs) = 2 + length bs"
  by (simp add: frame_def)

lemma recv_frame_prefix:
  assumes "rx_progress rx = ReadingLen []" and "rx_inbuf rx = frame bytes @ rest"
  shows "receiver_recv rx = recv_classify (take (length bytes mod 65536) bytes)
    (rx\<lparr>rx_inbuf := drop (length bytes mod 65536) bytes @ rest\<rparr>)"
proof -
  have n: "unat (of_nat (length bytes) :: u16) = length bytes mod 65536"
    by (simp add: unat_of_nat)
  have e: "rx\<lparr>rx_inbuf := r, rx_progress := ReadingLen []\<rparr> = rx\<lparr>rx_inbuf := r\<rparr>" for r
    using assms(1) by (cases rx) simp
  have le: "length bytes mod 65536 \<le> length bytes + length rest"
    by (rule trans_le_add1) simp
  show ?thesis
    using assms n by (simp add: receiver_recv_def recv_body_def frame_def e Let_def le)
qed

lemma recv_frame:
  assumes "rx_progress rx = ReadingLen []" and "rx_inbuf rx = frame bytes @ rest"
    and "length bytes < 65536"
  shows "receiver_recv rx = recv_classify bytes (rx\<lparr>rx_inbuf := rest\<rparr>)"
  using recv_frame_prefix [OF assms(1,2)] assms(3) by simp

text \<open>A message is never mistaken for a heartbeat.\<close>

lemma message_bytes_length: "message_ok m \<Longrightarrow> 5 \<le> length (message_bytes m)"
  by (cases m) (auto simp: serialize_role_response_message_def member_codec.enc_width)

lemma message_bytes_not_heartbeat:
  "message_ok m \<Longrightarrow> message_bytes m \<noteq> [HEARTBEAT_REQUEST] \<and> message_bytes m \<noteq> [HEARBEAT_REPLY]"
  by (drule message_bytes_length) auto

definition frames :: "message list \<Rightarrow> u8 list" where
  "frames ms = concat (map (\<lambda>m. frame (message_bytes m)) ms)"

lemma frames_simps [simp]:
  "frames [] = []"
  "frames (m # ms) = frame (message_bytes m) @ frames ms"
  by (simp_all add: frames_def)

definition message_sendable :: "message \<Rightarrow> bool" where
  "message_sendable m \<longleftrightarrow> message_ok m \<and> message_lossless m \<and> length (message_bytes m) < 65536"

lemma recv_message:
  assumes "message_sendable m" and "rx_progress rx = ReadingLen []"
    and "rx_inbuf rx = frame (message_bytes m) @ rest" and "rx_out_open rx"
  shows "receiver_recv rx =
    (rx\<lparr>rx_inbuf := rest, rx_out := rx_out rx @ [Ok m]\<rparr>, Some (Ok NodeMessage))"
proof -
  from assms(1) have ok: "message_ok m" "message_lossless m" "length (message_bytes m) < 65536"
    by (simp_all add: message_sendable_def)
  have "deserialize_message (message_bytes m) = Ok m"
    using message_read [OF ok(1)] message_image_id ok(2) by simp
  with message_bytes_not_heartbeat [OF ok(1)] recv_frame [OF assms(2,3) ok(3)] assms(4)
  show ?thesis by (simp add: recv_classify_def)
qed

lemma replicate_Suc_run:
  "ht_status t = Running \<Longrightarrow>
   handler_run (replicate (Suc n) (now, e)) t =
     handler_run (replicate n (now, e)) (handler_step now e t)"
  by simp

lemma send_run:
  "ht_status t = Running \<Longrightarrow> now - ht_last_seen t \<le> HEARTBEAT_TIMEOUT \<Longrightarrow>
   tx_stream_ok (ht_tx t) \<Longrightarrow> tx_queue (ht_tx t) = ms \<Longrightarrow> list_all message_ok ms \<Longrightarrow>
   tx_stream (ht_tx (handler_run (replicate (length ms) (now, SendReady)) t)) =
     tx_stream (ht_tx t) @ frames ms"
proof (induction ms arbitrary: t)
  case Nil
  then show ?case by simp
next
  case (Cons m ms)
  let ?t = "handler_step now SendReady t"
  have "serialize_message m = Ok (message_bytes m)"
    using Cons.prems(5) by (simp add: serialize_message_bytes)
  then have t': "?t = t\<lparr>ht_tx := (ht_tx t)\<lparr>tx_queue := ms,
      tx_stream := tx_stream (ht_tx t) @ frame (message_bytes m)\<rparr>,
      ht_rx := recv_dropped (ht_rx t)\<rparr>"
    using Cons.prems by (simp add: sender_send_def write_all_bytes_def after_event_def drop_recv_def)
  have "tx_stream (ht_tx (handler_run (replicate (length ms) (now, SendReady)) ?t)) =
      tx_stream (ht_tx ?t) @ frames ms"
    by (rule Cons.IH) (use Cons.prems t' in simp_all)
  then show ?case using Cons.prems(1) t' by simp
qed

lemma recv_run:
  "ht_status t = Running \<Longrightarrow> now - ht_last_seen t \<le> HEARTBEAT_TIMEOUT \<Longrightarrow>
   rx_progress (ht_rx t) = ReadingLen [] \<Longrightarrow> rx_out_open (ht_rx t) \<Longrightarrow>
   rx_inbuf (ht_rx t) = frames ms @ rest \<Longrightarrow>
   list_all message_sendable ms \<Longrightarrow>
   ht_rx (handler_run (replicate (length ms) (now, RecvReady)) t) =
     (ht_rx t)\<lparr>rx_inbuf := rest, rx_out := rx_out (ht_rx t) @ map Ok ms\<rparr>"
proof (induction ms arbitrary: t)
  case Nil
  then show ?case by simp
next
  case (Cons m ms)
  let ?t = "handler_step now RecvReady t"
  let ?rest = "frames ms @ rest"
  have "receiver_recv (ht_rx t) =
      ((ht_rx t)\<lparr>rx_inbuf := ?rest, rx_out := rx_out (ht_rx t) @ [Ok m]\<rparr>, Some (Ok NodeMessage))"
    by (rule recv_message) (use Cons.prems in simp_all)
  then have t': "?t = t\<lparr>ht_rx := (ht_rx t)\<lparr>rx_inbuf := ?rest, rx_out := rx_out (ht_rx t) @ [Ok m]\<rparr>\<rparr>"
    using Cons.prems by (simp add: handle_recv_result_def after_event_def)
  have "ht_rx (handler_run (replicate (length ms) (now, RecvReady)) ?t) =
      (ht_rx ?t)\<lparr>rx_inbuf := rest, rx_out := rx_out (ht_rx ?t) @ map Ok ms\<rparr>"
    by (rule Cons.IH) (use Cons.prems t' in simp_all)
  then show ?case using Cons.prems(1) t' by simp
qed


section \<open>Properties of a connection\<close>

definition fresh_handler :: "socket_addr \<Rightarrow> message list \<Rightarrow> handler_task" where
  "fresh_handler a ms =
     \<lparr>ht_tx = \<lparr>tx_queue = ms, tx_open = True, tx_stream = [], tx_stream_ok = True, tx_address = a\<rparr>,
      ht_rx = \<lparr>rx_inbuf = [], rx_eof = False, rx_progress = ReadingLen [], rx_out = [],
               rx_out_open = True, rx_address = a\<rparr>,
      ht_last_seen = 0, ht_status = Running\<rparr>"

lemma fresh_handler_fields:
  "tx_queue (ht_tx (fresh_handler a ms)) = ms"
  "tx_stream (ht_tx (fresh_handler a ms)) = []"
  "tx_stream_ok (ht_tx (fresh_handler a ms))"
  "rx_inbuf (ht_rx (fresh_handler a ms)) = []"
  "rx_progress (ht_rx (fresh_handler a ms)) = ReadingLen []"
  "rx_out (ht_rx (fresh_handler a ms)) = []"
  "rx_out_open (ht_rx (fresh_handler a ms))"
  "ht_last_seen (fresh_handler a ms) = 0"
  "ht_status (fresh_handler a ms) = Running"
  by (simp_all add: fresh_handler_def)



text \<open>The frame length is the message length modulo 65536: the reader hands on only that
  prefix and takes the rest of an over-long message for the next frames.\<close>

theorem long_frame_truncated:
  assumes "rx_progress rx = ReadingLen []" and "rx_inbuf rx = frame bytes @ rest"
  shows "receiver_recv rx = recv_classify (take (length bytes mod 65536) bytes)
    (rx\<lparr>rx_inbuf := drop (length bytes mod 65536) bytes @ rest\<rparr>)"
  using assms by (rule recv_frame_prefix)

theorem long_frame_truncated_witness:
  "receiver_recv ((ht_rx (fresh_handler (SocketAddr (V4 127 0 0 1) 5000) []))
     \<lparr>rx_inbuf := frame (replicate 65536 0)\<rparr>) =
   ((ht_rx (fresh_handler (SocketAddr (V4 127 0 0 1) 5000) []))\<lparr>rx_inbuf := replicate 65536 0\<rparr>,
    Some Panicked)"
  using long_frame_truncated [of "(ht_rx (fresh_handler (SocketAddr (V4 127 0 0 1) 5000) []))
     \<lparr>rx_inbuf := frame (replicate 65536 0)\<rparr>" "replicate 65536 0" "[]"]
  by (simp add: fresh_handler_fields recv_classify_def deserialize_message_def)

text \<open>Liveness check: a task that is still running after a branch of its loop completed has
  seen a heartbeat reply (or was started) within the last ten seconds.\<close>

theorem running_task_heard_peer:
  assumes "handler_step now e t = t'" and "ht_status t' = Running"
    and "e = RecvReady \<and> snd (receiver_recv (ht_rx t)) \<noteq> None \<or>
         e = SendReady \<and> snd (sender_send (ht_tx t)) \<noteq> None \<or> e = Timer"
  shows "now - ht_last_seen t' \<le> HEARTBEAT_TIMEOUT"
proof -
  have after: "now - ht_last_seen (after_event now tr) \<le> HEARTBEAT_TIMEOUT"
    if "ht_status (after_event now tr) = Running" for tr
  proof (cases tr)
    case (Pair x r)
    then show ?thesis
    proof (cases r rule: end_status.cases)
      case (2 e)
      with Pair that show ?thesis
        by (cases e) (auto simp: after_event_def stop_connection_lost_def write_connection_lost_def
            split: if_splits)
    qed (use Pair that in \<open>auto simp: after_event_def stop_connection_lost_def
        write_connection_lost_def split: if_splits\<close>)
  qed
  have not_end: "end_status (Inl f) \<noteq> Running" for f :: "app_error failure"
    by (cases f) simp_all
  from assms(3) show ?thesis
  proof (elim disjE conjE)
    assume e: "e = RecvReady" "snd (receiver_recv (ht_rx t)) \<noteq> None"
    obtain rx r where "receiver_recv (ht_rx t) = (rx, r)" by (rule prod.exhaust)
    with e obtain r' where "receiver_recv (ht_rx t) = (rx, Some r')" by auto
    with e(1) assms(1,2) after [of "handle_recv_result now r' (t\<lparr>ht_rx := rx\<rparr>)"]
    show ?thesis by auto
  next
    assume e: "e = SendReady" "snd (sender_send (ht_tx t)) \<noteq> None"
    obtain tx r where "sender_send (ht_tx t) = (tx, r)" by (rule prod.exhaust)
    with e obtain r' where "sender_send (ht_tx t) = (tx, Some r')" by auto
    with e(1) assms(1,2) after [of "(drop_recv (t\<lparr>ht_tx := tx\<rparr>), r')"]
    show ?thesis by auto
  next
    assume e: "e = Timer"
    obtain tx r where r: "send_heartbeat_request (ht_tx t) = (tx, r)" by (rule prod.exhaust)
    show ?thesis
      using e assms(1,2) after not_end r by (cases r) auto
  qed
qed

theorem running_task_heard_peer_witness:
  "9000 - ht_last_seen (handler_step 9000 Timer
     (fresh_handler (SocketAddr (V4 127 0 0 1) 5000) [])) \<le> HEARTBEAT_TIMEOUT"
proof (rule running_task_heard_peer [of 9000 Timer, OF refl])
  show "ht_status (handler_step 9000 Timer (fresh_handler (SocketAddr (V4 127 0 0 1) 5000) [])) =
      Running"
    by (simp add: fresh_handler_def send_heartbeat_request_def write_all_bytes_def after_event_def
        drop_recv_def HEARTBEAT_TIMEOUT_def)
qed simp


end
