(* ===== verification/Connection.thy ===== *)
theory Connection
  imports Streams
begin

text \<open>
  The connection layer: the \<open>Handler\<close> a connection keeps per peer
  (\<open>network/handler/handler.rs\<close>), the bounded map of active handlers with its
  least-recently-used eviction (\<open>active_helpers.rs\<close>), the acceptor (\<open>acceptor.rs\<close>) and
  \<open>Connection\<close> itself (\<open>connection.rs\<close>). What the operating system decides is part of the
  state: \<open>cn_reachable\<close> says whether a TCP connect succeeds, \<open>cn_can_bind\<close> whether the
  listener can be bound, \<open>cn_now\<close> is the clock. A full channel makes its sender wait; the
  model shows the state after the wait. \<open>cn_sent\<close> is a ghost log of the messages \<open>send\<close>
  accepted.
\<close>

section \<open>Handlers\<close>

record peer_handler =
  ph_task :: handler_task
  ph_address :: socket_addr
  ph_last_used :: nat

definition new_handler_task :: "nat \<Rightarrow> u8 list \<Rightarrow> u8 list \<Rightarrow> socket_addr \<Rightarrow> handler_task" where
  "new_handler_task now written unread address =
     \<lparr>ht_tx = \<lparr>tx_queue = [], tx_open = True, tx_stream = written, tx_stream_ok = True,
               tx_address = address\<rparr>,
      ht_rx = \<lparr>rx_inbuf = unread, rx_eof = False, rx_progress = ReadingLen [], rx_out = [],
               rx_out_open = True, rx_address = address\<rparr>,
      ht_last_seen = now, ht_status = Running\<rparr>"

definition handler_new :: "nat \<Rightarrow> u8 list \<Rightarrow> u8 list \<Rightarrow> socket_addr \<Rightarrow> peer_handler" where
  "handler_new now written unread address =
     \<lparr>ph_task = new_handler_task now written unread address, ph_address = address,
      ph_last_used = now\<rparr>"

text \<open>Connect, send the handshake, spawn the task.\<close>

definition handler_start :: "nat \<Rightarrow> bool \<Rightarrow> socket_addr \<Rightarrow> socket_addr \<Rightarrow> peer_handler app_result"
  where
  "handler_start now reachable self_addr peer_addr =
     (if \<not> reachable then Error ConnectionRefused
      else and_then (send_handler_first_message self_addr) (\<lambda>written.
           Ok (handler_new now written [] peer_addr)))"

text \<open>Read the handshake of an accepted stream, spawn the task.\<close>

definition handler_start_from :: "nat \<Rightarrow> socket_addr \<Rightarrow> u8 list \<Rightarrow> peer_handler app_result" where
  "handler_start_from now peer stream =
     and_then (read_handler_first_message peer stream) (\<lambda>(address, unread).
     Ok (handler_new now [] unread address))"

text \<open>The task owns the receiving half of the queue: once it is over, sending fails.\<close>

definition ph_alive :: "peer_handler \<Rightarrow> bool" where
  "ph_alive h \<longleftrightarrow> ht_status (ph_task h) = Running"

definition ph_enqueue :: "message \<Rightarrow> peer_handler \<Rightarrow> peer_handler" where
  "ph_enqueue msg h =
     h\<lparr>ph_task := (ph_task h)\<lparr>ht_tx := (ht_tx (ph_task h))
       \<lparr>tx_queue := tx_queue (ht_tx (ph_task h)) @ [msg]\<rparr>\<rparr>\<rparr>"

definition ph_send :: "nat \<Rightarrow> message \<Rightarrow> peer_handler \<Rightarrow> peer_handler \<times> unit app_result" where
  "ph_send now msg h =
     (let h' = h\<lparr>ph_last_used := now\<rparr> in
      if ph_alive h then (ph_enqueue msg h', Ok ())
      else (h', Error (ConnectionLostWith (ph_address h))))"

definition ph_stop :: "peer_handler \<Rightarrow> peer_handler" where
  "ph_stop h =
     (if ph_alive h then h\<lparr>ph_task := (ph_task h)\<lparr>ht_status := Aborted\<rparr>\<rparr> else h)"

section \<open>The active handlers\<close>

type_synonym active_handlers = "(socket_addr, peer_handler) hash_map"

text \<open>\<open>min_by_key\<close> returns the first entry with the least key.\<close>

fun min_by_last_used :: "active_handlers \<Rightarrow> (socket_addr \<times> peer_handler) option" where
  "min_by_last_used [] = None"
| "min_by_last_used (e # es) =
     (case min_by_last_used es of
        None \<Rightarrow> Some e
      | Some m \<Rightarrow> if ph_last_used (snd m) < ph_last_used (snd e) then Some m else Some e)"

definition remove_last_recently_used :: "active_handlers \<Rightarrow> active_handlers \<times> peer_handler option"
  where
  "remove_last_recently_used active =
     (case min_by_last_used active of
        Some (address, h) \<Rightarrow> (hm_remove address active, hm_get active address)
      | None \<Rightarrow> (active, None))"

text \<open>The evicted handler is stopped and dropped.\<close>

definition add_handler_from :: "active_handlers \<Rightarrow> peer_handler \<Rightarrow> nat \<Rightarrow> active_handlers" where
  "add_handler_from active handler max_conns =
     hm_insert (ph_address handler) handler
       (if max_conns \<le> hm_len active then fst (remove_last_recently_used active) else active)"

section \<open>Connections\<close>

record connection =
  cn_active :: active_handlers
  cn_acceptor_alive :: bool
  cn_inbox :: "message app_result list"
  cn_max_conns :: nat
  cn_address :: socket_addr
  cn_connected :: bool
  cn_now :: nat
  cn_reachable :: "socket_addr \<Rightarrow> bool"
  cn_can_bind :: bool
  cn_sent :: "(message \<times> socket_addr) list"

text \<open>\<open>Connection::start\<close>: it fails when the address cannot be bound.\<close>

definition connection_start :: "nat \<Rightarrow> (socket_addr \<Rightarrow> bool) \<Rightarrow> bool \<Rightarrow> socket_addr \<Rightarrow> nat \<Rightarrow>
    connection app_result" where
  "connection_start now reachable can_bind address max_conns =
     (if \<not> can_bind then Error ConnectionRefused
      else Ok \<lparr>cn_active = [], cn_acceptor_alive = True, cn_inbox = [], cn_max_conns = max_conns,
               cn_address = address, cn_connected = True, cn_now = now,
               cn_reachable = reachable, cn_can_bind = can_bind, cn_sent = []\<rparr>)"

text \<open>The handler for an address, connecting to it when there is none.\<close>

definition ensure_handler :: "socket_addr \<Rightarrow> connection \<Rightarrow> connection \<times> unit app_result" where
  "ensure_handler address conn =
     (if hm_contains (cn_active conn) address then (conn, Ok ())
      else (case handler_start (cn_now conn) (cn_reachable conn address) (cn_address conn) address of
              Inl f \<Rightarrow> (conn, Inl f)
            | Inr h \<Rightarrow>
                (conn\<lparr>cn_active := add_handler_from (cn_active conn) h (cn_max_conns conn)\<rparr>, Ok ())))"

definition connection_send :: "message \<Rightarrow> socket_addr \<Rightarrow> connection \<Rightarrow> connection \<times> unit app_result"
  where
  "connection_send msg address conn =
     (if \<not> cn_connected conn then (conn, Error ConnectionLost)
      else (case ensure_handler address conn of
              (conn1, Inl f) \<Rightarrow> (conn1, Inl f)
            | (conn1, Inr _) \<Rightarrow>
                (case hm_get (cn_active conn1) address of
                   None \<Rightarrow> (conn1, Panicked)
                 | Some h \<Rightarrow>
                     (case ph_send (cn_now conn1) msg h of
                        (h', Inr _) \<Rightarrow>
                          (conn1\<lparr>cn_active := hm_insert address h' (cn_active conn1),
                                 cn_sent := cn_sent conn1 @ [(msg, address)]\<rparr>, Ok ())
                      | (h', Inl f) \<Rightarrow>
                          (conn1\<lparr>cn_active := hm_remove address (cn_active conn1)\<rparr>, Inl f)))))"

text \<open>
  \<open>None\<close>: nothing has arrived. The connection itself holds a sending half of its channel, so
  the channel is never closed.
\<close>

definition connection_recv :: "connection \<Rightarrow> connection \<times> message app_result option" where
  "connection_recv conn =
     (if \<not> cn_connected conn then (conn, Some (Error ConnectionLost))
      else (case cn_inbox conn of
              [] \<Rightarrow> (conn, None)
            | r # rs \<Rightarrow> (conn\<lparr>cn_inbox := rs\<rparr>, Some r)))"

definition connection_disconnect :: "connection \<Rightarrow> connection" where
  "connection_disconnect conn =
     conn\<lparr>cn_connected := False,
          cn_active := map (\<lambda>(a, h). (a, ph_stop h)) (cn_active conn),
          cn_acceptor_alive := False\<rparr>"

text \<open>\<open>connected\<close> is set before the listener is bound again.\<close>

definition connection_reconnect :: "connection \<Rightarrow> connection \<times> unit app_result" where
  "connection_reconnect conn =
     (if cn_can_bind conn then (conn\<lparr>cn_connected := True, cn_acceptor_alive := True\<rparr>, Ok ())
      else (conn\<lparr>cn_connected := True\<rparr>, Error ConnectionRefused))"

text \<open>One turn of the accept loop: a stream whose handshake fails is skipped.\<close>

definition connection_accept :: "socket_addr \<Rightarrow> u8 list \<Rightarrow> connection \<Rightarrow> connection" where
  "connection_accept peer stream conn =
     (if \<not> cn_acceptor_alive conn then conn
      else (case handler_start_from (cn_now conn) peer stream of
              Inl (Err e) \<Rightarrow> conn
            | Inl Panic \<Rightarrow> conn\<lparr>cn_acceptor_alive := False\<rparr>
            | Inr h \<Rightarrow>
                conn\<lparr>cn_active := add_handler_from (cn_active conn) h (cn_max_conns conn)\<rparr>))"

text \<open>One event of the task that serves \<open>address\<close>; what it hands on joins the inbox.\<close>

definition connection_task :: "socket_addr \<Rightarrow> handler_event \<Rightarrow> connection \<Rightarrow> connection" where
  "connection_task address e conn =
     (case hm_get (cn_active conn) address of
        None \<Rightarrow> conn
      | Some h \<Rightarrow>
          if ph_alive h then
            (let t = handler_step (cn_now conn) e (ph_task h);
                 h' = h\<lparr>ph_task := t\<lparr>ht_rx := (ht_rx t)\<lparr>rx_out := []\<rparr>\<rparr>\<rparr>
             in conn\<lparr>cn_active := hm_insert address h' (cn_active conn),
                     cn_inbox := cn_inbox conn @ rx_out (ht_rx t)\<rparr>)
          else conn)"

section \<open>Invariant\<close>

definition active_ok :: "active_handlers \<Rightarrow> bool" where
  "active_ok active \<longleftrightarrow> hm_wf active \<and> (\<forall>a h. hm_get active a = Some h \<longrightarrow> ph_address h = a)"

definition connection_ok :: "connection \<Rightarrow> bool" where
  "connection_ok conn \<longleftrightarrow>
     active_ok (cn_active conn) \<and> hm_len (cn_active conn) \<le> max 1 (cn_max_conns conn)"

lemma min_by_last_used_None: "min_by_last_used active = None \<longleftrightarrow> active = []"
  by (cases active) (auto split: option.splits)

lemma min_by_last_used_Some:
  "min_by_last_used active = Some (a, h) \<Longrightarrow>
     (a, h) \<in> set active \<and> (\<forall>(a', h') \<in> set active. ph_last_used h \<le> ph_last_used h')"
proof (induction active arbitrary: a h)
  case (Cons e es)
  show ?case
  proof (cases "min_by_last_used es")
    case None
    then have "es = []" by (simp add: min_by_last_used_None)
    with Cons.prems show ?thesis by simp
  next
    case (Some m)
    obtain b k where m: "m = (b, k)" by (rule prod.exhaust)
    with Some Cons.IH have "(b, k) \<in> set es"
      and le: "\<And>a' h'. (a', h') \<in> set es \<Longrightarrow> ph_last_used k \<le> ph_last_used h'"
      by auto
    with Cons.prems Some m show ?thesis
      by (auto split: if_splits dest: le intro: order.trans)
  qed
qed simp

lemma active_ok_insert:
  "active_ok active \<Longrightarrow> active_ok (hm_insert (ph_address h) h active)"
  by (auto simp: active_ok_def hm.wf_insert hm.get_insert split: if_splits)

lemma active_ok_remove: "active_ok active \<Longrightarrow> active_ok (hm_remove a active)"
  by (auto simp: active_ok_def hm.wf_remove hm.get_remove split: if_splits)

lemma remove_lru_spec:
  assumes "active_ok active" and "active \<noteq> []"
  obtains a h where "hm_get active a = Some h"
    and "remove_last_recently_used active = (hm_remove a active, Some h)"
    and "\<forall>a' h'. hm_get active a' = Some h' \<longrightarrow> ph_last_used h \<le> ph_last_used h'"
proof -
  obtain a h where m: "min_by_last_used active = Some (a, h)"
    using assms(2) by (cases "min_by_last_used active") (auto simp: min_by_last_used_None)
  have wf: "hm_wf active" using assms(1) by (simp add: active_ok_def)
  have mem: "(a', h') \<in> set active \<longleftrightarrow> hm_get active a' = Some h'" for a' h'
    by (rule hm.entries_get [OF wf])
  note min = min_by_last_used_Some [OF m]
  have 1: "hm_get active a = Some h"
    by (rule iffD1 [OF mem conjunct1 [OF min]])
  have 2: "\<forall>a' h'. hm_get active a' = Some h' \<longrightarrow> ph_last_used h \<le> ph_last_used h'"
  proof (intro allI impI)
    fix a' h' assume "hm_get active a' = Some h'"
    then have "(a', h') \<in> set active" by (rule iffD2 [OF mem])
    from bspec [OF conjunct2 [OF min] this] show "ph_last_used h \<le> ph_last_used h'" by simp
  qed
  have 3: "remove_last_recently_used active = (hm_remove a active, Some h)"
    using m 1 by (simp add: remove_last_recently_used_def)
  from that [OF 1 3 2] show thesis .
qed

lemma remove_lru_ok:
  assumes "active_ok active" and "active \<noteq> []"
  shows "active_ok (fst (remove_last_recently_used active))"
    and "hm_len (fst (remove_last_recently_used active)) = hm_len active - 1"
proof -
  obtain a h where "hm_get active a = Some h"
    "remove_last_recently_used active = (hm_remove a active, Some h)"
    by (rule remove_lru_spec [OF assms])
  moreover have "hm_wf active" using assms(1) by (simp add: active_ok_def)
  ultimately show "active_ok (fst (remove_last_recently_used active))"
    and "hm_len (fst (remove_last_recently_used active)) = hm_len active - 1"
    using assms(1) by (simp_all add: active_ok_remove hm_len_remove hm_contains_def)
qed

lemma add_handler_from_ok:
  assumes "active_ok active"
  shows "active_ok (add_handler_from active h max_conns)"
proof (cases "active = []")
  case True
  then show ?thesis
    using assms by (simp add: add_handler_from_def active_ok_insert remove_last_recently_used_def)
next
  case False
  with assms remove_lru_ok(1) show ?thesis
    by (simp add: add_handler_from_def active_ok_insert)
qed

lemma add_handler_from_len:
  assumes "active_ok active" and "hm_len active \<le> max 1 max_conns"
  shows "hm_len (add_handler_from active h max_conns) \<le> max 1 max_conns"
proof (cases "active = []")
  case True
  then show ?thesis
    by (simp add: add_handler_from_def remove_last_recently_used_def hm_len_insert hm_contains_def)
      (simp add: hm_len_def)
next
  case False
  show ?thesis
  proof (cases "max_conns \<le> hm_len active")
    case True
    let ?r = "fst (remove_last_recently_used active)"
    have "hm_wf ?r" using remove_lru_ok(1) [OF assms(1) False] by (simp add: active_ok_def)
    moreover have "hm_len ?r = hm_len active - 1" using remove_lru_ok(2) [OF assms(1) False] .
    moreover have "0 < hm_len active" using False by (simp add: hm_len_def)
    ultimately show ?thesis
      using True assms(2) by (simp add: add_handler_from_def hm_len_insert) linarith
  next
    case False
    with assms show ?thesis by (simp add: add_handler_from_def hm_len_insert active_ok_def)
  qed
qed

lemma add_handler_from_get:
  assumes "active_ok active"
  shows "hm_get (add_handler_from active h n) (ph_address h) = Some h"
  by (simp add: add_handler_from_def)

section \<open>What the operations do\<close>

lemma handler_start_address:
  "handler_start now r self peer = Ok h \<Longrightarrow> ph_address h = peer \<and> ph_alive h"
  by (auto simp: handler_start_def and_then_Ok_iff handler_new_def new_handler_task_def ph_alive_def
      split: if_splits)

lemma ph_send_address: "ph_address (fst (ph_send now m h)) = ph_address h"
  by (simp add: ph_send_def ph_enqueue_def Let_def)

lemma ensure_handler_cases:
  assumes "connection_ok conn"
  obtains (ready) conn1 h where "ensure_handler a conn = (conn1, Ok ())"
      and "hm_get (cn_active conn1) a = Some h" and "connection_ok conn1"
      and "conn1 = conn\<lparr>cn_active := cn_active conn1\<rparr>"
  | (failed) f where "ensure_handler a conn = (conn, Inl f)"
proof (cases "hm_get (cn_active conn) a")
  case (Some h)
  with ready [of conn h] assms show thesis by (simp add: ensure_handler_def hm_contains_def)
next
  case None
  show thesis
  proof (cases "handler_start (cn_now conn) (cn_reachable conn a) (cn_address conn) a")
    case (Inl f)
    with None failed [of f] show thesis by (simp add: ensure_handler_def hm_contains_def)
  next
    case (Inr h)
    let ?c = "conn\<lparr>cn_active := add_handler_from (cn_active conn) h (cn_max_conns conn)\<rparr>"
    have "hm_get (cn_active ?c) a = Some h"
      using handler_start_address [OF Inr] assms
      by (auto simp: connection_ok_def dest: add_handler_from_get)
    moreover have "connection_ok ?c"
      using assms add_handler_from_len [of "cn_active conn" "cn_max_conns conn" h]
      by (simp add: connection_ok_def add_handler_from_ok)
    ultimately show thesis
      using None Inr ready [of ?c h] by (simp add: ensure_handler_def hm_contains_def)
  qed
qed

lemma hm_len_insert_present:
  "hm_wf m \<Longrightarrow> hm_get m k = Some x \<Longrightarrow> hm_len (hm_insert k v m) = hm_len m"
  by (simp add: hm_len_insert hm_contains_def)

lemma connection_send_ok:
  assumes "connection_ok conn"
  shows "connection_ok (fst (connection_send m a conn))"
proof (cases "cn_connected conn")
  case True
  show ?thesis
  proof (rule ensure_handler_cases [OF assms, of a])
    fix conn1 h
    assume ready: "ensure_handler a conn = (conn1, Ok ())" "hm_get (cn_active conn1) a = Some h"
      "connection_ok conn1" "conn1 = conn\<lparr>cn_active := cn_active conn1\<rparr>"
    let ?s = "ph_send (cn_now conn1) m h"
    have ok: "active_ok (cn_active conn1)" and addr: "ph_address (fst ?s) = a"
      and len: "hm_len (cn_active conn1) \<le> max 1 (cn_max_conns conn1)"
      using ready(2,3) by (auto simp: connection_ok_def active_ok_def ph_send_address)
    have "active_ok (hm_insert a (fst ?s) (cn_active conn1))"
      using active_ok_insert [OF ok, of "fst ?s"] addr by simp
    moreover have "hm_len (hm_insert a (fst ?s) (cn_active conn1)) = hm_len (cn_active conn1)"
      using ok ready(2) by (simp add: hm_len_insert_present active_ok_def)
    moreover have "hm_len (hm_remove a (cn_active conn1)) \<le> hm_len (cn_active conn1)"
      using ok by (simp add: hm_len_remove active_ok_def)
    ultimately show ?thesis
      using True ready(1,2) ok len active_ok_remove [OF ok, of a]
      by (cases ?s) (auto simp: connection_send_def connection_ok_def split: sum.split)
  next
    fix f assume "ensure_handler a conn = (conn, Inl f)"
    with True assms show ?thesis by (simp add: connection_send_def)
  qed
qed (use assms in \<open>simp add: connection_send_def\<close>)

lemma ph_stop_address [simp]: "ph_address (ph_stop h) = ph_address h"
  by (simp add: ph_stop_def)

lemma active_ok_map_stop: "active_ok active \<Longrightarrow> active_ok (map (\<lambda>(a, h). (a, ph_stop h)) active)"
proof -
  assume ok: "active_ok active"
  have "map fst (map (\<lambda>(a, h). (a, ph_stop h)) active) = map fst active"
    by (induction active) auto
  moreover have "hm_get (map (\<lambda>(a, h). (a, ph_stop h)) active) a =
      map_option ph_stop (hm_get active a)" for a
    by (simp add: hm_get_def map_of_map)
  ultimately show ?thesis
    using ok by (auto simp del: map_map simp: active_ok_def hm_wf_def)
qed

lemma connection_accept_ok:
  "connection_ok conn \<Longrightarrow> connection_ok (connection_accept p bs conn)"
  using add_handler_from_len [of "cn_active conn" "cn_max_conns conn"]
  by (auto simp: connection_accept_def connection_ok_def add_handler_from_ok
      split: sum.split failure.split)

lemma connection_task_ok:
  assumes "connection_ok conn"
  shows "connection_ok (connection_task a e conn)"
proof (cases "hm_get (cn_active conn) a")
  case (Some h)
  with assms have ok: "active_ok (cn_active conn)" and addr: "ph_address h = a"
    by (auto simp: connection_ok_def active_ok_def)
  have "active_ok (hm_insert a (h\<lparr>ph_task := t\<rparr>) (cn_active conn))" for t
    using active_ok_insert [OF ok, of "h\<lparr>ph_task := t\<rparr>"] addr by simp
  moreover have "hm_len (hm_insert a (h\<lparr>ph_task := t\<rparr>) (cn_active conn)) = hm_len (cn_active conn)" for t
    using ok Some by (simp add: hm_len_insert_present active_ok_def)
  ultimately show ?thesis
    using Some assms by (simp add: connection_task_def connection_ok_def Let_def)
qed (use assms in \<open>simp add: connection_task_def\<close>)

section \<open>Everything that can happen to a connection\<close>

text \<open>
  The calls of its owner, the turns of the accept loop and of the handler tasks, and the
  environment, which moves the clock and decides who can be reached.
\<close>

inductive connection_step :: "connection \<Rightarrow> connection \<Rightarrow> bool" where
  step_send: "connection_step conn (fst (connection_send m a conn))"
| step_recv: "connection_step conn (fst (connection_recv conn))"
| step_disconnect: "connection_step conn (connection_disconnect conn)"
| step_reconnect: "connection_step conn (fst (connection_reconnect conn))"
| step_accept: "connection_step conn (connection_accept p bs conn)"
| step_task: "connection_step conn (connection_task a e conn)"
| step_environment: "cn_now conn \<le> now \<Longrightarrow>
    connection_step conn (conn\<lparr>cn_now := now, cn_reachable := reachable, cn_can_bind := can_bind\<rparr>)"

lemma connection_step_ok: "connection_step conn conn' \<Longrightarrow> connection_ok conn \<Longrightarrow> connection_ok conn'"
proof (induction rule: connection_step.induct)
  case (step_recv conn)
  then show ?case
    by (auto simp: connection_recv_def connection_ok_def split: list.split)
next
  case (step_disconnect conn)
  then show ?case
    by (simp add: connection_disconnect_def connection_ok_def active_ok_map_stop hm_len_def)
next
  case (step_reconnect conn)
  then show ?case by (simp add: connection_reconnect_def connection_ok_def)
next
  case (step_environment conn now reachable can_bind)
  then show ?case by (simp add: connection_ok_def)
qed (simp_all add: connection_send_ok connection_accept_ok connection_task_ok)

lemma connection_start_ok: "connection_start now r b a n = Ok conn \<Longrightarrow> connection_ok conn"
  by (auto simp: connection_start_def connection_ok_def active_ok_def hm_len_def split: if_splits)

lemma connection_step_max: "connection_step conn conn' \<Longrightarrow> cn_max_conns conn' = cn_max_conns conn"
proof (induction rule: connection_step.induct)
  case (step_send conn m a)
  then show ?case
    by (auto simp: connection_send_def ensure_handler_def split: if_splits option.split sum.split prod.split)
next
  case (step_recv conn)
  then show ?case by (simp add: connection_recv_def split: list.split)
next
  case (step_accept conn p bs)
  then show ?case by (simp add: connection_accept_def split: sum.split failure.split)
next
  case (step_task conn a e)
  then show ?case by (simp add: connection_task_def Let_def split: option.split)
qed (simp_all add: connection_disconnect_def connection_reconnect_def)

lemma connection_steps_ok:
  assumes "connection_step\<^sup>*\<^sup>* conn conn'" and "connection_ok conn"
  shows "connection_ok conn' \<and> cn_max_conns conn' = cn_max_conns conn"
  using assms by (induction rule: rtranclp_induct) (auto simp: connection_step_max connection_step_ok)

text \<open>C24: A connection never holds more handlers than its limit (one, if the limit is zero), at
  most one per peer, each filed under the address it talks to, whatever its owner, its peers
  and the network do.\<close>

theorem connection_bounded:
  assumes "connection_start now reachable can_bind address max_conns = Ok conn"
    and "connection_step\<^sup>*\<^sup>* conn conn'"
  shows "hm_len (cn_active conn') \<le> max 1 max_conns \<and> hm_wf (cn_active conn') \<and>
    (\<forall>a h. hm_get (cn_active conn') a = Some h \<longrightarrow> ph_address h = a)"
proof -
  have "cn_max_conns conn = max_conns"
    using assms(1) by (auto simp: connection_start_def split: if_splits)
  then have "connection_ok conn'" "cn_max_conns conn' = max_conns"
    using connection_steps_ok [OF assms(2) connection_start_ok [OF assms(1)]] by simp_all
  then show ?thesis
    by (simp add: connection_ok_def active_ok_def)
qed

definition sample_connection :: connection where
  "sample_connection =
     \<lparr>cn_active = [], cn_acceptor_alive = True, cn_inbox = [], cn_max_conns = 1,
      cn_address = SocketAddr (V4 127 0 0 1) 5000, cn_connected = True, cn_now = 0,
      cn_reachable = (\<lambda>a. True), cn_can_bind = True, cn_sent = []\<rparr>"

theorem connection_bounded_witness:
  "hm_len (cn_active (fst (connection_send (Ack 1) (SocketAddr (V4 127 0 0 1) 5001)
     sample_connection))) \<le> 1"
  using connection_bounded [of 0 "\<lambda>a. True" True "SocketAddr (V4 127 0 0 1) 5000" 1
      sample_connection "fst (connection_send (Ack 1) (SocketAddr (V4 127 0 0 1) 5001) sample_connection)"]
    step_send [of sample_connection "Ack 1" "SocketAddr (V4 127 0 0 1) 5001"]
  by (simp add: connection_start_def sample_connection_def r_into_rtranclp)

text \<open>Eviction: a new peer's handler enters a full table in the place of a least recently used
  one; every other entry stays as it was.\<close>

theorem full_table_evicts_least_recently_used:
  assumes "active_ok active" "active \<noteq> []" "max_conns \<le> hm_len active"
  shows "\<exists>a k. hm_get active a = Some k \<and>
    (\<forall>a' k'. hm_get active a' = Some k' \<longrightarrow> ph_last_used k \<le> ph_last_used k') \<and>
    (\<forall>b. hm_get (add_handler_from active h max_conns) b =
       (if b = ph_address h then Some h else if b = a then None else hm_get active b))"
proof -
  obtain a k where 1: "hm_get active a = Some k"
    and 2: "remove_last_recently_used active = (hm_remove a active, Some k)"
    and 3: "\<forall>a' k'. hm_get active a' = Some k' \<longrightarrow> ph_last_used k \<le> ph_last_used k'"
    by (rule remove_lru_spec [OF assms(1,2)])
  have "hm_get (add_handler_from active h max_conns) b =
      (if b = ph_address h then Some h else if b = a then None else hm_get active b)" for b
    using assms(3) 2 by (simp add: add_handler_from_def hm.get_insert hm.get_remove)
  with 1 3 show ?thesis by blast
qed

definition idle_handler :: "nat \<Rightarrow> u16 \<Rightarrow> peer_handler" where
  "idle_handler now port = handler_new now [] [] (SocketAddr (V4 127 0 0 1) port)"

theorem full_table_evicts_least_recently_used_witness:
  "\<exists>a k. hm_get [(ph_address (idle_handler 4 1), idle_handler 4 1)] a = Some k \<and>
    (\<forall>a' k'. hm_get [(ph_address (idle_handler 4 1), idle_handler 4 1)] a' = Some k' \<longrightarrow>
       ph_last_used k \<le> ph_last_used k') \<and>
    (\<forall>b. hm_get (add_handler_from [(ph_address (idle_handler 4 1), idle_handler 4 1)]
        (idle_handler 5 2) 1) b =
       (if b = ph_address (idle_handler 5 2) then Some (idle_handler 5 2)
        else if b = a then None
        else hm_get [(ph_address (idle_handler 4 1), idle_handler 4 1)] b))"
  by (rule full_table_evicts_least_recently_used)
    (simp_all add: active_ok_def hm_wf_def hm_get_def hm_len_def)

section \<open>Sending\<close>

text \<open>What a caller can rely on after \<open>send\<close>, whatever the state of the handlers.\<close>

lemma connection_send_frame:
  assumes "connection_send m a conn = (conn', r)"
  shows "conn' = conn\<lparr>cn_active := cn_active conn', cn_sent := cn_sent conn'\<rparr> \<and>
    cn_sent conn' = cn_sent conn @ (if is_ok r then [(m, a)] else [])"
  using assms
  by (auto simp: connection_send_def ensure_handler_def ph_send_def Let_def
      split: if_splits option.splits sum.splits prod.splits)

lemma connection_send_disconnected [simp]:
  "\<not> cn_connected conn \<Longrightarrow> connection_send m a conn = (conn, Error ConnectionLost)"
  by (simp add: connection_send_def)

lemma send_to_alive:
  assumes "cn_connected conn" "hm_get (cn_active conn) a = Some h" "ph_alive h"
  shows "connection_send m a conn =
    (conn\<lparr>cn_active := hm_insert a (ph_enqueue m (h\<lparr>ph_last_used := cn_now conn\<rparr>)) (cn_active conn),
          cn_sent := cn_sent conn @ [(m, a)]\<rparr>, Ok ())"
  using assms by (simp add: connection_send_def ensure_handler_def hm_contains_def ph_send_def Let_def)

lemma send_to_stopped:
  assumes "cn_connected conn" "hm_get (cn_active conn) a = Some h" "\<not> ph_alive h"
  shows "connection_send m a conn =
    (conn\<lparr>cn_active := hm_remove a (cn_active conn)\<rparr>, Error (ConnectionLostWith (ph_address h)))"
  using assms by (simp add: connection_send_def ensure_handler_def hm_contains_def ph_send_def Let_def)

lemma send_to_new:
  assumes "connection_ok conn" "cn_connected conn" "hm_get (cn_active conn) a = None"
    and "cn_reachable conn a" "is_ipv4 (cn_address conn)"
  shows "snd (connection_send m a conn) = Ok ()"
proof -
  obtain h where h: "handler_start (cn_now conn) True (cn_address conn) a = Ok h"
    using assms(5) by (simp add: handler_start_def send_handler_first_message_def)
  note alive = handler_start_address [OF h]
  have get: "hm_get (add_handler_from (cn_active conn) h (cn_max_conns conn)) a = Some h"
    using add_handler_from_get [of "cn_active conn" h] alive assms(1) by (simp add: connection_ok_def)
  show ?thesis
    using assms(2-4) h get alive
    by (simp add: connection_send_def ensure_handler_def hm_contains_def ph_send_def ph_alive_def Let_def)
qed

text \<open>After a disconnection and a reconnection the handlers of the old connections are still
  in the table: the first message to a known peer is refused with a lost connection and clears
  the entry, the next one reaches the peer over a new connection.\<close>

theorem reconnect_first_send_fails:
  assumes "connection_ok conn" "hm_get (cn_active conn) a = Some h"
    and "cn_can_bind conn" "cn_reachable conn a" "is_ipv4 (cn_address conn)"
    and "connection_reconnect (connection_disconnect conn) = (conn1, Ok ())"
    and "connection_send m a conn1 = (conn2, r)"
  shows "r = Error (ConnectionLostWith a) \<and> snd (connection_send m a conn2) = Ok ()"
proof -
  have c1: "conn1 = (connection_disconnect conn)\<lparr>cn_connected := True, cn_acceptor_alive := True\<rparr>"
    using assms(3,6) by (simp add: connection_reconnect_def connection_disconnect_def)
  have get: "hm_get (cn_active conn1) a = Some (ph_stop h)"
    using assms(2) c1 by (simp add: connection_disconnect_def hm_get_def map_of_map)
  have ok1: "connection_ok conn1"
    using assms(1) c1
    by (simp add: connection_ok_def connection_disconnect_def active_ok_map_stop hm_len_def)
  have addr: "ph_address h = a" using assms(1,2) by (simp add: connection_ok_def active_ok_def)
  have dead: "\<not> ph_alive (ph_stop h)" by (simp add: ph_stop_def ph_alive_def)
  have 2: "conn2 = conn1\<lparr>cn_active := hm_remove a (cn_active conn1)\<rparr>"
      "r = Error (ConnectionLostWith a)"
    using send_to_stopped [OF _ get dead, of m] assms(7) c1 addr by simp_all
  have "connection_ok conn2"
    using connection_send_ok [OF ok1, of m a] assms(7) by simp
  moreover have "hm_get (cn_active conn2) a = None" using 2 by simp
  ultimately have "snd (connection_send m a conn2) = Ok ()"
    using 2 c1 assms(4,5) by (intro send_to_new) (simp_all add: connection_disconnect_def)
  with 2 show ?thesis by simp
qed

theorem reconnect_first_send_fails_witness:
  "let a = SocketAddr (V4 127 0 0 1) 7;
       conn = sample_connection\<lparr>cn_active := [(a, idle_handler 0 7)]\<rparr>;
       conn1 = fst (connection_reconnect (connection_disconnect conn));
       (conn2, r) = connection_send (Ack 1) a conn1
   in r = Error (ConnectionLostWith a) \<and> snd (connection_send (Ack 1) a conn2) = Ok ()"
proof -
  let ?a = "SocketAddr (V4 127 0 0 1) 7"
  let ?conn = "sample_connection\<lparr>cn_active := [(?a, idle_handler 0 7)]\<rparr>"
  let ?conn1 = "fst (connection_reconnect (connection_disconnect ?conn))"
  have "connection_ok ?conn"
    by (simp add: connection_ok_def active_ok_def hm_wf_def hm_get_def hm_len_def idle_handler_def
        handler_new_def)
  then show ?thesis
    using reconnect_first_send_fails [of ?conn ?a "idle_handler 0 7" ?conn1 "Ack 1"]
    by (auto simp: sample_connection_def hm_get_def connection_reconnect_def
        connection_disconnect_def Let_def split: prod.split)
qed

end
