(* ===== verification/Node.thy ===== *)
theory Node
  imports ActorSystem Connection
begin

text \<open>
  The role-independent half of a node (\<open>server/src/node/node.rs\<close>, \<open>utils.rs\<close>): the
  resources a node drives, the \<open>Node\<close> trait as a record of handlers, its default methods
  and one turn of the event loop of \<open>Node::run\<close>. A handler takes the state of its role and
  the resources and returns both with a result; what it did before an early return stays
  done.
\<close>

section \<open>Identifiers\<close>

text \<open>
  \<open>get_id_given_addr\<close> reduces the value of the standard library's \<open>DefaultHasher\<close>, whose
  algorithm is not specified: the hash of an address is the parameter \<open>hash\<close>.
\<close>

definition get_id_given_addr :: "(socket_addr \<Rightarrow> u64) \<Rightarrow> socket_addr \<Rightarrow> u64" where
  "get_id_given_addr hash addr = hash addr mod 100000 + 1"

section \<open>The resources of a node\<close>

text \<open>
  \<open>nw_to_station\<close> is what the node told its station, \<open>nw_from_station\<close> what the station has
  sent and the node has not read; the flags say whether the other half of each channel is
  alive.
\<close>

record node_world =
  nw_conn :: connection
  nw_db :: actor_system
  nw_to_station :: "node_to_station_msg list"
  nw_to_station_open :: bool
  nw_from_station :: "station_to_node_msg list"
  nw_from_station_open :: bool

definition net_send :: "message \<Rightarrow> socket_addr \<Rightarrow> node_world \<Rightarrow> node_world \<times> unit app_result" where
  "net_send msg addr w =
     (let (conn, r) = connection_send msg addr (nw_conn w) in (w\<lparr>nw_conn := conn\<rparr>, r))"

definition db_send :: "u32 \<Rightarrow> operation \<Rightarrow> node_world \<Rightarrow> node_world" where
  "db_send op_id operation w = w\<lparr>nw_db := database_send op_id operation (nw_db w)\<rparr>"

definition station_send :: "node_to_station_msg \<Rightarrow> node_world \<Rightarrow> node_world \<times> unit app_result" where
  "station_send msg w =
     (if nw_to_station_open w then (w\<lparr>nw_to_station := nw_to_station w @ [msg]\<rparr>, Ok ())
      else (w, Error Channel))"

abbreviation now_of :: "node_world \<Rightarrow> nat" where
  "now_of w \<equiv> cn_now (nw_conn w)"

section \<open>Results of handlers\<close>

datatype role_change =
    NoRoleChange
  | PromoteToLeader
  | DemoteToReplica socket_addr

type_synonym ('x, 'a) outcome = "'x \<times> 'a app_result"

text \<open>\<open>?\<close> after a call that also changed the state.\<close>

fun then_do :: "('x, 'a) outcome \<Rightarrow> ('a \<Rightarrow> 'x \<Rightarrow> ('x, 'b) outcome) \<Rightarrow> ('x, 'b) outcome" where
  "then_do (x, Inl f) k = (x, Inl f)"
| "then_do (x, Inr a) k = k a x"

text \<open>\<open>if let Err(e) = .. { println!(..) }\<close> and \<open>let _ = ..\<close>: an error is dropped, a panic is not.\<close>

fun ignore_error :: "('x, unit) outcome \<Rightarrow> ('x, unit) outcome" where
  "ignore_error (x, Inl (Err e)) = (x, Ok ())"
| "ignore_error (x, r) = (x, r)"

fun with_result :: "'b \<Rightarrow> ('x, 'a) outcome \<Rightarrow> ('x, 'b) outcome" where
  "with_result b (x, Inl f) = (x, Inl f)"
| "with_result b (x, Inr a) = (x, Ok b)"

text \<open>A call that only touches the resources, inside a handler of a role.\<close>

definition on_world :: "('s \<times> node_world) \<Rightarrow> (node_world, 'a) outcome \<Rightarrow> ('s \<times> node_world, 'a) outcome"
  where
  "on_world x r = ((fst x, fst r), snd r)"

section \<open>The Node trait\<close>

record 's node_ops =
  op_is_offline :: "'s \<Rightarrow> bool"
  op_log_offline_operation :: "operation \<Rightarrow> 's \<Rightarrow> 's"
  op_get_address :: "'s \<Rightarrow> socket_addr"
  op_handle_request ::
    "u32 \<Rightarrow> operation \<Rightarrow> socket_addr \<Rightarrow> 's \<times> node_world \<Rightarrow> ('s \<times> node_world, unit) outcome"
  op_handle_response ::
    "u32 \<Rightarrow> operation_result \<Rightarrow> 's \<times> node_world \<Rightarrow> ('s \<times> node_world, unit) outcome"
  op_handle_role_query :: "socket_addr \<Rightarrow> 's \<times> node_world \<Rightarrow> ('s \<times> node_world, unit) outcome"
  op_handle_log :: "u32 \<Rightarrow> operation \<Rightarrow> 's \<times> node_world \<Rightarrow> ('s \<times> node_world, unit) outcome"
  op_handle_ack :: "u32 \<Rightarrow> 's \<times> node_world \<Rightarrow> ('s \<times> node_world, unit) outcome"
  op_handle_operation_result ::
    "u32 \<Rightarrow> operation \<Rightarrow> operation_result \<Rightarrow> 's \<times> node_world \<Rightarrow> ('s \<times> node_world, unit) outcome"
  op_handle_connection_lost_with ::
    "socket_addr \<Rightarrow> 's \<times> node_world \<Rightarrow> ('s \<times> node_world, role_change) outcome"
  op_handle_disconnect_node :: "'s \<times> node_world \<Rightarrow> 's \<times> node_world"
  op_handle_connect_node :: "'s \<times> node_world \<Rightarrow> ('s \<times> node_world, unit) outcome"
  op_handle_election ::
    "u64 \<Rightarrow> socket_addr \<Rightarrow> 's \<times> node_world \<Rightarrow> ('s \<times> node_world, role_change) outcome"
  op_handle_election_ok :: "u64 \<Rightarrow> 's \<times> node_world \<Rightarrow> 's \<times> node_world"
  op_handle_coordinator ::
    "u64 \<Rightarrow> socket_addr \<Rightarrow> 's \<times> node_world \<Rightarrow> ('s \<times> node_world, role_change) outcome"
  op_handle_join :: "socket_addr \<Rightarrow> 's \<times> node_world \<Rightarrow> ('s \<times> node_world, unit) outcome"
  op_handle_cluster_view ::
    "(u64 \<times> socket_addr) list \<Rightarrow> socket_addr \<Rightarrow> database_snapshot \<Rightarrow> 's \<times> node_world \<Rightarrow>
     ('s \<times> node_world, unit) outcome"
  op_handle_cluster_update :: "u64 \<times> socket_addr \<Rightarrow> 's \<times> node_world \<Rightarrow> 's \<times> node_world"
  op_handle_election_timeout :: "'s \<times> node_world \<Rightarrow> ('s \<times> node_world, role_change) outcome"

subsection \<open>Default methods\<close>

text \<open>An error of the handler is printed and dropped.\<close>

fun handle_actor_event :: "'s node_ops \<Rightarrow> actor_event \<Rightarrow> 's \<times> node_world \<Rightarrow>
    ('s \<times> node_world, unit) outcome" where
  "handle_actor_event ops (OperationResult op_id operation result success error) x =
     ignore_error (op_handle_operation_result ops op_id operation result x)"
| "handle_actor_event ops ActorDebug x = (x, Ok ())"

definition handle_charge_request :: "'s node_ops \<Rightarrow> u64 \<Rightarrow> u64 \<Rightarrow> f32 \<Rightarrow> u32 \<Rightarrow> 's \<times> node_world \<Rightarrow>
    ('s \<times> node_world, role_change) outcome" where
  "handle_charge_request ops account_id card_id amount request_id x =
     (let (s, w) = x in
      if op_is_offline ops s then
        (let s' = op_log_offline_operation ops (Charge account_id card_id amount True) s
         in with_result NoRoleChange (ignore_error
              (on_world (s', w) (station_send (StationChargeResult request_id True None) w))))
      else
        with_result NoRoleChange
          (op_handle_request ops request_id (Charge account_id card_id amount False)
             (op_get_address ops s) x))"

fun handle_station_msg :: "'s node_ops \<Rightarrow> station_to_node_msg \<Rightarrow> 's \<times> node_world \<Rightarrow>
    ('s \<times> node_world, role_change) outcome" where
  "handle_station_msg ops (ChargeRequest account_id card_id amount request_id) x =
     handle_charge_request ops account_id card_id amount request_id x"
| "handle_station_msg ops DisconnectNode x = (op_handle_disconnect_node ops x, Ok NoRoleChange)"
| "handle_station_msg ops ConnectNode x =
     with_result NoRoleChange (op_handle_connect_node ops x)"

text \<open>The last case is the \<open>todo!()\<close> of the dispatcher.\<close>

fun handle_node_msg :: "'s node_ops \<Rightarrow> message \<Rightarrow> 's \<times> node_world \<Rightarrow>
    ('s \<times> node_world, role_change) outcome" where
  "handle_node_msg ops (Request req_id op addr) x =
     with_result NoRoleChange (op_handle_request ops req_id op addr x)"
| "handle_node_msg ops (Log op_id op) x =
     with_result NoRoleChange (op_handle_log ops op_id op x)"
| "handle_node_msg ops (Ack op_id) x = with_result NoRoleChange (op_handle_ack ops op_id x)"
| "handle_node_msg ops (Election candidate_id candidate_addr) x =
     op_handle_election ops candidate_id candidate_addr x"
| "handle_node_msg ops (ElectionOk responder_id) x =
     (op_handle_election_ok ops responder_id x, Ok NoRoleChange)"
| "handle_node_msg ops (Coordinator leader_id leader_addr) x =
     op_handle_coordinator ops leader_id leader_addr x"
| "handle_node_msg ops (Join addr) x = with_result NoRoleChange (op_handle_join ops addr x)"
| "handle_node_msg ops (ClusterView members leader_addr database) x =
     with_result NoRoleChange (op_handle_cluster_view ops members leader_addr database x)"
| "handle_node_msg ops (ClusterUpdate new_member) x =
     (op_handle_cluster_update ops new_member x, Ok NoRoleChange)"
| "handle_node_msg ops (Response req_id op_result) x =
     with_result NoRoleChange (op_handle_response ops req_id op_result x)"
| "handle_node_msg ops (RoleQuery addr) x =
     with_result NoRoleChange (op_handle_role_query ops addr x)"
| "handle_node_msg ops (RoleResponse node_id role) x = (x, Panicked)"

section \<open>The event loop\<close>

text \<open>The branches of the loop's \<open>select!\<close>.\<close>

datatype node_source = NetReady | StationReady | ActorReady | ElectionTick

text \<open>
  One \<open>select!\<close>: \<open>None\<close> when the chosen source has nothing yet. The database end of the
  actor channel lives as long as the actor system, so its \<open>recv\<close> is never closed here.
\<close>

definition node_select :: "'s node_ops \<Rightarrow> node_source \<Rightarrow> 's \<times> node_world \<Rightarrow>
    ('s \<times> node_world, role_change) outcome option" where
  "node_select ops source x =
     (let (s, w) = x in
      case source of
        NetReady \<Rightarrow>
          (case connection_recv (nw_conn w) of
             (conn, None) \<Rightarrow> None
           | (conn, Some (Inr msg)) \<Rightarrow> Some (handle_node_msg ops msg (s, w\<lparr>nw_conn := conn\<rparr>))
           | (conn, Some (Inl f)) \<Rightarrow> Some ((s, w\<lparr>nw_conn := conn\<rparr>), Inl f))
      | StationReady \<Rightarrow>
          (case nw_from_station w of
             msg # msgs \<Rightarrow> Some (handle_station_msg ops msg (s, w\<lparr>nw_from_station := msgs\<rparr>))
           | [] \<Rightarrow> if nw_from_station_open w then None else Some (x, Panicked))
      | ActorReady \<Rightarrow>
          (case database_recv (nw_db w) of
             (db, None) \<Rightarrow> None
           | (db, Some ev) \<Rightarrow>
               Some (with_result NoRoleChange (handle_actor_event ops ev (s, w\<lparr>nw_db := db\<rparr>))))
      | ElectionTick \<Rightarrow> Some (op_handle_election_timeout ops x))"

text \<open>After the \<open>select!\<close>: \<open>None\<close> goes round again, \<open>Some r\<close> returns \<open>r\<close> from \<open>run\<close>.\<close>

definition after_select :: "'s node_ops \<Rightarrow> ('s \<times> node_world, role_change) outcome \<Rightarrow>
    's \<times> node_world \<times> role_change app_result option" where
  "after_select ops o' =
     (let ((s, w), result) = o' in
      case result of
        Inr NoRoleChange \<Rightarrow> (s, w, None)
      | Inr rc \<Rightarrow> (s, w, Some (Ok rc))
      | Inl (Err (ConnectionLostWith address)) \<Rightarrow>
          (case op_handle_connection_lost_with ops address (s, w) of
             ((s', w'), Inr NoRoleChange) \<Rightarrow> (s', w', None)
           | ((s', w'), Inr rc) \<Rightarrow> (s', w', Some (Ok rc))
           | ((s', w'), Inl Panic) \<Rightarrow> (s', w', Some Panicked)
           | ((s', w'), Inl (Err e)) \<Rightarrow> (s', w', None))
      | Inl (Err ConnectionLost) \<Rightarrow> (s, w, None)
      | Inl (Err ConnectionRefused) \<Rightarrow> (s, w, None)
      | Inl f \<Rightarrow> (s, w, Some (Inl f)))"

definition node_turn :: "'s node_ops \<Rightarrow> node_source \<Rightarrow> 's \<times> node_world \<Rightarrow>
    's \<times> node_world \<times> role_change app_result option" where
  "node_turn ops source x =
     (case node_select ops source x of
        None \<Rightarrow> (fst x, snd x, None)
      | Some o' \<Rightarrow> after_select ops o')"

section \<open>What sending changes\<close>

text \<open>
  A send touches the connection only: its handlers and its log of accepted messages. The
  relation \<open>only_sent w w' log\<close> says that \<open>w'\<close> is \<open>w\<close> after sends that were accepted for
  \<open>log\<close>.
\<close>

abbreviation sent :: "node_world \<Rightarrow> (message \<times> socket_addr) list" where
  "sent w \<equiv> cn_sent (nw_conn w)"

definition only_sent :: "node_world \<Rightarrow> node_world \<Rightarrow> (message \<times> socket_addr) list \<Rightarrow> bool" where
  "only_sent w w' log \<longleftrightarrow> (\<exists>active. w' =
     w\<lparr>nw_conn := (nw_conn w)\<lparr>cn_active := active, cn_sent := sent w @ log\<rparr>\<rparr>)"

lemma only_sent_refl [simp]: "only_sent w w []"
  by (auto simp: only_sent_def intro!: exI [of _ "cn_active (nw_conn w)"])

lemma only_sent_trans:
  "only_sent w w1 log \<Longrightarrow> only_sent w1 w2 log' \<Longrightarrow> only_sent w w2 (log @ log')"
  by (auto simp: only_sent_def)

lemma only_sent_fields:
  assumes "only_sent w w' log"
  shows "nw_db w' = nw_db w" "nw_to_station w' = nw_to_station w" "now_of w' = now_of w"
    "nw_from_station w' = nw_from_station w" "cn_connected (nw_conn w') = cn_connected (nw_conn w)"
    "cn_inbox (nw_conn w') = cn_inbox (nw_conn w)" "sent w' = sent w @ log"
    "nw_to_station_open w' = nw_to_station_open w"
    "nw_from_station_open w' = nw_from_station_open w"
    "cn_address (nw_conn w') = cn_address (nw_conn w)"
  using assms by (auto simp: only_sent_def)

lemma net_send_only:
  assumes "net_send m a w = (w', r)"
  shows "only_sent w w' (if is_ok r then [(m, a)] else [])"
proof -
  obtain conn where c: "connection_send m a (nw_conn w) = (conn, r)" "w' = w\<lparr>nw_conn := conn\<rparr>"
    using assms by (auto simp: net_send_def split: prod.splits)
  note f = connection_send_frame [OF c(1)]
  have "conn = (nw_conn w)\<lparr>cn_active := cn_active conn,
      cn_sent := sent w @ (if is_ok r then [(m, a)] else [])\<rparr>"
    using conjunct1 [OF f] unfolding conjunct2 [OF f] .
  with c(2) show ?thesis unfolding only_sent_def by metis
qed

lemma net_send_offline:
  "\<not> cn_connected (nw_conn w) \<Longrightarrow> net_send m a w = (w, Error ConnectionLost)"
  by (simp add: net_send_def)

section \<open>The contract of a role\<close>

text \<open>The resources are in order: the connection is bounded, the actors keep their invariant.\<close>

definition world_ok :: "node_world \<Rightarrow> bool" where
  "world_ok w \<longleftrightarrow> connection_ok (nw_conn w) \<and> system_ok (nw_db w)"

lemma net_send_world_ok: "world_ok w \<Longrightarrow> world_ok (fst (net_send m a w))"
  using connection_send_ok [of "nw_conn w" m a]
  by (cases "connection_send m a (nw_conn w)") (simp add: world_ok_def net_send_def)

lemma db_send_world_ok: "world_ok w \<Longrightarrow> world_ok (db_send op_id op w)"
  using system_step_ok [of "nw_db w" "SysSend op_id op"] by (simp add: world_ok_def db_send_def)

lemma station_send_world_ok: "world_ok w \<Longrightarrow> world_ok (fst (station_send m w))"
  by (simp add: world_ok_def station_send_def)

lemma disconnect_world_ok:
  "world_ok w \<Longrightarrow> world_ok (w\<lparr>nw_conn := connection_disconnect (nw_conn w)\<rparr>)"
  using connection_step_ok [OF step_disconnect] by (simp add: world_ok_def)

lemma reconnect_world_ok:
  "world_ok w \<Longrightarrow> connection_reconnect (nw_conn w) = (conn, r) \<Longrightarrow> world_ok (w\<lparr>nw_conn := conn\<rparr>)"
  using connection_step_ok [OF step_reconnect [of "nw_conn w"]] by (simp add: world_ok_def)

lemma fst_ignore_error [simp]: "fst (ignore_error r) = fst r"
  by (cases r rule: ignore_error.cases) simp_all

lemma fst_with_result [simp]: "fst (with_result b r) = fst r"
  by (cases "(b, r)" rule: with_result.cases) simp_all

lemma fst_then_do:
  "P (fst r) \<Longrightarrow> (\<And>a x. r = (x, Ok a) \<Longrightarrow> P x \<Longrightarrow> P (fst (k a x))) \<Longrightarrow> P (fst (then_do r k))"
  by (cases "(r, k)" rule: then_do.cases) simp_all

lemma fst_on_world [simp]: "fst (on_world x r) = (fst x, fst r)"
  by (simp add: on_world_def)

text \<open>
  A role promises that each of its handlers keeps its own invariant and the resources in
  order, whatever it returns; then every turn of the event loop does.
\<close>

locale node_role_contract =
  fixes ops :: "'s node_ops" and inv :: "'s \<Rightarrow> bool" and K :: "'s \<times> node_world \<Rightarrow> bool"
  assumes K_def: "K x \<longleftrightarrow> inv (fst x) \<and> world_ok (snd x)"
    and offline_log: "inv s \<Longrightarrow> inv (op_log_offline_operation ops op s)"
    and request: "K x \<Longrightarrow> K (fst (op_handle_request ops i op a x))"
    and response: "K x \<Longrightarrow> K (fst (op_handle_response ops i res x))"
    and role_query: "K x \<Longrightarrow> K (fst (op_handle_role_query ops a x))"
    and log: "K x \<Longrightarrow> K (fst (op_handle_log ops i op x))"
    and ack: "K x \<Longrightarrow> K (fst (op_handle_ack ops i x))"
    and operation_result: "K x \<Longrightarrow> K (fst (op_handle_operation_result ops i op res x))"
    and connection_lost: "K x \<Longrightarrow> K (fst (op_handle_connection_lost_with ops a x))"
    and disconnect: "K x \<Longrightarrow> K (op_handle_disconnect_node ops x)"
    and connect: "K x \<Longrightarrow> K (fst (op_handle_connect_node ops x))"
    and election: "K x \<Longrightarrow> K (fst (op_handle_election ops c a x))"
    and election_ok: "K x \<Longrightarrow> K (op_handle_election_ok ops c x)"
    and coordinator: "K x \<Longrightarrow> K (fst (op_handle_coordinator ops c a x))"
    and join: "K x \<Longrightarrow> K (fst (op_handle_join ops a x))"
    and cluster_view: "K x \<Longrightarrow> K (fst (op_handle_cluster_view ops ms a d x))"
    and cluster_update: "K x \<Longrightarrow> K (op_handle_cluster_update ops m x)"
    and election_timeout: "K x \<Longrightarrow> K (fst (op_handle_election_timeout ops x))"
begin

lemma actor_event: "K x \<Longrightarrow> K (fst (handle_actor_event ops ev x))"
  using operation_result by (cases ev) auto

lemma charge_request: "K x \<Longrightarrow> K (fst (handle_charge_request ops a c amount i x))"
  using request offline_log
  by (cases x) (auto simp: handle_charge_request_def Let_def K_def station_send_world_ok)

lemma station_msg: "K x \<Longrightarrow> K (fst (handle_station_msg ops msg x))"
  using charge_request disconnect connect by (cases msg) auto

lemma node_msg: "K x \<Longrightarrow> K (fst (handle_node_msg ops msg x))"
  using request log ack election election_ok coordinator join cluster_view cluster_update response
    role_query
  by (cases msg) auto

lemma recv_conn_ok:
  "connection_ok conn \<Longrightarrow> connection_ok (fst (connection_recv conn))"
  using connection_step_ok [OF step_recv] by blast

lemma select_ok:
  assumes "K x" and "node_select ops source x = Some o'"
  shows "K (fst o')"
proof -
  obtain s w where x: "x = (s, w)" by (rule prod.exhaust)
  have ok: "inv s" "connection_ok (nw_conn w)" "system_ok (nw_db w)"
    using assms(1) x by (simp_all add: K_def world_ok_def)
  show ?thesis
  proof (cases source)
    case NetReady
    obtain conn r where r: "connection_recv (nw_conn w) = (conn, r)" by (rule prod.exhaust)
    have "K (s, w\<lparr>nw_conn := conn\<rparr>)"
      using recv_conn_ok [OF ok(2)] r ok by (simp add: K_def world_ok_def)
    with assms(2) NetReady x r node_msg show ?thesis
      by (auto simp: node_select_def split: option.splits sum.splits)
  next
    case StationReady
    have "K (s, w\<lparr>nw_from_station := msgs\<rparr>)" for msgs
      using ok by (simp add: K_def world_ok_def)
    with assms StationReady x station_msg show ?thesis
      by (auto simp: node_select_def split: list.splits if_splits)
  next
    case ActorReady
    obtain db ev where r: "database_recv (nw_db w) = (db, ev)" by (rule prod.exhaust)
    have "K (s, w\<lparr>nw_db := db\<rparr>)"
      using system_step_ok [OF ok(3), of SysRecv] r ok by (simp add: K_def world_ok_def)
    with assms(2) ActorReady x r actor_event show ?thesis
      by (auto simp: node_select_def split: option.splits)
  next
    case ElectionTick
    with assms x election_timeout show ?thesis by (auto simp: node_select_def)
  qed
qed

lemma after_ok:
  assumes "K (fst o')" and "after_select ops o' = (s', w', r)"
  shows "K (s', w')"
proof -
  obtain s w result where o': "o' = ((s, w), result)" by (metis surj_pair)
  have K: "K (s, w)" using assms(1) o' by simp
  show ?thesis
  proof (cases "\<exists>a. result = Error (ConnectionLostWith a)")
    case True
    then obtain a where a: "result = Error (ConnectionLostWith a)" by blast
    obtain s1 w1 r1 where h: "op_handle_connection_lost_with ops a (s, w) = ((s1, w1), r1)"
      by (metis surj_pair)
    have "K (s1, w1)" using connection_lost [OF K, of a] h by simp
    with assms(2) o' a h show ?thesis
      by (auto simp: after_select_def split: sum.splits role_change.splits failure.splits)
  next
    case False
    with assms(2) o' K show ?thesis
      by (auto simp: after_select_def split: sum.splits role_change.splits failure.splits app_error.splits)
  qed
qed

lemma turn_ok:
  assumes "K x" and "node_turn ops source x = (s', w', r)"
  shows "K (s', w')"
proof (cases "node_select ops source x")
  case None
  with assms show ?thesis by (cases x) (simp add: node_turn_def)
next
  case (Some o')
  with assms(2) have "after_select ops o' = (s', w', r)" by (simp add: node_turn_def)
  with select_ok [OF assms(1) Some] show ?thesis by (rule after_ok)
qed

end

end
