(* ===== verification/Leader.thy ===== *)
theory Leader
  imports Node
begin

text \<open>
  The leader (\<open>server/src/node/leader.rs\<close>, \<open>pending_operation.rs\<close>): it numbers the
  operations, sends them to the replicas, executes one when enough of them acknowledged it,
  answers the client, and keeps the membership of the cluster. Loops over the cluster run in
  the order of the map's list.
\<close>

record pending_operation =
  po_op :: operation
  po_client_addr :: socket_addr
  po_ack_count :: nat
  po_request_id :: u32

definition pending_new :: "operation \<Rightarrow> socket_addr \<Rightarrow> u32 \<Rightarrow> pending_operation" where
  "pending_new op client_addr request_id =
     \<lparr>po_op = op, po_client_addr = client_addr, po_ack_count = 0, po_request_id = request_id\<rparr>"

text \<open>\<open>coords\<close> is kept as the bits of its two \<open>f64\<close> values: no code computes with it.\<close>

type_synonym cluster = "(u64, socket_addr) hash_map"

record leader =
  ld_id :: u64
  ld_current_op_id :: u32
  ld_coords :: "u64 \<times> u64"
  ld_address :: socket_addr
  ld_cluster :: cluster
  ld_operations :: "(u32, pending_operation) hash_map"
  ld_is_offline :: bool
  ld_offline_queue :: "operation list"
  ld_election_in_progress :: bool
  ld_election_start :: "nat option"

type_synonym leader_state = "leader \<times> node_world"

section \<open>Sending to the cluster\<close>

text \<open>\<open>for (id, addr) in cluster { if id == self_id { continue } send(msg, addr)? }\<close>\<close>

fun send_to_peers :: "u64 \<Rightarrow> message \<Rightarrow> cluster \<Rightarrow> node_world \<Rightarrow> (node_world, unit) outcome" where
  "send_to_peers self_id msg [] w = (w, Ok ())"
| "send_to_peers self_id msg ((node_id, addr) # rest) w =
     (if node_id = self_id then send_to_peers self_id msg rest w
      else then_do (net_send msg addr w) (\<lambda>_. send_to_peers self_id msg rest))"

text \<open>The same loop printing and dropping the errors.\<close>

fun announce_to_peers :: "u64 \<Rightarrow> message \<Rightarrow> cluster \<Rightarrow> node_world \<Rightarrow> (node_world, unit) outcome"
  where
  "announce_to_peers self_id msg [] w = (w, Ok ())"
| "announce_to_peers self_id msg ((node_id, addr) # rest) w =
     (if node_id = self_id then announce_to_peers self_id msg rest w
      else then_do (ignore_error (net_send msg addr w)) (\<lambda>_. announce_to_peers self_id msg rest))"

text \<open>The candidates above us; \<open>sent_any\<close> is set whether or not the send succeeds.\<close>

fun send_elections :: "u64 \<Rightarrow> message \<Rightarrow> cluster \<Rightarrow> bool \<Rightarrow> node_world \<Rightarrow> (node_world, bool) outcome"
  where
  "send_elections self_id msg [] sent_any w = (w, Ok sent_any)"
| "send_elections self_id msg ((node_id, addr) # rest) sent_any w =
     (if self_id < node_id
      then then_do (ignore_error (net_send msg addr w)) (\<lambda>_. send_elections self_id msg rest True)
      else send_elections self_id msg rest sent_any w)"

text \<open>Every address but two, with \<open>?\<close>.\<close>

fun send_cluster_update :: "socket_addr \<Rightarrow> socket_addr \<Rightarrow> message \<Rightarrow> socket_addr list \<Rightarrow>
    node_world \<Rightarrow> (node_world, unit) outcome" where
  "send_cluster_update self_addr new_addr msg [] w = (w, Ok ())"
| "send_cluster_update self_addr new_addr msg (addr # rest) w =
     (if addr = self_addr \<or> addr = new_addr then send_cluster_update self_addr new_addr msg rest w
      else then_do (net_send msg addr w) (\<lambda>_. send_cluster_update self_addr new_addr msg rest))"

text \<open>
  After a reconnection: ask one node to join through it, trying each address once more after
  a failure and going on to the next even when the second try succeeded.
\<close>

fun leader_rejoin :: "socket_addr \<Rightarrow> socket_addr list \<Rightarrow> node_world \<Rightarrow> (node_world, unit) outcome"
  where
  "leader_rejoin self_addr [] w = (w, Ok ())"
| "leader_rejoin self_addr (addr # rest) w =
     (if addr = self_addr then leader_rejoin self_addr rest w
      else (case net_send (Join self_addr) addr w of
              (w', Inr u) \<Rightarrow> (w', Ok ())
            | (w', Inl Panic) \<Rightarrow> (w', Panicked)
            | (w', Inl (Err e)) \<Rightarrow>
                then_do (ignore_error (net_send (Join self_addr) addr w'))
                  (\<lambda>_. leader_rejoin self_addr rest)))"

section \<open>Handlers\<close>

definition leader_handle_disconnect_node :: "leader_state \<Rightarrow> leader_state" where
  "leader_handle_disconnect_node x =
     (let (self, w) = x in
      (self\<lparr>ld_is_offline := True\<rparr>, w\<lparr>nw_conn := connection_disconnect (nw_conn w)\<rparr>))"

definition leader_handle_connect_node :: "leader_state \<Rightarrow> (leader_state, unit) outcome" where
  "leader_handle_connect_node x =
     (let (self, w) = x; self' = self\<lparr>ld_is_offline := False\<rparr>;
          (conn, r) = connection_reconnect (nw_conn w)
      in then_do ((self', w\<lparr>nw_conn := conn\<rparr>), r) (\<lambda>_ x'.
         on_world x' (leader_rejoin (ld_address self') (hm_values (ld_cluster self')) (snd x'))))"

definition leader_anounce_coordinator :: "leader_state \<Rightarrow> (leader_state, role_change) outcome" where
  "leader_anounce_coordinator x =
     (let (self, w) = x in
      with_result NoRoleChange (on_world x
        (announce_to_peers (ld_id self) (Coordinator (ld_id self) (ld_address self))
           (ld_cluster self) w)))"

definition leader_handle_connection_lost_with :: "(socket_addr \<Rightarrow> u64) \<Rightarrow> socket_addr \<Rightarrow>
    leader_state \<Rightarrow> (leader_state, role_change) outcome" where
  "leader_handle_connection_lost_with hash address x =
     (let (self, w) = x in
      ((self\<lparr>ld_cluster := hm_remove (get_id_given_addr hash address) (ld_cluster self)\<rparr>, w),
       Ok NoRoleChange))"

text \<open>The single-node path returns before the operation counter is advanced.\<close>

definition leader_handle_request :: "u32 \<Rightarrow> operation \<Rightarrow> socket_addr \<Rightarrow> leader_state \<Rightarrow>
    (leader_state, unit) outcome" where
  "leader_handle_request req_id op client_addr x =
     (let (self, w) = x; op_id = ld_current_op_id self;
          self' = self\<lparr>ld_operations := hm_insert op_id (pending_new op client_addr req_id)
                                         (ld_operations self)\<rparr>
      in if hm_len (ld_cluster self') = 1 then ((self', db_send op_id op w), Ok ())
         else
           then_do (on_world (self', w)
             (send_to_peers (ld_id self') (Log op_id op) (ld_cluster self') w)) (\<lambda>_ (self'', w').
             if unat op_id = 2 ^ 32 - 1 then ((self'', w'), Panicked)
             else ((self''\<lparr>ld_current_op_id := op_id + 1\<rparr>, w'), Ok ())))"

definition leader_handle_response :: "u32 \<Rightarrow> operation_result \<Rightarrow> leader_state \<Rightarrow>
    (leader_state, unit) outcome" where
  "leader_handle_response req_id op_result x = (x, Panicked)"

definition leader_handle_role_query :: "(socket_addr \<Rightarrow> u64) \<Rightarrow> socket_addr \<Rightarrow> leader_state \<Rightarrow>
    (leader_state, unit) outcome" where
  "leader_handle_role_query hash addr x =
     (let (self, w) = x in
      on_world x (net_send (RoleResponse (get_id_given_addr hash (ld_address self)) RoleLeader) addr w))"

definition leader_handle_log :: "u32 \<Rightarrow> operation \<Rightarrow> leader_state \<Rightarrow> (leader_state, unit) outcome"
  where
  "leader_handle_log op_id operation x = (x, Panicked)"

text \<open>\<open>((self.cluster.len() as f32 - 1f32) / 2f32).round() as usize\<close>\<close>

definition ack_quorum :: "nat \<Rightarrow> nat" where
  "ack_quorum n = f32_round_to_usize (f32_half (f32_of_usize n + - f32_one))"

text \<open>The \<open>usize\<close> subtraction of the second test panics on an empty cluster.\<close>

definition leader_handle_ack :: "u32 \<Rightarrow> leader_state \<Rightarrow> (leader_state, unit) outcome" where
  "leader_handle_ack op_id x =
     (let (self, w) = x in
      case hm_get (ld_operations self) op_id of
        None \<Rightarrow> (x, Ok ())
      | Some p \<Rightarrow>
          (let pending = p\<lparr>po_ack_count := po_ack_count p + 1\<rparr>;
               self' = self\<lparr>ld_operations := hm_insert op_id pending (ld_operations self)\<rparr>;
               n = hm_len (ld_cluster self)
           in if po_ack_count pending \<noteq> ack_quorum n then
                (if n = 0 then ((self', w), Panicked)
                 else if n - 1 \<noteq> 1 then ((self', w), Ok ())
                 else ((self', db_send op_id (po_op pending) w), Ok ()))
              else ((self', db_send op_id (po_op pending) w), Ok ())))"

text \<open>Send the view, and once more if that failed.\<close>

definition send_view :: "message \<Rightarrow> socket_addr \<Rightarrow> node_world \<Rightarrow> (node_world, unit) outcome" where
  "send_view msg addr w =
     (case net_send msg addr w of
        (w', Inl (Err e)) \<Rightarrow> net_send msg addr w'
      | (w', Inl Panic) \<Rightarrow> (w', Panicked)
      | (w', Inr u) \<Rightarrow> (w', Ok ()))"

definition leader_answer :: "operation \<Rightarrow> operation_result \<Rightarrow> pending_operation \<Rightarrow> leader_state \<Rightarrow>
    (leader_state, unit) outcome" where
  "leader_answer op result pending x =
     (let (self, w) = x in
      if po_client_addr pending = ld_address self then
        (case (op, result) of
           (Charge a c amount off, ResCharge charge_res) \<Rightarrow>
             (let (allowed, error) = charge_outcome charge_res
              in on_world x (station_send (StationChargeResult (po_request_id pending) allowed error) w))
         | _ \<Rightarrow> (x, Ok ()))
      else on_world x (net_send (Response (po_request_id pending) result) (po_client_addr pending) w))"

fun leader_handle_operation_result :: "u32 \<Rightarrow> operation \<Rightarrow> operation_result \<Rightarrow> leader_state \<Rightarrow>
    (leader_state, unit) outcome" where
  "leader_handle_operation_result op_id operation result (self, w) =
     (case (if op_id \<noteq> 0 then hm_get (ld_operations self) op_id
            else Some (pending_new operation (ld_address self) 0)) of
        None \<Rightarrow> ((self, w), Panicked)
      | Some pending \<Rightarrow>
          (let self' = (if op_id \<noteq> 0
                        then self\<lparr>ld_operations := hm_remove op_id (ld_operations self)\<rparr> else self)
           in case operation of
                GetDatabase addr \<Rightarrow>
                  (case result of
                     ResDatabaseSnapshot snapshot \<Rightarrow>
                       on_world (self', w)
                         (send_view (ClusterView (ld_cluster self') (ld_address self') snapshot) addr w)
                   | _ \<Rightarrow> ((self', w), Ok ()))
              | ReplaceDatabase d \<Rightarrow> ((self', w), Ok ())
              | op \<Rightarrow> leader_answer op result pending (self', w)))"

definition leader_start_election :: "leader_state \<Rightarrow> (leader_state, role_change) outcome" where
  "leader_start_election x =
     (let (self, w) = x in
      if ld_election_in_progress self then (x, Ok NoRoleChange)
      else
        then_do (on_world x (send_elections (ld_id self) (Election (ld_id self) (ld_address self))
          (ld_cluster self) False w)) (\<lambda>sent_any (self', w').
          if sent_any then
            ((self'\<lparr>ld_election_in_progress := True, ld_election_start := Some (now_of w')\<rparr>, w'),
             Ok NoRoleChange)
          else
            leader_anounce_coordinator
              (self'\<lparr>ld_election_in_progress := False, ld_election_start := None\<rparr>, w')))"

definition leader_handle_election :: "u64 \<Rightarrow> socket_addr \<Rightarrow> leader_state \<Rightarrow>
    (leader_state, role_change) outcome" where
  "leader_handle_election candidate_id candidate_addr x =
     (let (self, w) = x in
      if candidate_id < ld_id self then
        then_do (on_world x (ignore_error (net_send (ElectionOk (ld_id self)) candidate_addr w)))
          (\<lambda>_. leader_start_election)
      else (x, Ok NoRoleChange))"

definition leader_handle_election_ok :: "u64 \<Rightarrow> leader_state \<Rightarrow> leader_state" where
  "leader_handle_election_ok responder_id x =
     (let (self, w) = x in
      (self\<lparr>ld_election_in_progress := False, ld_election_start := None\<rparr>, w))"

definition leader_handle_coordinator :: "u64 \<Rightarrow> socket_addr \<Rightarrow> leader_state \<Rightarrow>
    (leader_state, role_change) outcome" where
  "leader_handle_coordinator leader_id leader_addr x =
     (let (self, w) = x;
          self' = self\<lparr>ld_election_in_progress := False, ld_election_start := None\<rparr>
      in if ld_id self \<le> leader_id then ((self', w), Ok (DemoteToReplica leader_addr))
         else ((self', w), Ok NoRoleChange))"

definition leader_handle_join :: "(socket_addr \<Rightarrow> u64) \<Rightarrow> socket_addr \<Rightarrow> leader_state \<Rightarrow>
    (leader_state, unit) outcome" where
  "leader_handle_join hash addr x =
     (let (self, w) = x; w' = db_send 0 (GetDatabase addr) w;
          node_id = get_id_given_addr hash addr;
          self' = self\<lparr>ld_cluster := hm_insert node_id addr (ld_cluster self)\<rparr>
      in on_world (self', w') (send_cluster_update (ld_address self') addr
           (ClusterUpdate (node_id, addr)) (hm_values (ld_cluster self')) w'))"

definition leader_handle_cluster_update :: "u64 \<times> socket_addr \<Rightarrow> leader_state \<Rightarrow> leader_state" where
  "leader_handle_cluster_update new_member x = x"

text \<open>\<open>cluster.clear()\<close>, then every member is inserted.\<close>

definition cluster_of :: "(u64 \<times> socket_addr) list \<Rightarrow> cluster" where
  "cluster_of members = fold (\<lambda>(i, addr) m. hm_insert i addr m) members []"

definition leader_handle_cluster_view :: "(u64 \<times> socket_addr) list \<Rightarrow> socket_addr \<Rightarrow>
    database_snapshot \<Rightarrow> leader_state \<Rightarrow> (leader_state, unit) outcome" where
  "leader_handle_cluster_view members leader_addr snapshot x =
     (let (self, w) = x; w' = db_send 0 (ReplaceDatabase snapshot) w;
          self' = self\<lparr>ld_cluster := cluster_of members\<rparr>
      in with_result () (leader_start_election (self', w')))"

definition ELECTION_TIMEOUT :: nat where "ELECTION_TIMEOUT = 2000"

definition leader_handle_election_timeout :: "leader_state \<Rightarrow> (leader_state, role_change) outcome"
  where
  "leader_handle_election_timeout x =
     (let (self, w) = x in
      if \<not> ld_election_in_progress self then (x, Ok NoRoleChange)
      else (case ld_election_start self of
              None \<Rightarrow> (x, Ok NoRoleChange)
            | Some start \<Rightarrow>
                if ELECTION_TIMEOUT \<le> now_of w - start then
                  with_result NoRoleChange (leader_anounce_coordinator
                    (self\<lparr>ld_election_in_progress := False, ld_election_start := None\<rparr>, w))
                else (x, Ok NoRoleChange)))"

definition leader_ops :: "(socket_addr \<Rightarrow> u64) \<Rightarrow> leader node_ops" where
  "leader_ops hash =
     \<lparr>op_is_offline = ld_is_offline,
      op_log_offline_operation = (\<lambda>op self. self\<lparr>ld_offline_queue := ld_offline_queue self @ [op]\<rparr>),
      op_get_address = ld_address,
      op_handle_request = leader_handle_request,
      op_handle_response = leader_handle_response,
      op_handle_role_query = leader_handle_role_query hash,
      op_handle_log = leader_handle_log,
      op_handle_ack = leader_handle_ack,
      op_handle_operation_result = leader_handle_operation_result,
      op_handle_connection_lost_with = leader_handle_connection_lost_with hash,
      op_handle_disconnect_node = leader_handle_disconnect_node,
      op_handle_connect_node = leader_handle_connect_node,
      op_handle_election = leader_handle_election,
      op_handle_election_ok = leader_handle_election_ok,
      op_handle_coordinator = leader_handle_coordinator,
      op_handle_join = leader_handle_join hash,
      op_handle_cluster_view = leader_handle_cluster_view,
      op_handle_cluster_update = leader_handle_cluster_update,
      op_handle_election_timeout = leader_handle_election_timeout\<rparr>"

text \<open>The state a leader starts in: alone, its first operation is number 1.\<close>

definition leader_start_state :: "(socket_addr \<Rightarrow> u64) \<Rightarrow> socket_addr \<Rightarrow> u64 \<times> u64 \<Rightarrow> leader" where
  "leader_start_state hash address coords =
     \<lparr>ld_id = get_id_given_addr hash address, ld_current_op_id = 1, ld_coords = coords,
      ld_address = address, ld_cluster = [(get_id_given_addr hash address, address)],
      ld_operations = [], ld_is_offline = False, ld_offline_queue = [],
      ld_election_in_progress = False, ld_election_start = None\<rparr>"

section \<open>The loops over the cluster\<close>

definition peers :: "u64 \<Rightarrow> cluster \<Rightarrow> socket_addr list" where
  "peers self_id c = map snd (filter (\<lambda>m. fst m \<noteq> self_id) c)"

lemma peers_simps [simp]:
  "peers i [] = []"
  "peers i ((j, a) # c) = (if j = i then peers i c else a # peers i c)"
  by (simp_all add: peers_def)

text \<open>A loop with \<open>?\<close> reaches every peer, or a prefix of them and stops at the error.\<close>

lemma send_to_peers_spec:
  assumes "send_to_peers i msg c w = (w', r)"
  shows "\<exists>addrs. only_sent w w' (map (Pair msg) addrs) \<and>
    (if is_ok r then addrs = peers i c else \<exists>a rest. peers i c = addrs @ a # rest)"
  using assms
proof (induction c arbitrary: w)
  case Nil
  then show ?case by (intro exI [of _ "[]"]) auto
next
  case (Cons m c)
  obtain j a where m: "m = (j, a)" by (rule prod.exhaust)
  show ?case
  proof (cases "j = i")
    case True
    with Cons.prems m have "send_to_peers i msg c w = (w', r)" by simp
    moreover have "peers i (m # c) = peers i c" using True m by simp
    ultimately show ?thesis using Cons.IH by (simp only:)
  next
    case False
    obtain w1 r1 where s: "net_send msg a w = (w1, r1)" by (rule prod.exhaust)
    note one = net_send_only [OF s]
    show ?thesis
    proof (cases r1)
      case (Inl f)
      with False m s one Cons.prems show ?thesis by (intro exI [of _ "[]"]) auto
    next
      case (Inr u)
      with False m s Cons.prems have "send_to_peers i msg c w1 = (w', r)" by simp
      from Cons.IH [OF this] obtain addrs where a: "only_sent w1 w' (map (Pair msg) addrs)"
        "if is_ok r then addrs = peers i c else \<exists>a rest. peers i c = addrs @ a # rest" by blast
      from only_sent_trans [OF one a(1)] Inr have "only_sent w w' (map (Pair msg) (a # addrs))" by simp
      with a(2) False m show ?thesis by (intro exI [of _ "a # addrs"]) auto
    qed
  qed
qed

text \<open>A loop that drops the errors reaches the peers whose send was accepted.\<close>

lemma ignore_send_spec:
  assumes "ignore_error (net_send msg a w) = (w', r)"
  shows "only_sent w w' [] \<or> only_sent w w' [(msg, a)]" and "r = Ok () \<or> r = Panicked"
proof -
  obtain w1 r1 where s: "net_send msg a w = (w1, r1)" by (rule prod.exhaust)
  note one = net_send_only [OF s]
  have "(only_sent w w' [] \<or> only_sent w w' [(msg, a)]) \<and> (r = Ok () \<or> r = Panicked)"
  proof (cases r1)
    case (Inl f)
    with s assms one show ?thesis by (cases f) auto
  next
    case (Inr u)
    with s assms one show ?thesis by auto
  qed
  then show "only_sent w w' [] \<or> only_sent w w' [(msg, a)]" and "r = Ok () \<or> r = Panicked" by auto
qed

lemma announce_spec:
  assumes "announce_to_peers i msg c w = (w', r)"
  shows "\<exists>addrs. only_sent w w' (map (Pair msg) addrs) \<and> set addrs \<subseteq> set (peers i c) \<and>
    (r = Ok () \<or> r = Panicked)"
  using assms
proof (induction c arbitrary: w)
  case Nil
  then show ?case by (intro exI [of _ "[]"]) auto
next
  case (Cons m c)
  obtain j a where m: "m = (j, a)" by (rule prod.exhaust)
  show ?case
  proof (cases "j = i")
    case True
    with Cons m show ?thesis by simp
  next
    case False
    obtain w1 r1 where s: "ignore_error (net_send msg a w) = (w1, r1)" by (rule prod.exhaust)
    note one = ignore_send_spec [OF s]
    show ?thesis
    proof (cases r1)
      case (Inl f)
      with False m s one Cons.prems show ?thesis
        by (auto intro: exI [of _ "[]"] exI [of _ "[a]"])
    next
      case (Inr u)
      with False m s Cons.prems have "announce_to_peers i msg c w1 = (w', r)" by simp
      from Cons.IH [OF this] obtain addrs where a: "only_sent w1 w' (map (Pair msg) addrs)"
        "set addrs \<subseteq> set (peers i c)" "r = Ok () \<or> r = Panicked" by blast
      from one(1) show ?thesis
      proof
        assume "only_sent w w1 []"
        from only_sent_trans [OF this a(1)] a(2,3) False m show ?thesis
          by (intro exI [of _ addrs]) auto
      next
        assume "only_sent w w1 [(msg, a)]"
        from only_sent_trans [OF this a(1)] a(2,3) False m show ?thesis
          by (intro exI [of _ "a # addrs"]) auto
      qed
    qed
  qed
qed

section \<open>Replicating a request\<close>

text \<open>A request to a leader with peers is replicated before it is executed: if the handler
  succeeds, the log entry with the current number went to every other member, in order, the
  request is pending under that number with no acknowledgement, the counter has advanced by
  one, and the database has been told nothing.\<close>

theorem request_replicated_to_all_peers:
  assumes "hm_len (ld_cluster self) \<noteq> 1"
    and "leader_handle_request req_id op client_addr (self, w) = ((self', w'), Ok ())"
  shows "sent w' = sent w @ map (Pair (Log (ld_current_op_id self) op))
      (peers (ld_id self) (ld_cluster self)) \<and>
    hm_get (ld_operations self') (ld_current_op_id self) = Some (pending_new op client_addr req_id) \<and>
    ld_current_op_id self' = ld_current_op_id self + 1 \<and> nw_db w' = nw_db w"
proof -
  let ?n = "ld_current_op_id self"
  let ?self = "self\<lparr>ld_operations := hm_insert ?n (pending_new op client_addr req_id) (ld_operations self)\<rparr>"
  obtain w1 r where s: "send_to_peers (ld_id self) (Log ?n op) (ld_cluster self) w = (w1, r)"
    by (rule prod.exhaust)
  with assms have r: "r = Ok ()" and w: "w' = w1" "self' = ?self\<lparr>ld_current_op_id := ?n + 1\<rparr>"
    by (cases r; auto simp: leader_handle_request_def Let_def on_world_def split: if_splits)+
  from send_to_peers_spec [OF s] r have
    "only_sent w w1 (map (Pair (Log ?n op)) (peers (ld_id self) (ld_cluster self)))" by auto
  from only_sent_fields [OF this] w show ?thesis by simp
qed

definition pair_cluster :: "leader \<times> node_world" where
  "pair_cluster = (leader_start_state (\<lambda>a. ucast (sa_port a)) (SocketAddr (V4 127 0 0 1) 5000) (0, 0)
     \<lparr>ld_cluster := [(5001, SocketAddr (V4 127 0 0 1) 5000), (5002, SocketAddr (V4 127 0 0 1) 5001)]\<rparr>,
     \<lparr>nw_conn = sample_connection, nw_db = system_new, nw_to_station = [],
      nw_to_station_open = True, nw_from_station = [], nw_from_station_open = True\<rparr>)"

lemma pair_cluster_send:
  "snd (leader_handle_request 9 (AccountQuery 3) (SocketAddr (V4 127 0 0 1) 7000) pair_cluster) = Ok ()"
proof -
  let ?a = "SocketAddr (V4 127 0 0 1) 5001"
  have "connection_ok sample_connection"
    by (simp add: sample_connection_def connection_ok_def active_ok_def hm_len_def)
  then have "snd (connection_send (Log 1 (AccountQuery 3)) ?a sample_connection) = Ok ()"
    by (rule send_to_new) (simp_all add: sample_connection_def)
  then obtain c where "connection_send (Log 1 (AccountQuery 3)) ?a sample_connection = (c, Ok ())"
    by (cases "connection_send (Log 1 (AccountQuery 3)) ?a sample_connection") auto
  then show ?thesis
    by (simp add: leader_handle_request_def pair_cluster_def leader_start_state_def hm_len_def
        get_id_given_addr_def on_world_def net_send_def)
qed

theorem request_replicated_to_all_peers_witness:
  "sent (snd (fst (leader_handle_request 9 (AccountQuery 3) (SocketAddr (V4 127 0 0 1) 7000)
     pair_cluster))) = [(Log 1 (AccountQuery 3), SocketAddr (V4 127 0 0 1) 5001)]"
proof -
  obtain self w where x: "pair_cluster = (self, w)" by (rule prod.exhaust)
  then have f: "hm_len (ld_cluster self) \<noteq> 1" "sent w = []" "ld_current_op_id self = 1"
    "peers (ld_id self) (ld_cluster self) = [SocketAddr (V4 127 0 0 1) 5001]"
    by (auto simp: pair_cluster_def leader_start_state_def hm_len_def sample_connection_def
        get_id_given_addr_def)
  let ?r = "leader_handle_request 9 (AccountQuery 3) (SocketAddr (V4 127 0 0 1) 7000) (self, w)"
  have "?r = ((fst (fst ?r), snd (fst ?r)), Ok ())"
    using pair_cluster_send unfolding x by (simp add: prod_eq_iff)
  from request_replicated_to_all_peers [OF f(1) this] f x show ?thesis by simp
qed

section \<open>Executing on a quorum\<close>

text \<open>The commands the node has given the database and the router has not read.\<close>

abbreviation db_mail :: "node_world \<Rightarrow> router_input list" where
  "db_mail w \<equiv> sy_router_mail (nw_db w)"

lemma db_send_mail [simp]:
  "db_mail (db_send op_id op w) = db_mail w @ [RouterCommand (Execute op_id op)]"
  "nw_conn (db_send op_id op w) = nw_conn w"
  "nw_to_station (db_send op_id op w) = nw_to_station w"
  by (simp_all add: db_send_def database_send_def post_router_def)

lemma ack_quorum_half: "0 < n \<Longrightarrow> n < 2 ^ 24 \<Longrightarrow> ack_quorum n = n div 2"
  by (simp add: ack_quorum_def f32_half_round)

fun handle_acks :: "nat \<Rightarrow> u32 \<Rightarrow> leader_state \<Rightarrow> (leader_state, unit) outcome" where
  "handle_acks 0 op_id x = (x, Ok ())"
| "handle_acks (Suc m) op_id x = then_do (leader_handle_ack op_id x) (\<lambda>_. handle_acks m op_id)"

lemma handle_acks_run:
  assumes "3 \<le> hm_len (ld_cluster self)" "hm_len (ld_cluster self) < 2 ^ 24"
    and "hm_get (ld_operations self) op_id = Some p"
  shows "\<exists>self' w'. handle_acks m op_id (self, w) = ((self', w'), Ok ()) \<and>
    ld_cluster self' = ld_cluster self \<and>
    hm_get (ld_operations self') op_id = Some (p\<lparr>po_ack_count := po_ack_count p + m\<rparr>) \<and>
    db_mail w' = db_mail w @
      (if po_ack_count p < hm_len (ld_cluster self) div 2 \<and>
          hm_len (ld_cluster self) div 2 \<le> po_ack_count p + m
       then [RouterCommand (Execute op_id (po_op p))] else [])"
  using assms
proof (induction m arbitrary: self w p)
  case 0
  then show ?case by (intro exI [of _ self] exI [of _ w]) simp
next
  case (Suc m)
  let ?n = "hm_len (ld_cluster self)"
  let ?p = "p\<lparr>po_ack_count := po_ack_count p + 1\<rparr>"
  let ?self = "self\<lparr>ld_operations := hm_insert op_id ?p (ld_operations self)\<rparr>"
  let ?w = "if po_ack_count p + 1 = ?n div 2 then db_send op_id (po_op p) w else w"
  have q: "ack_quorum ?n = ?n div 2" using Suc.prems by (intro ack_quorum_half) auto
  have "0 < ?n" "?n - 1 \<noteq> 1" using Suc.prems(1) by auto
  then have step: "leader_handle_ack op_id (self, w) = ((?self, ?w), Ok ())"
    using Suc.prems(3) by (simp add: leader_handle_ack_def q Let_def)
  have prems: "3 \<le> hm_len (ld_cluster ?self)" "hm_len (ld_cluster ?self) < 2 ^ 24"
    "hm_get (ld_operations ?self) op_id = Some ?p" using Suc.prems by simp_all
  obtain self' w' where IH: "handle_acks m op_id (?self, ?w) = ((self', w'), Ok ())"
    "ld_cluster self' = ld_cluster ?self"
    "hm_get (ld_operations self') op_id = Some (?p\<lparr>po_ack_count := po_ack_count ?p + m\<rparr>)"
    "db_mail w' = db_mail ?w @
      (if po_ack_count ?p < ?n div 2 \<and> ?n div 2 \<le> po_ack_count ?p + m
       then [RouterCommand (Execute op_id (po_op ?p))] else [])"
    using Suc.IH [OF prems, of ?w] by auto
  have "db_mail w' = db_mail w @ (if po_ack_count p < ?n div 2 \<and> ?n div 2 \<le> po_ack_count p + Suc m
       then [RouterCommand (Execute op_id (po_op p))] else [])"
    using IH(4) by auto
  with IH(1-3) step show ?case by auto
qed

text \<open>C5: With three members or more the leader executes a pending operation exactly once, on the
  acknowledgement number \<open>n div 2\<close>: after \<open>m\<close> acknowledgements the database has been told to
  execute it if and only if \<open>m\<close> reached that number, and the leader together with that many
  replicas is more than half of the cluster.\<close>

theorem leader_executes_once_on_quorum:
  assumes "3 \<le> n" "n < 2 ^ 24" "hm_len (ld_cluster self) = n"
    and "hm_get (ld_operations self) op_id = Some (pending_new op client req_id)"
  shows "\<exists>self' w'. handle_acks m op_id (self, w) = ((self', w'), Ok ()) \<and>
    db_mail w' = db_mail w @ (if n div 2 \<le> m then [RouterCommand (Execute op_id op)] else []) \<and>
    n < 2 * (1 + n div 2)"
proof -
  have "0 < n div 2" using assms(1) by simp
  with handle_acks_run [of self op_id "pending_new op client req_id" m w] assms
  show ?thesis by (auto simp: pending_new_def)
qed

definition trio :: leader where
  "trio = leader_start_state (\<lambda>a. ucast (sa_port a)) (SocketAddr (V4 127 0 0 1) 5000) (0, 0)
     \<lparr>ld_cluster := [(5001, SocketAddr (V4 127 0 0 1) 5000), (5002, SocketAddr (V4 127 0 0 1) 5001),
                     (5003, SocketAddr (V4 127 0 0 1) 5002)],
      ld_operations := [(1, pending_new (AccountQuery 3) (SocketAddr (V4 127 0 0 1) 7000) 9)]\<rparr>"

theorem leader_executes_once_on_quorum_witness:
  "\<exists>self' w'. handle_acks 2 1 (trio, snd pair_cluster) = ((self', w'), Ok ()) \<and>
    db_mail w' = [RouterCommand (Execute 1 (AccountQuery 3))]"
proof -
  have "hm_len (ld_cluster trio) = 3"
    "hm_get (ld_operations trio) 1 =
       Some (pending_new (AccountQuery 3) (SocketAddr (V4 127 0 0 1) 7000) 9)"
    "db_mail (snd pair_cluster) = []"
    by (simp_all add: trio_def hm_len_def hm_get_def pair_cluster_def system_new_def)
  with leader_executes_once_on_quorum [of 3 trio 1 "AccountQuery 3" _ 9 2 "snd pair_cluster"]
  show ?thesis by auto
qed

text \<open>C34: A leader alone in its cluster does not advance its counter: a second request that
  arrives before the first one's result takes the same number and replaces the first in the
  table, both are executed, the first result is reported to the second client and the second
  result stops the node in a panic.\<close>

theorem single_node_reuses_operation_number:
  assumes "hm_len (ld_cluster self) = 1" "ld_current_op_id self \<noteq> 0"
    and "leader_handle_request r1 op1 c1 (self, w) = ((self1, w1), o1)"
    and "leader_handle_request r2 op2 c2 (self1, w1) = ((self2, w2), o2)"
    and "leader_handle_operation_result (ld_current_op_id self) op1 res1 (self2, w2) = ((self3, w3), o3)"
  shows "db_mail w2 = db_mail w @ [RouterCommand (Execute (ld_current_op_id self) op1),
        RouterCommand (Execute (ld_current_op_id self) op2)] \<and>
    hm_get (ld_operations self2) (ld_current_op_id self) = Some (pending_new op2 c2 r2) \<and>
    snd (leader_handle_operation_result (ld_current_op_id self) op2 res2 (self3, w3)) = Panicked"
proof -
  let ?n = "ld_current_op_id self"
  have 1: "self1 = self\<lparr>ld_operations := hm_insert ?n (pending_new op1 c1 r1) (ld_operations self)\<rparr>"
    "w1 = db_send ?n op1 w"
    using assms(1,3) by (simp_all add: leader_handle_request_def Let_def)
  then have 2: "self2 = self1\<lparr>ld_operations := hm_insert ?n (pending_new op2 c2 r2) (ld_operations self1)\<rparr>"
    "w2 = db_send ?n op2 w1"
    using assms(1,4) by (simp_all add: leader_handle_request_def Let_def)
  then have get: "hm_get (ld_operations self2) ?n = Some (pending_new op2 c2 r2)" by simp
  have "fst (fst (leader_handle_operation_result ?n op1 res1 (self2, w2))) =
      self2\<lparr>ld_operations := hm_remove ?n (ld_operations self2)\<rparr>"
    using assms(2) get
    by (simp add: on_world_def leader_answer_def Let_def split: operation.split operation_result.split prod.split)
  then have "hm_get (ld_operations self3) ?n = None" using assms(5) by simp
  then show ?thesis using 1 2 get assms(2) by simp
qed

definition alone :: leader_state where
  "alone = (leader_start_state (\<lambda>a. ucast (sa_port a)) (SocketAddr (V4 127 0 0 1) 5000) (0, 0),
     snd pair_cluster)"

theorem single_node_reuses_operation_number_witness:
  "\<exists>x2 x3. x2 = fst (leader_handle_request 2 (AccountQuery 4) (SocketAddr (V4 127 0 0 1) 5000)
       (fst (leader_handle_request 1 (AccountQuery 3) (SocketAddr (V4 127 0 0 1) 5000) alone))) \<and>
    x3 = fst (leader_handle_operation_result 1 (AccountQuery 3) ResReplaceDatabase x2) \<and>
    snd (leader_handle_operation_result 1 (AccountQuery 4) ResReplaceDatabase x3) = Panicked"
proof -
  let ?a = "SocketAddr (V4 127 0 0 1) 5000"
  obtain self w where x: "alone = (self, w)" by (rule prod.exhaust)
  then have s: "hm_len (ld_cluster self) = 1" "ld_current_op_id self = 1"
    by (auto simp: alone_def leader_start_state_def hm_len_def)
  obtain self1 w1 o1 where 1: "leader_handle_request 1 (AccountQuery 3) ?a (self, w) = ((self1, w1), o1)"
    by (metis surj_pair)
  obtain self2 w2 o2 where 2: "leader_handle_request 2 (AccountQuery 4) ?a (self1, w1) = ((self2, w2), o2)"
    by (metis surj_pair)
  obtain self3 w3 o3 where
    3: "leader_handle_operation_result 1 (AccountQuery 3) ResReplaceDatabase (self2, w2) = ((self3, w3), o3)"
    by (metis surj_pair)
  have "snd (leader_handle_operation_result 1 (AccountQuery 4) ResReplaceDatabase (self3, w3)) = Panicked"
    using single_node_reuses_operation_number [OF s(1) _ 1 2, of "ResReplaceDatabase" self3 w3 o3
        ResReplaceDatabase] s 3 by simp
  with x 1 2 3 show ?thesis by simp
qed

section \<open>The floating-point quorum against the majority rule\<close>

text \<open>
  The acknowledgement rule without floats: the operation is executed when the members that hold it,
  the leader included, become a strict majority of the cluster, and at every acknowledgement in a
  cluster of two.
\<close>

definition first_majority :: "nat \<Rightarrow> nat \<Rightarrow> bool" where
  "first_majority n acks \<longleftrightarrow> n < 2 * (acks + 1) \<and> \<not> n < 2 * acks"

definition ack_by_majority :: "u32 \<Rightarrow> leader_state \<Rightarrow> (leader_state, unit) outcome" where
  "ack_by_majority op_id x =
     (let (self, w) = x in
      case hm_get (ld_operations self) op_id of
        None \<Rightarrow> (x, Ok ())
      | Some p \<Rightarrow>
          (let n = hm_len (ld_cluster self);
               self' = self\<lparr>ld_operations :=
                 hm_insert op_id (p\<lparr>po_ack_count := po_ack_count p + 1\<rparr>) (ld_operations self)\<rparr>
           in ((self', if first_majority n (po_ack_count p + 1) \<or> n = 2
                       then db_send op_id (po_op p) w else w), Ok ())))"

text \<open>C20: In a cluster of at least one and fewer than \<open>2 ^ 24\<close> members, where every size is an
  exact \<open>f32\<close>, the leader's handler of an acknowledgement, with its single-precision quorum
  and its two tests, is the majority rule: it returns the same state, tells the database the same
  and never panics.\<close>

theorem leader_ack_is_majority_rule:
  assumes "0 < hm_len (ld_cluster self)" and "hm_len (ld_cluster self) < 2 ^ 24"
  shows "leader_handle_ack op_id (self, w) = ack_by_majority op_id (self, w)"
proof -
  let ?n = "hm_len (ld_cluster self)"
  have q: "first_majority ?n a \<longleftrightarrow> a = ?n div 2" for a
    by (auto simp: first_majority_def)
  have two: "?n - Suc 0 = Suc 0 \<longleftrightarrow> ?n = 2" by auto
  from assms show ?thesis
    by (simp add: leader_handle_ack_def ack_by_majority_def q two ack_quorum_half Let_def
        split: option.split)
qed

theorem leader_ack_is_majority_rule_witness:
  "hm_len (ld_cluster trio) = 3 \<and>
   leader_handle_ack 1 (trio, snd pair_cluster) = ack_by_majority 1 (trio, snd pair_cluster) \<and>
   db_mail (snd (fst (leader_handle_ack 1 (trio, snd pair_cluster)))) =
     [RouterCommand (Execute 1 (AccountQuery 3))]"
proof -
  have n: "hm_len (ld_cluster trio) = 3" by (simp add: trio_def hm_len_def)
  then have "leader_handle_ack 1 (trio, snd pair_cluster) = ack_by_majority 1 (trio, snd pair_cluster)"
    by (intro leader_ack_is_majority_rule) simp_all
  with n show ?thesis
    by (simp add: ack_by_majority_def first_majority_def trio_def pending_new_def hm_get_def
        hm_len_def pair_cluster_def system_new_def)
qed

section \<open>Answering\<close>

text \<open>The result of a charge the leader's own station asked for is reported to that station
  once, with the request's number and the outcome; nothing is sent over the network and the
  operation is no longer pending.\<close>

theorem station_charge_answered:
  assumes "op_id \<noteq> 0" "hm_get (ld_operations self) op_id = Some p"
    and "po_client_addr p = ld_address self" "nw_to_station_open w"
    and "charge_outcome cr = (allowed, error)"
  shows "\<exists>self' w'. leader_handle_operation_result op_id (Charge a c amount off) (ResCharge cr) (self, w) =
      ((self', w'), Ok ()) \<and>
    nw_to_station w' = nw_to_station w @ [StationChargeResult (po_request_id p) allowed error] \<and>
    sent w' = sent w \<and> hm_get (ld_operations self') op_id = None"
  using assms by (simp add: leader_answer_def on_world_def station_send_def)

theorem station_charge_answered_witness:
  "\<exists>self' w'. leader_handle_operation_result 1 (Charge 3 5 0 False) (ResCharge ChargeOk)
      (trio\<lparr>ld_operations := [(1, pending_new (Charge 3 5 0 False) (ld_address trio) 44)]\<rparr>,
       snd pair_cluster) = ((self', w'), Ok ()) \<and>
    nw_to_station w' = [StationChargeResult 44 True None]"
proof -
  have "nw_to_station_open (snd pair_cluster)" "nw_to_station (snd pair_cluster) = []"
    by (simp_all add: pair_cluster_def)
  then show ?thesis
    using station_charge_answered [of 1
      "trio\<lparr>ld_operations := [(1, pending_new (Charge 3 5 0 False) (ld_address trio) 44)]\<rparr>"
      "pending_new (Charge 3 5 0 False) (ld_address trio) 44" "snd pair_cluster" ChargeOk True None 3 5 0 False]
    by (auto simp: hm_get_def pending_new_def)
qed

text \<open>The result of a request of another process goes back to its address, with its request
  number; only that message is sent.\<close>

theorem client_request_answered:
  assumes "op_id \<noteq> 0" "hm_get (ld_operations self) op_id = Some p"
    and "po_client_addr p \<noteq> ld_address self"
    and "\<forall>addr. op \<noteq> GetDatabase addr" "\<forall>d. op \<noteq> ReplaceDatabase d"
    and "leader_handle_operation_result op_id op result (self, w) = ((self', w'), r)"
  shows "(r = Ok () \<longrightarrow> sent w' = sent w @ [(Response (po_request_id p) result, po_client_addr p)]) \<and>
    hm_get (ld_operations self') op_id = None \<and> nw_to_station w' = nw_to_station w"
proof -
  obtain w1 r1 where s: "net_send (Response (po_request_id p) result) (po_client_addr p) w = (w1, r1)"
    by (rule prod.exhaust)
  have eq: "w' = w1" "r = r1" "self' = self\<lparr>ld_operations := hm_remove op_id (ld_operations self)\<rparr>"
    using assms s by (cases op; simp add: leader_answer_def on_world_def)+
  from only_sent_fields [OF net_send_only [OF s]] eq show ?thesis by auto
qed

theorem client_request_answered_witness:
  "hm_get (ld_operations (fst (fst (leader_handle_operation_result 1 (AccountQuery 3) ResReplaceDatabase
     (trio, snd pair_cluster))))) 1 = None"
proof -
  obtain self' w' r where h: "leader_handle_operation_result 1 (AccountQuery 3) ResReplaceDatabase
      (trio, snd pair_cluster) = ((self', w'), r)"
    by (metis surj_pair)
  have "hm_get (ld_operations self') 1 = None"
    using client_request_answered [OF _ _ _ _ _ h, of
        "pending_new (AccountQuery 3) (SocketAddr (V4 127 0 0 1) 7000) 9"]
    by (simp add: trio_def hm_get_def pending_new_def leader_start_state_def)
  with h show ?thesis by simp
qed

section \<open>The leader keeps the contract of a node role\<close>

lemma send_to_peers_world_ok: "world_ok w \<Longrightarrow> world_ok (fst (send_to_peers i msg c w))"
  by (induction i msg c w rule: send_to_peers.induct)
    (auto intro!: fst_then_do [where P = world_ok] simp: net_send_world_ok)

lemma announce_world_ok: "world_ok w \<Longrightarrow> world_ok (fst (announce_to_peers i msg c w))"
  by (induction i msg c w rule: announce_to_peers.induct)
    (auto intro!: fst_then_do [where P = world_ok] simp: net_send_world_ok)

lemma send_elections_world_ok: "world_ok w \<Longrightarrow> world_ok (fst (send_elections i msg c b w))"
  by (induction i msg c b w rule: send_elections.induct)
    (auto intro!: fst_then_do [where P = world_ok] simp: net_send_world_ok)

lemma send_cluster_update_world_ok:
  "world_ok w \<Longrightarrow> world_ok (fst (send_cluster_update a b msg c w))"
  by (induction a b msg c w rule: send_cluster_update.induct)
    (auto intro!: fst_then_do [where P = world_ok] simp: net_send_world_ok)

lemma leader_rejoin_world_ok: "world_ok w \<Longrightarrow> world_ok (fst (leader_rejoin a c w))"
proof (induction c arbitrary: w)
  case (Cons b c)
  obtain w1 r1 where s: "net_send (Join a) b w = (w1, r1)" by (rule prod.exhaust)
  have w1: "world_ok w1" using net_send_world_ok [OF Cons.prems, of "Join a" b] s by simp
  have "world_ok (fst (then_do (ignore_error (net_send (Join a) b w1)) (\<lambda>_. leader_rejoin a c)))"
    by (rule fst_then_do [where P = world_ok]) (use Cons.IH net_send_world_ok [OF w1] in auto)
  with s w1 Cons show ?case by (auto split: sum.split failure.split)
qed simp

lemmas world_ok_intros = send_to_peers_world_ok announce_world_ok send_elections_world_ok
  send_cluster_update_world_ok leader_rejoin_world_ok net_send_world_ok db_send_world_ok
  station_send_world_ok disconnect_world_ok reconnect_world_ok

definition leader_ok :: "leader \<Rightarrow> bool" where
  "leader_ok self \<longleftrightarrow> hm_wf (ld_cluster self) \<and> hm_wf (ld_operations self)"

definition leader_state_ok :: "leader_state \<Rightarrow> bool" where
  "leader_state_ok x \<longleftrightarrow> leader_ok (fst x) \<and> world_ok (snd x)"

lemma cluster_of_wf: "hm_wf (cluster_of members)"
proof -
  have "hm_wf m \<Longrightarrow> hm_wf (fold (\<lambda>(i, addr) m. hm_insert i addr m) members m)" for m
    by (induction members arbitrary: m) (auto simp: hm.wf_insert)
  then show ?thesis by (simp add: cluster_of_def)
qed

lemma leader_announce_ok: "leader_state_ok x \<Longrightarrow> leader_state_ok (fst (leader_anounce_coordinator x))"
  by (cases x) (simp add: leader_anounce_coordinator_def leader_state_ok_def announce_world_ok)

lemma leader_state_ok_on_world:
  "leader_state_ok (self, w) \<Longrightarrow> world_ok (fst r) \<Longrightarrow> leader_state_ok (fst (on_world (self, w) r))"
  by (simp add: leader_state_ok_def)

lemma leader_election_fields [simp]:
  "leader_state_ok (self\<lparr>ld_election_in_progress := b, ld_election_start := t\<rparr>, w) =
     leader_state_ok (self, w)"
  by (simp add: leader_state_ok_def leader_ok_def)

lemma leader_state_okD: "leader_state_ok (self, w) \<Longrightarrow> world_ok w"
  by (simp add: leader_state_ok_def)

lemma leader_start_election_ok:
  assumes "leader_state_ok x"
  shows "leader_state_ok (fst (leader_start_election x))"
proof -
  obtain self w where x: "x = (self, w)" by (rule prod.exhaust)
  have w: "world_ok w" using assms x by (simp add: leader_state_okD)
  have "leader_state_ok (fst (then_do (on_world x (send_elections (ld_id self)
      (Election (ld_id self) (ld_address self)) (ld_cluster self) False w)) (\<lambda>sent_any (self', w').
      if sent_any then
        ((self'\<lparr>ld_election_in_progress := True, ld_election_start := Some (now_of w')\<rparr>, w'),
         Ok NoRoleChange)
      else leader_anounce_coordinator
        (self'\<lparr>ld_election_in_progress := False, ld_election_start := None\<rparr>, w'))))"
  proof (rule fst_then_do [where P = leader_state_ok])
    show "leader_state_ok (fst (on_world x (send_elections (ld_id self)
        (Election (ld_id self) (ld_address self)) (ld_cluster self) False w)))"
      using assms x leader_state_ok_on_world [OF _ send_elections_world_ok [OF w]] by simp
  qed (auto intro!: leader_announce_ok split: prod.split)
  with assms x show ?thesis by (simp add: leader_start_election_def)
qed

lemma leader_role_contract:
  assumes "leader_state_ok x"
  shows "leader_state_ok (fst (leader_handle_request i op a x))"
    and "leader_state_ok (fst (leader_handle_role_query h a x))"
    and "leader_state_ok (fst (leader_handle_ack i x))"
    and "leader_state_ok (fst (leader_handle_operation_result i op res x))"
    and "leader_state_ok (fst (leader_handle_connection_lost_with h a x))"
    and "leader_state_ok (leader_handle_disconnect_node x)"
    and "leader_state_ok (fst (leader_handle_connect_node x))"
    and "leader_state_ok (fst (leader_handle_election c a x))"
    and "leader_state_ok (leader_handle_election_ok c x)"
    and "leader_state_ok (fst (leader_handle_coordinator c a x))"
    and "leader_state_ok (fst (leader_handle_join h a x))"
    and "leader_state_ok (fst (leader_handle_cluster_view ms a d x))"
    and "leader_state_ok (fst (leader_handle_election_timeout x))"
proof -
  obtain self w where x: "x = (self, w)" by (rule prod.exhaust)
  have w: "world_ok w" and c: "hm_wf (ld_cluster self)" and o': "hm_wf (ld_operations self)"
    using assms x by (simp_all add: leader_state_ok_def leader_ok_def)
  note defs = leader_state_ok_def leader_ok_def hm.wf_insert hm.wf_remove
  show "leader_state_ok (fst (leader_handle_request i op a x))"
  proof (cases "hm_len (ld_cluster self) = 1")
    case True
    with x w c o' show ?thesis
      by (simp add: leader_handle_request_def Let_def defs db_send_world_ok)
  next
    case False
    let ?self = "self\<lparr>ld_operations := hm_insert (ld_current_op_id self) (pending_new op a i)
        (ld_operations self)\<rparr>"
    have "leader_state_ok (fst (then_do (on_world (?self, w)
        (send_to_peers (ld_id self) (Log (ld_current_op_id self) op) (ld_cluster self) w))
        (\<lambda>_ (self'', w').
          if unat (ld_current_op_id self) = 2 ^ 32 - 1 then ((self'', w'), Panicked)
          else ((self''\<lparr>ld_current_op_id := ld_current_op_id self + 1\<rparr>, w'), Ok ()))))"
      by (rule fst_then_do [where P = leader_state_ok])
        (use w c o' send_to_peers_world_ok [OF w] in \<open>auto simp: defs split: prod.split\<close>)
    with False x show ?thesis by (simp add: leader_handle_request_def Let_def)
  qed
  show "leader_state_ok (fst (leader_handle_role_query h a x))"
    using x w c o' by (simp add: leader_handle_role_query_def defs net_send_world_ok)
  show "leader_state_ok (fst (leader_handle_ack i x))"
    using x w c o' by (auto simp: leader_handle_ack_def Let_def defs db_send_world_ok split: option.split)
  show "leader_state_ok (fst (leader_handle_operation_result i op res x))"
  proof -
    have send: "world_ok (fst (send_view m b w))" for m b
    proof -
      obtain w1 r where s: "net_send m b w = (w1, r)" by (rule prod.exhaust)
      have "world_ok w1" using net_send_world_ok [OF w, of m b] s by simp
      with s show ?thesis
        by (auto simp: send_view_def net_send_world_ok split: sum.split failure.split)
    qed
    have answer: "leader_state_ok (fst (leader_answer op res p (s, w)))"
      if "leader_state_ok (s, w)" for p s
      using that net_send_world_ok [OF w] station_send_world_ok [OF w]
      by (auto simp: leader_answer_def leader_state_ok_def
          split: operation.split operation_result.split prod.split)
    have s: "leader_state_ok (self, w)" "leader_state_ok (self\<lparr>ld_operations := hm_remove i (ld_operations self)\<rparr>, w)"
      using w c o' by (simp_all add: defs)
    show ?thesis
      using x s send answer
      by (cases op) (auto simp: Let_def leader_state_ok_def split: option.split operation_result.split)
  qed
  show "leader_state_ok (fst (leader_handle_connection_lost_with h a x))"
    using x w c o' by (simp add: leader_handle_connection_lost_with_def defs)
  show "leader_state_ok (leader_handle_disconnect_node x)"
    using x w c o' by (simp add: leader_handle_disconnect_node_def defs disconnect_world_ok)
  show "leader_state_ok (fst (leader_handle_connect_node x))"
  proof -
    obtain conn r where r: "connection_reconnect (nw_conn w) = (conn, r)" by (rule prod.exhaust)
    have w': "world_ok (w\<lparr>nw_conn := conn\<rparr>)" by (rule reconnect_world_ok [OF w r])
    show ?thesis
      using x c o' r w' leader_rejoin_world_ok [OF w']
      by (cases r) (auto simp: leader_handle_connect_node_def Let_def defs)
  qed
  show "leader_state_ok (fst (leader_handle_election c a x))" for c
  proof (cases "c < ld_id self")
    case True
    have sent: "leader_state_ok (self, fst (net_send (ElectionOk (ld_id self)) a w))"
      using w c o' by (simp add: defs net_send_world_ok)
    have "leader_state_ok (fst (then_do (on_world x (ignore_error
        (net_send (ElectionOk (ld_id self)) a w))) (\<lambda>_. leader_start_election)))"
      by (rule fst_then_do [where P = leader_state_ok])
        (use x sent leader_start_election_ok in auto)
    with True x show ?thesis by (simp add: leader_handle_election_def)
  qed (use assms x in \<open>simp add: leader_handle_election_def\<close>)
  show "leader_state_ok (leader_handle_election_ok c x)" for c
    using x assms by (simp add: leader_handle_election_ok_def)
  show "leader_state_ok (fst (leader_handle_coordinator c a x))" for c
    using x assms by (simp add: leader_handle_coordinator_def Let_def)
  show "leader_state_ok (fst (leader_handle_join h a x))"
    using x c o' send_cluster_update_world_ok [OF db_send_world_ok [OF w]]
    by (simp add: leader_handle_join_def Let_def defs)
  show "leader_state_ok (fst (leader_handle_cluster_view ms a d x))"
    using x w o' leader_start_election_ok
    by (simp add: leader_handle_cluster_view_def Let_def defs db_send_world_ok cluster_of_wf)
  show "leader_state_ok (fst (leader_handle_election_timeout x))"
    using x assms leader_announce_ok
    by (auto simp: leader_handle_election_timeout_def split: option.split)
qed

interpretation leader_contract: node_role_contract "leader_ops hash" leader_ok leader_state_ok
  for hash
proof unfold_locales
  show "leader_state_ok x \<longleftrightarrow> leader_ok (fst x) \<and> world_ok (snd x)" for x
    by (simp add: leader_state_ok_def)
  show "leader_ok s \<Longrightarrow> leader_ok (op_log_offline_operation (leader_ops hash) op s)" for s op
    by (simp add: leader_ops_def leader_ok_def)
qed (simp_all add: leader_ops_def leader_role_contract leader_handle_response_def
      leader_handle_log_def leader_handle_cluster_update_def del: leader_handle_operation_result.simps)

end
