(* ===== verification/Replica.thy ===== *)
theory Replica
  imports Leader
begin

text \<open>
  The replica (\<open>server/src/node/replica.rs\<close>): it proxies the requests of its station to the
  leader, keeps the log entries it receives and executes entry \<open>n\<close> when entry \<open>n + 1\<close>
  arrives, acknowledges, and takes part in the Bully election.
\<close>

record replica =
  rp_id :: u64
  rp_coords :: "u64 \<times> u64"
  rp_address :: socket_addr
  rp_leader_addr :: socket_addr
  rp_cluster :: cluster
  rp_operations :: "(u32, operation) hash_map"
  rp_is_offline :: bool
  rp_offline_queue :: "operation list"
  rp_start_time :: nat
  rp_election_in_progress :: bool
  rp_election_start :: "nat option"

type_synonym replica_state = "replica \<times> node_world"

section \<open>Elections\<close>

text \<open>An announcement from below panics.\<close>

definition replica_handle_coordinator :: "u64 \<Rightarrow> socket_addr \<Rightarrow> replica_state \<Rightarrow>
    (replica_state, role_change) outcome" where
  "replica_handle_coordinator leader_id leader_addr x =
     (let (self, w) = x;
          self' = self\<lparr>rp_election_in_progress := False, rp_election_start := None\<rparr>
      in if leader_id = rp_id self then ((self', w), Ok PromoteToLeader)
         else if leader_id < rp_id self then ((self', w), Panicked)
         else ((self'\<lparr>rp_leader_addr := leader_addr\<rparr>, w), Ok NoRoleChange))"

definition replica_anounce_coordinator :: "replica_state \<Rightarrow> (replica_state, role_change) outcome" where
  "replica_anounce_coordinator x =
     (let (self, w) = x in
      then_do (on_world x (announce_to_peers (rp_id self) (Coordinator (rp_id self) (rp_address self))
        (rp_cluster self) w)) (\<lambda>_. replica_handle_coordinator (rp_id self) (rp_address self)))"

definition replica_start_election :: "replica_state \<Rightarrow> (replica_state, role_change) outcome" where
  "replica_start_election x =
     (let (self, w) = x in
      if rp_election_in_progress self then (x, Ok NoRoleChange)
      else
        then_do (on_world x (send_elections (rp_id self) (Election (rp_id self) (rp_address self))
          (rp_cluster self) False w)) (\<lambda>sent_any (self', w').
          if sent_any then
            ((self'\<lparr>rp_election_in_progress := True, rp_election_start := Some (now_of w')\<rparr>, w'),
             Ok NoRoleChange)
          else
            replica_anounce_coordinator
              (self'\<lparr>rp_election_in_progress := False, rp_election_start := None\<rparr>, w')))"

definition replica_handle_election :: "u64 \<Rightarrow> socket_addr \<Rightarrow> replica_state \<Rightarrow>
    (replica_state, role_change) outcome" where
  "replica_handle_election candidate_id candidate_addr x =
     (let (self, w) = x in
      if candidate_id < rp_id self then
        then_do (on_world x (ignore_error (net_send (ElectionOk (rp_id self)) candidate_addr w)))
          (\<lambda>_. replica_start_election)
      else (x, Ok NoRoleChange))"

definition replica_handle_election_ok :: "u64 \<Rightarrow> replica_state \<Rightarrow> replica_state" where
  "replica_handle_election_ok responder_id x =
     (let (self, w) = x in
      (self\<lparr>rp_election_in_progress := False, rp_election_start := None\<rparr>, w))"

definition replica_handle_election_timeout :: "replica_state \<Rightarrow> (replica_state, role_change) outcome"
  where
  "replica_handle_election_timeout x =
     (let (self, w) = x in
      if \<not> rp_election_in_progress self then (x, Ok NoRoleChange)
      else (case rp_election_start self of
              None \<Rightarrow> (x, Ok NoRoleChange)
            | Some start \<Rightarrow>
                if ELECTION_TIMEOUT \<le> now_of w - start then
                  replica_anounce_coordinator
                    (self\<lparr>rp_election_in_progress := False, rp_election_start := None\<rparr>, w)
                else (x, Ok NoRoleChange)))"

section \<open>Connections\<close>

text \<open>\<open>retain\<close> drops every member with the lost address.\<close>

definition replica_handle_connection_lost_with :: "(socket_addr \<Rightarrow> u64) \<Rightarrow> socket_addr \<Rightarrow>
    replica_state \<Rightarrow> (replica_state, role_change) outcome" where
  "replica_handle_connection_lost_with hash lost_address x =
     (let (self, w) = x; lost_id = get_id_given_addr hash lost_address;
          self' = (if hm_contains (rp_cluster self) lost_id
                   then self\<lparr>rp_cluster := filter (\<lambda>m. snd m \<noteq> lost_address) (rp_cluster self)\<rparr>
                   else self)
      in if lost_address = rp_leader_addr self' then replica_start_election (self', w)
         else ((self', w), Ok NoRoleChange))"

definition replica_handle_disconnect_node :: "replica_state \<Rightarrow> replica_state" where
  "replica_handle_disconnect_node x =
     (let (self, w) = x in
      (self\<lparr>rp_is_offline := True\<rparr>, w\<lparr>nw_conn := connection_disconnect (nw_conn w)\<rparr>))"

text \<open>As for the leader, but a second failure is returned.\<close>

fun replica_rejoin :: "socket_addr \<Rightarrow> socket_addr list \<Rightarrow> node_world \<Rightarrow> (node_world, unit) outcome"
  where
  "replica_rejoin self_addr [] w = (w, Ok ())"
| "replica_rejoin self_addr (addr # rest) w =
     (if addr = self_addr then replica_rejoin self_addr rest w
      else (case net_send (Join self_addr) addr w of
              (w', Inr u) \<Rightarrow> (w', Ok ())
            | (w', Inl Panic) \<Rightarrow> (w', Panicked)
            | (w', Inl (Err e)) \<Rightarrow>
                then_do (net_send (Join self_addr) addr w') (\<lambda>_. replica_rejoin self_addr rest)))"

definition replica_handle_connect_node :: "replica_state \<Rightarrow> (replica_state, unit) outcome" where
  "replica_handle_connect_node x =
     (let (self, w) = x; self' = self\<lparr>rp_is_offline := False\<rparr>;
          (conn, r) = connection_reconnect (nw_conn w)
      in then_do ((self', w\<lparr>nw_conn := conn\<rparr>), r) (\<lambda>_ x'.
         on_world x' (replica_rejoin (rp_address self') (hm_values (rp_cluster self')) (snd x'))))"

section \<open>Requests and the log\<close>

definition replica_handle_request :: "u32 \<Rightarrow> operation \<Rightarrow> socket_addr \<Rightarrow> replica_state \<Rightarrow>
    (replica_state, unit) outcome" where
  "replica_handle_request op_id op addr x =
     (let (self, w) = x in on_world x (net_send (Request op_id op addr) (rp_leader_addr self) w))"

definition replica_handle_response :: "u32 \<Rightarrow> operation_result \<Rightarrow> replica_state \<Rightarrow>
    (replica_state, unit) outcome" where
  "replica_handle_response req_id op_result x =
     (let (self, w) = x in
      if req_id = 0 then (x, Ok ())
      else (case op_result of
              ResCharge cr \<Rightarrow>
                (let (allowed, error) = charge_outcome cr
                 in on_world x (station_send (StationChargeResult req_id allowed error) w))
            | _ \<Rightarrow> (x, Ok ())))"

definition replica_handle_role_query :: "(socket_addr \<Rightarrow> u64) \<Rightarrow> socket_addr \<Rightarrow> replica_state \<Rightarrow>
    (replica_state, unit) outcome" where
  "replica_handle_role_query hash addr x =
     (let (self, w) = x in
      on_world x (net_send (RoleResponse (get_id_given_addr hash (rp_address self)) RoleReplica) addr w))"

definition replica_commit_operation :: "u32 \<Rightarrow> replica_state \<Rightarrow> (replica_state, unit) outcome" where
  "replica_commit_operation op_id x =
     (let (self, w) = x in
      case hm_get (rp_operations self) op_id of
        None \<Rightarrow> (x, Ok ())
      | Some op \<Rightarrow>
          ((self\<lparr>rp_operations := hm_remove op_id (rp_operations self)\<rparr>, db_send op_id op w), Ok ()))"

text \<open>Entry 1 is acknowledged; any other commits the one before it. \<open>0 - 1\<close> panics.\<close>

definition replica_handle_log :: "u32 \<Rightarrow> operation \<Rightarrow> replica_state \<Rightarrow> (replica_state, unit) outcome"
  where
  "replica_handle_log op_id operation x =
     (let (self, w) = x;
          self' = self\<lparr>rp_operations := hm_insert op_id operation (rp_operations self)\<rparr>
      in if op_id = 1 then on_world (self', w) (net_send (Ack 1) (rp_leader_addr self') w)
         else if op_id = 0 then ((self', w), Panicked)
         else replica_commit_operation (op_id - 1) (self', w))"

definition replica_handle_ack :: "u32 \<Rightarrow> replica_state \<Rightarrow> (replica_state, unit) outcome" where
  "replica_handle_ack op_id x = (x, Panicked)"

text \<open>The charges queued offline go to the leader one by one; a failed send loses its charge.\<close>

fun drain_offline_queue :: "operation list \<Rightarrow> replica_state \<Rightarrow> (replica_state, unit) outcome" where
  "drain_offline_queue [] (self, w) = ((self\<lparr>rp_offline_queue := []\<rparr>, w), Ok ())"
| "drain_offline_queue (op # ops) (self, w) =
     then_do (replica_handle_request 0 op (rp_address self) (self\<lparr>rp_offline_queue := ops\<rparr>, w))
       (\<lambda>_. drain_offline_queue ops)"

text \<open>\<open>op_id + 1\<close> panics at the largest number.\<close>

definition replica_handle_operation_result :: "u32 \<Rightarrow> operation \<Rightarrow> operation_result \<Rightarrow>
    replica_state \<Rightarrow> (replica_state, unit) outcome" where
  "replica_handle_operation_result op_id operation result x =
     (let (self, w) = x in
      case operation of
        ReplaceDatabase d \<Rightarrow> drain_offline_queue (rp_offline_queue self) x
      | _ \<Rightarrow>
          if unat op_id = 2 ^ 32 - 1 then (x, Panicked)
          else on_world x (net_send (Ack (op_id + 1)) (rp_leader_addr self) w))"

section \<open>Membership\<close>

definition replica_handle_join :: "socket_addr \<Rightarrow> replica_state \<Rightarrow> (replica_state, unit) outcome" where
  "replica_handle_join addr x =
     (let (self, w) = x in on_world x (net_send (Join addr) (rp_leader_addr self) w))"

definition replica_handle_cluster_update :: "u64 \<times> socket_addr \<Rightarrow> replica_state \<Rightarrow> replica_state" where
  "replica_handle_cluster_update new_member x =
     (let (self, w) = x in
      (self\<lparr>rp_cluster := hm_insert (fst new_member) (snd new_member) (rp_cluster self)\<rparr>, w))"

text \<open>The role change of the election is not returned.\<close>

definition replica_handle_cluster_view :: "(socket_addr \<Rightarrow> u64) \<Rightarrow> (u64 \<times> socket_addr) list \<Rightarrow>
    socket_addr \<Rightarrow> database_snapshot \<Rightarrow> replica_state \<Rightarrow> (replica_state, unit) outcome" where
  "replica_handle_cluster_view hash members leader_addr snapshot x =
     (let (self, w) = x; w' = db_send 0 (ReplaceDatabase snapshot) w;
          self' = self\<lparr>rp_cluster := cluster_of members, rp_leader_addr := leader_addr\<rparr>
      in if rp_id self' < get_id_given_addr hash leader_addr
         then with_result () (replica_start_election (self', w'))
         else ((self', w'), Ok ()))"

definition replica_ops :: "(socket_addr \<Rightarrow> u64) \<Rightarrow> replica node_ops" where
  "replica_ops hash =
     \<lparr>op_is_offline = rp_is_offline,
      op_log_offline_operation = (\<lambda>op self. self\<lparr>rp_offline_queue := rp_offline_queue self @ [op]\<rparr>),
      op_get_address = rp_address,
      op_handle_request = replica_handle_request,
      op_handle_response = replica_handle_response,
      op_handle_role_query = replica_handle_role_query hash,
      op_handle_log = replica_handle_log,
      op_handle_ack = replica_handle_ack,
      op_handle_operation_result = replica_handle_operation_result,
      op_handle_connection_lost_with = replica_handle_connection_lost_with hash,
      op_handle_disconnect_node = replica_handle_disconnect_node,
      op_handle_connect_node = replica_handle_connect_node,
      op_handle_election = replica_handle_election,
      op_handle_election_ok = replica_handle_election_ok,
      op_handle_coordinator = replica_handle_coordinator,
      op_handle_join = replica_handle_join,
      op_handle_cluster_view = replica_handle_cluster_view hash,
      op_handle_cluster_update = replica_handle_cluster_update,
      op_handle_election_timeout = replica_handle_election_timeout\<rparr>"

text \<open>A replica starts knowing the leader alone, and joins through it.\<close>

definition replica_start_state :: "(socket_addr \<Rightarrow> u64) \<Rightarrow> socket_addr \<Rightarrow> socket_addr \<Rightarrow>
    u64 \<times> u64 \<Rightarrow> nat \<Rightarrow> replica" where
  "replica_start_state hash address leader_addr coords now =
     \<lparr>rp_id = get_id_given_addr hash address, rp_coords = coords, rp_address = address,
      rp_leader_addr = leader_addr,
      rp_cluster = [(get_id_given_addr hash leader_addr, leader_addr)],
      rp_operations = [], rp_is_offline = False, rp_offline_queue = [], rp_start_time = now,
      rp_election_in_progress = False, rp_election_start = None\<rparr>"

section \<open>The log is executed one entry behind\<close>

text \<open>
  The entries of the leader arriving in order; the loop of the node goes on whatever the
  handler returns.
\<close>

fun replica_logs :: "u32 \<Rightarrow> operation list \<Rightarrow> replica_state \<Rightarrow> replica_state" where
  "replica_logs n [] x = x"
| "replica_logs n (op # ops) x = replica_logs (n + 1) ops (fst (replica_handle_log n op x))"

definition executes :: "nat \<Rightarrow> operation list \<Rightarrow> router_input list" where
  "executes n ops = map (\<lambda>(i, op). RouterCommand (Execute (of_nat i) op)) (zip [n..<n + length ops] ops)"

lemma executes_simps [simp]:
  "executes n [] = []"
  "executes n (op # ops) = RouterCommand (Execute (of_nat n) op) # executes (Suc n) ops"
  by (simp_all add: executes_def upt_rec [of n] del: upt_Suc)

lemma replica_logs_later:
  assumes "1 \<le> n" and "n + length ops < 2 ^ 32 - 1"
    and "hm_get (rp_operations self) (of_nat n) = Some prev"
  shows "\<exists>self' w'. replica_logs (of_nat (Suc n)) ops (self, w) = (self', w') \<and>
    db_mail w' = db_mail w @ executes n (butlast (prev # ops)) \<and>
    hm_get (rp_operations self') (of_nat (n + length ops)) = Some (last (prev # ops)) \<and> sent w' = sent w"
  using assms
proof (induction ops arbitrary: n prev self w)
  case Nil
  then show ?case by simp
next
  case (Cons op ops)
  let ?m = "of_nat (Suc n) :: u32"
  have n32: "n < 2 ^ 32 - 2" using Cons.prems(2) by simp
  have u: "unat ?m = Suc n" "unat (of_nat n :: u32) = n"
    using n32 by (simp_all only: unat_of_nat) simp_all
  have ne: "?m \<noteq> k" if "unat k \<noteq> Suc n" for k
  proof
    assume "?m = k"
    then have "unat ?m = unat k" by (rule arg_cong)
    with that show False by (simp only: u(1))
  qed
  have ne1: "?m \<noteq> 1" and ne0: "?m \<noteq> 0" and nen: "of_nat n \<noteq> ?m"
    using ne [of 1] ne [of 0] ne [of "of_nat n"] Cons.prems(1) by (simp_all only: u) auto
  have pred: "?m - 1 = of_nat n" by simp
  let ?self1 = "self\<lparr>rp_operations := hm_insert ?m op (rp_operations self)\<rparr>"
  let ?self2 = "?self1\<lparr>rp_operations := hm_remove (of_nat n) (rp_operations ?self1)\<rparr>"
  have get: "hm_get (rp_operations ?self1) (of_nat n) = Some prev"
    using Cons.prems(3) nen by (simp add: hm.get_insert del: of_nat_Suc)
  have step: "fst (replica_handle_log ?m op (self, w)) = (?self2, db_send (of_nat n) prev w)"
    using ne1 ne0 get pred
    by (simp add: replica_handle_log_def replica_commit_operation_def Let_def del: of_nat_Suc)
  have get2: "hm_get (rp_operations ?self2) ?m = Some op"
    using nen by (simp add: hm.get_remove hm.get_insert del: of_nat_Suc)
  obtain self' w' where IH: "replica_logs (of_nat (Suc (Suc n))) ops (?self2, db_send (of_nat n) prev w) = (self', w')"
    "db_mail w' = db_mail (db_send (of_nat n) prev w) @ executes (Suc n) (butlast (op # ops))"
    "hm_get (rp_operations self') (of_nat (Suc n + length ops)) = Some (last (op # ops))"
    "sent w' = sent w"
    using Cons.IH [of "Suc n" ?self2 op "db_send (of_nat n) prev w"] Cons.prems(1,2) get2 by auto
  have "?m + 1 = of_nat (Suc (Suc n))" by simp
  then show ?case using IH step by simp
qed

text \<open>C16: Replication is one entry behind: after a replica has received the entries 1 to \<open>m\<close> in
  order, its database has been told to execute the entries 1 to \<open>m - 1\<close>, in order and once each,
  entry \<open>m\<close> is kept, and at most the first entry was acknowledged.\<close>

theorem replica_executes_one_behind:
  assumes "ops \<noteq> []" and "length ops < 2 ^ 32 - 2"
  shows "\<exists>self' w'. replica_logs 1 ops (self, w) = (self', w') \<and>
    db_mail w' = db_mail w @ executes 1 (butlast ops) \<and>
    hm_get (rp_operations self') (of_nat (length ops)) = Some (last ops) \<and>
    (sent w' = sent w \<or> sent w' = sent w @ [(Ack 1, rp_leader_addr self)])"
proof -
  obtain op rest where ops: "ops = op # rest" using assms(1) by (cases ops) auto
  let ?self = "self\<lparr>rp_operations := hm_insert 1 op (rp_operations self)\<rparr>"
  obtain w1 r where s: "net_send (Ack 1) (rp_leader_addr self) w = (w1, r)" by (rule prod.exhaust)
  note f = only_sent_fields [OF net_send_only [OF s]]
  have step: "fst (replica_handle_log 1 op (self, w)) = (?self, w1)"
    using s by (simp add: replica_handle_log_def on_world_def)
  have "hm_get (rp_operations ?self) (of_nat 1) = Some op" by simp
  from replica_logs_later [OF _ _ this, of rest w1] assms(2) ops
  obtain self' w' where l: "replica_logs (of_nat (Suc 1)) rest (?self, w1) = (self', w')"
    "db_mail w' = db_mail w1 @ executes 1 (butlast (op # rest))"
    "hm_get (rp_operations self') (of_nat (1 + length rest)) = Some (last (op # rest))"
    "sent w' = sent w1" by auto
  have "(1 :: u32) + 1 = of_nat (Suc 1)" by simp
  then have "replica_logs 1 ops (self, w) = (self', w')"
    using l(1) step ops by (simp only: replica_logs.simps)
  with l f ops show ?thesis by (auto split: if_splits)
qed

definition sample_replica :: replica_state where
  "sample_replica = (replica_start_state (\<lambda>a. ucast (sa_port a)) (SocketAddr (V4 127 0 0 1) 5001)
     (SocketAddr (V4 127 0 0 1) 5000) (0, 0) 0, snd pair_cluster)"

theorem replica_executes_one_behind_witness:
  "\<exists>self' w'. replica_logs 1 [AccountQuery 3, AccountQuery 4] sample_replica = (self', w') \<and>
    db_mail w' = [RouterCommand (Execute 1 (AccountQuery 3))]"
proof -
  obtain self w where x: "sample_replica = (self, w)" by (rule prod.exhaust)
  then have "db_mail w = []" by (auto simp: sample_replica_def pair_cluster_def system_new_def)
  with x replica_executes_one_behind [of "[AccountQuery 3, AccountQuery 4]" self w]
  show ?thesis by auto
qed

text \<open>A replica that joined late stalls the request: an entry whose predecessor it does not hold
  is stored without executing or acknowledging anything.\<close>

theorem late_joiner_sends_no_ack:
  assumes "op_id \<noteq> 0" "op_id \<noteq> 1" and "hm_get (rp_operations self) (op_id - 1) = None"
  shows "\<exists>self'. replica_handle_log op_id op (self, w) = ((self', w), Ok ()) \<and>
    hm_get (rp_operations self') op_id = Some op"
  using assms by (simp add: replica_handle_log_def replica_commit_operation_def Let_def)

theorem late_joiner_sends_no_ack_witness:
  "snd (replica_handle_log 7 (AccountQuery 3) sample_replica) = Ok () \<and>
   snd (fst (replica_handle_log 7 (AccountQuery 3) sample_replica)) = snd sample_replica"
proof -
  obtain self w where x: "sample_replica = (self, w)" by (rule prod.exhaust)
  then have "hm_get (rp_operations self) (7 - 1) = None"
    by (auto simp: sample_replica_def replica_start_state_def)
  from late_joiner_sends_no_ack [OF _ _ this, of "AccountQuery 3" w] show ?thesis
    unfolding x by auto
qed

section \<open>Charges taken offline\<close>

text \<open>C31: The queue of charges taken offline is sent to the leader in order when the database has
  been replaced: all of it if the sends succeed; otherwise a prefix is sent, the charge whose
  send failed is lost, and the rest stays queued.\<close>

theorem offline_queue_drained_in_order:
  assumes "drain_offline_queue q (self, w) = ((self', w'), r)"
  shows "\<exists>done'. sent w' = sent w @ map (\<lambda>op. (Request 0 op (rp_address self), rp_leader_addr self)) done' \<and>
    (if is_ok r then done' = q \<and> rp_offline_queue self' = []
     else \<exists>lost. q = done' @ lost # rp_offline_queue self')"
  using assms
proof (induction q arbitrary: self w)
  case Nil
  then show ?case by auto
next
  case (Cons op ops)
  let ?self = "self\<lparr>rp_offline_queue := ops\<rparr>"
  obtain w1 r1 where s: "net_send (Request 0 op (rp_address self)) (rp_leader_addr self) w = (w1, r1)"
    by (rule prod.exhaust)
  note f = only_sent_fields(7) [OF net_send_only [OF s]]
  have h: "replica_handle_request 0 op (rp_address self) (?self, w) = ((?self, w1), r1)"
    using s by (simp add: replica_handle_request_def on_world_def)
  show ?case
  proof (cases r1)
    case (Inl e)
    with h Cons.prems have "self' = ?self" "w' = w1" "r = Inl e" by simp_all
    with f Inl show ?thesis by (intro exI [of _ "[]"]) auto
  next
    case (Inr u)
    with h Cons.prems have d: "drain_offline_queue ops (?self, w1) = ((self', w'), r)" by simp
    from Cons.IH [OF this] obtain done' where
      "sent w' = sent w1 @ map (\<lambda>op. (Request 0 op (rp_address self), rp_leader_addr self)) done'"
      "if is_ok r then done' = ops \<and> rp_offline_queue self' = []
       else \<exists>lost. ops = done' @ lost # rp_offline_queue self'" by auto
    with f Inr show ?thesis by (intro exI [of _ "op # done'"]) auto
  qed
qed

theorem offline_queue_drained_in_order_witness:
  "\<exists>self' w' r. drain_offline_queue [AccountQuery 3, AccountQuery 4]
      (fst sample_replica, (snd sample_replica)\<lparr>nw_conn := connection_disconnect (nw_conn (snd sample_replica))\<rparr>)
      = ((self', w'), r) \<and> rp_offline_queue self' = [AccountQuery 4]"
proof -
  let ?w = "(snd sample_replica)\<lparr>nw_conn := connection_disconnect (nw_conn (snd sample_replica))\<rparr>"
  obtain self' w' r where d: "drain_offline_queue [AccountQuery 3, AccountQuery 4]
      (fst sample_replica, ?w) = ((self', w'), r)" by (metis surj_pair)
  have off: "\<not> cn_connected (nw_conn ?w)" by (simp add: connection_disconnect_def)
  have "r = Error ConnectionLost" "sent w' = sent ?w"
    using d net_send_offline [OF off] by (auto simp: replica_handle_request_def on_world_def)
  with offline_queue_drained_in_order [OF d]
  have "\<exists>lost. [AccountQuery 3, AccountQuery 4] = lost # rp_offline_queue self'" by auto
  with d show ?thesis by auto
qed

section \<open>Elections\<close>

lemma send_elections_spec:
  assumes "send_elections i msg c b w = (w', r)"
  shows "\<exists>addrs. only_sent w w' (map (Pair msg) addrs) \<and>
    set addrs \<subseteq> {a. \<exists>j. (j, a) \<in> set c \<and> i < j} \<and>
    (r = Ok (b \<or> (\<exists>m \<in> set c. i < fst m)) \<or> r = Panicked)"
  using assms
proof (induction c arbitrary: b w)
  case Nil
  then show ?case by (intro exI [of _ "[]"]) auto
next
  case (Cons m c)
  obtain j a where m: "m = (j, a)" by (rule prod.exhaust)
  show ?case
  proof (cases "i < j")
    case False
    with Cons.prems m have "send_elections i msg c b w = (w', r)" by simp
    from Cons.IH [OF this] False m show ?thesis by fastforce
  next
    case True
    obtain w1 r1 where s: "ignore_error (net_send msg a w) = (w1, r1)" by (rule prod.exhaust)
    note one = ignore_send_spec [OF s]
    show ?thesis
    proof (cases r1)
      case (Inl f)
      then have "r = Panicked" "w' = w1" using one(2) True m s Cons.prems by auto
      show ?thesis using one(1)
      proof
        assume "only_sent w w1 []"
        with \<open>r = Panicked\<close> \<open>w' = w1\<close> show ?thesis by (intro exI [of _ "[]"]) auto
      next
        assume "only_sent w w1 [(msg, a)]"
        with \<open>r = Panicked\<close> \<open>w' = w1\<close> True m show ?thesis by (intro exI [of _ "[a]"]) auto
      qed
    next
      case (Inr u)
      with True m s Cons.prems have "send_elections i msg c True w1 = (w', r)" by simp
      from Cons.IH [OF this] obtain addrs where a: "only_sent w1 w' (map (Pair msg) addrs)"
        "set addrs \<subseteq> {a. \<exists>j. (j, a) \<in> set c \<and> i < j}" "r = Ok True \<or> r = Panicked" by auto
      from one(1) show ?thesis
      proof
        assume "only_sent w w1 []"
        from only_sent_trans [OF this a(1)] a(2,3) True m show ?thesis
          by (intro exI [of _ addrs]) auto
      next
        assume "only_sent w w1 [(msg, a)]"
        from only_sent_trans [OF this a(1)] a(2,3) True m show ?thesis
          by (intro exI [of _ "a # addrs"]) auto
      qed
    qed
  qed
qed

text \<open>Bully election of a replica: one that knows a member with a higher number asks only such
  members and waits; one that knows none announces itself to members of its cluster and asks to
  become leader at once. An election already in progress changes nothing.\<close>

theorem replica_election_outcome:
  assumes "replica_start_election (self, w) = ((self', w'), r)" and "r \<noteq> Panicked"
  shows "if rp_election_in_progress self then self' = self \<and> w' = w \<and> r = Ok NoRoleChange
    else if \<exists>m \<in> set (rp_cluster self). rp_id self < fst m
    then r = Ok NoRoleChange \<and> rp_election_in_progress self' \<and>
      (\<exists>addrs. set addrs \<subseteq> {a. \<exists>j. (j, a) \<in> set (rp_cluster self) \<and> rp_id self < j} \<and>
        sent w' = sent w @ map (Pair (Election (rp_id self) (rp_address self))) addrs)
    else r = Ok PromoteToLeader \<and> \<not> rp_election_in_progress self' \<and>
      (\<exists>addrs. set addrs \<subseteq> set (peers (rp_id self) (rp_cluster self)) \<and>
        sent w' = sent w @ map (Pair (Coordinator (rp_id self) (rp_address self))) addrs)"
proof (cases "rp_election_in_progress self")
  case True
  with assms show ?thesis by (simp add: replica_start_election_def)
next
  case idle: False
  obtain w1 r1 where s: "send_elections (rp_id self) (Election (rp_id self) (rp_address self))
      (rp_cluster self) False w = (w1, r1)" by (rule prod.exhaust)
  from send_elections_spec [OF s] obtain addrs where a:
    "only_sent w w1 (map (Pair (Election (rp_id self) (rp_address self))) addrs)"
    "set addrs \<subseteq> {a. \<exists>j. (j, a) \<in> set (rp_cluster self) \<and> rp_id self < j}"
    "r1 = Ok (\<exists>m \<in> set (rp_cluster self). rp_id self < fst m) \<or> r1 = Panicked" by auto
  have np: "r1 \<noteq> Panicked"
    using assms s idle by (auto simp: replica_start_election_def on_world_def)
  show ?thesis
  proof (cases "\<exists>m \<in> set (rp_cluster self). rp_id self < fst m")
    case True
    with a(3) np have "r1 = Ok True" by auto
    with assms s idle have
      "self' = self\<lparr>rp_election_in_progress := True, rp_election_start := Some (now_of w1)\<rparr>"
      "w' = w1" "r = Ok NoRoleChange"
      by (auto simp: replica_start_election_def on_world_def)
    with True idle a(2) only_sent_fields(7) [OF a(1)] show ?thesis by auto
  next
    case False
    with a(2) have "addrs = []" by (cases addrs) fastforce+
    with a(1) have w1: "sent w1 = sent w" using only_sent_fields(7) by fastforce
    let ?self = "self\<lparr>rp_election_in_progress := False, rp_election_start := None\<rparr>"
    from False a(3) np have "r1 = Ok False" by auto
    with assms s idle have an: "replica_anounce_coordinator (?self, w1) = ((self', w'), r)"
      by (auto simp: replica_start_election_def on_world_def)
    obtain w2 r2 where s2: "announce_to_peers (rp_id self) (Coordinator (rp_id self) (rp_address self))
        (rp_cluster self) w1 = (w2, r2)" by (rule prod.exhaust)
    from announce_spec [OF s2] obtain addrs' where a':
      "only_sent w1 w2 (map (Pair (Coordinator (rp_id self) (rp_address self))) addrs')"
      "set addrs' \<subseteq> set (peers (rp_id self) (rp_cluster self))" "r2 = Ok () \<or> r2 = Panicked" by blast
    have "r2 = Ok ()" using an s2 a'(3) assms(2)
      by (auto simp: replica_anounce_coordinator_def on_world_def)
    with an s2 have "self' = ?self" "w' = w2" "r = Ok PromoteToLeader"
      by (auto simp: replica_anounce_coordinator_def on_world_def replica_handle_coordinator_def)
    with False idle a'(2) only_sent_fields(7) [OF a'(1)] w1 show ?thesis by auto
  qed
qed

theorem replica_election_outcome_witness:
  "snd (replica_start_election
     ((fst sample_replica)\<lparr>rp_cluster := []\<rparr>, snd sample_replica)) = Ok PromoteToLeader"
proof -
  let ?x = "((fst sample_replica)\<lparr>rp_cluster := []\<rparr>, snd sample_replica)"
  obtain self' w' r where h: "replica_start_election ?x = ((self', w'), r)" by (metis surj_pair)
  have idle: "\<not> rp_election_in_progress (fst sample_replica)"
    by (simp add: sample_replica_def replica_start_state_def)
  then have "r \<noteq> Panicked"
    using h by (auto simp: replica_start_election_def replica_anounce_coordinator_def on_world_def
        replica_handle_coordinator_def)
  from replica_election_outcome [OF h this] idle h show ?thesis by simp
qed

text \<open>An announcement of a leader with a lower number panics the replica; one with a higher
  number is followed, one with its own number promotes it.\<close>

theorem coordinator_from_below_panics:
  "snd (replica_handle_coordinator leader_id leader_addr (self, w)) =
     (if leader_id < rp_id self then Panicked
      else if leader_id = rp_id self then Ok PromoteToLeader else Ok NoRoleChange) \<and>
   (rp_id self < leader_id \<longrightarrow>
      rp_leader_addr (fst (fst (replica_handle_coordinator leader_id leader_addr (self, w)))) = leader_addr)"
  by (auto simp: replica_handle_coordinator_def Let_def)

theorem coordinator_from_below_panics_witness:
  "snd (replica_handle_coordinator 1 (SocketAddr (V4 127 0 0 1) 5000) sample_replica) = Panicked"
proof -
  obtain self w where x: "sample_replica = (self, w)" by (rule prod.exhaust)
  then have "(1 :: u64) < rp_id self"
    by (auto simp: sample_replica_def replica_start_state_def get_id_given_addr_def)
  with x coordinator_from_below_panics [of 1 "SocketAddr (V4 127 0 0 1) 5000" self w]
  show ?thesis by simp
qed

section \<open>The replica keeps the contract of a node role\<close>

lemma replica_rejoin_world_ok: "world_ok w \<Longrightarrow> world_ok (fst (replica_rejoin a c w))"
proof (induction c arbitrary: w)
  case (Cons b c)
  obtain w1 r1 where s: "net_send (Join a) b w = (w1, r1)" by (rule prod.exhaust)
  have w1: "world_ok w1" using net_send_world_ok [OF Cons.prems, of "Join a" b] s by simp
  have "world_ok (fst (then_do (net_send (Join a) b w1) (\<lambda>_. replica_rejoin a c)))"
    by (rule fst_then_do [where P = world_ok]) (use Cons.IH net_send_world_ok [OF w1] in auto)
  with s w1 Cons show ?case by (auto split: sum.split failure.split)
qed simp

definition replica_ok :: "replica \<Rightarrow> bool" where
  "replica_ok self \<longleftrightarrow> hm_wf (rp_cluster self) \<and> hm_wf (rp_operations self)"

definition replica_state_ok :: "replica_state \<Rightarrow> bool" where
  "replica_state_ok x \<longleftrightarrow> replica_ok (fst x) \<and> world_ok (snd x)"

lemma replica_fields [simp]:
  "replica_state_ok (self\<lparr>rp_election_in_progress := b, rp_election_start := t\<rparr>, w) =
     replica_state_ok (self, w)"
  "replica_state_ok (self\<lparr>rp_leader_addr := a\<rparr>, w) = replica_state_ok (self, w)"
  "replica_state_ok (self\<lparr>rp_offline_queue := q\<rparr>, w) = replica_state_ok (self, w)"
  "replica_state_ok (self\<lparr>rp_election_in_progress := b, rp_election_start := t, rp_leader_addr := a\<rparr>, w)
     = replica_state_ok (self, w)"
  by (simp_all add: replica_state_ok_def replica_ok_def)

lemma replica_on_world:
  "replica_state_ok (self, w) \<Longrightarrow> world_ok (fst r) \<Longrightarrow> replica_state_ok (fst (on_world (self, w) r))"
  by (simp add: replica_state_ok_def)

lemma replica_state_okD: "replica_state_ok (self, w) \<Longrightarrow> world_ok w"
  by (simp add: replica_state_ok_def)

lemma replica_coordinator_ok:
  "replica_state_ok x \<Longrightarrow> replica_state_ok (fst (replica_handle_coordinator c a x))"
  by (cases x) (simp add: replica_handle_coordinator_def Let_def)

lemma replica_announce_ok:
  assumes "replica_state_ok x"
  shows "replica_state_ok (fst (replica_anounce_coordinator x))"
proof -
  obtain self w where x: "x = (self, w)" by (rule prod.exhaust)
  have w: "world_ok w" using assms x by (simp add: replica_state_okD)
  have "replica_state_ok (fst (then_do (on_world x (announce_to_peers (rp_id self)
      (Coordinator (rp_id self) (rp_address self)) (rp_cluster self) w))
      (\<lambda>_. replica_handle_coordinator (rp_id self) (rp_address self))))"
  proof (rule fst_then_do [where P = replica_state_ok])
    show "replica_state_ok (fst (on_world x (announce_to_peers (rp_id self)
        (Coordinator (rp_id self) (rp_address self)) (rp_cluster self) w)))"
      using assms x replica_on_world [OF _ announce_world_ok [OF w]] by simp
  qed (rule replica_coordinator_ok)
  with x show ?thesis by (simp add: replica_anounce_coordinator_def)
qed

lemma replica_start_election_ok:
  assumes "replica_state_ok x"
  shows "replica_state_ok (fst (replica_start_election x))"
proof -
  obtain self w where x: "x = (self, w)" by (rule prod.exhaust)
  have w: "world_ok w" using assms x by (simp add: replica_state_okD)
  have "replica_state_ok (fst (then_do (on_world x (send_elections (rp_id self)
      (Election (rp_id self) (rp_address self)) (rp_cluster self) False w)) (\<lambda>sent_any (self', w').
      if sent_any then
        ((self'\<lparr>rp_election_in_progress := True, rp_election_start := Some (now_of w')\<rparr>, w'),
         Ok NoRoleChange)
      else replica_anounce_coordinator
        (self'\<lparr>rp_election_in_progress := False, rp_election_start := None\<rparr>, w'))))"
  proof (rule fst_then_do [where P = replica_state_ok])
    show "replica_state_ok (fst (on_world x (send_elections (rp_id self)
        (Election (rp_id self) (rp_address self)) (rp_cluster self) False w)))"
      using assms x replica_on_world [OF _ send_elections_world_ok [OF w]] by simp
  qed (auto intro!: replica_announce_ok split: prod.split)
  with assms x show ?thesis by (simp add: replica_start_election_def)
qed

lemma drain_offline_queue_ok:
  "replica_state_ok x \<Longrightarrow> replica_state_ok (fst (drain_offline_queue q x))"
proof (induction q arbitrary: x)
  case Nil
  then show ?case by (cases x) simp
next
  case (Cons op q)
  obtain self w where x: "x = (self, w)" by (rule prod.exhaust)
  have "replica_state_ok (fst (then_do (replica_handle_request 0 op (rp_address self)
      (self\<lparr>rp_offline_queue := q\<rparr>, w)) (\<lambda>_. drain_offline_queue q)))"
    by (rule fst_then_do [where P = replica_state_ok])
      (use Cons x net_send_world_ok [OF replica_state_okD] in
        \<open>auto simp: replica_handle_request_def replica_state_ok_def replica_ok_def\<close>)
  with x show ?case by simp
qed

lemma replica_role_contract:
  assumes "replica_state_ok x"
  shows "replica_state_ok (fst (replica_handle_request i op a x))"
    and "replica_state_ok (fst (replica_handle_response i res x))"
    and "replica_state_ok (fst (replica_handle_role_query h a x))"
    and "replica_state_ok (fst (replica_handle_log i op x))"
    and "replica_state_ok (fst (replica_handle_operation_result i op res x))"
    and "replica_state_ok (fst (replica_handle_connection_lost_with h a x))"
    and "replica_state_ok (replica_handle_disconnect_node x)"
    and "replica_state_ok (fst (replica_handle_connect_node x))"
    and "replica_state_ok (fst (replica_handle_election c a x))"
    and "replica_state_ok (replica_handle_election_ok c x)"
    and "replica_state_ok (fst (replica_handle_join a x))"
    and "replica_state_ok (fst (replica_handle_cluster_view h ms a d x))"
    and "replica_state_ok (replica_handle_cluster_update m x)"
    and "replica_state_ok (fst (replica_handle_election_timeout x))"
proof -
  obtain self w where x: "x = (self, w)" by (rule prod.exhaust)
  have w: "world_ok w" and c: "hm_wf (rp_cluster self)" and o': "hm_wf (rp_operations self)"
    using assms x by (simp_all add: replica_state_ok_def replica_ok_def)
  note defs = replica_state_ok_def replica_ok_def hm.wf_insert hm.wf_remove
  show "replica_state_ok (fst (replica_handle_request i op a x))"
    using x w c o' by (simp add: replica_handle_request_def defs net_send_world_ok)
  show "replica_state_ok (fst (replica_handle_response i res x))"
    using x w c o' by (auto simp: replica_handle_response_def defs station_send_world_ok
        split: operation_result.split prod.split)
  show "replica_state_ok (fst (replica_handle_role_query h a x))"
    using x w c o' by (simp add: replica_handle_role_query_def defs net_send_world_ok)
  show "replica_state_ok (fst (replica_handle_log i op x))"
    using x w c o' by (auto simp: replica_handle_log_def replica_commit_operation_def Let_def defs
        net_send_world_ok db_send_world_ok split: option.split)
  show "replica_state_ok (fst (replica_handle_operation_result i op res x))"
  proof -
    have "replica_state_ok (self, fst (net_send m b w))" for m b
      using w c o' by (simp add: defs net_send_world_ok)
    with x assms drain_offline_queue_ok show ?thesis
      by (auto simp: replica_handle_operation_result_def split: operation.split)
  qed
  show "replica_state_ok (fst (replica_handle_connection_lost_with h a x))"
  proof -
    have "hm_wf (filter p (rp_cluster self))" for p
      using c by (simp add: hm_wf_def distinct_map_filter)
    with w c o' have "replica_state_ok (self\<lparr>rp_cluster := filter p (rp_cluster self)\<rparr>, w)" for p
      by (simp add: defs)
    with assms x replica_start_election_ok show ?thesis
      by (simp add: replica_handle_connection_lost_with_def Let_def)
  qed
  show "replica_state_ok (replica_handle_disconnect_node x)"
    using x w c o' by (simp add: replica_handle_disconnect_node_def defs disconnect_world_ok)
  show "replica_state_ok (fst (replica_handle_connect_node x))"
  proof -
    obtain conn r where r: "connection_reconnect (nw_conn w) = (conn, r)" by (rule prod.exhaust)
    have w': "world_ok (w\<lparr>nw_conn := conn\<rparr>)" by (rule reconnect_world_ok [OF w r])
    show ?thesis
      using x c o' r w' replica_rejoin_world_ok [OF w']
      by (cases r) (auto simp: replica_handle_connect_node_def Let_def defs)
  qed
  show "replica_state_ok (fst (replica_handle_election c a x))" for c
  proof (cases "c < rp_id self")
    case True
    have sent: "replica_state_ok (self, fst (net_send (ElectionOk (rp_id self)) a w))"
      using w \<open>hm_wf (rp_cluster self)\<close> o' by (simp add: defs net_send_world_ok)
    have "replica_state_ok (fst (then_do (on_world x (ignore_error
        (net_send (ElectionOk (rp_id self)) a w))) (\<lambda>_. replica_start_election)))"
      by (rule fst_then_do [where P = replica_state_ok])
        (use x sent replica_start_election_ok in auto)
    with True x show ?thesis by (simp add: replica_handle_election_def)
  qed (use assms x in \<open>simp add: replica_handle_election_def\<close>)
  show "replica_state_ok (replica_handle_election_ok c x)" for c
    using x assms by (simp add: replica_handle_election_ok_def)
  show "replica_state_ok (fst (replica_handle_join a x))"
    using x w c o' by (simp add: replica_handle_join_def defs net_send_world_ok)
  show "replica_state_ok (fst (replica_handle_cluster_view h ms a d x))"
  proof -
    have "replica_state_ok (self\<lparr>rp_cluster := cluster_of ms, rp_leader_addr := a\<rparr>,
        db_send 0 (ReplaceDatabase d) w)"
      using w o' by (simp add: defs db_send_world_ok cluster_of_wf)
    with x replica_start_election_ok show ?thesis
      by (simp add: replica_handle_cluster_view_def Let_def)
  qed
  show "replica_state_ok (replica_handle_cluster_update m x)"
    using x w c o' by (simp add: replica_handle_cluster_update_def defs)
  show "replica_state_ok (fst (replica_handle_election_timeout x))"
    using x assms replica_announce_ok
    by (auto simp: replica_handle_election_timeout_def split: option.split)
qed

interpretation replica_contract: node_role_contract "replica_ops hash" replica_ok replica_state_ok
  for hash
proof unfold_locales
  show "replica_state_ok x \<longleftrightarrow> replica_ok (fst x) \<and> world_ok (snd x)" for x
    by (simp add: replica_state_ok_def)
  show "replica_ok s \<Longrightarrow> replica_ok (op_log_offline_operation (replica_ops hash) op s)" for s op
    by (simp add: replica_ops_def replica_ok_def)
qed (simp_all add: replica_ops_def replica_role_contract replica_handle_ack_def replica_coordinator_ok)

end
