(* ===== verification/NodeRuntime.thy ===== *)
theory NodeRuntime
  imports Replica
begin

text \<open>
  \<open>run_node_runtime\<close> (\<open>server/src/node/node.rs\<close>): the role a node plays, the conversions
  between the roles (\<open>Leader::into_replica\<close>, \<open>Replica::into_leader\<close> and the two
  \<open>from_existing\<close>), and the turns of the loop until the node stops.
\<close>

definition leader_from_existing :: "u64 \<Rightarrow> u32 \<Rightarrow> u64 \<times> u64 \<Rightarrow> socket_addr \<Rightarrow> cluster \<Rightarrow>
    (u32, operation) hash_map \<Rightarrow> bool \<Rightarrow> operation list \<Rightarrow> leader" where
  "leader_from_existing node_id current_op_id coords address members operations_from_replica
     is_offline offline_queue =
     \<lparr>ld_id = node_id, ld_current_op_id = current_op_id, ld_coords = coords, ld_address = address,
      ld_cluster = members, ld_operations = [], ld_is_offline = is_offline,
      ld_offline_queue = offline_queue, ld_election_in_progress = False,
      ld_election_start = None\<rparr>"

definition replica_from_existing :: "nat \<Rightarrow> u64 \<Rightarrow> u64 \<times> u64 \<Rightarrow> socket_addr \<Rightarrow> socket_addr \<Rightarrow>
    cluster \<Rightarrow> (u32, operation) hash_map \<Rightarrow> bool \<Rightarrow> operation list \<Rightarrow> replica" where
  "replica_from_existing now node_id coords address leader_addr members operations
     is_offline offline_queue =
     \<lparr>rp_id = node_id, rp_coords = coords, rp_address = address, rp_leader_addr = leader_addr,
      rp_cluster = members, rp_operations = operations, rp_is_offline = is_offline,
      rp_offline_queue = offline_queue, rp_start_time = now, rp_election_in_progress = False,
      rp_election_start = None\<rparr>"

text \<open>The pending operations of a leader that steps down are discarded.\<close>

definition into_replica :: "nat \<Rightarrow> socket_addr \<Rightarrow> leader \<Rightarrow> replica" where
  "into_replica now new_leader_addr self =
     replica_from_existing now (ld_id self) (ld_coords self) (ld_address self) new_leader_addr
       (ld_cluster self) [] (ld_is_offline self) (ld_offline_queue self)"

text \<open>\<open>keys().max().copied().unwrap_or(1)\<close>\<close>

definition max_op_id :: "(u32, operation) hash_map \<Rightarrow> u32" where
  "max_op_id ops = (case hm_keys ops of [] \<Rightarrow> 1 | k # ks \<Rightarrow> fold max ks k)"

definition into_leader :: "replica \<Rightarrow> leader" where
  "into_leader self =
     leader_from_existing (rp_id self) (max_op_id (rp_operations self)) (rp_coords self)
       (rp_address self) (rp_cluster self) (rp_operations self) (rp_is_offline self)
       (rp_offline_queue self)"

datatype node_runtime = RunLeader leader | RunReplica replica

text \<open>What follows the end of \<open>run\<close>: stop, or go on in the role the change asks for.\<close>

fun change_role :: "role_change \<Rightarrow> nat \<Rightarrow> node_runtime \<Rightarrow> node_runtime \<times> bool" where
  "change_role NoRoleChange now rt = (rt, False)"
| "change_role PromoteToLeader now (RunReplica r) = (RunLeader (into_leader r), True)"
| "change_role PromoteToLeader now (RunLeader l) = (RunLeader l, True)"
| "change_role (DemoteToReplica a) now (RunLeader l) = (RunReplica (into_replica now a l), True)"
| "change_role (DemoteToReplica a) now (RunReplica r) = (RunReplica r, True)"

datatype node_status = NodeRunning | NodeStopped "app_error option" | NodePanicked

definition after_run :: "node_runtime \<times> node_world \<times> role_change app_result option \<Rightarrow>
    node_runtime \<times> node_world \<times> node_status" where
  "after_run x =
     (let (rt, w, r) = x in
      case r of
        None \<Rightarrow> (rt, w, NodeRunning)
      | Some (Inl (Err e)) \<Rightarrow> (rt, w, NodeStopped (Some e))
      | Some (Inl Panic) \<Rightarrow> (rt, w, NodePanicked)
      | Some (Inr rc) \<Rightarrow>
          (let (rt', goes_on) = change_role rc (now_of w) rt
           in (rt', w, if goes_on then NodeRunning else NodeStopped None)))"

fun runtime_turn :: "(socket_addr \<Rightarrow> u64) \<Rightarrow> node_source \<Rightarrow> node_runtime \<Rightarrow> node_world \<Rightarrow>
    node_runtime \<times> node_world \<times> node_status" where
  "runtime_turn hash source (RunLeader l) w =
     (let (l', w', r) = node_turn (leader_ops hash) source (l, w) in after_run (RunLeader l', w', r))"
| "runtime_turn hash source (RunReplica rp) w =
     (let (rp', w', r) = node_turn (replica_ops hash) source (rp, w)
      in after_run (RunReplica rp', w', r))"

section \<open>Offline charges\<close>

text \<open>A node that is offline, in either role, grants every charge of its station at once and
  queues it, marked as an offline charge; it asks nobody.\<close>

theorem offline_charge_granted_and_queued:
  assumes "ld_is_offline l" and "rp_is_offline r" and "nw_to_station_open w"
  shows "handle_charge_request (leader_ops hash) account_id card_id amount request_id (l, w) =
      ((l\<lparr>ld_offline_queue := ld_offline_queue l @ [Charge account_id card_id amount True]\<rparr>,
        w\<lparr>nw_to_station := nw_to_station w @ [StationChargeResult request_id True None]\<rparr>),
       Ok NoRoleChange) \<and>
    handle_charge_request (replica_ops hash) account_id card_id amount request_id (r, w) =
      ((r\<lparr>rp_offline_queue := rp_offline_queue r @ [Charge account_id card_id amount True]\<rparr>,
        w\<lparr>nw_to_station := nw_to_station w @ [StationChargeResult request_id True None]\<rparr>),
       Ok NoRoleChange)"
  using assms by (simp add: handle_charge_request_def leader_ops_def replica_ops_def on_world_def
      station_send_def Let_def)

theorem offline_charge_granted_and_queued_witness:
  "nw_to_station (snd (fst (handle_charge_request (leader_ops (\<lambda>a. 0)) 3 5 f32_one 44
     ((fst alone)\<lparr>ld_is_offline := True\<rparr>, snd alone)))) = [StationChargeResult 44 True None]"
  using offline_charge_granted_and_queued [of "(fst alone)\<lparr>ld_is_offline := True\<rparr>"
      "(fst sample_replica)\<lparr>rp_is_offline := True\<rparr>" "snd alone" "\<lambda>a. 0" 3 5 f32_one 44]
  by (simp add: alone_def pair_cluster_def)

section \<open>Changing roles\<close>

lemma max_op_id_ge: "k \<in> set (hm_keys ops) \<Longrightarrow> k \<le> max_op_id ops"
proof -
  have fold_ge: "m \<le> fold max ks m \<and> (\<forall>k \<in> set ks. k \<le> fold max ks m)" for m :: u32 and ks
  proof (induction ks arbitrary: m)
    case (Cons k ks)
    from Cons [of "max k m"] show ?case by (auto intro: order.trans)
  qed simp
  assume "k \<in> set (hm_keys ops)"
  then show ?thesis
    using fold_ge by (cases "hm_keys ops") (auto simp: max_op_id_def)
qed

text \<open>C33: A promoted replica keeps its identity, cluster and offline queue, but forgets the log
  entries it had not executed, and numbers its next operation with a number that is at least
  every logged one, not above it: with a log that is not empty the new leader's first operation
  reuses the number of the last entry.\<close>

theorem promotion_forgets_the_log:
  assumes "hm_keys (rp_operations r) \<noteq> []"
  shows "ld_operations (into_leader r) = [] \<and>
    ld_current_op_id (into_leader r) \<in> set (hm_keys (rp_operations r)) \<and>
    (\<forall>k \<in> set (hm_keys (rp_operations r)). k \<le> ld_current_op_id (into_leader r)) \<and>
    ld_id (into_leader r) = rp_id r \<and> ld_cluster (into_leader r) = rp_cluster r \<and>
    ld_offline_queue (into_leader r) = rp_offline_queue r"
proof -
  have "fold max ks m \<in> insert m (set ks)" for m :: u32 and ks
  proof (induction ks arbitrary: m)
    case (Cons k ks)
    from Cons [of "max k m"] show ?case by (auto simp: max_def split: if_splits)
  qed simp
  then have "max_op_id (rp_operations r) \<in> set (hm_keys (rp_operations r))"
    using assms by (cases "hm_keys (rp_operations r)") (auto simp: max_op_id_def)
  with max_op_id_ge show ?thesis by (simp add: into_leader_def leader_from_existing_def)
qed

theorem promotion_forgets_the_log_witness:
  "ld_current_op_id (into_leader ((fst sample_replica)\<lparr>rp_operations := [(7, AccountQuery 3)]\<rparr>)) = 7"
  using promotion_forgets_the_log [of "(fst sample_replica)\<lparr>rp_operations := [(7, AccountQuery 3)]\<rparr>"]
  by (simp add: hm_keys_def)

section \<open>The node keeps its resources in order\<close>

fun runtime_ok :: "node_runtime \<Rightarrow> bool" where
  "runtime_ok (RunLeader l) = leader_ok l"
| "runtime_ok (RunReplica r) = replica_ok r"

lemma change_role_ok: "runtime_ok rt \<Longrightarrow> runtime_ok (fst (change_role rc now rt))"
  by (cases "(rc, now, rt)" rule: change_role.cases)
    (auto simp: leader_ok_def replica_ok_def into_leader_def into_replica_def
      leader_from_existing_def replica_from_existing_def)

lemma after_run_ok:
  "runtime_ok rt \<Longrightarrow> world_ok w \<Longrightarrow> after_run (rt, w, r) = (rt', w', st) \<Longrightarrow>
     runtime_ok rt' \<and> world_ok w'"
  using change_role_ok [of rt]
  by (auto simp: after_run_def Let_def split: option.splits sum.splits failure.splits prod.splits)
     (metis fst_conv)

lemma runtime_turn_ok:
  assumes "runtime_ok rt" and "world_ok w" and "runtime_turn hash source rt w = (rt', w', st)"
  shows "runtime_ok rt' \<and> world_ok w'"
proof (cases rt)
  case (RunLeader l)
  obtain l1 w1 r where t: "node_turn (leader_ops hash) source (l, w) = (l1, w1, r)"
    by (metis prod_cases3)
  have "leader_state_ok (l, w)" using assms RunLeader by (simp add: leader_state_ok_def)
  from leader_contract.turn_ok [OF this t] have "runtime_ok (RunLeader l1)" "world_ok w1"
    by (simp_all add: leader_state_ok_def)
  moreover have "after_run (RunLeader l1, w1, r) = (rt', w', st)"
    using t RunLeader assms(3) by simp
  ultimately show ?thesis by (rule after_run_ok)
next
  case (RunReplica rp)
  obtain r1 w1 r where t: "node_turn (replica_ops hash) source (rp, w) = (r1, w1, r)"
    by (metis prod_cases3)
  have "replica_state_ok (rp, w)" using assms RunReplica by (simp add: replica_state_ok_def)
  from replica_contract.turn_ok [OF this t] have "runtime_ok (RunReplica r1)" "world_ok w1"
    by (simp_all add: replica_state_ok_def)
  moreover have "after_run (RunReplica r1, w1, r) = (rt', w', st)"
    using t RunReplica assms(3) by simp
  ultimately show ?thesis by (rule after_run_ok)
qed

text \<open>
  What can happen to a running node: a turn of its loop, a step of its connection or of its
  database actors, and its station sending a message or closing.
\<close>

inductive node_step :: "(socket_addr \<Rightarrow> u64) \<Rightarrow> node_runtime \<times> node_world \<times> node_status \<Rightarrow>
    node_runtime \<times> node_world \<times> node_status \<Rightarrow> bool" for hash where
  turn: "runtime_turn hash source rt w = x \<Longrightarrow> node_step hash (rt, w, NodeRunning) x"
| network: "connection_step (nw_conn w) conn \<Longrightarrow>
    node_step hash (rt, w, st) (rt, w\<lparr>nw_conn := conn\<rparr>, st)"
| actors: "system_step e (nw_db w) = Ok db \<Longrightarrow>
    node_step hash (rt, w, st) (rt, w\<lparr>nw_db := db\<rparr>, st)"
| station: "node_step hash (rt, w, st) (rt, w\<lparr>nw_from_station := msgs, nw_from_station_open := b,
      nw_to_station_open := b'\<rparr>, st)"

inductive_cases node_stepE: "node_step hash (rt, w, st) x"

lemma node_step_ok:
  assumes "node_step hash (rt, w, st) (rt', w', st')" and "runtime_ok rt" and "world_ok w"
  shows "runtime_ok rt' \<and> world_ok w'"
  using assms(1)
proof (cases rule: node_step.cases)
  case (turn source)
  with assms runtime_turn_ok show ?thesis by blast
next
  case (network conn)
  with assms connection_step_ok show ?thesis by (auto simp: world_ok_def)
next
  case (actors e db)
  with assms system_step_ok [of "nw_db w" e] show ?thesis by (auto simp: world_ok_def)
next
  case (station msgs b b')
  with assms show ?thesis by (simp add: world_ok_def)
qed

text \<open>Whatever messages, station events, actor schedules, disconnections and role changes a node
  goes through, its connection table stays bounded, its database actors keep their invariant
  (so they never panic and no charge is stuck in them), and the tables of its role stay maps.\<close>

theorem node_resources_in_order:
  assumes "(node_step hash)\<^sup>*\<^sup>* (rt, w, st) (rt', w', st')" and "runtime_ok rt" and "world_ok w"
  shows "connection_ok (nw_conn w') \<and> system_ok (nw_db w') \<and> runtime_ok rt'"
proof -
  have "runtime_ok (fst x') \<and> world_ok (fst (snd x'))"
    if "(node_step hash)\<^sup>*\<^sup>* x x'" "runtime_ok (fst x)" "world_ok (fst (snd x))" for x x'
    using that
  proof (induction rule: rtranclp_induct)
    case (step y z)
    then show ?case using node_step_ok by (metis prod.collapse)
  qed simp
  from this [OF assms(1)] assms(2,3) show ?thesis by (simp add: world_ok_def)
qed

lemma sample_world_ok: "world_ok (snd pair_cluster)"
  using system_new_ok
  by (simp add: world_ok_def pair_cluster_def sample_connection_def connection_ok_def active_ok_def
      hm_len_def)

theorem node_resources_in_order_witness:
  "connection_ok (nw_conn (fst (snd (runtime_turn (\<lambda>a. 0) ElectionTick (RunLeader (fst alone))
     (snd pair_cluster)))))"
proof -
  obtain rt' w' st' where t: "runtime_turn (\<lambda>a. 0) ElectionTick (RunLeader (fst alone)) (snd pair_cluster)
      = (rt', w', st')" by (metis prod_cases3)
  have "node_step (\<lambda>a. 0) (RunLeader (fst alone), snd pair_cluster, NodeRunning) (rt', w', st')"
    by (rule node_step.turn [OF t])
  moreover have "runtime_ok (RunLeader (fst alone))"
    by (simp add: alone_def leader_start_state_def leader_ok_def hm_wf_def)
  ultimately have "connection_ok (nw_conn w')"
    using node_resources_in_order [OF r_into_rtranclp _ sample_world_ok] by blast
  with t show ?thesis by simp
qed

end
