(* ===== verification/Cluster.thy ===== *)
theory Cluster
  imports NodeRuntime "HOL-Library.Sublist"
begin

text \<open>
  A leader and its replicas together, as long as nothing fails: the members stay the same, every
  link delivers in order what its sender's connection accepted, and handlers succeed. The handlers
  are those of \<open>Leader\<close> and \<open>Replica\<close>, called by the dispatchers of \<open>Node\<close>. Clients ask for anything
  at any time, and each database answers the commands it was given in any order, once each. The
  actors do not run here: the mailbox of a node's router is the list of all commands it was given.
\<close>

section \<open>The system\<close>

text \<open>What clients ask for; the other two operations belong to a join.\<close>

fun client_operation :: "operation \<Rightarrow> bool" where
  "client_operation (GetDatabase addr) = False"
| "client_operation (ReplaceDatabase d) = False"
| "client_operation op = True"

definition outbox :: "socket_addr \<Rightarrow> node_world \<Rightarrow> message list" where
  "outbox addr w = map fst (filter (\<lambda>(m, b). b = addr) (sent w))"

record cluster_state =
  cl_leader :: leader_state
  cl_replica :: "socket_addr \<Rightarrow> replica_state"
  cl_read :: "socket_addr \<Rightarrow> nat"
  cl_heard :: "socket_addr \<Rightarrow> nat"
  cl_answered :: "socket_addr \<Rightarrow> u32 set"

definition to_replica :: "socket_addr \<Rightarrow> cluster_state \<Rightarrow> message list" where
  "to_replica a c = outbox a (snd (cl_leader c))"

definition to_leader :: "socket_addr \<Rightarrow> cluster_state \<Rightarrow> message list" where
  "to_leader a c = outbox (rp_leader_addr (fst (cl_replica c a))) (snd (cl_replica c a))"

definition set_replica :: "socket_addr \<Rightarrow> replica_state \<Rightarrow> cluster_state \<Rightarrow> cluster_state" where
  "set_replica a x c = c\<lparr>cl_replica := (cl_replica c)(a := x)\<rparr>"

definition mail_of :: "'s \<times> node_world \<Rightarrow> router_input list" where
  "mail_of x = db_mail (snd x)"

inductive cluster_step :: "(socket_addr \<Rightarrow> u64) \<Rightarrow> socket_addr list \<Rightarrow> cluster_state \<Rightarrow> cluster_state \<Rightarrow> bool"
  for hash members where
  leader_request: "client_operation op \<Longrightarrow>
    handle_node_msg (leader_ops hash) (Request r op addr) (cl_leader c) = (x, Ok NoRoleChange) \<Longrightarrow>
    cluster_step hash members c (c\<lparr>cl_leader := x\<rparr>)"
| leader_charge:
    "handle_station_msg (leader_ops hash) (ChargeRequest account_id card_id amount r) (cl_leader c) =
       (x, Ok NoRoleChange) \<Longrightarrow>
    cluster_step hash members c (c\<lparr>cl_leader := x\<rparr>)"
| leader_result: "client_operation op \<Longrightarrow>
    handle_actor_event (leader_ops hash) (OperationResult i op res success err) (cl_leader c) = (x, Ok ()) \<Longrightarrow>
    RouterCommand (Execute i op) \<in> set (mail_of (cl_leader c)) \<Longrightarrow>
    cluster_step hash members c (c\<lparr>cl_leader := x\<rparr>)"
| leader_hears: "a \<in> set members \<Longrightarrow> cl_heard c a < length (to_leader a c) \<Longrightarrow>
    handle_node_msg (leader_ops hash) (to_leader a c ! cl_heard c a) (cl_leader c) = (x, Ok NoRoleChange) \<Longrightarrow>
    cluster_step hash members c (c\<lparr>cl_leader := x, cl_heard := (cl_heard c)(a := Suc (cl_heard c a))\<rparr>)"
| replica_reads: "a \<in> set members \<Longrightarrow> cl_read c a < length (to_replica a c) \<Longrightarrow>
    handle_node_msg (replica_ops hash) (to_replica a c ! cl_read c a) (cl_replica c a) = (x, Ok NoRoleChange) \<Longrightarrow>
    cluster_step hash members c (set_replica a x (c\<lparr>cl_read := (cl_read c)(a := Suc (cl_read c a))\<rparr>))"
| replica_request: "a \<in> set members \<Longrightarrow> client_operation op \<Longrightarrow>
    handle_node_msg (replica_ops hash) (Request r op addr) (cl_replica c a) = (x, Ok NoRoleChange) \<Longrightarrow>
    cluster_step hash members c (set_replica a x c)"
| replica_charge: "a \<in> set members \<Longrightarrow>
    handle_station_msg (replica_ops hash) (ChargeRequest account_id card_id amount r) (cl_replica c a) =
      (x, Ok NoRoleChange) \<Longrightarrow>
    cluster_step hash members c (set_replica a x c)"
| replica_result: "a \<in> set members \<Longrightarrow>
    RouterCommand (Execute i op) \<in> set (mail_of (cl_replica c a)) \<Longrightarrow> i \<notin> cl_answered c a \<Longrightarrow>
    handle_actor_event (replica_ops hash) (OperationResult i op res success err) (cl_replica c a) = (x, Ok ()) \<Longrightarrow>
    cluster_step hash members c
      (set_replica a x (c\<lparr>cl_answered := (cl_answered c)(a := insert i (cl_answered c a))\<rparr>))"

text \<open>A fresh cluster of at least three: the leader at its first number, nothing sent or received.\<close>

definition cluster_fresh :: "socket_addr list \<Rightarrow> cluster_state \<Rightarrow> bool" where
  "cluster_fresh members c \<longleftrightarrow>
     (let (l, w) = cl_leader c in
        peers (ld_id l) (ld_cluster l) = members \<and> distinct members \<and>
        hm_len (ld_cluster l) = Suc (length members) \<and> 3 \<le> hm_len (ld_cluster l) \<and>
        hm_len (ld_cluster l) < 2 ^ 24 \<and> ld_current_op_id l = 1 \<and> ld_operations l = [] \<and>
        sent w = [] \<and> db_mail w = []) \<and>
     (\<forall>a \<in> set members. cl_read c a = 0 \<and> cl_heard c a = 0 \<and> cl_answered c a = {} \<and>
        rp_operations (fst (cl_replica c a)) = [] \<and> sent (snd (cl_replica c a)) = [] \<and>
        mail_of (cl_replica c a) = [])"

section \<open>Messages and entries\<close>

fun log_of :: "message \<Rightarrow> (u32 \<times> operation) option" where
  "log_of (Log i op) = Some (i, op)"
| "log_of m = None"

fun ack_of :: "message \<Rightarrow> u32 option" where
  "ack_of (Ack i) = Some i"
| "ack_of m = None"

definition logs_in :: "message list \<Rightarrow> (u32 \<times> operation) list" where
  "logs_in ms = List.map_filter log_of ms"

definition acks_in :: "message list \<Rightarrow> u32 list" where
  "acks_in ms = List.map_filter ack_of ms"

definition entries_of :: "operation list \<Rightarrow> (u32 \<times> operation) list" where
  "entries_of L = map (\<lambda>k. (of_nat (Suc k), L ! k)) [0..<length L]"

lemma logs_in_simps [simp]:
  "logs_in [] = []"
  "logs_in (m # ms) = (case log_of m of Some e \<Rightarrow> e # logs_in ms | None \<Rightarrow> logs_in ms)"
  "logs_in (ms @ ms') = logs_in ms @ logs_in ms'"
  by (simp_all add: logs_in_def map_filter_def split: option.split)

lemma acks_in_simps [simp]:
  "acks_in [] = []"
  "acks_in (m # ms) = (case ack_of m of Some e \<Rightarrow> e # acks_in ms | None \<Rightarrow> acks_in ms)"
  "acks_in (ms @ ms') = acks_in ms @ acks_in ms'"
  by (simp_all add: acks_in_def map_filter_def split: option.split)

lemma entries_of_simps [simp]:
  "length (entries_of L) = length L"
  "k < length L \<Longrightarrow> entries_of L ! k = (of_nat (Suc k), L ! k)"
  "entries_of (L @ [op]) = entries_of L @ [(of_nat (Suc (length L)), op)]"
  "entries_of [] = []"
  by (simp_all add: entries_of_def nth_append del: of_nat_Suc)

lemma outbox_append [simp]:
  "sent w' = sent w @ ms \<Longrightarrow> outbox a w' = outbox a w @ map fst (filter (\<lambda>(m, b). b = a) ms)"
  by (simp add: outbox_def)

lemma outbox_to_all:
  assumes "sent w' = sent w @ map (Pair m) members" "distinct members" "a \<in> set members"
  shows "outbox a w' = outbox a w @ [m]"
proof -
  have "map fst (filter (\<lambda>(x, b). b = a) (map (Pair m) members)) = [m]"
    using assms(2,3) by (induction members) (auto simp: filter_empty_conv o_def)
  then show ?thesis using assms(1) by simp
qed


lemma unat_u32: "unat (i :: u32) < 2 ^ 32"
  using unsigned_less [of i, where ?'a = nat] by simp

section \<open>What the handlers change\<close>

lemma leader_request_ok:
  assumes "hm_len (ld_cluster l) \<noteq> 1" and "leader_handle_request r op addr (l, w) = ((l', w'), Ok ())"
  shows "l' = l\<lparr>ld_operations := hm_insert (ld_current_op_id l) (pending_new op addr r) (ld_operations l),
      ld_current_op_id := ld_current_op_id l + 1\<rparr>"
    and "only_sent w w' (map (Pair (Log (ld_current_op_id l) op)) (peers (ld_id l) (ld_cluster l)))"
    and "unat (ld_current_op_id l + 1) = Suc (unat (ld_current_op_id l))"
proof -
  let ?n = "ld_current_op_id l"
  let ?l = "l\<lparr>ld_operations := hm_insert ?n (pending_new op addr r) (ld_operations l)\<rparr>"
  obtain w1 r1 where s: "send_to_peers (ld_id l) (Log ?n op) (ld_cluster l) w = (w1, r1)"
    by (rule prod.exhaust)
  with assms have r: "r1 = Ok ()" and w: "w' = w1" "l' = ?l\<lparr>ld_current_op_id := ?n + 1\<rparr>"
    and max: "unat ?n \<noteq> 2 ^ 32 - 1"
    by (cases r1; auto simp: leader_handle_request_def Let_def on_world_def split: if_splits)+
  show "l' = l\<lparr>ld_operations := hm_insert ?n (pending_new op addr r) (ld_operations l),
      ld_current_op_id := ?n + 1\<rparr>" using w(2) by simp
  from send_to_peers_spec [OF s] r w(1) show
    "only_sent w w' (map (Pair (Log ?n op)) (peers (ld_id l) (ld_cluster l)))" by auto
  from max unat_u32 [of ?n] have "unat ?n + 1 < 2 ^ 32" by simp
  then show "unat (?n + 1) = Suc (unat ?n)" by (simp add: unat_word_ariths)
qed

lemma leader_charge_cases:
  assumes "handle_station_msg (leader_ops hash) (ChargeRequest account_id card_id amount r) (l, w) =
      ((l', w'), Ok NoRoleChange)"
  obtains (offline) q ms where "l' = l\<lparr>ld_offline_queue := q\<rparr>" "w' = w\<lparr>nw_to_station := ms\<rparr>"
    | (online) "leader_handle_request r (Charge account_id card_id amount False) (ld_address l) (l, w) =
        ((l', w'), Ok ())"
proof (cases "ld_is_offline l")
  case True
  with assms show ?thesis
    by (intro offline [of "ld_offline_queue l @ [Charge account_id card_id amount True]" "nw_to_station w'"])
      (auto simp: handle_charge_request_def leader_ops_def Let_def on_world_def station_send_def
        split: if_splits)
next
  case False
  obtain y z where y: "leader_handle_request r (Charge account_id card_id amount False) (ld_address l) (l, w) = (y, z)"
    by (rule prod.exhaust)
  with False assms show ?thesis
    by (intro online) (cases z; auto simp: handle_charge_request_def leader_ops_def)
qed

lemma leader_result_frame:
  assumes "client_operation op"
    and "handle_actor_event (leader_ops hash) (OperationResult i op res success err) (l, w) = ((l', w'), Ok ())"
  shows "(l' = l \<or> l' = l\<lparr>ld_operations := hm_remove i (ld_operations l)\<rparr>) \<and> nw_db w' = nw_db w \<and>
    (\<exists>ms. sent w' = sent w @ ms \<and> (\<forall>(m, b) \<in> set ms. \<exists>k v. m = Response k v))"
proof -
  have ans: "\<exists>ms. fst (fst (leader_answer op res p (l1, w))) = l1 \<and>
      nw_db (snd (fst (leader_answer op res p (l1, w)))) = nw_db w \<and>
      sent (snd (fst (leader_answer op res p (l1, w)))) = sent w @ ms \<and>
      (\<forall>(m, b) \<in> set ms. \<exists>k v. m = Response k v)" for p l1
  proof -
    obtain w1 r1 where s: "net_send (Response (po_request_id p) res) (po_client_addr p) w = (w1, r1)"
      by (rule prod.exhaust)
    note f = only_sent_fields [OF net_send_only [OF s]]
    show ?thesis
      using s f by (cases "is_ok r1")
        (auto simp: leader_answer_def on_world_def station_send_def Let_def
          split: prod.splits operation.splits operation_result.splits)
  qed
  obtain y z where y: "leader_handle_operation_result i op res (l, w) = (y, z)" by (rule prod.exhaust)
  with assms(2) have y': "y = (l', w')" and z: "z \<noteq> Panicked"
    by (cases z rule: sum.exhaust; auto simp: leader_ops_def elim!: ignore_error.elims)+
  obtain p where p: "(if i \<noteq> 0 then hm_get (ld_operations l) i else Some (pending_new op (ld_address l) 0)) = Some p"
    using y z by (auto split: if_splits option.splits)
  let ?l1 = "if i \<noteq> 0 then l\<lparr>ld_operations := hm_remove i (ld_operations l)\<rparr> else l"
  have "leader_handle_operation_result i op res (l, w) = leader_answer op res p (?l1, w)"
    using p assms(1) by (cases "i = 0"; cases op) simp_all
  then have "leader_answer op res p (?l1, w) = ((l', w'), z)" using y y' by simp
  with ans [of p ?l1] obtain ms where "l' = ?l1" "nw_db w' = nw_db w" "sent w' = sent w @ ms"
    "\<forall>(m, b) \<in> set ms. \<exists>k v. m = Response k v" by auto
  then show ?thesis by (cases "i = 0") auto
qed

lemma replica_request_frame:
  assumes "replica_handle_request r op addr (rp, w) = ((rp', w'), z)"
  shows "rp' = rp \<and> only_sent w w' (if is_ok z then [(Request r op addr, rp_leader_addr rp)] else [])"
proof -
  obtain w1 r1 where s: "net_send (Request r op addr) (rp_leader_addr rp) w = (w1, r1)" by (rule prod.exhaust)
  with assms net_send_only [OF s] show ?thesis by (auto simp: replica_handle_request_def on_world_def)
qed

lemma replica_charge_cases:
  assumes "handle_station_msg (replica_ops hash) (ChargeRequest account_id card_id amount r) (rp, w) =
      ((rp', w'), Ok NoRoleChange)"
  obtains (offline) q ms where "rp' = rp\<lparr>rp_offline_queue := q\<rparr>" "w' = w\<lparr>nw_to_station := ms\<rparr>"
    | (online) "replica_handle_request r (Charge account_id card_id amount False) (rp_address rp) (rp, w) =
        ((rp', w'), Ok ())"
proof (cases "rp_is_offline rp")
  case True
  with assms show ?thesis
    by (intro offline [of "rp_offline_queue rp @ [Charge account_id card_id amount True]" "nw_to_station w'"])
      (auto simp: handle_charge_request_def replica_ops_def Let_def on_world_def station_send_def
        split: if_splits)
next
  case False
  obtain y z where y: "replica_handle_request r (Charge account_id card_id amount False) (rp_address rp) (rp, w) = (y, z)"
    by (rule prod.exhaust)
  with False assms show ?thesis
    by (intro online) (cases z; auto simp: handle_charge_request_def replica_ops_def)
qed

lemma replica_result_frame:
  assumes "client_operation op"
    and "handle_actor_event (replica_ops hash) (OperationResult i op res success err) (rp, w) = ((rp', w'), Ok ())"
  shows "rp' = rp \<and> unat (i + 1) = Suc (unat i) \<and>
    (only_sent w w' [] \<or> only_sent w w' [(Ack (i + 1), rp_leader_addr rp)])"
proof -
  obtain w1 r1 where s: "net_send (Ack (i + 1)) (rp_leader_addr rp) w = (w1, r1)" by (rule prod.exhaust)
  have h: "replica_handle_operation_result i op res (rp, w) =
      (if unat i = 2 ^ 32 - 1 then ((rp, w), Panicked) else ((rp, w1), r1))"
    using s assms(1) by (cases op) (simp_all add: replica_handle_operation_result_def on_world_def)
  with assms(2) have max: "unat i \<noteq> 2 ^ 32 - 1" by (auto simp: replica_ops_def)
  then have "((rp', w'), Ok ()) = ignore_error ((rp, w1), r1)" using assms(2) h by (simp add: replica_ops_def)
  then have "(rp', w') = (rp, w1)" by (metis fst_conv fst_ignore_error)
  moreover have "unat (i + 1) = Suc (unat i)"
    using max unat_u32 [of i] by (simp add: unat_word_ariths)
  ultimately show ?thesis using net_send_only [OF s] by (auto split: if_splits)
qed


section \<open>The invariant\<close>

fun leader_msg :: "message \<Rightarrow> bool" where
  "leader_msg (Log i op) = True"
| "leader_msg (Response r res) = True"
| "leader_msg m = False"

fun replica_msg :: "message \<Rightarrow> bool" where
  "replica_msg (Ack i) = True"
| "replica_msg (Request r op addr) = client_operation op"
| "replica_msg m = False"

definition received :: "socket_addr \<Rightarrow> cluster_state \<Rightarrow> nat" where
  "received a c = length (logs_in (take (cl_read c a) (to_replica a c)))"

definition ackers :: "socket_addr list \<Rightarrow> cluster_state \<Rightarrow> u32 \<Rightarrow> socket_addr set" where
  "ackers members c i = {a \<in> set members. i \<in> set (acks_in (take (cl_heard c a) (to_leader a c)))}"

text \<open>The leader: every member was sent the log \<open>L\<close>, and what is pending is in the log.\<close>

definition leader_inv :: "socket_addr list \<Rightarrow> operation list \<Rightarrow> leader_state \<Rightarrow> bool" where
  "leader_inv members L x \<longleftrightarrow>
     (let (l, w) = x in
        peers (ld_id l) (ld_cluster l) = members \<and> distinct members \<and>
        hm_len (ld_cluster l) = Suc (length members) \<and> 2 \<le> length members \<and>
        Suc (length members) < 2 ^ 24 \<and>
        unat (ld_current_op_id l) = Suc (length L) \<and> list_all client_operation L \<and>
        (\<forall>a \<in> set members. logs_in (outbox a w) = entries_of L \<and> list_all leader_msg (outbox a w)) \<and>
        (\<forall>i p. hm_get (ld_operations l) i = Some p \<longrightarrow> (i, po_op p) \<in> set (entries_of L)))"

text \<open>A replica that read \<open>m\<close> entries: all but the last went to its database, the last is kept; it
  acknowledged entries it read, each once.\<close>

definition replica_inv :: "operation list \<Rightarrow> nat \<Rightarrow> u32 set \<Rightarrow> replica_state \<Rightarrow> bool" where
  "replica_inv L m answered x \<longleftrightarrow>
     (let (rp, w) = x; out = outbox (rp_leader_addr rp) w in
        m \<le> length L \<and> db_mail w = executes 1 (take (m - 1) L) \<and>
        (0 < m \<longrightarrow> hm_get (rp_operations rp) (of_nat m) = Some (L ! (m - 1))) \<and>
        list_all replica_msg out \<and> distinct (acks_in out) \<and>
        (\<forall>i \<in> set (acks_in out). 0 < unat i \<and> unat i \<le> m \<and> (i \<noteq> 1 \<longrightarrow> i - 1 \<in> answered)))"

text \<open>The leader's database: entries of the log, each once and only on enough acknowledgements.\<close>

definition votes_inv :: "socket_addr list \<Rightarrow> operation list \<Rightarrow> cluster_state \<Rightarrow> bool" where
  "votes_inv members L c \<longleftrightarrow>
     (let (l, w) = cl_leader c; quorum = Suc (length members) div 2 in
        distinct (db_mail w) \<and>
        (\<forall>cmd \<in> set (db_mail w). \<exists>i op. cmd = RouterCommand (Execute i op) \<and>
           (i, op) \<in> set (entries_of L) \<and> quorum \<le> card (ackers members c i)) \<and>
        (\<forall>i p. hm_get (ld_operations l) i = Some p \<longrightarrow> po_ack_count p = card (ackers members c i) \<and>
           (RouterCommand (Execute i (po_op p)) \<in> set (db_mail w) \<longleftrightarrow> quorum \<le> po_ack_count p)))"

definition cluster_inv :: "socket_addr list \<Rightarrow> operation list \<Rightarrow> cluster_state \<Rightarrow> bool" where
  "cluster_inv members L c \<longleftrightarrow> leader_inv members L (cl_leader c) \<and>
     (\<forall>a \<in> set members. cl_read c a \<le> length (to_replica a c) \<and> cl_heard c a \<le> length (to_leader a c) \<and>
        replica_inv L (received a c) (cl_answered c a) (cl_replica c a)) \<and>
     votes_inv members L c"

lemma entries_of_mem:
  assumes "length L < 2 ^ 32 - 1"
  shows "(i, op) \<in> set (entries_of L) \<longleftrightarrow> 0 < unat i \<and> unat i \<le> length L \<and> L ! (unat i - 1) = op"
proof
  assume "(i, op) \<in> set (entries_of L)"
  then obtain k where k: "k < length L" "i = of_nat (Suc k)" "op = L ! k" by (auto simp: entries_of_def)
  then have "unat i = Suc k" using assms by (simp add: unat_of_nat_u32 del: of_nat_Suc)
  with k show "0 < unat i \<and> unat i \<le> length L \<and> L ! (unat i - 1) = op" by simp
next
  assume a: "0 < unat i \<and> unat i \<le> length L \<and> L ! (unat i - 1) = op"
  have "i = of_nat (Suc (unat i - 1))" using a by (simp del: of_nat_Suc)
  with a have "(i, op) = (of_nat (Suc (unat i - 1)), L ! (unat i - 1))" "unat i - 1 \<in> set [0..<length L]"
    by (simp_all del: of_nat_Suc) linarith
  then show "(i, op) \<in> set (entries_of L)" unfolding entries_of_def set_map by (rule image_eqI)
qed

lemma executes_snoc: "executes n (ops @ [op]) = executes n ops @ [RouterCommand (Execute (of_nat (n + length ops)) op)]"
  by (induction ops arbitrary: n) simp_all

lemma executes_append: "executes n (xs @ ys) = executes n xs @ executes (n + length xs) ys"
  by (induction xs arbitrary: n) simp_all

lemma executes_take_prefix: "prefix (executes n (take k L)) (executes n L)"
  by (metis append_take_drop_id executes_append prefixI)

lemma executes_entries: "executes 1 L = map (\<lambda>(i, op). RouterCommand (Execute i op)) (entries_of L)"
  by (rule nth_equalityI) (simp_all add: executes_def del: upt_Suc)

lemma executes_mem:
  assumes "RouterCommand (Execute i op) \<in> set (executes 1 (take k L))" "k \<le> length L" "length L < 2 ^ 32 - 1"
  shows "0 < unat i \<and> unat i \<le> k \<and> L ! (unat i - 1) = op"
proof -
  from assms(1) obtain j where j: "j < k" "i = of_nat (Suc j)" "op = L ! j"
    using assms(2) by (auto simp: executes_def set_zip nth_upt simp del: upt_Suc of_nat_Suc)
  then have "unat i = Suc j" using assms(2,3) by (simp add: unat_of_nat_u32 del: of_nat_Suc)
  with j show ?thesis by simp
qed

section \<open>Replica steps\<close>

lemma replica_invD:
  assumes "replica_inv L m A (rp, w)"
  shows "m \<le> length L" "db_mail w = executes 1 (take (m - 1) L)"
    "0 < m \<Longrightarrow> hm_get (rp_operations rp) (of_nat m) = Some (L ! (m - 1))"
    "list_all replica_msg (outbox (rp_leader_addr rp) w)" "distinct (acks_in (outbox (rp_leader_addr rp) w))"
    "i \<in> set (acks_in (outbox (rp_leader_addr rp) w)) \<Longrightarrow>
       0 < unat i \<and> unat i \<le> m \<and> (i \<noteq> 1 \<longrightarrow> i - 1 \<in> A)"
  using assms by (simp_all add: replica_inv_def Let_def)

lemma replica_inv_mono:
  assumes "replica_inv L m A x" shows "replica_inv (L @ ops) m A x"
proof -
  obtain rp w where x: "x = (rp, w)" by (rule prod.exhaust)
  then have "m \<le> length L" using replica_invD(1) assms by simp
  then have "take (m - 1) (L @ ops) = take (m - 1) L" "0 < m \<Longrightarrow> (L @ ops) ! (m - 1) = L ! (m - 1)"
    by (auto simp: nth_append)
  with assms x \<open>m \<le> length L\<close> show ?thesis by (simp add: replica_inv_def Let_def)
qed

lemma replica_inv_sends:
  assumes "replica_inv L m A (rp, w)" and "only_sent w w' ms"
    and "\<forall>(m, b) \<in> set ms. \<exists>r op addr. m = Request r op addr \<and> client_operation op"
  shows "replica_inv L m A (rp, w')"
proof -
  have "list_all replica_msg (map fst (filter (\<lambda>(m, b). b = rp_leader_addr rp) ms)) \<and>
      acks_in (map fst (filter (\<lambda>(m, b). b = rp_leader_addr rp) ms)) = []"
    using assms(3) by (induction ms) auto
  with assms(1) only_sent_fields [OF assms(2)] show ?thesis
    by (simp add: replica_inv_def Let_def)
qed

lemma replica_inv_other:
  assumes "replica_inv L m A (rp, w)" and "nw_db w' = nw_db w" "nw_conn w' = nw_conn w"
    and "rp_operations rp' = rp_operations rp" "rp_leader_addr rp' = rp_leader_addr rp"
  shows "replica_inv L m A (rp', w')"
  using assms by (simp add: replica_inv_def outbox_def Let_def)

lemma replica_inv_log:
  assumes inv: "replica_inv L m A (rp, w)" and m: "m < length L" and L: "length L < 2 ^ 32 - 1"
    and step: "replica_handle_log (of_nat (Suc m)) (L ! m) (rp, w) = ((rp', w'), r)"
  shows "replica_inv L (Suc m) A (rp', w')" "rp_leader_addr rp' = rp_leader_addr rp"
    "\<exists>ms. sent w' = sent w @ ms"
proof -
  let ?i = "of_nat (Suc m) :: u32"
  have u: "unat ?i = Suc m" using m L by (simp add: unat_of_nat_u32 del: of_nat_Suc)
  let ?rp = "rp\<lparr>rp_operations := hm_insert ?i (L ! m) (rp_operations rp)\<rparr>"
  have "replica_inv L (Suc m) A (rp', w') \<and> rp_leader_addr rp' = rp_leader_addr rp \<and> (\<exists>ms. sent w' = sent w @ ms)"
  proof (cases "m = 0")
    case True
    obtain w1 r1 where s: "net_send (Ack 1) (rp_leader_addr rp) w = (w1, r1)" by (rule prod.exhaust)
    note f = only_sent_fields [OF net_send_only [OF s]]
    have e: "rp' = ?rp" "w' = w1"
      using step s True by (simp_all add: replica_handle_log_def on_world_def)
    have none: "acks_in (outbox (rp_leader_addr rp) w) = []"
      using replica_invD(6) [OF inv, of "hd (acks_in (outbox (rp_leader_addr rp) w))"] True
      by (metis hd_in_set le_zero_eq less_numeral_extra(3))
    have "acks_in (outbox (rp_leader_addr rp) w1) = (if is_ok r1 then [1] else [])"
      using none by (simp add: outbox_append [OF f(7)])
    moreover have "list_all replica_msg (outbox (rp_leader_addr rp) w1)"
      using inv by (simp add: outbox_append [OF f(7)] replica_inv_def Let_def)
    ultimately show ?thesis
      using inv e f(1,7) True m by (auto simp: replica_inv_def Let_def) (simp add: Suc_leI)
  next
    case False
    have um: "unat (of_nat m :: u32) = m" using m L by (simp add: unat_of_nat_u32)
    have ne: "?i \<noteq> 1" "?i \<noteq> 0" "of_nat m \<noteq> ?i"
    proof -
      show "?i \<noteq> 1" using arg_cong [of ?i 1 unat] u False by (auto simp del: of_nat_Suc)
      show "?i \<noteq> 0" using arg_cong [of ?i 0 unat] u by (auto simp del: of_nat_Suc)
      show "of_nat m \<noteq> ?i" using arg_cong [of "of_nat m" ?i unat] u um by (metis n_not_Suc_n)
    qed
    have get: "hm_get (rp_operations ?rp) (of_nat m) = Some (L ! (m - 1))"
      using inv False ne by (simp add: replica_inv_def hm.get_insert Let_def del: of_nat_Suc)
    have e: "rp' = ?rp\<lparr>rp_operations := hm_remove (of_nat m) (rp_operations ?rp)\<rparr>"
      "w' = db_send (of_nat m) (L ! (m - 1)) w"
      using step ne get by (simp_all add: replica_handle_log_def replica_commit_operation_def Let_def del: of_nat_Suc)
        (simp_all)
    have "take m L = take (m - 1) L @ [L ! (m - 1)]"
      using False m by (metis Suc_pred' less_imp_diff_less neq0_conv take_Suc_conv_app_nth)
    then have "executes 1 (take m L) = executes 1 (take (m - 1) L) @ [RouterCommand (Execute (of_nat m) (L ! (m - 1)))]"
      using False m by (simp add: executes_snoc)
    then show ?thesis
      using inv e ne m by (auto simp: replica_inv_def hm.get_insert hm.get_remove outbox_def Let_def simp del: of_nat_Suc)
  qed
  then show "replica_inv L (Suc m) A (rp', w')" "rp_leader_addr rp' = rp_leader_addr rp"
    "\<exists>ms. sent w' = sent w @ ms" by blast+
qed


lemma replica_inv_ack:
  assumes inv: "replica_inv L m A (rp, w)" and L: "length L < 2 ^ 32 - 1"
    and cmd: "RouterCommand (Execute i op) \<in> set (db_mail w)" and new: "i \<notin> A"
    and w: "only_sent w w' [] \<or> only_sent w w' [(Ack (i + 1), rp_leader_addr rp)]"
    and i: "unat (i + 1) = Suc (unat i)"
  shows "replica_inv L m (insert i A) (rp, w')"
proof -
  note D = replica_invD [OF inv]
  let ?out = "outbox (rp_leader_addr rp) w"
  have e: "0 < unat i" "unat i \<le> m - 1" using executes_mem [of i op "m - 1" L] cmd D(1,2) L by auto
  have "i + 1 \<noteq> 1" using e(1) by auto
  then have fresh: "i + 1 \<notin> set (acks_in ?out)" using D(6) [of "i + 1"] new by auto
  from w show ?thesis
  proof
    assume "only_sent w w' []"
    from only_sent_fields(1,7) [OF this] inv show ?thesis by (auto simp: replica_inv_def Let_def outbox_def)
  next
    assume "only_sent w w' [(Ack (i + 1), rp_leader_addr rp)]"
    note f = only_sent_fields(1,7) [OF this]
    have "outbox (rp_leader_addr rp) w' = ?out @ [Ack (i + 1)]" using f(2) by simp
    with inv f(1) fresh e i show ?thesis by (auto simp: replica_inv_def Let_def)
  qed
qed

section \<open>One node moves\<close>

lemma to_replica_leader:
  "sent (snd x) = sent (snd (cl_leader c)) @ ms \<Longrightarrow>
     \<exists>more. to_replica a (c\<lparr>cl_leader := x\<rparr>) = to_replica a c @ more"
  by (simp add: to_replica_def outbox_def)

lemma leader_moves:
  assumes inv: "cluster_inv members L c" and "leader_inv members (L @ ops) x"
    and ms: "sent (snd x) = sent (snd (cl_leader c)) @ ms"
    and heard: "\<forall>a \<in> set members. heard a \<le> length (to_leader a c)"
    and "votes_inv members (L @ ops) (c\<lparr>cl_leader := x, cl_heard := heard\<rparr>)"
  shows "cluster_inv members (L @ ops) (c\<lparr>cl_leader := x, cl_heard := heard\<rparr>)"
proof -
  let ?c = "c\<lparr>cl_leader := x, cl_heard := heard\<rparr>"
  have "cl_read ?c a \<le> length (to_replica a ?c) \<and> cl_heard ?c a \<le> length (to_leader a ?c) \<and>
      replica_inv (L @ ops) (received a ?c) (cl_answered ?c a) (cl_replica ?c a)" if a: "a \<in> set members" for a
  proof -
    from inv a have i: "cl_read c a \<le> length (to_replica a c)"
      "replica_inv L (received a c) (cl_answered c a) (cl_replica c a)" by (simp_all add: cluster_inv_def)
    obtain more where "to_replica a ?c = to_replica a c @ more"
      using to_replica_leader [OF ms, of a] by (auto simp: to_replica_def)
    then have "cl_read ?c a \<le> length (to_replica a ?c)" "received a ?c = received a c"
      using i(1) by (simp_all add: received_def)
    with replica_inv_mono [OF i(2)] heard a show ?thesis by (simp add: to_leader_def)
  qed
  with assms(2,5) show ?thesis by (simp add: cluster_inv_def)
qed

lemma replica_moves:
  assumes inv: "cluster_inv members L c" and a: "a \<in> set members"
    and addr: "rp_leader_addr (fst x) = rp_leader_addr (fst (cl_replica c a))"
    and ms: "sent (snd x) = sent (snd (cl_replica c a)) @ ms"
    and k: "k \<le> length (to_replica a c)"
    and r: "replica_inv L (length (logs_in (take k (to_replica a c)))) A x"
  shows "cluster_inv members L
    (set_replica a x (c\<lparr>cl_read := (cl_read c)(a := k), cl_answered := (cl_answered c)(a := A)\<rparr>))"
    (is "cluster_inv members L ?c")
proof -
  have same: "to_replica b ?c = to_replica b c" for b by (simp add: to_replica_def set_replica_def)
  have "\<exists>more. to_leader b ?c = to_leader b c @ more" for b
    using addr ms by (simp add: to_leader_def set_replica_def outbox_def)
  moreover have heard: "cl_heard c b \<le> length (to_leader b c)" if "b \<in> set members" for b
    using inv that by (simp add: cluster_inv_def)
  ultimately have t: "take (cl_heard c b) (to_leader b ?c) = take (cl_heard c b) (to_leader b c)"
      "cl_heard c b \<le> length (to_leader b ?c)" if "b \<in> set members" for b
    using that by (metis append_eq_append_conv_if append_take_drop_id take_append diff_is_0_eq take_0 append_Nil2,
      metis length_append trans_le_add1)
  have f: "cl_heard ?c = cl_heard c" "cl_leader ?c = cl_leader c" by (simp_all add: set_replica_def)
  have "ackers members ?c i = ackers members c i" for i
    unfolding ackers_def f using t(1) by auto
  then have "votes_inv members L ?c" using inv f by (simp add: votes_inv_def cluster_inv_def)
  moreover have "replica_inv L (received b ?c) (cl_answered ?c b) (cl_replica ?c b)" "cl_read ?c b \<le> length (to_replica b ?c)"
    if "b \<in> set members" for b
    using inv r k that unfolding received_def same by (auto simp: set_replica_def cluster_inv_def received_def)
  ultimately show ?thesis using inv t(2) f by (simp add: cluster_inv_def)
qed


section \<open>Leader steps\<close>

lemma leader_invD:
  assumes "leader_inv members L (l, w)"
  shows "peers (ld_id l) (ld_cluster l) = members" "distinct members"
    "hm_len (ld_cluster l) = Suc (length members)" "2 \<le> length members" "Suc (length members) < 2 ^ 24"
    "unat (ld_current_op_id l) = Suc (length L)" "list_all client_operation L"
    "a \<in> set members \<Longrightarrow> logs_in (outbox a w) = entries_of L"
    "a \<in> set members \<Longrightarrow> list_all leader_msg (outbox a w)"
    "hm_get (ld_operations l) i = Some p \<Longrightarrow> (i, po_op p) \<in> set (entries_of L)"
  using assms by (simp_all add: leader_inv_def)

lemma leader_inv_short: "leader_inv members L (l, w) \<Longrightarrow> length L < 2 ^ 32 - 1"
  using leader_invD(6) [of members L l w] unat_u32 [of "ld_current_op_id l"] by simp

lemma leader_inv_other:
  assumes "leader_inv members L (l, w)" and "sent w' = sent w @ ms" "\<forall>(m, b) \<in> set ms. \<exists>k v. m = Response k v"
    and "ld_id l' = ld_id l" "ld_cluster l' = ld_cluster l" "ld_current_op_id l' = ld_current_op_id l"
    and "\<And>i p. hm_get (ld_operations l') i = Some p \<Longrightarrow>
      \<exists>p'. hm_get (ld_operations l) i = Some p' \<and> po_op p' = po_op p"
  shows "leader_inv members L (l', w')"
proof -
  have "logs_in (outbox a w') = logs_in (outbox a w) \<and>
      list_all leader_msg (outbox a w') = list_all leader_msg (outbox a w)" for a
    using assms(3) unfolding outbox_append [OF assms(2)] by (induction ms) auto
  moreover have "(i, po_op p) \<in> set (entries_of L)" if "hm_get (ld_operations l') i = Some p" for i p
    using assms(7) [OF that] leader_invD(10) [OF assms(1)] by metis
  ultimately show ?thesis using assms(1,4-6) by (simp add: leader_inv_def)
qed

lemma leader_inv_request:
  assumes inv: "leader_inv members L (l, w)" and op: "client_operation op"
    and step: "leader_handle_request r op addr (l, w) = ((l', w'), Ok ())"
  shows "leader_inv members (L @ [op]) (l', w')" "nw_db w' = nw_db w" "\<exists>ms. sent w' = sent w @ ms"
proof -
  note D = leader_invD [OF inv]
  have "hm_len (ld_cluster l) \<noteq> 1" using D(3,4) by auto
  note R = leader_request_ok [OF this step]
  note f = only_sent_fields [OF R(2)]
  let ?n = "ld_current_op_id l"
  have n: "?n = of_nat (Suc (length L))" using arg_cong [OF D(6), of "of_nat :: nat \<Rightarrow> u32"] by simp
  have out: "outbox a w' = outbox a w @ [Log ?n op]" if "a \<in> set members" for a
    using outbox_to_all [of w' w "Log ?n op" members a] f(7) D(1,2) that by simp
  have "(i, po_op p) \<in> set (entries_of (L @ [op]))" if "hm_get (ld_operations l') i = Some p" for i p
    using that D(10) [of i p] n unfolding R(1) by (auto simp: hm.get_insert pending_new_def split: if_splits)
  moreover have "logs_in (outbox a w') = entries_of (L @ [op]) \<and> list_all leader_msg (outbox a w')"
    if "a \<in> set members" for a
    using out [OF that] D(8,9) [OF that] n by (simp del: of_nat_Suc)
  ultimately show "leader_inv members (L @ [op]) (l', w')"
    using D(1-7) R(3) op unfolding leader_inv_def R(1) by simp
  show "nw_db w' = nw_db w" "\<exists>ms. sent w' = sent w @ ms" using f(1,7) by blast+
qed

lemma leader_ack_cases:
  assumes inv: "leader_inv members L (l, w)"
  shows "leader_handle_ack i (l, w) =
    (case hm_get (ld_operations l) i of
       None \<Rightarrow> ((l, w), Ok ())
     | Some p \<Rightarrow>
         ((l\<lparr>ld_operations := hm_insert i (p\<lparr>po_ack_count := po_ack_count p + 1\<rparr>) (ld_operations l)\<rparr>,
           if po_ack_count p + 1 = Suc (length members) div 2 then db_send i (po_op p) w else w), Ok ()))"
proof -
  note D = leader_invD [OF inv]
  have "ack_quorum (hm_len (ld_cluster l)) = Suc (length members) div 2"
    using ack_quorum_half [of "hm_len (ld_cluster l)"] D(3,5) by simp
  then show ?thesis using D(3,4) by (auto simp: leader_handle_ack_def Let_def split: option.split)
qed

section \<open>Votes\<close>

lemma votes_invD:
  assumes "votes_inv members L c" and "cl_leader c = (l, w)"
  shows "distinct (db_mail w)"
    "cmd \<in> set (db_mail w) \<Longrightarrow> \<exists>i op. cmd = RouterCommand (Execute i op) \<and> (i, op) \<in> set (entries_of L) \<and>
       Suc (length members) div 2 \<le> card (ackers members c i)"
    "hm_get (ld_operations l) i = Some p \<Longrightarrow> po_ack_count p = card (ackers members c i) \<and>
       (RouterCommand (Execute i (po_op p)) \<in> set (db_mail w) \<longleftrightarrow> Suc (length members) div 2 \<le> po_ack_count p)"
  using assms by (simp_all add: votes_inv_def Let_def)

lemma votes_inv_other:
  assumes "votes_inv members L c" and "cl_leader c = (l, w)" and "cl_leader c' = (l', w')"
    and "nw_db w' = nw_db w" and "\<And>i p. hm_get (ld_operations l') i = Some p \<Longrightarrow> hm_get (ld_operations l) i = Some p"
    and "\<And>i. ackers members c' i = ackers members c i"
  shows "votes_inv members L c'"
  using votes_invD [OF assms(1,2)] assms(3-6) by (fastforce simp: votes_inv_def Let_def)

lemma acks_received:
  assumes "cluster_inv members L c" and "i \<in> set (acks_in (to_leader a c))" "a \<in> set members"
  shows "0 < unat i \<and> unat i \<le> received a c \<and> received a c \<le> length L"
proof -
  obtain rp w where r: "cl_replica c a = (rp, w)" by (rule prod.exhaust)
  with assms(1,3) have "replica_inv L (received a c) (cl_answered c a) (rp, w)"
    by (auto simp: cluster_inv_def)
  from replica_invD(1,6) [OF this] assms(2) r show ?thesis by (auto simp: to_leader_def)
qed

lemma acks_in_take: "set (acks_in (take k ms)) \<subseteq> set (acks_in ms)"
  by (metis acks_in_simps(3) append_take_drop_id set_append Un_upper1)

lemma votes_inv_request:
  assumes inv: "cluster_inv members L c" and c: "cl_leader c = (l, w)" and op: "client_operation op"
    and step: "leader_handle_request r op addr (l, w) = ((l', w'), Ok ())"
    and c': "cl_leader c' = (l', w')" and same: "\<And>i. ackers members c' i = ackers members c i"
  shows "votes_inv members (L @ [op]) c'"
proof -
  from inv c have li: "leader_inv members L (l, w)" and vi: "votes_inv members L c"
    by (simp_all add: cluster_inv_def)
  note D = leader_invD [OF li] and V = votes_invD [OF vi c]
  have "hm_len (ld_cluster l) \<noteq> 1" using D(3,4) by auto
  note R = leader_request_ok [OF this step]
  have db: "nw_db w' = nw_db w" using only_sent_fields(1) [OF R(2)] .
  let ?n = "ld_current_op_id l"
  have none: "ackers members c ?n = {}"
    using acks_received [OF inv] acks_in_take D(6) by (fastforce simp: ackers_def)
  have "(?n, x) \<notin> set (entries_of L)" for x
    using entries_of_mem [OF leader_inv_short [OF li]] D(6) by simp
  then have new: "RouterCommand (Execute ?n x) \<notin> set (db_mail w)" for x using V(2) by blast
  have quorum: "0 < Suc (length members) div 2" using D(4) by simp
  have "po_ack_count p = card (ackers members c i) \<and>
      (RouterCommand (Execute i (po_op p)) \<in> set (db_mail w) \<longleftrightarrow> Suc (length members) div 2 \<le> po_ack_count p)"
    if "hm_get (ld_operations l') i = Some p" for i p
  proof (cases "i = ?n")
    case True
    with that have "p = pending_new op addr r" unfolding R(1) by simp
    with True none new quorum show ?thesis by (simp add: pending_new_def)
  next
    case False
    with that have "hm_get (ld_operations l) i = Some p" unfolding R(1) by (simp add: hm.get_insert)
    then show ?thesis by (rule V(3))
  qed
  moreover have "\<exists>i x. cmd = RouterCommand (Execute i x) \<and> (i, x) \<in> set (entries_of (L @ [op])) \<and>
      Suc (length members) div 2 \<le> card (ackers members c i)" if "cmd \<in> set (db_mail w)" for cmd
    using V(2) [OF that] by auto
  ultimately show ?thesis using V(1) db by (simp add: votes_inv_def c' same Let_def)
qed


text \<open>Reading an acknowledgement adds its sender to the voters.\<close>

lemma ackers_hear:
  assumes inv: "cluster_inv members L c" and a: "a \<in> set members"
    and k: "cl_heard c a < length (to_leader a c)" and m: "to_leader a c ! cl_heard c a = Ack i"
  shows "a \<notin> ackers members c i"
    "ackers members (c\<lparr>cl_leader := x, cl_heard := (cl_heard c)(a := Suc (cl_heard c a))\<rparr>) j =
       (if j = i then insert a (ackers members c i) else ackers members c j)"
proof -
  let ?k = "cl_heard c a" and ?out = "to_leader a c"
  have t: "acks_in (take (Suc ?k) ?out) = acks_in (take ?k ?out) @ [i]"
    using k m by (simp add: take_Suc_conv_app_nth)
  obtain rp w where r: "cl_replica c a = (rp, w)" by (rule prod.exhaust)
  with inv a have "replica_inv L (received a c) (cl_answered c a) (rp, w)"
    by (auto simp: cluster_inv_def)
  from replica_invD(5) [OF this] r have "distinct (acks_in ?out)" by (simp add: to_leader_def)
  moreover have "acks_in ?out = acks_in (take (Suc ?k) ?out) @ acks_in (drop (Suc ?k) ?out)"
    by (metis acks_in_simps(3) append_take_drop_id)
  ultimately have "i \<notin> set (acks_in (take ?k ?out))" using t by simp
  then show "a \<notin> ackers members c i" by (simp add: ackers_def)
  show "ackers members (c\<lparr>cl_leader := x, cl_heard := (cl_heard c)(a := Suc ?k)\<rparr>) j =
       (if j = i then insert a (ackers members c i) else ackers members c j)"
    using t a by (auto simp: ackers_def to_leader_def)
qed

lemma finite_ackers [simp]: "finite (ackers members c i)"
  by (simp add: ackers_def)

lemma votes_inv_ack:
  assumes inv: "cluster_inv members L c" and c: "cl_leader c = (l, w)" and a: "a \<in> set members"
    and k: "cl_heard c a < length (to_leader a c)" and m: "to_leader a c ! cl_heard c a = Ack i"
    and step: "leader_handle_ack i (l, w) = (x, Ok ())"
  shows "votes_inv members L (c\<lparr>cl_leader := x, cl_heard := (cl_heard c)(a := Suc (cl_heard c a))\<rparr>)"
    (is "votes_inv members L ?c")
proof -
  from inv c have li: "leader_inv members L (l, w)" and vi: "votes_inv members L c"
    by (simp_all add: cluster_inv_def)
  note V = votes_invD [OF vi c] and A = ackers_hear [OF inv a k m]
  let ?q = "Suc (length members) div 2"
  have grow: "card (ackers members ?c j) = (if j = i then Suc (card (ackers members c i)) else card (ackers members c j))" for j
    using A(1) by (simp add: A(2))
  then have mono: "?q \<le> card (ackers members c j) \<Longrightarrow> ?q \<le> card (ackers members ?c j)" for j by auto
  obtain l' w' where x: "x = (l', w')" by (rule prod.exhaust)
  have cl: "cl_leader ?c = (l', w')" using x by simp
  show ?thesis
  proof (cases "hm_get (ld_operations l) i")
    case None
    with leader_ack_cases [OF li, of i] step x have e: "l' = l" "w' = w" by simp_all
    have old: "\<exists>j op. cmd = RouterCommand (Execute j op) \<and> (j, op) \<in> set (entries_of L) \<and>
        ?q \<le> card (ackers members ?c j)" if "cmd \<in> set (db_mail w)" for cmd
      using V(2) [OF that] mono by blast
    have "po_ack_count p = card (ackers members ?c j) \<and>
        (RouterCommand (Execute j (po_op p)) \<in> set (db_mail w) \<longleftrightarrow> ?q \<le> po_ack_count p)"
      if "hm_get (ld_operations l) j = Some p" for j p
      using V(3) [OF that] None that grow [of j] by auto
    with old V(1) cl e show ?thesis unfolding votes_inv_def by (simp add: Let_def)
  next
    case (Some p)
    let ?p = "p\<lparr>po_ack_count := po_ack_count p + 1\<rparr>"
    from Some leader_ack_cases [OF li, of i] step x have
      l': "l' = l\<lparr>ld_operations := hm_insert i ?p (ld_operations l)\<rparr>" and
      w': "w' = (if po_ack_count p + 1 = ?q then db_send i (po_op p) w else w)" by simp_all
    have mail: "db_mail w' = db_mail w @ (if po_ack_count p + 1 = ?q then [RouterCommand (Execute i (po_op p))] else [])"
      by (simp add: w')
    have cnt: "po_ack_count p + 1 = card (ackers members ?c i)" using V(3) [OF Some] grow [of i] by simp
    have dist: "distinct (db_mail w')" using V(1) V(3) [OF Some] by (auto simp: mail)
    have entry: "(i, po_op p) \<in> set (entries_of L)" using leader_invD(10) [OF li Some] .
    have old: "\<exists>j op. cmd = RouterCommand (Execute j op) \<and> (j, op) \<in> set (entries_of L) \<and>
        ?q \<le> card (ackers members ?c j)" if "cmd \<in> set (db_mail w')" for cmd
    proof (cases "cmd \<in> set (db_mail w)")
      case True
      from V(2) [OF this] mono show ?thesis by blast
    next
      case False
      with that have "cmd = RouterCommand (Execute i (po_op p))" "po_ack_count p + 1 = ?q"
        by (auto simp: mail split: if_splits)
      with entry cnt show ?thesis by auto
    qed
    have other: "RouterCommand (Execute j op) \<in> set (db_mail w') \<longleftrightarrow> RouterCommand (Execute j op) \<in> set (db_mail w)"
      if "j \<noteq> i" for j op using that by (auto simp: mail)
    have "po_ack_count p' = card (ackers members ?c j) \<and>
        (RouterCommand (Execute j (po_op p')) \<in> set (db_mail w') \<longleftrightarrow> ?q \<le> po_ack_count p')"
      if g: "hm_get (ld_operations l') j = Some p'" for j p'
    proof (cases "j = i")
      case True
      with g have "p' = ?p" unfolding l' by simp
      with V(3) [OF Some] cnt True show ?thesis by (auto simp: mail)
    next
      case False
      with g have "hm_get (ld_operations l) j = Some p'" unfolding l' by (simp add: hm.get_insert)
      from V(3) [OF this] other [OF False] grow [of j] False show ?thesis by simp
    qed
    with old dist cl show ?thesis unfolding votes_inv_def by (simp add: Let_def)
  qed
qed

section \<open>Every step keeps the invariant\<close>

lemma leader_moves_alone:
  assumes inv: "cluster_inv members L c" and "leader_inv members (L @ ops) x"
    and "sent (snd x) = sent (snd (cl_leader c)) @ ms" and "votes_inv members (L @ ops) (c\<lparr>cl_leader := x\<rparr>)"
  shows "cluster_inv members (L @ ops) (c\<lparr>cl_leader := x\<rparr>)"
proof -
  have "c\<lparr>cl_leader := x\<rparr> = c\<lparr>cl_leader := x, cl_heard := cl_heard c\<rparr>" by simp
  with leader_moves [OF assms(1-3), of "cl_heard c"] assms show ?thesis by (simp add: cluster_inv_def)
qed

lemma ackers_leader [simp]: "ackers members (c\<lparr>cl_leader := x\<rparr>) i = ackers members c i"
  by (simp add: ackers_def to_leader_def)

lemma step_leader_request:
  assumes inv: "cluster_inv members L c" and "client_operation op"
    and "leader_handle_request r op addr (cl_leader c) = (x, Ok ())"
  shows "cluster_inv members (L @ [op]) (c\<lparr>cl_leader := x\<rparr>)"
proof -
  obtain l w l' w' where lw: "cl_leader c = (l, w)" "x = (l', w')" by (metis surj_pair)
  with inv have li: "leader_inv members L (l, w)" by (simp add: cluster_inv_def)
  note s = assms(3) [unfolded lw]
  note S = leader_inv_request [OF li assms(2) s]
  obtain ms where "sent w' = sent w @ ms" using S(3) by blast
  with leader_moves_alone [OF inv, of "[op]" x ms] S(1) lw
    votes_inv_request [OF inv lw(1) assms(2) s, of "c\<lparr>cl_leader := x\<rparr>"]
  show ?thesis by simp
qed

lemma step_leader_other:
  assumes inv: "cluster_inv members L c" and lw: "cl_leader c = (l, w)"
    and w': "nw_db w' = nw_db w" "sent w' = sent w @ ms" "\<forall>(m, b) \<in> set ms. \<exists>k v. m = Response k v"
    and l': "ld_id l' = ld_id l" "ld_cluster l' = ld_cluster l" "ld_current_op_id l' = ld_current_op_id l"
    and ops: "\<And>i p. hm_get (ld_operations l') i = Some p \<Longrightarrow> hm_get (ld_operations l) i = Some p"
  shows "cluster_inv members L (c\<lparr>cl_leader := (l', w')\<rparr>)"
proof -
  from inv lw have li: "leader_inv members L (l, w)" and vi: "votes_inv members L c"
    by (simp_all add: cluster_inv_def)
  have "leader_inv members L (l', w')"
    by (rule leader_inv_other [OF li w'(2,3) l']) (use ops in blast)
  moreover have "votes_inv members L (c\<lparr>cl_leader := (l', w')\<rparr>)"
    by (rule votes_inv_other [OF vi lw _ w'(1) ops]) simp_all
  ultimately show ?thesis using leader_moves_alone [OF inv, of "[]" "(l', w')" ms] lw w'(2) by simp
qed


lemma cluster_invD:
  assumes "cluster_inv members L c" and "a \<in> set members"
  shows "cl_read c a \<le> length (to_replica a c)" "cl_heard c a \<le> length (to_leader a c)"
    "replica_inv L (received a c) (cl_answered c a) (cl_replica c a)"
    "leader_inv members L (cl_leader c)" "logs_in (to_replica a c) = entries_of L"
    "list_all leader_msg (to_replica a c)" "list_all replica_msg (to_leader a c)" "length L < 2 ^ 32 - 1"
proof -
  obtain l w rp v where lw: "cl_leader c = (l, w)" "cl_replica c a = (rp, v)" by (metis surj_pair)
  show i: "cl_read c a \<le> length (to_replica a c)" "cl_heard c a \<le> length (to_leader a c)"
    "replica_inv L (received a c) (cl_answered c a) (cl_replica c a)"
    "leader_inv members L (cl_leader c)" using assms by (simp_all add: cluster_inv_def)
  then have li: "leader_inv members L (l, w)" using lw by simp
  show "logs_in (to_replica a c) = entries_of L" "list_all leader_msg (to_replica a c)"
    using leader_invD(8,9) [OF li assms(2)] lw by (simp_all add: to_replica_def)
  show "list_all replica_msg (to_leader a c)"
    using replica_invD(4) [of L "received a c" "cl_answered c a" rp v] i(3) lw by (simp add: to_leader_def)
  show "length L < 2 ^ 32 - 1" by (rule leader_inv_short [OF li])
qed

lemma replica_moves_alone:
  assumes inv: "cluster_inv members L c" and a: "a \<in> set members" and rv: "cl_replica c a = (rp, v)"
    and addr: "rp_leader_addr rp' = rp_leader_addr rp" and ms: "sent v' = sent v @ ms"
    and r: "replica_inv L (received a c) (cl_answered c a) (rp', v')"
  shows "cluster_inv members L (set_replica a (rp', v') c)"
proof -
  have "cluster_inv members L (set_replica a (rp', v')
      (c\<lparr>cl_read := (cl_read c)(a := cl_read c a), cl_answered := (cl_answered c)(a := cl_answered c a)\<rparr>))"
    by (rule replica_moves [OF inv a, where ms = ms])
      (use rv addr ms r cluster_invD(1) [OF inv a] in \<open>simp_all add: received_def\<close>)
  then show ?thesis by simp
qed

lemma leader_inv_ack:
  assumes inv: "leader_inv members L (l, w)" and step: "leader_handle_ack i (l, w) = ((l', w'), Ok ())"
  shows "leader_inv members L (l', w') \<and> sent w' = sent w"
proof (cases "hm_get (ld_operations l) i")
  case None
  with step leader_ack_cases [OF inv, of i] inv show ?thesis by simp
next
  case (Some p)
  then have l': "l' = l\<lparr>ld_operations := hm_insert i (p\<lparr>po_ack_count := po_ack_count p + 1\<rparr>) (ld_operations l)\<rparr>"
    and w': "sent w' = sent w"
    using step leader_ack_cases [OF inv, of i] by auto
  have "leader_inv members L (l', w')"
    by (rule leader_inv_other [OF inv, where ms = "[]"])
      (use l' w' Some in \<open>auto simp: hm.get_insert split: if_splits\<close>)
  with w' show ?thesis by simp
qed

lemma step_leader_hears:
  assumes inv: "cluster_inv members L c" and a: "a \<in> set members" and k: "cl_heard c a < length (to_leader a c)"
    and h: "handle_node_msg (leader_ops hash) (to_leader a c ! cl_heard c a) (cl_leader c) = (x, Ok NoRoleChange)"
  shows "\<exists>ops. cluster_inv members (L @ ops)
    (c\<lparr>cl_leader := x, cl_heard := (cl_heard c)(a := Suc (cl_heard c a))\<rparr>)"
proof -
  obtain l w l' w' where lw: "cl_leader c = (l, w)" "x = (l', w')" by (metis surj_pair)
  have li: "leader_inv members L (l, w)" using cluster_invD(4) [OF inv a] lw by simp
  let ?heard = "(cl_heard c)(a := Suc (cl_heard c a))"
  have heard: "\<forall>b \<in> set members. ?heard b \<le> length (to_leader b c)"
    using cluster_invD(2) [OF inv] k by auto
  have "replica_msg (to_leader a c ! cl_heard c a)"
    using cluster_invD(7) [OF inv a] k by (simp add: list_all_length)
  then consider (ack) i where "to_leader a c ! cl_heard c a = Ack i"
    | (request) r op addr where "to_leader a c ! cl_heard c a = Request r op addr" "client_operation op"
    by (cases "to_leader a c ! cl_heard c a") auto
  then show ?thesis
  proof cases
    case ack
    then have s: "leader_handle_ack i (l, w) = (x, Ok ())"
      using h lw by (auto simp: leader_ops_def elim: with_result.elims)
    have "leader_inv members L x" "sent (snd x) = sent (snd (cl_leader c)) @ []"
      using leader_inv_ack [OF li s [unfolded lw]] lw by simp_all
    with leader_moves [OF inv, of "[]" x "[]" ?heard] votes_inv_ack [OF inv lw(1) a k ack s] heard
    show ?thesis by (intro exI [of _ "[]"]) simp
  next
    case request
    then have s: "leader_handle_request r op addr (l, w) = (x, Ok ())"
      using h lw by (auto simp: leader_ops_def elim: with_result.elims)
    note S = leader_inv_request [OF li request(2) s [unfolded lw]]
    obtain ms where "sent w' = sent w @ ms" using S(3) by blast
    moreover have "ackers members (c\<lparr>cl_leader := x, cl_heard := ?heard\<rparr>) i = ackers members c i" for i
      using k request(1) by (auto simp: ackers_def to_leader_def take_Suc_conv_app_nth)
    then have "votes_inv members (L @ [op]) (c\<lparr>cl_leader := x, cl_heard := ?heard\<rparr>)"
      using lw by (intro votes_inv_request [OF inv lw(1) request(2) s [unfolded lw]]) simp_all
    ultimately show ?thesis
      using leader_moves [OF inv, of "[op]" x ms ?heard] S(1) lw heard by (intro exI [of _ "[op]"]) simp
  qed
qed


text \<open>A replica reads the entries of the log in order.\<close>

lemma next_entry:
  assumes inv: "cluster_inv members L c" and a: "a \<in> set members" and k: "cl_read c a < length (to_replica a c)"
    and e: "to_replica a c ! cl_read c a = Log i op"
  shows "received a c < length L" "i = of_nat (Suc (received a c))" "op = L ! received a c"
proof -
  let ?out = "to_replica a c" and ?k = "cl_read c a"
  have "logs_in ?out = logs_in (take (Suc ?k) ?out) @ logs_in (drop (Suc ?k) ?out)"
    by (metis logs_in_simps(3) append_take_drop_id)
  moreover have "take (Suc ?k) ?out = take ?k ?out @ [?out ! ?k]" using k by (simp add: take_Suc_conv_app_nth)
  ultimately have l: "entries_of L = logs_in (take ?k ?out) @ (i, op) # logs_in (drop (Suc ?k) ?out)"
    using cluster_invD(5) [OF inv a] e by simp
  then show m: "received a c < length L"
    unfolding received_def by (metis entries_of_simps(1) length_append length_Cons less_add_Suc1 add_Suc_right)
  have "entries_of L ! received a c = (i, op)" using l unfolding received_def by simp
  with m show "i = of_nat (Suc (received a c))" "op = L ! received a c" by (simp_all del: of_nat_Suc)
qed

lemma step_replica_reads:
  assumes inv: "cluster_inv members L c" and a: "a \<in> set members" and k: "cl_read c a < length (to_replica a c)"
    and h: "handle_node_msg (replica_ops hash) (to_replica a c ! cl_read c a) (cl_replica c a) = (x, Ok NoRoleChange)"
  shows "cluster_inv members L (set_replica a x (c\<lparr>cl_read := (cl_read c)(a := Suc (cl_read c a))\<rparr>))"
proof -
  obtain rp v rp' v' where rv: "cl_replica c a = (rp, v)" "x = (rp', v')" by (metis surj_pair)
  let ?out = "to_replica a c" and ?k = "cl_read c a" and ?m = "received a c"
  note I = cluster_invD [OF inv a]
  have ri: "replica_inv L ?m (cl_answered c a) (rp, v)" using I(3) rv by simp
  have t: "take (Suc ?k) ?out = take ?k ?out @ [?out ! ?k]" using k by (simp add: take_Suc_conv_app_nth)
  have "\<exists>ms. rp_leader_addr rp' = rp_leader_addr rp \<and> sent v' = sent v @ ms \<and>
      replica_inv L (length (logs_in (take (Suc ?k) ?out))) (cl_answered c a) (rp', v')"
  proof (cases "?out ! ?k")
    case (Log i op)
    note m = next_entry [OF inv a k Log]
    obtain r where "replica_handle_log i op (rp, v) = ((rp', v'), r)"
      using h Log rv by (auto simp: replica_ops_def elim: with_result.elims)
    then show ?thesis
      using replica_inv_log [OF ri m(1) I(8)] m(2,3) t Log by (auto simp: received_def)
  next
    case (Response r res)
    then have "replica_handle_response r res (rp, v) = ((rp', v'), Ok ())"
      using h rv by (auto simp: replica_ops_def elim: with_result.elims)
    then have "rp' = rp \<and> nw_db v' = nw_db v \<and> nw_conn v' = nw_conn v"
      by (auto simp: replica_handle_response_def on_world_def station_send_def Let_def
          split: if_splits operation_result.splits prod.splits)
    with replica_inv_other [OF ri, of v' rp'] t Response show ?thesis by (auto simp: received_def)
  qed (use I(6) k in \<open>auto simp: list_all_length\<close>)
  then obtain ms where "rp_leader_addr rp' = rp_leader_addr rp" "sent v' = sent v @ ms"
    "replica_inv L (length (logs_in (take (Suc ?k) ?out))) (cl_answered c a) (rp', v')" by blast
  then have "cluster_inv members L (set_replica a x
      (c\<lparr>cl_read := (cl_read c)(a := Suc ?k), cl_answered := (cl_answered c)(a := cl_answered c a)\<rparr>))"
    by (intro replica_moves [OF inv a, where ms = ms]) (use rv k in simp_all)
  then show ?thesis by simp
qed

lemma step_replica_request:
  assumes inv: "cluster_inv members L c" and a: "a \<in> set members" and op: "client_operation op"
    and h: "replica_handle_request r op addr (cl_replica c a) = (x, z)"
  shows "cluster_inv members L (set_replica a x c)"
proof -
  obtain rp v rp' v' where rv: "cl_replica c a = (rp, v)" "x = (rp', v')" by (metis surj_pair)
  note F = replica_request_frame [OF h [unfolded rv]] and I = cluster_invD [OF inv a]
  have "replica_inv L (received a c) (cl_answered c a) (rp, v')"
    by (rule replica_inv_sends [where w = v]) (use I(3) F op rv in auto)
  with replica_moves_alone [OF inv a rv(1)] F only_sent_fields(7) rv show ?thesis by metis
qed

lemma step_replica_result:
  assumes inv: "cluster_inv members L c" and a: "a \<in> set members"
    and cmd: "RouterCommand (Execute i op) \<in> set (mail_of (cl_replica c a))" and new: "i \<notin> cl_answered c a"
    and h: "handle_actor_event (replica_ops hash) (OperationResult i op res success err) (cl_replica c a) = (x, Ok ())"
  shows "cluster_inv members L
    (set_replica a x (c\<lparr>cl_answered := (cl_answered c)(a := insert i (cl_answered c a))\<rparr>))"
proof -
  obtain rp v rp' v' where rv: "cl_replica c a = (rp, v)" "x = (rp', v')" by (metis surj_pair)
  note I = cluster_invD [OF inv a]
  have ri: "replica_inv L (received a c) (cl_answered c a) (rp, v)" using I(3) rv by simp
  have cmd': "RouterCommand (Execute i op) \<in> set (db_mail v)" using cmd rv by (simp add: mail_of_def)
  then have mem: "RouterCommand (Execute i op) \<in> set (executes 1 (take (received a c - 1) L))"
    using replica_invD(2) [OF ri] by simp
  have "op \<in> set L"
    using executes_mem [OF mem _ I(8)] replica_invD(1) [OF ri] nth_mem [of "unat i - 1" L] by fastforce
  moreover obtain l w where "cl_leader c = (l, w)" by (rule prod.exhaust)
  ultimately have "client_operation op"
    using leader_invD(7) [of members L l w] I(4) by (simp add: list_all_iff)
  note F = replica_result_frame [OF this h [unfolded rv]]
  have "replica_inv L (received a c) (insert i (cl_answered c a)) (rp, v')"
    by (rule replica_inv_ack [OF ri I(8) cmd' new]) (use F in auto)
  moreover obtain ms where "sent v' = sent v @ ms" using F only_sent_fields(7) by metis
  ultimately have "cluster_inv members L (set_replica a x
      (c\<lparr>cl_read := (cl_read c)(a := cl_read c a), cl_answered := (cl_answered c)(a := insert i (cl_answered c a))\<rparr>))"
    by (intro replica_moves [OF inv a, where ms = ms]) (use F rv I(1) in \<open>simp_all add: received_def\<close>)
  then show ?thesis by simp
qed


lemma cluster_step_inv:
  assumes "cluster_step hash members c c'" and inv: "cluster_inv members L c"
  shows "\<exists>ops. cluster_inv members (L @ ops) c'"
  using assms(1)
proof (cases rule: cluster_step.cases)
  case (leader_request op r addr x)
  then have "leader_handle_request r op addr (cl_leader c) = (x, Ok ())"
    by (auto simp: leader_ops_def elim: with_result.elims)
  from step_leader_request [OF inv leader_request(2) this] leader_request(1) show ?thesis by blast
next
  case (leader_charge account_id card_id amount r x)
  obtain l w l' w' where lw: "cl_leader c = (l, w)" "x = (l', w')" by (metis surj_pair)
  from leader_charge(2) [unfolded lw] show ?thesis
  proof (cases rule: leader_charge_cases)
    case (offline q ms)
    with step_leader_other [OF inv lw(1), of w' "[]" l'] leader_charge(1) lw(2)
    show ?thesis by (intro exI [of _ "[]"]) simp
  next
    case online
    with step_leader_request [OF inv, of "Charge account_id card_id amount False" r "ld_address l" x]
      leader_charge(1) lw show ?thesis by auto
  qed
next
  case (leader_result op i res success err x)
  obtain l w l' w' where lw: "cl_leader c = (l, w)" "x = (l', w')" by (metis surj_pair)
  from leader_result_frame [OF leader_result(2,3) [unfolded lw]] obtain ms where
    F: "l' = l \<or> l' = l\<lparr>ld_operations := hm_remove i (ld_operations l)\<rparr>" "nw_db w' = nw_db w"
    "sent w' = sent w @ ms" "\<forall>(m, b) \<in> set ms. \<exists>k v. m = Response k v" by blast
  have "cluster_inv members L (c\<lparr>cl_leader := (l', w')\<rparr>)"
    by (rule step_leader_other [OF inv lw(1) F(2-4)]) (use F(1) in \<open>auto simp: hm.get_remove split: if_splits\<close>)
  then show ?thesis using leader_result(1) lw(2) by (intro exI [of _ "[]"]) simp
next
  case (leader_hears a x)
  with step_leader_hears [OF inv leader_hears(2-4)] show ?thesis by simp
next
  case (replica_reads a x)
  with step_replica_reads [OF inv replica_reads(2-4)] show ?thesis by (intro exI [of _ "[]"]) simp
next
  case (replica_request a op r addr x)
  then have "replica_handle_request r op addr (cl_replica c a) = (x, Ok ())"
    by (auto simp: replica_ops_def elim: with_result.elims)
  from step_replica_request [OF inv replica_request(2,3) this] replica_request(1)
  show ?thesis by (intro exI [of _ "[]"]) simp
next
  case (replica_charge a account_id card_id amount r x)
  obtain rp v rp' v' where rv: "cl_replica c a = (rp, v)" "x = (rp', v')" by (metis surj_pair)
  from replica_charge(3) [unfolded rv] show ?thesis
  proof (cases rule: replica_charge_cases)
    case (offline q ms)
    have "replica_inv L (received a c) (cl_answered c a) (rp, v)"
      using cluster_invD(3) [OF inv replica_charge(2)] rv by simp
    from replica_inv_other [OF this, of v' rp'] offline
      replica_moves_alone [OF inv replica_charge(2) rv(1), of rp' v' "[]"] replica_charge(1) rv(2)
    show ?thesis by (intro exI [of _ "[]"]) simp
  next
    case online
    with step_replica_request [OF inv replica_charge(2), of "Charge account_id card_id amount False" r "rp_address rp" x]
      replica_charge(1) rv show ?thesis by (intro exI [of _ "[]"]) simp
  qed
next
  case (replica_result a i op x res success err)
  with step_replica_result [OF inv replica_result(2-5)] show ?thesis by (intro exI [of _ "[]"]) simp
qed

lemma cluster_fresh_inv:
  assumes "cluster_fresh members c"
  shows "cluster_inv members [] c"
proof -
  obtain l w where lw: "cl_leader c = (l, w)" by (rule prod.exhaust)
  note F = assms [unfolded cluster_fresh_def lw, simplified]
  have "replica_inv [] (received a c) (cl_answered c a) (cl_replica c a) \<and>
      cl_read c a \<le> length (to_replica a c) \<and> cl_heard c a \<le> length (to_leader a c)" if "a \<in> set members" for a
    using F that by (cases "cl_replica c a") (auto simp: replica_inv_def received_def outbox_def mail_of_def Let_def)
  moreover have "leader_inv members [] (l, w)" using F by (simp add: leader_inv_def outbox_def)
  moreover have "votes_inv members [] c" using F lw by (simp add: votes_inv_def)
  ultimately show ?thesis using lw by (simp add: cluster_inv_def)
qed

lemma cluster_reachable_inv:
  assumes "(cluster_step hash members)\<^sup>*\<^sup>* c0 c" and "cluster_fresh members c0"
  shows "\<exists>L. cluster_inv members L c"
  using assms
proof (induction rule: rtranclp_induct)
  case base
  with cluster_fresh_inv show ?case by blast
next
  case (step c c')
  with cluster_step_inv show ?case by blast
qed

section \<open>A run\<close>

definition node_addr :: "u16 \<Rightarrow> socket_addr" where
  "node_addr port = SocketAddr (V4 127 0 0 1) port"

definition sample_cluster :: cluster_state where
  "sample_cluster =
     \<lparr>cl_leader = (trio\<lparr>ld_operations := []\<rparr>, snd pair_cluster),
      cl_replica = (\<lambda>a. (replica_start_state (\<lambda>a. ucast (sa_port a)) a (node_addr 5000) (0, 0) 0, snd pair_cluster)),
      cl_read = (\<lambda>a. 0), cl_heard = (\<lambda>a. 0), cl_answered = (\<lambda>a. {})\<rparr>"

lemma sample_cluster_fresh: "cluster_fresh [node_addr 5001, node_addr 5002] sample_cluster"
  by (simp add: cluster_fresh_def sample_cluster_def trio_def pair_cluster_def leader_start_state_def
      get_id_given_addr_def hm_len_def node_addr_def sample_connection_def mail_of_def replica_start_state_def
      system_new_def)

lemmas sample_run_defs = sample_cluster_def trio_def pair_cluster_def leader_start_state_def
  replica_start_state_def get_id_given_addr_def hm_len_def node_addr_def sample_connection_def
  net_send_def connection_send_def ensure_handler_def hm_contains_def ph_send_def ph_alive_def Let_def
  handler_start_def send_handler_first_message_def handler_new_def new_handler_task_def on_world_def
  add_handler_from_def remove_last_recently_used_def ph_enqueue_def hm_get_def hm_insert_def hm_remove_def

lemma sample_request: "snd (handle_node_msg (leader_ops (\<lambda>a. 0)) (Request 9 (AccountQuery 3) (node_addr 7000))
    (cl_leader sample_cluster)) = Ok NoRoleChange"
  by (simp add: leader_ops_def leader_handle_request_def sample_run_defs)

lemma sample_log: "snd (replica_handle_log 1 (AccountQuery 3) (cl_replica sample_cluster (node_addr 5001))) = Ok ()"
  by (simp add: replica_handle_log_def sample_run_defs)

text \<open>The leader takes a query, one replica reads its entry, the leader hears of it.\<close>

lemma sample_run:
  "\<exists>c. (cluster_step (\<lambda>a. 0) [node_addr 5001, node_addr 5002])\<^sup>*\<^sup>* sample_cluster c \<and>
     RouterCommand (Execute 1 (AccountQuery 3)) \<in> set (mail_of (cl_leader c))"
proof -
  let ?ms = "[node_addr 5001, node_addr 5002]" and ?a = "node_addr 5001" and ?q = "AccountQuery 3"
  let ?step = "cluster_step (\<lambda>a. 0) ?ms"
  obtain l w l1 w1 where lw: "cl_leader sample_cluster = (l, w)" and
    req: "handle_node_msg (leader_ops (\<lambda>a. 0)) (Request 9 ?q (node_addr 7000)) (l, w) = ((l1, w1), Ok NoRoleChange)"
    using sample_request by (metis prod.collapse)
  then have r: "leader_handle_request 9 ?q (node_addr 7000) (l, w) = ((l1, w1), Ok ())"
    by (auto simp: leader_ops_def elim: with_result.elims)
  have l: "hm_len (ld_cluster l) \<noteq> 1" "ld_current_op_id l = 1" "sent w = []" "peers (ld_id l) (ld_cluster l) = ?ms"
    using lw by (auto simp: sample_run_defs)
  note R = leader_request_ok [OF l(1) r]
  let ?c1 = "sample_cluster\<lparr>cl_leader := (l1, w1)\<rparr>"
  have 1: "?step sample_cluster ?c1" by (rule leader_request) (use req lw in simp_all)
  have "sent w1 = map (Pair (Log 1 ?q)) ?ms" using only_sent_fields(7) [OF R(2)] l by simp
  then have out1: "to_replica ?a ?c1 = [Log 1 ?q]" by (simp add: to_replica_def outbox_def node_addr_def)
  obtain rp v where rv: "cl_replica sample_cluster ?a = (rp, v)" by (rule prod.exhaust)
  then have "sent v = []" and ad: "rp_leader_addr rp = node_addr 5000" by (auto simp: sample_run_defs)
  obtain rp2 v2 where log: "replica_handle_log 1 ?q (rp, v) = ((rp2, v2), Ok ())"
    using sample_log rv by (metis prod.collapse)
  then have ack1: "net_send (Ack 1) (node_addr 5000) v = (v2, Ok ())" and rp2: "rp_leader_addr rp2 = node_addr 5000"
    using ad by (auto simp: replica_handle_log_def on_world_def prod_eq_iff)
  from only_sent_fields(7) [OF net_send_only [OF ack1]] \<open>sent v = []\<close>
  have v2: "sent v2 = [(Ack 1, node_addr 5000)]" by simp
  let ?c2 = "set_replica ?a (rp2, v2) (?c1\<lparr>cl_read := (cl_read ?c1)(?a := Suc (cl_read ?c1 ?a))\<rparr>)"
  have 0: "cl_read sample_cluster = (\<lambda>a. 0)" "cl_heard sample_cluster = (\<lambda>a. 0)" by (simp_all add: sample_cluster_def)
  have 2: "?step ?c1 ?c2"
    by (rule replica_reads) (use out1 log rv 0 in \<open>simp_all add: replica_ops_def\<close>)
  have reach: "?step\<^sup>*\<^sup>* sample_cluster ?c2" using 1 2 by (meson converse_rtranclp_into_rtranclp rtranclp.rtrancl_refl)
  from cluster_reachable_inv [OF this sample_cluster_fresh] obtain L where "cluster_inv ?ms L ?c2" by blast
  then have inv: "leader_inv ?ms L (l1, w1)" by (simp add: cluster_inv_def set_replica_def)
  have "hm_get (ld_operations l1) 1 = Some (pending_new ?q (node_addr 7000) 9)" using R(1) l(2) by simp
  then obtain x3 where ack: "leader_handle_ack 1 (l1, w1) = ((x3, db_send 1 ?q w1), Ok ())"
    using leader_ack_cases [OF inv, of 1] by (auto simp: pending_new_def)
  have out2: "to_leader ?a ?c2 = [Ack 1]" using v2 rp2 by (simp add: to_leader_def outbox_def set_replica_def)
  have "?step ?c2 (?c2\<lparr>cl_leader := (x3, db_send 1 ?q w1), cl_heard := (cl_heard ?c2)(?a := Suc (cl_heard ?c2 ?a))\<rparr>)"
    by (rule leader_hears) (use out2 ack 0 in \<open>simp_all add: leader_ops_def set_replica_def\<close>)
  with reach show ?thesis by (intro exI conjI, elim rtranclp.rtrancl_into_rtrancl) (auto simp: mail_of_def)
qed

section \<open>Agreement and durability\<close>

text \<open>C1: The cluster replicates one log: in every state that a fresh cluster of three or more nodes
  can reach without failures there is one sequence of operations such that every member was sent
  exactly it, every replica's database was told to execute a prefix of it, in order, and the
  leader's database some of its entries, each at most once.\<close>

theorem cluster_replicates_one_log:
  assumes "cluster_fresh members c0" and "(cluster_step hash members)\<^sup>*\<^sup>* c0 c"
  shows "\<exists>L. (\<forall>a \<in> set members. logs_in (to_replica a c) = entries_of L \<and>
        prefix (mail_of (cl_replica c a)) (executes 1 L)) \<and>
    distinct (mail_of (cl_leader c)) \<and> set (mail_of (cl_leader c)) \<subseteq> set (executes 1 L)"
proof -
  from cluster_reachable_inv [OF assms(2,1)] obtain L where inv: "cluster_inv members L c" by blast
  obtain l w where lw: "cl_leader c = (l, w)" by (rule prod.exhaust)
  from inv lw have V: "votes_inv members L c" by (simp add: cluster_inv_def)
  note V = votes_invD [OF V lw]
  have "logs_in (to_replica a c) = entries_of L \<and> prefix (mail_of (cl_replica c a)) (executes 1 L)"
    if "a \<in> set members" for a
  proof -
    obtain rp v where rv: "cl_replica c a = (rp, v)" by (rule prod.exhaust)
    note I = cluster_invD [OF inv that]
    have "mail_of (cl_replica c a) = executes 1 (take (received a c - 1) L)"
      using I(3) rv replica_invD(2) by (simp add: mail_of_def)
    with executes_take_prefix I(5) show ?thesis by simp
  qed
  moreover have "cmd \<in> set (executes 1 L)" if "cmd \<in> set (mail_of (cl_leader c))" for cmd
    using V(2) [of cmd] that lw unfolding executes_entries by (force simp: mail_of_def)
  ultimately show ?thesis using V(1) lw by (auto simp: mail_of_def)
qed

theorem cluster_replicates_one_log_witness:
  "\<exists>c L. RouterCommand (Execute 1 (AccountQuery 3)) \<in> set (mail_of (cl_leader c)) \<and>
    RouterCommand (Execute 1 (AccountQuery 3)) \<in> set (executes 1 L) \<and>
    logs_in (to_replica (node_addr 5002) c) = entries_of L"
proof -
  from sample_run obtain c where c: "(cluster_step (\<lambda>a. 0) [node_addr 5001, node_addr 5002])\<^sup>*\<^sup>* sample_cluster c"
    "RouterCommand (Execute 1 (AccountQuery 3)) \<in> set (mail_of (cl_leader c))" by blast
  from cluster_replicates_one_log [OF sample_cluster_fresh c(1)] c(2) show ?thesis by auto
qed

text \<open>C3: What the leader executes is on a majority: whenever its database was told to execute an
  entry, that entry was read by so many replicas that they and the leader are more than half of
  the cluster.\<close>

theorem executed_entry_on_majority:
  assumes "cluster_fresh members c0" and "(cluster_step hash members)\<^sup>*\<^sup>* c0 c"
    and "RouterCommand (Execute i op) \<in> set (mail_of (cl_leader c))"
  shows "\<exists>A. A \<subseteq> set members \<and> Suc (length members) < 2 * Suc (card A) \<and>
    (\<forall>a \<in> A. (i, op) \<in> set (logs_in (take (cl_read c a) (to_replica a c))))"
proof -
  from cluster_reachable_inv [OF assms(2,1)] obtain L where inv: "cluster_inv members L c" by blast
  obtain l w where lw: "cl_leader c = (l, w)" by (rule prod.exhaust)
  from inv lw have V: "votes_inv members L c" and li: "leader_inv members L (l, w)"
    by (simp_all add: cluster_inv_def)
  from votes_invD(2) [OF V lw, of "RouterCommand (Execute i op)"] assms(3) lw
  have e: "(i, op) \<in> set (entries_of L)" and q: "Suc (length members) div 2 \<le> card (ackers members c i)"
    by (auto simp: mail_of_def)
  have "(i, op) \<in> set (logs_in (take (cl_read c a) (to_replica a c)))" if a: "a \<in> ackers members c i" for a
  proof -
    from a have "a \<in> set members" "i \<in> set (acks_in (to_leader a c))"
      using acks_in_take by (auto simp: ackers_def)
    with acks_received [OF inv] have r: "0 < unat i" "unat i \<le> received a c" "received a c \<le> length L" by blast+
    have "logs_in (take (cl_read c a) (to_replica a c)) = take (received a c) (entries_of L)"
      using cluster_invD(5) [OF inv \<open>a \<in> set members\<close>] unfolding received_def
      by (metis logs_in_simps(3) append_take_drop_id append_eq_conv_conj)
    moreover have "entries_of L ! (unat i - 1) = (i, op)"
      using e entries_of_mem [OF leader_inv_short [OF li]] r by (simp del: of_nat_Suc)
    moreover have "unat i - 1 < received a c" using r by linarith
    ultimately show ?thesis using r(3) by (metis entries_of_simps(1) in_set_conv_nth length_take min.absorb2 nth_take)
  qed
  moreover have "Suc (length members) < 2 * Suc (card (ackers members c i))"
  proof -
    have "n < 2 * Suc (n div 2)" for n :: nat by presburger
    from less_le_trans [OF this] q show ?thesis by (metis Suc_le_mono mult_le_mono2)
  qed
  ultimately show ?thesis by (intro exI [of _ "ackers members c i"]) (auto simp: ackers_def)
qed

theorem executed_entry_on_majority_witness:
  "\<exists>c a. a \<in> {node_addr 5001, node_addr 5002} \<and>
     (1, AccountQuery 3) \<in> set (logs_in (take (cl_read c a) (to_replica a c)))"
proof -
  from sample_run obtain c where c: "(cluster_step (\<lambda>a. 0) [node_addr 5001, node_addr 5002])\<^sup>*\<^sup>* sample_cluster c"
    "RouterCommand (Execute 1 (AccountQuery 3)) \<in> set (mail_of (cl_leader c))" by blast
  from executed_entry_on_majority [OF sample_cluster_fresh c] obtain A where
    A: "A \<subseteq> set [node_addr 5001, node_addr 5002]" "3 < 2 * Suc (card A)"
    "\<forall>a \<in> A. (1, AccountQuery 3) \<in> set (logs_in (take (cl_read c a) (to_replica a c)))" by auto
  then have "A \<noteq> {}" by auto
  with A(1,3) show ?thesis by auto
qed

end
