(* ===== verification/ClusterFaults.thy ===== *)
theory ClusterFaults
  imports Cluster
begin

text \<open>
  What the replication of \<open>leader.rs\<close> does when a peer is lost while an entry is being sent: the
  handlers of \<open>Leader\<close> in the order the event loop calls them.
\<close>

section \<open>A replication that fails half way\<close>

text \<open>A request that fails reached some of the peers only and stays pending under a number that is
  not used up.\<close>

lemma leader_request_failed:
  assumes "hm_len (ld_cluster l) \<noteq> 1" and "leader_handle_request r op addr (l, w) = ((l', w'), Error e)"
  shows "l' = l\<lparr>ld_operations := hm_insert (ld_current_op_id l) (pending_new op addr r) (ld_operations l)\<rparr>"
    and "\<exists>reached b rest. peers (ld_id l) (ld_cluster l) = reached @ b # rest \<and>
      only_sent w w' (map (Pair (Log (ld_current_op_id l) op)) reached)"
proof -
  let ?n = "ld_current_op_id l"
  obtain w1 r1 where s: "send_to_peers (ld_id l) (Log ?n op) (ld_cluster l) w = (w1, r1)"
    by (rule prod.exhaust)
  with assms have r: "r1 = Error e" and w: "w' = w1"
    and l': "l' = l\<lparr>ld_operations := hm_insert ?n (pending_new op addr r) (ld_operations l)\<rparr>"
    by (cases r1; auto simp: leader_handle_request_def Let_def on_world_def split: if_splits)+
  show "l' = l\<lparr>ld_operations := hm_insert ?n (pending_new op addr r) (ld_operations l)\<rparr>" by (rule l')
  from send_to_peers_spec [OF s] r w show
    "\<exists>reached b rest. peers (ld_id l) (ld_cluster l) = reached @ b # rest \<and>
      only_sent w w' (map (Pair (Log ?n op)) reached)" by auto
qed

text \<open>C25: A lost peer forks the log. In a cluster of three, let the replication of a request fail because
  a peer is gone: the leader forgets the peer, but the request stays pending under its number, and
  the acknowledgement of the peer that was reached makes the leader execute it. The number is then
  given to the next request, whose entry replaces the first one at every peer.\<close>

theorem lost_peer_forks_the_log:
  assumes "hm_len (ld_cluster l) = 3" and "hm_len (ld_cluster l2) \<in> {2, 3}"
    and "leader_handle_request r1 op1 addr1 (l, w) = ((l1, w1), Error (ConnectionLostWith gone))"
    and "leader_handle_connection_lost_with hash gone (l1, w1) = ((l2, w2), Ok NoRoleChange)"
    and "leader_handle_ack (ld_current_op_id l) (l2, w2) = ((l3, w3), Ok ())"
    and "leader_handle_request r2 op2 addr2 (l3, w3) = ((l4, w4), Ok ())"
  shows "(\<exists>reached b rest. peers (ld_id l) (ld_cluster l) = reached @ b # rest \<and>
      sent w1 = sent w @ map (Pair (Log (ld_current_op_id l) op1)) reached) \<and>
    db_mail w3 = db_mail w @ [RouterCommand (Execute (ld_current_op_id l) op1)] \<and>
    sent w4 = sent w3 @ map (Pair (Log (ld_current_op_id l) op2)) (peers (ld_id l3) (ld_cluster l3)) \<and>
    hm_get (ld_operations l4) (ld_current_op_id l) = Some (pending_new op2 addr2 r2)"
proof -
  let ?n = "ld_current_op_id l"
  have "hm_len (ld_cluster l) \<noteq> 1" using assms(1) by simp
  note F = leader_request_failed [OF this assms(3)]
  have db: "nw_db w1 = nw_db w" using F(2) only_sent_fields(1) by metis
  have l2: "w2 = w1" "ld_operations l2 = ld_operations l1" "ld_current_op_id l2 = ?n"
    using assms(4) F(1) by (auto simp: leader_handle_connection_lost_with_def)
  have g: "hm_get (ld_operations l2) ?n = Some (pending_new op1 addr1 r1)" using l2(2) F(1) by simp
  have "ack_quorum (hm_len (ld_cluster l2)) = 1" using assms(2) ack_quorum_half [of 2] ack_quorum_half [of 3] by auto
  with assms(5) g have w3: "w3 = db_send ?n op1 w2" and
    l3: "ld_cluster l3 = ld_cluster l2" "ld_current_op_id l3 = ?n"
    using l2(3) by (auto simp: leader_handle_ack_def pending_new_def Let_def)
  have "hm_len (ld_cluster l3) \<noteq> 1" using assms(2) l3(1) by auto
  note R = leader_request_ok [OF this assms(6)]
  have "\<exists>reached b rest. peers (ld_id l) (ld_cluster l) = reached @ b # rest \<and>
      sent w1 = sent w @ map (Pair (Log ?n op1)) reached"
    using F(2) only_sent_fields(7) by meson
  with w3 l2(1) db only_sent_fields(7) [OF R(2)] R(1) l3(2) show ?thesis by simp
qed

text \<open>The trio again, its second peer's connection broken.\<close>

definition broken_world :: node_world where
  "broken_world = (snd pair_cluster)\<lparr>nw_conn := sample_connection\<lparr>cn_max_conns := 8,
     cn_active := [(node_addr 5002, ph_stop (idle_handler 0 5002))]\<rparr>\<rparr>"

lemmas broken_defs = broken_world_def idle_handler_def ph_stop_def sample_run_defs

definition broken_trio :: "nat \<Rightarrow> leader_state" where
  "broken_trio k =
     (let x0 = (trio\<lparr>ld_operations := []\<rparr>, broken_world);
          x1 = fst (leader_handle_request 9 (AccountQuery 3) (node_addr 7000) x0);
          x2 = fst (leader_handle_connection_lost_with (\<lambda>a. ucast (sa_port a)) (node_addr 5002) x1);
          x3 = fst (leader_handle_ack 1 x2)
      in [x0, x1, x2, x3, fst (leader_handle_request 10 (AccountQuery 4) (node_addr 7000) x3)] ! k)"

lemma ack_quorum_two: "ack_quorum 2 = 1"
  using ack_quorum_half [of 2] by simp

lemmas ack_quorum_Suc_Suc = ack_quorum_two [unfolded numeral_2_eq_2 One_nat_def]

lemma broken_run:
  "leader_handle_request 9 (AccountQuery 3) (node_addr 7000) (broken_trio 0) =
     (broken_trio 1, Error (ConnectionLostWith (node_addr 5002)))"
  "leader_handle_connection_lost_with (\<lambda>a. ucast (sa_port a)) (node_addr 5002) (broken_trio 1) =
     (broken_trio 2, Ok NoRoleChange)"
  "leader_handle_ack 1 (broken_trio 2) = (broken_trio 3, Ok ())"
  "leader_handle_request 10 (AccountQuery 4) (node_addr 7000) (broken_trio 3) = (broken_trio 4, Ok ())"
  "hm_len (ld_cluster (fst (broken_trio 2))) = 2"
  "peers (ld_id (fst (broken_trio 3))) (ld_cluster (fst (broken_trio 3))) = [node_addr 5001]"
  by (simp_all add: broken_trio_def leader_handle_request_def leader_handle_connection_lost_with_def
      leader_handle_ack_def ack_quorum_two ack_quorum_Suc_Suc broken_defs pending_new_def)

theorem lost_peer_forks_the_log_witness:
  "db_mail (snd (broken_trio 3)) = [RouterCommand (Execute 1 (AccountQuery 3))] \<and>
     sent (snd (broken_trio 4)) = sent (snd (broken_trio 3)) @ [(Log 1 (AccountQuery 4), node_addr 5001)]"
proof -
  have n: "hm_len (ld_cluster (fst (broken_trio 0))) = 3" "ld_current_op_id (fst (broken_trio 0)) = 1"
    "db_mail (snd (broken_trio 0)) = []" "hm_len (ld_cluster (fst (broken_trio 2))) \<in> {2, 3}"
    using broken_run(5) by (simp_all add: broken_trio_def broken_defs system_new_def)
  from lost_peer_forks_the_log [OF n(1,4), of 9 "AccountQuery 3" "node_addr 7000" "snd (broken_trio 0)"
      "fst (broken_trio 1)" "snd (broken_trio 1)" "node_addr 5002" "\<lambda>a. ucast (sa_port a)"
      "snd (broken_trio 2)" "fst (broken_trio 3)" "snd (broken_trio 3)" 10 "AccountQuery 4" "node_addr 7000"
      "fst (broken_trio 4)" "snd (broken_trio 4)"] n(2,3) broken_run
  show ?thesis by simp
qed

end
