(* ===== verification/ClusterProgress.thy ===== *)
theory ClusterProgress
  imports Cluster "HOL-Library.Multiset"
begin

text \<open>
  The cluster of \<open>Cluster\<close> makes progress: as long as nothing fails, an entry of the log stays
  pending at the leader until its database has it, so when everything that was sent has been read
  and everything that was asked has been answered, the leader has executed the whole log and
  every replica all of it but the last entry.
\<close>

section \<open>No entry is dropped\<close>

text \<open>Every entry sent to a member is pending at the leader or was given to its database.\<close>

definition entry_kept :: "leader_state \<Rightarrow> u32 \<times> operation \<Rightarrow> bool" where
  "entry_kept x e \<longleftrightarrow>
     (\<exists>p. hm_get (ld_operations (fst x)) (fst e) = Some p \<and> po_op p = snd e) \<or>
     RouterCommand (Execute (fst e) (snd e)) \<in> set (mail_of x)"

definition log_kept :: "socket_addr list \<Rightarrow> cluster_state \<Rightarrow> bool" where
  "log_kept members c \<longleftrightarrow>
     (\<forall>a \<in> set members. \<forall>e \<in> set (logs_in (to_replica a c)). entry_kept (cl_leader c) e)"

text \<open>The first entry a replica reads is acknowledged by the handler that reads it.\<close>

definition first_acked :: "socket_addr list \<Rightarrow> cluster_state \<Rightarrow> bool" where
  "first_acked members c \<longleftrightarrow>
     (\<forall>a \<in> set members. 0 < received a c \<longrightarrow> Ack 1 \<in> set (to_leader a c))"

lemma entry_kept_mono:
  assumes "entry_kept (l, w) e" and "ld_operations l' = ld_operations l"
    and "set (db_mail w) \<subseteq> set (db_mail w')"
  shows "entry_kept (l', w') e"
  using assms by (auto simp: entry_kept_def mail_of_def)

lemma kept_request:
  assumes inv: "cluster_inv members L c" and c: "cl_leader c = (l, w)" and kept: "log_kept members c"
    and step: "leader_handle_request r op addr (l, w) = ((l', w'), Ok ())"
    and c': "cl_leader c' = (l', w')"
  shows "log_kept members c'"
  unfolding log_kept_def c'
proof (intro ballI)
  fix a e assume a: "a \<in> set members" and e: "e \<in> set (logs_in (to_replica a c'))"
  have li: "leader_inv members L (l, w)" using cluster_invD(4) [OF inv a] c by simp
  note D = leader_invD [OF li]
  have "hm_len (ld_cluster l) \<noteq> 1" using D(3,4) by auto
  note R = leader_request_ok [OF this step] and f = only_sent_fields [OF R(2)]
  let ?n = "ld_current_op_id l"
  have "to_replica a c' = to_replica a c @ [Log ?n op]"
    using outbox_to_all [of w' w "Log ?n op" members a] f(7) D(1,2) a c c' R(2)
    by (simp add: to_replica_def)
  with e consider "e \<in> set (logs_in (to_replica a c))" | "e = (?n, op)" by auto
  then show "entry_kept (l', w') e"
  proof cases
    case 1
    then have "(fst e, snd e) \<in> set (entries_of L)" using cluster_invD(5) [OF inv a] by simp
    then have "fst e \<noteq> ?n"
      using entries_of_mem [OF leader_inv_short [OF li]] D(6) by (metis Suc_n_not_le_n)
    moreover have "entry_kept (l, w) e" using kept a 1 c by (auto simp: log_kept_def)
    ultimately show ?thesis
      using f(1) unfolding R(1) by (auto simp: entry_kept_def mail_of_def hm.get_insert)
  next
    case 2
    then show ?thesis unfolding R(1) by (simp add: entry_kept_def pending_new_def)
  qed
qed

lemma kept_other:
  assumes kept: "log_kept members c"
    and logs: "\<And>a. a \<in> set members \<Longrightarrow> logs_in (to_replica a c') = logs_in (to_replica a c)"
    and e: "\<And>a e. a \<in> set members \<Longrightarrow> e \<in> set (logs_in (to_replica a c)) \<Longrightarrow> entry_kept (cl_leader c) e \<Longrightarrow>
      entry_kept (cl_leader c') e"
  shows "log_kept members c'"
  using assms by (auto simp: log_kept_def)

lemma logs_in_responses:
  "\<forall>(m, b) \<in> set ms. \<exists>k v. m = Response k v \<Longrightarrow> logs_in (map fst (filter (\<lambda>(m, b). b = a) ms)) = []"
  by (induction ms) auto

lemma kept_result:
  assumes inv: "cluster_inv members L c" and c: "cl_leader c = (l, w)" and kept: "log_kept members c"
    and op: "client_operation op" and cmd: "RouterCommand (Execute i op) \<in> set (mail_of (l, w))"
    and h: "handle_actor_event (leader_ops hash) (OperationResult i op res success err) (l, w) = ((l', w'), Ok ())"
  shows "log_kept members (c\<lparr>cl_leader := (l', w')\<rparr>)"
proof -
  from leader_result_frame [OF op h] obtain ms where
    F: "l' = l \<or> l' = l\<lparr>ld_operations := hm_remove i (ld_operations l)\<rparr>" "nw_db w' = nw_db w"
    "sent w' = sent w @ ms" "\<forall>(m, b) \<in> set ms. \<exists>k v. m = Response k v" by blast
  have V: "votes_inv members L c" and li: "leader_inv members L (l, w)"
    using inv c by (simp_all add: cluster_inv_def)
  have ie: "(i, op) \<in> set (entries_of L)"
    using votes_invD(2) [OF V c, of "RouterCommand (Execute i op)"] cmd by (auto simp: mail_of_def)
  show ?thesis
  proof (rule kept_other [OF kept])
    fix a assume "a \<in> set members"
    show "logs_in (to_replica a (c\<lparr>cl_leader := (l', w')\<rparr>)) = logs_in (to_replica a c)"
      using F(3) logs_in_responses [OF F(4)] c by (simp add: to_replica_def)
  next
    fix a e assume a: "a \<in> set members" and e: "e \<in> set (logs_in (to_replica a c))"
      and k: "entry_kept (cl_leader c) e"
    have e': "(fst e, snd e) \<in> set (entries_of L)" using cluster_invD(5) [OF inv a] e by simp
    show "entry_kept (cl_leader (c\<lparr>cl_leader := (l', w')\<rparr>)) e"
    proof (cases "fst e = i")
      case True
      then have "snd e = op" using ie e' entries_of_mem [OF leader_inv_short [OF li]] by metis
      with True cmd F(2) show ?thesis by (simp add: entry_kept_def mail_of_def)
    next
      case False
      with k F(1,2) c show ?thesis by (auto simp: entry_kept_def mail_of_def hm.get_remove)
    qed
  qed
qed

lemma kept_ack:
  assumes inv: "cluster_inv members L c" and c: "cl_leader c = (l, w)" and kept: "log_kept members c"
    and a: "a \<in> set members" and step: "leader_handle_ack i (l, w) = (x, Ok ())"
  shows "log_kept members (c\<lparr>cl_leader := x, cl_heard := heard\<rparr>)"
proof -
  obtain l' w' where x: "x = (l', w')" by (rule prod.exhaust)
  have li: "leader_inv members L (l, w)" using cluster_invD(4) [OF inv a] c by simp
  have s: "sent w' = sent w" using leader_inv_ack [OF li] step x by blast
  show ?thesis
  proof (rule kept_other [OF kept])
    fix a e assume "entry_kept (cl_leader c) e"
    then show "entry_kept (cl_leader (c\<lparr>cl_leader := x, cl_heard := heard\<rparr>)) e"
      using step leader_ack_cases [OF li, of i] x c
      by (auto simp: entry_kept_def mail_of_def hm.get_insert split: option.splits if_splits)
  qed (use s x c in \<open>simp add: to_replica_def outbox_def\<close>)
qed

lemma log_kept_step:
  assumes "cluster_step hash members c c'" and inv: "cluster_inv members L c" and kept: "log_kept members c"
  shows "log_kept members c'"
  using assms(1)
proof (cases rule: cluster_step.cases)
  case (leader_request op r addr x)
  obtain l w l' w' where lw: "cl_leader c = (l, w)" "x = (l', w')" by (metis surj_pair)
  have "leader_handle_request r op addr (l, w) = ((l', w'), Ok ())"
    using leader_request(3) lw by (auto simp: leader_ops_def elim: with_result.elims)
  then show ?thesis by (rule kept_request [OF inv lw(1) kept]) (simp add: leader_request(1) lw)
next
  case (leader_charge account_id card_id amount r x)
  obtain l w l' w' where lw: "cl_leader c = (l, w)" "x = (l', w')" by (metis surj_pair)
  from leader_charge(2) [unfolded lw] show ?thesis
  proof (cases rule: leader_charge_cases)
    case (offline q ms)
    show ?thesis
      by (rule kept_other [OF kept])
        (use offline leader_charge(1) lw in \<open>auto simp: to_replica_def outbox_def entry_kept_def mail_of_def\<close>)
  next
    case online
    then show ?thesis by (rule kept_request [OF inv lw(1) kept]) (simp add: leader_charge(1) lw)
  qed
next
  case (leader_result op i res success err x)
  obtain l w l' w' where lw: "cl_leader c = (l, w)" "x = (l', w')" by (metis surj_pair)
  with kept_result [OF inv lw(1) kept leader_result(2)] leader_result show ?thesis by simp
next
  case (leader_hears a x)
  obtain l w l' w' where lw: "cl_leader c = (l, w)" "x = (l', w')" by (metis surj_pair)
  have "replica_msg (to_leader a c ! cl_heard c a)"
    using cluster_invD(7) [OF inv leader_hears(2)] leader_hears(3) by (simp add: list_all_length)
  then consider (ack) i where "to_leader a c ! cl_heard c a = Ack i"
    | (request) r op addr where "to_leader a c ! cl_heard c a = Request r op addr"
    by (cases "to_leader a c ! cl_heard c a") auto
  then show ?thesis
  proof cases
    case ack
    then have "leader_handle_ack i (l, w) = (x, Ok ())"
      using leader_hears(4) lw by (auto simp: leader_ops_def elim: with_result.elims)
    from kept_ack [OF inv lw(1) kept leader_hears(2) this] leader_hears(1) show ?thesis by simp
  next
    case request
    then have "leader_handle_request r op addr (l, w) = ((l', w'), Ok ())"
      using leader_hears(4) lw by (auto simp: leader_ops_def elim: with_result.elims)
    then show ?thesis by (rule kept_request [OF inv lw(1) kept]) (simp add: leader_hears(1) lw)
  qed
qed (use kept in \<open>simp_all add: log_kept_def to_replica_def set_replica_def\<close>)

section \<open>First acknowledgements\<close>

lemma received_leader:
  assumes inv: "cluster_inv members L c" and a: "a \<in> set members"
    and ms: "sent (snd x) = sent (snd (cl_leader c)) @ ms"
  shows "received a (c\<lparr>cl_leader := x, cl_heard := h\<rparr>) = received a c"
  using cluster_invD(1) [OF inv a] ms by (simp add: received_def to_replica_def outbox_def)

lemma first_acked_leader:
  assumes "cluster_inv members L c" and "first_acked members c"
    and "sent (snd x) = sent (snd (cl_leader c)) @ ms"
  shows "first_acked members (c\<lparr>cl_leader := x, cl_heard := h\<rparr>)"
  using assms received_leader [OF assms(1) _ assms(3), of _ h]
  by (simp add: first_acked_def to_leader_def)

lemma first_acked_replica:
  assumes acked: "first_acked members c" and a: "a \<in> set members"
    and addr: "rp_leader_addr (fst x) = rp_leader_addr (fst (cl_replica c a))"
    and ms: "sent (snd x) = sent (snd (cl_replica c a)) @ ms"
    and new: "0 < length (logs_in (take k (to_replica a c))) \<Longrightarrow> received a c = 0 \<Longrightarrow>
      Ack 1 \<in> set (outbox (rp_leader_addr (fst x)) (snd x))"
  shows "first_acked members (set_replica a x
    (c\<lparr>cl_read := (cl_read c)(a := k), cl_answered := A\<rparr>))" (is "first_acked members ?c")
  unfolding first_acked_def
proof (intro ballI impI)
  fix b assume b: "b \<in> set members" and r: "0 < received b ?c"
  show "Ack 1 \<in> set (to_leader b ?c)"
  proof (cases "b = a")
    case True
    have t: "to_leader a ?c = outbox (rp_leader_addr (fst x)) (snd x)"
      by (simp add: to_leader_def set_replica_def)
    have "0 < length (logs_in (take k (to_replica a c)))"
      using r True by (simp add: received_def set_replica_def to_replica_def)
    moreover have "set (to_leader a c) \<subseteq> set (to_leader a ?c)"
      using addr ms by (auto simp: to_leader_def set_replica_def)
    ultimately show ?thesis using acked a new t True by (auto simp: first_acked_def)
  next
    case False
    then have "received b ?c = received b c" "to_leader b ?c = to_leader b c"
      by (simp_all add: received_def set_replica_def to_replica_def to_leader_def)
    with acked b r show ?thesis by (simp add: first_acked_def)
  qed
qed

lemma first_acked_reads:
  assumes inv: "cluster_inv members L c" and acked: "first_acked members c" and a: "a \<in> set members"
    and k: "cl_read c a < length (to_replica a c)"
    and h: "handle_node_msg (replica_ops hash) (to_replica a c ! cl_read c a) (cl_replica c a) = (x, Ok NoRoleChange)"
  shows "first_acked members (set_replica a x (c\<lparr>cl_read := (cl_read c)(a := Suc (cl_read c a))\<rparr>))"
proof -
  obtain rp v rp' v' where rv: "cl_replica c a = (rp, v)" "x = (rp', v')" by (metis surj_pair)
  note I = cluster_invD [OF inv a]
  have "replica_inv L (received a c) (cl_answered c a) (rp, v)" using I(3) rv by simp
  note ri = this
  have t: "take (Suc (cl_read c a)) (to_replica a c) =
      take (cl_read c a) (to_replica a c) @ [to_replica a c ! cl_read c a]"
    using k by (simp add: take_Suc_conv_app_nth)
  have "\<exists>ms. rp_leader_addr rp' = rp_leader_addr rp \<and> sent v' = sent v @ ms \<and>
      (0 < length (logs_in (take (Suc (cl_read c a)) (to_replica a c))) \<longrightarrow> received a c = 0 \<longrightarrow>
        Ack 1 \<in> set (outbox (rp_leader_addr rp') v'))"
  proof (cases "to_replica a c ! cl_read c a")
    case (Log i op)
    note m = next_entry [OF inv a k Log]
    have step: "replica_handle_log i op (rp, v) = ((rp', v'), Ok ())"
      using h Log rv by (auto simp: replica_ops_def elim: with_result.elims)
    have addr: "rp_leader_addr rp' = rp_leader_addr rp" "\<exists>ms. sent v' = sent v @ ms"
      using replica_inv_log(2,3) [OF ri m(1) I(8)] step m(2,3) by simp_all
    have "Ack 1 \<in> set (outbox (rp_leader_addr rp) v')" if "received a c = 0"
    proof -
      obtain v1 r1 where n: "net_send (Ack 1) (rp_leader_addr rp) v = (v1, r1)" by (rule prod.exhaust)
      with step m(2) that have "v' = v1" "r1 = Ok ()"
        by (auto simp: replica_handle_log_def on_world_def)
      with only_sent_fields(7) [OF net_send_only [OF n]] show ?thesis by (auto simp: outbox_def)
    qed
    with addr show ?thesis by auto
  next
    case (Response r res)
    then have "replica_handle_response r res (rp, v) = ((rp', v'), Ok ())"
      using h rv by (auto simp: replica_ops_def elim: with_result.elims)
    then have "rp' = rp \<and> nw_conn v' = nw_conn v"
      by (auto simp: replica_handle_response_def on_world_def station_send_def Let_def
          split: if_splits operation_result.splits prod.splits)
    with Response t show ?thesis by (intro exI [of _ "[]"]) (simp add: received_def)
  qed (use I(6) k in \<open>auto simp: list_all_length\<close>)
  then obtain ms where M: "rp_leader_addr rp' = rp_leader_addr rp" "sent v' = sent v @ ms"
      "0 < length (logs_in (take (Suc (cl_read c a)) (to_replica a c))) \<longrightarrow> received a c = 0 \<longrightarrow>
        Ack 1 \<in> set (outbox (rp_leader_addr rp') v')"
    by (elim exE conjE)
  have "first_acked members (set_replica a x
      (c\<lparr>cl_read := (cl_read c)(a := Suc (cl_read c a)), cl_answered := cl_answered c\<rparr>))"
    by (rule first_acked_replica [OF acked a, where ms = ms]) (use M rv in simp_all)
  then show ?thesis by simp
qed

lemma first_acked_replica_alone:
  assumes acked: "first_acked members c" and a: "a \<in> set members" and rv: "cl_replica c a = (rp, v)"
    and addr: "rp_leader_addr rp' = rp_leader_addr rp" and ms: "sent v' = sent v @ ms"
  shows "first_acked members (set_replica a (rp', v') (c\<lparr>cl_answered := A\<rparr>))"
proof -
  have "first_acked members (set_replica a (rp', v')
      (c\<lparr>cl_read := (cl_read c)(a := cl_read c a), cl_answered := A\<rparr>))"
    by (rule first_acked_replica [OF acked a, where ms = ms]) (use rv addr ms in \<open>simp_all add: received_def\<close>)
  then show ?thesis by simp
qed

lemma request_sends:
  assumes inv: "cluster_inv members L c" and lw: "cl_leader c = (l, w)"
    and step: "leader_handle_request r op addr (l, w) = ((l', w'), Ok ())"
  shows "\<exists>ms. sent w' = sent w @ ms"
proof -
  have "leader_inv members L (l, w)" using inv lw by (simp add: cluster_inv_def)
  then have "hm_len (ld_cluster l) \<noteq> 1" using leader_invD(3,4) by fastforce
  from only_sent_fields(7) [OF leader_request_ok(2) [OF this step]] show ?thesis by blast
qed

lemma first_acked_step:
  assumes "cluster_step hash members c c'" and inv: "cluster_inv members L c"
    and acked: "first_acked members c"
  shows "first_acked members c'"
  using assms(1)
proof (cases rule: cluster_step.cases)
  case (leader_request op r addr x)
  obtain l w l' w' where lw: "cl_leader c = (l, w)" "x = (l', w')" by (metis surj_pair)
  have "leader_handle_request r op addr (l, w) = ((l', w'), Ok ())"
    using leader_request(3) lw by (auto simp: leader_ops_def elim: with_result.elims)
  from request_sends [OF inv lw(1) this] obtain ms where "sent w' = sent w @ ms" by blast
  then show ?thesis
    using first_acked_leader [OF inv acked, of x ms "cl_heard c"] leader_request(1) lw
    by simp
next
  case (leader_charge account_id card_id amount r x)
  obtain l w l' w' where lw: "cl_leader c = (l, w)" "x = (l', w')" by (metis surj_pair)
  have "\<exists>ms. sent w' = sent w @ ms"
    using leader_charge(2) [unfolded lw]
  proof (cases rule: leader_charge_cases)
    case (offline q ms)
    then show ?thesis by (intro exI [of _ "[]"]) simp
  next
    case online
    from request_sends [OF inv lw(1) this] show ?thesis .
  qed
  then obtain ms where "sent w' = sent w @ ms" by blast
  then show ?thesis
    using first_acked_leader [OF inv acked, of x ms "cl_heard c"] leader_charge(1) lw
    by simp
next
  case (leader_result op i res success err x)
  obtain l w l' w' where lw: "cl_leader c = (l, w)" "x = (l', w')" by (metis surj_pair)
  from leader_result_frame [OF leader_result(2,3) [unfolded lw]] obtain ms where "sent w' = sent w @ ms"
    by blast
  with first_acked_leader [OF inv acked, of x ms "cl_heard c"] leader_result(1) lw show ?thesis by simp
next
  case (leader_hears a x)
  obtain l w l' w' where lw: "cl_leader c = (l, w)" "x = (l', w')" by (metis surj_pair)
  have li: "leader_inv members L (l, w)" using cluster_invD(4) [OF inv leader_hears(2)] lw by simp
  have "replica_msg (to_leader a c ! cl_heard c a)"
    using cluster_invD(7) [OF inv leader_hears(2)] leader_hears(3) by (simp add: list_all_length)
  then have "\<exists>ms. sent w' = sent w @ ms"
  proof (cases "to_leader a c ! cl_heard c a")
    case (Ack i)
    then have "leader_handle_ack i (l, w) = ((l', w'), Ok ())"
      using leader_hears(4) lw by (auto simp: leader_ops_def elim: with_result.elims)
    from leader_inv_ack [OF li this] show ?thesis by simp
  next
    case (Request r op addr)
    then have "leader_handle_request r op addr (l, w) = ((l', w'), Ok ())"
      using leader_hears(4) lw by (auto simp: leader_ops_def elim: with_result.elims)
    from request_sends [OF inv lw(1) this] show ?thesis .
  qed auto
  then obtain ms where "sent w' = sent w @ ms" by blast
  with first_acked_leader [OF inv acked, of x ms] leader_hears(1) lw show ?thesis by simp
next
  case (replica_reads a x)
  with first_acked_reads [OF inv acked replica_reads(2-4)] show ?thesis by simp
next
  case (replica_request a op r addr x)
  obtain rp v rp' v' where rv: "cl_replica c a = (rp, v)" "x = (rp', v')" by (metis surj_pair)
  have "replica_handle_request r op addr (rp, v) = ((rp', v'), Ok ())"
    using replica_request(4) rv by (auto simp: replica_ops_def elim: with_result.elims)
  from replica_request_frame [OF this] have "rp' = rp" "\<exists>ms. sent v' = sent v @ ms"
    using only_sent_fields(7) by blast+
  with first_acked_replica_alone [OF acked replica_request(2) rv(1), of rp' v' _ "cl_answered c"]
    replica_request(1) rv(2) show ?thesis by auto
next
  case (replica_charge a account_id card_id amount r x)
  obtain rp v rp' v' where rv: "cl_replica c a = (rp, v)" "x = (rp', v')" by (metis surj_pair)
  have "rp_leader_addr rp' = rp_leader_addr rp \<and> (\<exists>ms. sent v' = sent v @ ms)"
    using replica_charge(3) [unfolded rv]
  proof (cases rule: replica_charge_cases)
    case online
    from replica_request_frame [OF this] show ?thesis using only_sent_fields(7) by blast
  qed simp
  with first_acked_replica_alone [OF acked replica_charge(2) rv(1), of rp' v' _ "cl_answered c"]
    replica_charge(1) rv(2) show ?thesis by auto
next
  case (replica_result a i op res success err x)
  obtain rp v rp' v' where rv: "cl_replica c a = (rp, v)" "x = (rp', v')" by (metis surj_pair)
  note I = cluster_invD [OF inv replica_result(2)]
  have "replica_inv L (received a c) (cl_answered c a) (rp, v)" using I(3) rv by simp
  then have "RouterCommand (Execute i op) \<in> set (executes 1 (take (received a c - 1) L))" "received a c \<le> length L"
    using replica_result(3) rv replica_invD(1,2) by (auto simp: mail_of_def)
  then have "op \<in> set L"
    using executes_mem [of i op "received a c - 1" L] I(8) nth_mem [of "unat i - 1" L] by fastforce
  moreover obtain l w where "cl_leader c = (l, w)" by (rule prod.exhaust)
  ultimately have "client_operation op"
    using leader_invD(7) [of members L l w] I(4) by (simp add: list_all_iff)
  from replica_result_frame [OF this replica_result(5) [unfolded rv]] have "rp' = rp" "\<exists>ms. sent v' = sent v @ ms"
    using only_sent_fields(7) by blast+
  with first_acked_replica_alone [OF acked replica_result(2) rv(1), of rp' v' _ "(cl_answered c)(a := insert i (cl_answered c a))"]
    replica_result(1) rv(2) show ?thesis by auto
qed

section \<open>A quiet cluster\<close>

text \<open>
  Everything that was sent has been read, every command a replica's database was given has been
  answered, and the acknowledgement that the answer causes was accepted by its connection.
\<close>

definition quiet :: "socket_addr list \<Rightarrow> cluster_state \<Rightarrow> bool" where
  "quiet members c \<longleftrightarrow>
     (\<forall>a \<in> set members. cl_read c a = length (to_replica a c) \<and> cl_heard c a = length (to_leader a c) \<and>
        (\<forall>i op. RouterCommand (Execute i op) \<in> set (mail_of (cl_replica c a)) \<longrightarrow>
           i \<in> cl_answered c a \<and> Ack (i + 1) \<in> set (to_leader a c)))"

lemma cluster_reachable_progress:
  assumes "(cluster_step hash members)\<^sup>*\<^sup>* c0 c" and "cluster_fresh members c0"
  shows "\<exists>L. cluster_inv members L c \<and> log_kept members c \<and> first_acked members c"
  using assms
proof (induction rule: rtranclp_induct)
  case base
  have "log_kept members c0 \<and> first_acked members c0"
    using base by (auto simp: cluster_fresh_def log_kept_def first_acked_def to_replica_def outbox_def
        received_def split: prod.splits)
  with cluster_fresh_inv [OF base] show ?case by blast
next
  case (step c c')
  then obtain L where "cluster_inv members L c" "log_kept members c" "first_acked members c" by blast
  with cluster_step_inv [OF step.hyps(2)] log_kept_step [OF step.hyps(2)] first_acked_step [OF step.hyps(2)]
  show ?case by blast
qed

lemma Ack_acks_in: "Ack i \<in> set ms \<Longrightarrow> i \<in> set (acks_in ms)"
  by (induction ms) (auto split: option.splits)

text \<open>In a quiet cluster every replica has acknowledged every entry.\<close>

lemma quiet_ackers:
  assumes inv: "cluster_inv members L c" and acked: "first_acked members c" and q: "quiet members c"
    and i: "0 < unat i" "unat i \<le> length L"
  shows "ackers members c i = set members"
proof -
  have "i \<in> set (acks_in (to_leader a c))" if a: "a \<in> set members" for a
  proof -
    obtain rp v where rv: "cl_replica c a = (rp, v)" by (rule prod.exhaust)
    note I = cluster_invD [OF inv a]
    have m: "received a c = length L" using q a I(5) by (simp add: quiet_def received_def)
    then have ri: "replica_inv L (length L) (cl_answered c a) (rp, v)" using I(3) rv by simp
    show ?thesis
    proof (cases "i = 1")
      case True
      with acked a m i show ?thesis by (intro Ack_acks_in) (auto simp: first_acked_def)
    next
      case False
      have one: "unat i \<noteq> 1"
      proof
        assume "unat i = 1"
        moreover have "i = of_nat (unat i)" by simp
        ultimately show False using False by simp
      qed
      let ?j = "unat i - 2" and ?L = "take (length L - 1) L"
      have j: "unat i = Suc (Suc ?j)" using one i by linarith
      have j': "?j < length ?L" using one i by (simp add: less_diff_conv)
      have "i = of_nat (unat i)" by simp
      also have "of_nat (unat i) = of_nat (Suc ?j) + (1 :: u32)" by (subst j) simp
      finally have i1: "i - 1 = of_nat (Suc ?j)" by (metis add_diff_cancel_right')
      have "entries_of ?L ! ?j \<in> set (entries_of ?L)" by (rule nth_mem) (use j' in simp)
      then have "(i - 1, ?L ! ?j) \<in> set (entries_of ?L)"
        using j' unfolding i1 by (simp del: of_nat_Suc)
      then have "RouterCommand (Execute (i - 1) (?L ! ?j)) \<in> set (executes 1 ?L)"
        unfolding executes_entries by force
      then have "RouterCommand (Execute (i - 1) (?L ! ?j)) \<in> set (mail_of (cl_replica c a))"
        using replica_invD(2) [OF ri] rv by (simp add: mail_of_def)
      then have "Ack (i - 1 + 1) \<in> set (to_leader a c)"
        using q a unfolding quiet_def by blast
      then show ?thesis using Ack_acks_in by simp
    qed
  qed
  then show ?thesis using q by (auto simp: ackers_def quiet_def)
qed

text \<open>A cluster that goes quiet has caught up: without failures, once every message has been read
  and every replica's database has answered (and its acknowledgements were accepted), there is
  one log that all members were sent, the leader's database has been told to execute each of
  its entries exactly once, and every replica's database all of them in order but the last,
  which waits for the next one.\<close>

theorem quiet_cluster_caught_up:
  assumes "cluster_fresh members c0" and "(cluster_step hash members)\<^sup>*\<^sup>* c0 c" and "quiet members c"
  shows "\<exists>L. mset (mail_of (cl_leader c)) = mset (executes 1 L) \<and>
    (\<forall>a \<in> set members. logs_in (to_replica a c) = entries_of L \<and>
       mail_of (cl_replica c a) = executes 1 (butlast L))"
proof -
  from cluster_reachable_progress [OF assms(2,1)] obtain L where
    inv: "cluster_inv members L c" and kept: "log_kept members c" and acked: "first_acked members c" by blast
  obtain l w where lw: "cl_leader c = (l, w)" by (rule prod.exhaust)
  have V: "votes_inv members L c" and li: "leader_inv members L (l, w)"
    using inv lw by (simp_all add: cluster_inv_def)
  note V = votes_invD [OF V lw] and short = leader_inv_short [OF li] and D = leader_invD [OF li]
  obtain a where a: "a \<in> set members" using D(4) by (cases members) auto
  have "cmd \<in> set (db_mail w)" if cmd: "cmd \<in> set (executes 1 L)" for cmd
  proof -
    from cmd obtain i op where e: "cmd = RouterCommand (Execute i op)" "(i, op) \<in> set (entries_of L)"
      unfolding executes_entries by auto
    have "0 < unat i \<and> unat i \<le> length L" using e(2) entries_of_mem [OF short] by blast
    then have "ackers members c i = set members"
      using quiet_ackers [OF inv acked assms(3)] by blast
    then have all: "card (ackers members c i) = length members" using D(2) by (simp add: distinct_card)
    have "entry_kept (l, w) (i, op)"
      using kept a e(2) lw cluster_invD(5) [OF inv a] by (auto simp: log_kept_def)
    then show ?thesis
      using V(3) [of i] all D(4) e(1) by (fastforce simp: entry_kept_def mail_of_def)
  qed
  moreover have "cmd \<in> set (executes 1 L)" if "cmd \<in> set (db_mail w)" for cmd
    using V(2) [OF that] unfolding executes_entries by force
  ultimately have "set (db_mail w) = set (executes 1 L)" by blast
  moreover have "distinct (executes 1 L)"
  proof -
    have "fst (entries_of L ! j) \<noteq> fst (entries_of L ! k)" if "j < length L" "k < length L" "j \<noteq> k" for j k
      using that short by (auto simp: unat_of_nat_u32 simp del: of_nat_Suc dest!: arg_cong [where f = unat])
    then show ?thesis
      unfolding executes_entries by (auto simp: distinct_conv_nth split_beta)
  qed
  ultimately have "mset (mail_of (cl_leader c)) = mset (executes 1 L)"
    using V(1) lw by (simp add: mail_of_def set_eq_iff_mset_eq_distinct)
  moreover have "logs_in (to_replica b c) = entries_of L \<and> mail_of (cl_replica c b) = executes 1 (butlast L)"
    if b: "b \<in> set members" for b
  proof -
    obtain rp v where rv: "cl_replica c b = (rp, v)" by (rule prod.exhaust)
    note I = cluster_invD [OF inv b]
    have "received b c = length L" using assms(3) b I(5) by (simp add: quiet_def received_def)
    then have "replica_inv L (length L) (cl_answered c b) (rp, v)" using I(3) rv by simp
    from replica_invD(2) [OF this] rv I(5) show ?thesis by (simp add: mail_of_def butlast_conv_take)
  qed
  ultimately show ?thesis by blast
qed

text \<open>The run of \<open>Cluster\<close>, until both replicas have read the entry and the leader both answers.\<close>

lemma sample_replica_reads:
  assumes "a \<in> {node_addr 5001, node_addr 5002}"
  obtains rp v where "replica_handle_log 1 (AccountQuery 3) (cl_replica sample_cluster a) = ((rp, v), Ok ())"
    "outbox (rp_leader_addr rp) v = [Ack 1]" "db_mail v = []"
  using assms
  by (auto simp: replica_handle_log_def sample_run_defs system_new_def outbox_def)

lemma sample_leader_asks:
  obtains l w where "leader_handle_request 9 (AccountQuery 3) (node_addr 7000) (cl_leader sample_cluster) = ((l, w), Ok ())"
    "outbox (node_addr 5001) w = [Log 1 (AccountQuery 3)]" "outbox (node_addr 5002) w = [Log 1 (AccountQuery 3)]"
proof -
  obtain l0 w0 l w where lw: "cl_leader sample_cluster = (l0, w0)" and
    req: "leader_handle_request 9 (AccountQuery 3) (node_addr 7000) (l0, w0) = ((l, w), Ok ())"
  proof -
    obtain l0 w0 l w r where "cl_leader sample_cluster = (l0, w0)" and
      "leader_handle_request 9 (AccountQuery 3) (node_addr 7000) (l0, w0) = ((l, w), r)" by (metis surj_pair)
    with that sample_request show thesis
      by (cases r rule: sum.exhaust) (auto simp: leader_ops_def)
  qed
  have "hm_len (ld_cluster l0) \<noteq> 1" "ld_current_op_id l0 = 1" "sent w0 = []"
    "peers (ld_id l0) (ld_cluster l0) = [node_addr 5001, node_addr 5002]"
    using lw by (auto simp: sample_run_defs)
  with only_sent_fields(7) [OF leader_request_ok(2) [OF _ req]] that lw req show thesis
    by (simp add: outbox_def node_addr_def)
qed

lemma sample_quiet_run:
  "\<exists>c. (cluster_step (\<lambda>a. 0) [node_addr 5001, node_addr 5002])\<^sup>*\<^sup>* sample_cluster c \<and>
     quiet [node_addr 5001, node_addr 5002] c \<and> to_replica (node_addr 5001) c = [Log 1 (AccountQuery 3)]"
proof -
  let ?a = "node_addr 5001" and ?b = "node_addr 5002" and ?q = "AccountQuery 3"
  let ?ms = "[?a, ?b]"
  let ?step = "cluster_step (\<lambda>a. 0) ?ms"
  have ab: "?a \<noteq> ?b" by (simp add: node_addr_def)
  obtain l w where req: "leader_handle_request 9 ?q (node_addr 7000) (cl_leader sample_cluster) = ((l, w), Ok ())"
    and out: "outbox ?a w = [Log 1 ?q]" "outbox ?b w = [Log 1 ?q]" by (rule sample_leader_asks)
  obtain ra va where a: "replica_handle_log 1 ?q (cl_replica sample_cluster ?a) = ((ra, va), Ok ())"
    "outbox (rp_leader_addr ra) va = [Ack 1]" "db_mail va = []" by (rule sample_replica_reads [of ?a]) simp
  obtain rb vb where b: "replica_handle_log 1 ?q (cl_replica sample_cluster ?b) = ((rb, vb), Ok ())"
    "outbox (rp_leader_addr rb) vb = [Ack 1]" "db_mail vb = []" by (rule sample_replica_reads [of ?b]) simp
  have 0: "cl_read sample_cluster = (\<lambda>a. 0)" "cl_heard sample_cluster = (\<lambda>a. 0)" by (simp_all add: sample_cluster_def)
  let ?c1 = "sample_cluster\<lparr>cl_leader := (l, w)\<rparr>"
  let ?c2 = "set_replica ?a (ra, va) (?c1\<lparr>cl_read := (cl_read ?c1)(?a := Suc (cl_read ?c1 ?a))\<rparr>)"
  let ?c3 = "set_replica ?b (rb, vb) (?c2\<lparr>cl_read := (cl_read ?c2)(?b := Suc (cl_read ?c2 ?b))\<rparr>)"
  have 1: "?step sample_cluster ?c1"
    by (rule leader_request [of ?q _ 9 "node_addr 7000"]) (use req in \<open>simp_all add: leader_ops_def\<close>)
  have 2: "?step ?c1 ?c2"
    by (rule replica_reads) (use out a 0 in \<open>simp_all add: to_replica_def replica_ops_def\<close>)
  have 3: "?step ?c2 ?c3"
    by (rule replica_reads) (use out b 0 ab in \<open>simp_all add: to_replica_def replica_ops_def set_replica_def\<close>)
  have reach3: "?step\<^sup>*\<^sup>* sample_cluster ?c3" using 1 2 3 by (meson converse_rtranclp_into_rtranclp rtranclp.rtrancl_refl)
  have hear: "\<exists>l' w'. leader_handle_ack 1 (cl_leader c) = ((l', w'), Ok ()) \<and> sent w' = sent (snd (cl_leader c))"
    if "?step\<^sup>*\<^sup>* sample_cluster c" for c
  proof -
    from cluster_reachable_inv [OF that sample_cluster_fresh] obtain L where "cluster_inv ?ms L c" by blast
    then have li: "leader_inv ?ms L (fst (cl_leader c), snd (cl_leader c))" by (simp add: cluster_inv_def)
    obtain x where "leader_handle_ack 1 (cl_leader c) = (x, Ok ())"
      using leader_ack_cases [OF li, of 1] by (auto split: option.splits)
    with leader_inv_ack [OF li] show ?thesis by (cases x) simp
  qed
  obtain l4 w4 where h4: "leader_handle_ack 1 (cl_leader ?c3) = ((l4, w4), Ok ())" "sent w4 = sent w"
    using hear [OF reach3] by (auto simp: set_replica_def)
  let ?c4 = "?c3\<lparr>cl_leader := (l4, w4), cl_heard := (cl_heard ?c3)(?a := Suc (cl_heard ?c3 ?a))\<rparr>"
  have 4: "?step ?c3 ?c4"
    by (rule leader_hears) (use a h4 0 ab in \<open>simp_all add: to_leader_def leader_ops_def set_replica_def\<close>)
  have reach4: "?step\<^sup>*\<^sup>* sample_cluster ?c4" using reach3 4 by simp
  obtain l5 w5 where h5: "leader_handle_ack 1 (cl_leader ?c4) = ((l5, w5), Ok ())" "sent w5 = sent w"
    using hear [OF reach4] h4(2) by auto
  let ?c5 = "?c4\<lparr>cl_leader := (l5, w5), cl_heard := (cl_heard ?c4)(?b := Suc (cl_heard ?c4 ?b))\<rparr>"
  have 5: "?step ?c4 ?c5"
    by (rule leader_hears) (use b h5 0 ab in \<open>simp_all add: to_leader_def leader_ops_def set_replica_def\<close>)
  have "outbox x w5 = outbox x w" for x by (simp add: outbox_def h5(2))
  then have "quiet ?ms ?c5" "to_replica ?a ?c5 = [Log 1 ?q]"
    using a b out 0 ab
    by (simp_all add: quiet_def to_leader_def to_replica_def set_replica_def mail_of_def)
  with reach4 5 show ?thesis by (meson rtranclp.rtrancl_into_rtrancl)
qed

theorem quiet_cluster_caught_up_witness:
  "\<exists>c. quiet [node_addr 5001, node_addr 5002] c \<and> to_replica (node_addr 5001) c = [Log 1 (AccountQuery 3)] \<and>
     RouterCommand (Execute 1 (AccountQuery 3)) \<in> set (mail_of (cl_leader c))"
proof -
  from sample_quiet_run obtain c where c: "(cluster_step (\<lambda>a. 0) [node_addr 5001, node_addr 5002])\<^sup>*\<^sup>* sample_cluster c"
    "quiet [node_addr 5001, node_addr 5002] c" "to_replica (node_addr 5001) c = [Log 1 (AccountQuery 3)]" by blast
  from quiet_cluster_caught_up [OF sample_cluster_fresh c(1,2)] obtain L where
    L: "mset (mail_of (cl_leader c)) = mset (executes 1 L)" "entries_of L = [(1, AccountQuery 3)]"
    using c(3) by auto
  then have "set (mail_of (cl_leader c)) = set (executes 1 L)" by (metis set_mset_mset)
  moreover have "executes 1 L = [RouterCommand (Execute 1 (AccountQuery 3))]"
    unfolding executes_entries L(2) by simp
  ultimately show ?thesis using c by auto
qed

end
