(* ===== verification/ClusterLinks.thy ===== *)
theory ClusterLinks
  imports ClusterProgress
begin

text \<open>
  The cluster of \<open>Cluster\<close> on links that are up: every handler succeeds, and the links stay up.
\<close>

section \<open>Links that are up\<close>

text \<open>Every handler task runs, every address can be reached and the station listens.\<close>

definition world_up :: "node_world \<Rightarrow> bool" where
  "world_up w \<longleftrightarrow> connection_ok (nw_conn w) \<and> cn_connected (nw_conn w) \<and> is_ipv4 (cn_address (nw_conn w)) \<and>
     (\<forall>a. cn_reachable (nw_conn w) a) \<and> (\<forall>a h. hm_get (cn_active (nw_conn w)) a = Some h \<longrightarrow> ph_alive h) \<and>
     nw_to_station_open w"

lemma world_up_db [simp]: "world_up (w\<lparr>nw_db := d\<rparr>) = world_up w" "world_up (w\<lparr>nw_to_station := ms\<rparr>) = world_up w"
  by (simp_all add: world_up_def)

lemma world_up_db_send [simp]: "world_up (db_send i op w) = world_up w"
  by (simp add: db_send_def)

lemma add_handler_alive:
  assumes "\<forall>a h. hm_get active a = Some h \<longrightarrow> ph_alive h" "ph_alive h0"
    and "hm_get (add_handler_from active h0 n) a = Some h"
  shows "ph_alive h"
proof -
  have "ph_alive h" if "hm_get (fst (remove_last_recently_used active)) a = Some h" for a h
    using that assms(1)
    by (auto simp: remove_last_recently_used_def hm.get_remove split: option.splits prod.splits if_splits)
  with assms show ?thesis by (auto simp: add_handler_from_def hm.get_insert split: if_splits)
qed

lemma send_links:
  assumes "world_up w"
  obtains w' where "net_send m a w = (w', Ok ())" "world_up w'"
proof -
  let ?c = "nw_conn w"
  have up: "connection_ok ?c" "cn_connected ?c" "is_ipv4 (cn_address ?c)" "\<And>a. cn_reachable ?c a"
    "\<And>a h. hm_get (cn_active ?c) a = Some h \<Longrightarrow> ph_alive h" "nw_to_station_open w"
    using assms unfolding world_up_def by blast+
  have "\<exists>c'. connection_send m a ?c = (c', Ok ()) \<and> (\<forall>b h. hm_get (cn_active c') b = Some h \<longrightarrow> ph_alive h)"
  proof (cases "hm_get (cn_active ?c) a")
    case (Some h)
    have q: "ph_alive (ph_enqueue m (h\<lparr>ph_last_used := t\<rparr>))" for t
      using up(5) [OF Some] by (simp add: ph_alive_def ph_enqueue_def)
    from send_to_alive [OF up(2) Some up(5) [OF Some], of m] show ?thesis
      using up(5) q by (auto simp: hm.get_insert split: if_splits)
  next
    case None
    obtain h where h: "handler_start (cn_now ?c) True (cn_address ?c) a = Ok h"
      using up(3) by (simp add: handler_start_def send_handler_first_message_def)
    note alive = handler_start_address [OF h]
    let ?active = "add_handler_from (cn_active ?c) h (cn_max_conns ?c)"
    have get: "hm_get ?active a = Some h"
      using add_handler_from_get [of "cn_active ?c" h] alive up(1) by (simp add: connection_ok_def)
    have all: "ph_alive h'" if "hm_get ?active b = Some h'" for b h'
      using add_handler_alive [OF _ _ that] alive up(5) by blast
    have q: "ph_alive (ph_enqueue m (h\<lparr>ph_last_used := t\<rparr>))" for t
      using alive by (simp add: ph_alive_def ph_enqueue_def)
    show ?thesis
      using up(2,4) None h get alive all q
      by (auto simp: connection_send_def ensure_handler_def hm_contains_def ph_send_def Let_def hm.get_insert
          split: if_splits)
  qed
  then obtain c' where c': "connection_send m a ?c = (c', Ok ())" "\<forall>b h. hm_get (cn_active c') b = Some h \<longrightarrow> ph_alive h"
    by blast
  obtain act snt where "c' = ?c\<lparr>cn_active := act, cn_sent := snt\<rparr>" using connection_send_frame [OF c'(1)] by blast
  then have "cn_connected c' = cn_connected ?c \<and> cn_address c' = cn_address ?c \<and> cn_reachable c' = cn_reachable ?c"
    by simp
  moreover have "connection_ok c'" using connection_send_ok [OF up(1), of m a] c'(1) by simp
  ultimately have "world_up (w\<lparr>nw_conn := c'\<rparr>)"
    using c'(2) up unfolding world_up_def by (auto simp del: split_paired_All)
  with that c'(1) show thesis by (simp add: net_send_def)
qed

lemma peers_links:
  assumes "world_up w"
  obtains w' where "send_to_peers i m c w = (w', Ok ())" "world_up w'"
  using assms
proof (induction c arbitrary: w thesis)
  case (Cons p c)
  obtain j a where p: "p = (j, a)" by (rule prod.exhaust)
  show ?case
  proof (cases "j = i")
    case True
    from Cons.IH [OF _ Cons.prems(2)] Cons.prems(1) p True show ?thesis by auto
  next
    case False
    obtain w1 where w1: "net_send m a w = (w1, Ok ())" "world_up w1" by (rule send_links [OF Cons.prems(2)])
    from Cons.IH [OF _ w1(2)] obtain w' where "send_to_peers i m c w1 = (w', Ok ())" "world_up w'" by blast
    with Cons.prems(1) p False w1(1) show ?thesis by simp
  qed
qed simp


section \<open>What the handlers do while the links are up\<close>

lemma leader_request_links:
  assumes "world_up w" "hm_len (ld_cluster l) \<noteq> 1"
  shows "world_up (snd (fst (leader_handle_request r op addr (l, w))))"
    and "unat (ld_current_op_id l) < 2 ^ 32 - 1 \<Longrightarrow> snd (leader_handle_request r op addr (l, w)) = Ok ()"
proof -
  obtain w' where w': "send_to_peers (ld_id l) (Log (ld_current_op_id l) op) (ld_cluster l) w = (w', Ok ())" "world_up w'"
    by (rule peers_links [OF assms(1)])
  then show "world_up (snd (fst (leader_handle_request r op addr (l, w))))"
    "unat (ld_current_op_id l) < 2 ^ 32 - 1 \<Longrightarrow> snd (leader_handle_request r op addr (l, w)) = Ok ()"
    using assms(2) by (simp_all add: leader_handle_request_def on_world_def Let_def)
qed

text \<open>The result of a pending operation is told to its station or sent to its client, once.\<close>

lemma leader_answer_links:
  assumes "world_up w"
  shows "\<exists>w' ms. leader_answer op res p (l, w) = ((l, w'), Ok ()) \<and> world_up w' \<and> nw_db w' = nw_db w \<and>
    sent w' = sent w @ ms \<and> length ms \<le> 1 \<and> (\<forall>(m, b) \<in> set ms. \<exists>k v. m = Response k v)"
proof -
  obtain w1 where n: "net_send (Response (po_request_id p) res) (po_client_addr p) w = (w1, Ok ())" "world_up w1"
    by (rule send_links [OF assms])
  note f = only_sent_fields [OF net_send_only [OF n(1)]]
  have st: "nw_to_station_open w" using assms by (simp add: world_up_def)
  show ?thesis
  proof (cases "po_client_addr p = ld_address l")
    case True
    then show ?thesis
      using assms st by (intro exI [of _ "snd (fst (leader_answer op res p (l, w)))"] exI [of _ "[]"])
        (auto simp: leader_answer_def on_world_def station_send_def Let_def
          split: prod.splits operation.splits operation_result.splits)
  next
    case False
    with n f show ?thesis
      by (intro exI [of _ w1] exI [of _ "[(Response (po_request_id p) res, po_client_addr p)]"])
        (simp add: leader_answer_def on_world_def)
  qed
qed

lemma leader_result_links:
  assumes "world_up w" "client_operation op" "i \<noteq> 0" "hm_get (ld_operations l) i = Some p"
  shows "\<exists>w' ms. handle_actor_event (leader_ops hash) (OperationResult i op res success err) (l, w) =
      ((l\<lparr>ld_operations := hm_remove i (ld_operations l)\<rparr>, w'), Ok ()) \<and> world_up w' \<and> nw_db w' = nw_db w \<and>
    sent w' = sent w @ ms \<and> length ms \<le> 1 \<and> (\<forall>(m, b) \<in> set ms. \<exists>k v. m = Response k v)"
proof -
  let ?l = "l\<lparr>ld_operations := hm_remove i (ld_operations l)\<rparr>"
  have "leader_handle_operation_result i op res (l, w) = leader_answer op res p (?l, w)"
    using assms(2-4) by (cases op) simp_all
  with leader_answer_links [OF assms(1), of op res p ?l] show ?thesis
    by (auto simp: leader_ops_def)
qed

lemma leader_result_pending:
  assumes "handle_actor_event (leader_ops hash) (OperationResult i op res success err) (l, w) = (x, Ok ())" "i \<noteq> 0"
  shows "hm_get (ld_operations l) i \<noteq> None"
proof
  assume "hm_get (ld_operations l) i = None"
  with assms show False by (simp add: leader_ops_def)
qed

lemma leader_charge_links:
  assumes "world_up w" "hm_len (ld_cluster l) \<noteq> 1"
  shows "world_up (snd (fst (handle_station_msg (leader_ops hash) (ChargeRequest a c y r) (l, w))))"
  using assms leader_request_links(1) [OF assms]
  by (auto simp: handle_charge_request_def leader_ops_def on_world_def station_send_def Let_def)

lemma replica_log_links:
  assumes "world_up v" "replica_handle_log i op (rp, v) = ((rp', v'), r)"
  shows "world_up v' \<and> rp_leader_addr rp' = rp_leader_addr rp \<and> (i \<noteq> 0 \<longrightarrow> r = Ok ()) \<and>
    (sent v' = sent v @ [(Ack 1, rp_leader_addr rp)] \<and> db_mail v' = db_mail v \<or>
     sent v' = sent v \<and> (db_mail v' = db_mail v \<or> (\<exists>j p. db_mail v' = db_mail v @ [RouterCommand (Execute j p)])))"
proof (cases "i = 1")
  case True
  obtain v1 where n: "net_send (Ack 1) (rp_leader_addr rp) v = (v1, Ok ())" "world_up v1"
    by (rule send_links [OF assms(1)])
  with only_sent_fields [OF net_send_only [OF n(1)]] assms(2) True show ?thesis
    by (auto simp: replica_handle_log_def on_world_def)
next
  case False
  with assms show ?thesis
    by (auto simp: replica_handle_log_def replica_commit_operation_def Let_def split: if_splits option.splits)
qed

lemma replica_response_links:
  assumes "world_up v"
  shows "\<exists>v'. replica_handle_response r res (rp, v) = ((rp, v'), Ok ()) \<and> world_up v' \<and> nw_db v' = nw_db v \<and> nw_conn v' = nw_conn v"
proof -
  have "nw_to_station_open v" using assms by (simp add: world_up_def)
  with assms show ?thesis
    by (cases res) (auto simp: replica_handle_response_def on_world_def station_send_def Let_def split: prod.split)
qed

lemma replica_request_links:
  assumes "world_up v"
  shows "\<exists>v'. replica_handle_request r op addr (rp, v) = ((rp, v'), Ok ()) \<and> world_up v' \<and> nw_db v' = nw_db v \<and>
    sent v' = sent v @ [(Request r op addr, rp_leader_addr rp)]"
proof -
  obtain v1 where n: "net_send (Request r op addr) (rp_leader_addr rp) v = (v1, Ok ())" "world_up v1"
    by (rule send_links [OF assms])
  with only_sent_fields [OF net_send_only [OF n(1)]] show ?thesis
    by (auto simp: replica_handle_request_def on_world_def)
qed

lemma replica_charge_links:
  assumes "world_up v" "handle_station_msg (replica_ops hash) (ChargeRequest a c y r) (rp, v) = ((rp', v'), z)"
  shows "world_up v' \<and> rp_leader_addr rp' = rp_leader_addr rp \<and> nw_db v' = nw_db v \<and> (\<exists>ms. sent v' = sent v @ ms)"
proof (cases "rp_is_offline rp")
  case True
  have "nw_to_station_open v" using assms by (simp add: world_up_def)
  with True assms show ?thesis
    by (auto simp: handle_charge_request_def replica_ops_def on_world_def station_send_def Let_def)
next
  case False
  obtain v1 where "replica_handle_request r (Charge a c y False) (rp_address rp) (rp, v) = ((rp, v1), Ok ())"
    "world_up v1" "nw_db v1 = nw_db v" "\<exists>ms. sent v1 = sent v @ ms"
    using replica_request_links [OF assms(1)] by blast
  with False assms(2) show ?thesis
    by (auto simp: handle_charge_request_def replica_ops_def)
qed

lemma replica_result_links:
  assumes "world_up v" "client_operation op" "unat i < 2 ^ 32 - 1"
  shows "\<exists>v'. handle_actor_event (replica_ops hash) (OperationResult i op res success err) (rp, v) = ((rp, v'), Ok ()) \<and>
    world_up v' \<and> nw_db v' = nw_db v \<and> sent v' = sent v @ [(Ack (i + 1), rp_leader_addr rp)]"
proof -
  obtain v1 where n: "net_send (Ack (i + 1)) (rp_leader_addr rp) v = (v1, Ok ())" "world_up v1"
    by (rule send_links [OF assms(1)])
  have "replica_handle_operation_result i op res (rp, v) = ((rp, v1), Ok ())"
    using n assms(2,3) by (cases op) (simp_all add: replica_handle_operation_result_def on_world_def)
  with only_sent_fields [OF net_send_only [OF n(1)]] n(2) show ?thesis by (simp add: replica_ops_def)
qed


section \<open>The links stay up\<close>

definition cluster_up :: "socket_addr list \<Rightarrow> cluster_state \<Rightarrow> bool" where
  "cluster_up members c \<longleftrightarrow> world_up (snd (cl_leader c)) \<and> (\<forall>a \<in> set members. world_up (snd (cl_replica c a)))"

text \<open>Every command a replica's database has answered was acknowledged.\<close>

definition acks_sent :: "socket_addr list \<Rightarrow> cluster_state \<Rightarrow> bool" where
  "acks_sent members c \<longleftrightarrow> (\<forall>a \<in> set members. \<forall>i \<in> cl_answered c a. Ack (i + 1) \<in> set (to_leader a c))"

lemma leader_step_up:
  assumes "cluster_up members c" "acks_sent members c" "world_up (snd x)"
  shows "cluster_up members (c\<lparr>cl_leader := x, cl_heard := h\<rparr>) \<and> acks_sent members (c\<lparr>cl_leader := x, cl_heard := h\<rparr>)"
  using assms by (simp add: cluster_up_def acks_sent_def to_leader_def)

lemma replica_step_up:
  assumes up: "cluster_up members c" "acks_sent members c" and a: "a \<in> set members"
    and rv: "cl_replica c a = (rp, v)" and x: "world_up v'" "rp_leader_addr rp' = rp_leader_addr rp" "sent v' = sent v @ ms"
    and A: "\<And>i. i \<in> A \<Longrightarrow> i \<in> cl_answered c a \<or> Ack (i + 1) \<in> set (outbox (rp_leader_addr rp) v')"
  shows "cluster_up members (set_replica a (rp', v') (c\<lparr>cl_read := k, cl_answered := (cl_answered c)(a := A)\<rparr>)) \<and>
    acks_sent members (set_replica a (rp', v') (c\<lparr>cl_read := k, cl_answered := (cl_answered c)(a := A)\<rparr>))"
proof -
  have "set (to_leader a c) \<subseteq> set (outbox (rp_leader_addr rp) v')"
    using x(3) rv by (auto simp: to_leader_def)
  moreover have "\<forall>i \<in> cl_answered c a. Ack (i + 1) \<in> set (to_leader a c)" using up(2) a by (simp add: acks_sent_def)
  ultimately have "\<forall>i \<in> A. Ack (i + 1) \<in> set (outbox (rp_leader_addr rp) v')" using A by blast
  then show ?thesis
    using up x(1,2) by (simp add: cluster_up_def acks_sent_def set_replica_def to_leader_def)
qed

lemma replica_cmd:
  assumes inv: "cluster_inv members L c" and a: "a \<in> set members"
    and cmd: "RouterCommand (Execute i op) \<in> set (mail_of (cl_replica c a))"
  shows "client_operation op" "0 < unat i" "unat i < 2 ^ 32 - 1"
proof -
  obtain rp v where rv: "cl_replica c a = (rp, v)" by (rule prod.exhaust)
  note I = cluster_invD [OF inv a]
  have ri: "replica_inv L (received a c) (cl_answered c a) (rp, v)" using I(3) rv by simp
  have "RouterCommand (Execute i op) \<in> set (executes 1 (take (received a c - 1) L))"
    using cmd rv replica_invD(2) [OF ri] by (simp add: mail_of_def)
  then have e: "0 < unat i \<and> unat i \<le> received a c - 1 \<and> L ! (unat i - 1) = op"
    using executes_mem [of i op "received a c - 1" L] I(8) replica_invD(1) [OF ri] by simp
  then have "op \<in> set L" using replica_invD(1) [OF ri] nth_mem [of "unat i - 1" L] by fastforce
  moreover obtain l w where "cl_leader c = (l, w)" by (rule prod.exhaust)
  ultimately show "client_operation op" using leader_invD(7) [of members L l w] I(4) by (simp add: list_all_iff)
  show "0 < unat i" "unat i < 2 ^ 32 - 1" using e I(8) replica_invD(1) [OF ri] by linarith+
qed

lemma leader_cmd:
  assumes inv: "cluster_inv members L c" and lw: "cl_leader c = (l, w)"
    and cmd: "RouterCommand (Execute i op) \<in> set (mail_of (l, w))"
  shows "i \<noteq> 0"
proof -
  have V: "votes_inv members L c" and li: "leader_inv members L (l, w)" using inv lw by (simp_all add: cluster_inv_def)
  have "(i, op) \<in> set (entries_of L)"
    using votes_invD(2) [OF V lw, of "RouterCommand (Execute i op)"] cmd by (auto simp: mail_of_def)
  then have "0 < unat i" using entries_of_mem [OF leader_inv_short [OF li]] by blast
  then show ?thesis by auto
qed

lemma cluster_step_up:
  assumes "cluster_step hash members c c'" and inv: "cluster_inv members L c"
    and up: "cluster_up members c" and sent: "acks_sent members c"
  shows "cluster_up members c' \<and> acks_sent members c'"
proof -
  obtain l w where lw: "cl_leader c = (l, w)" by (rule prod.exhaust)
  have li: "leader_inv members L (l, w)" using inv lw by (simp add: cluster_inv_def)
  have n: "hm_len (ld_cluster l) \<noteq> 1" using leader_invD(3,4) [OF li] by auto
  have w: "world_up w" using up lw by (simp add: cluster_up_def)
  from assms(1) show ?thesis
  proof (cases rule: cluster_step.cases)
    case (leader_request op r addr x)
    have "leader_handle_request r op addr (l, w) = (x, Ok ())"
      using leader_request(3) lw by (auto simp: leader_ops_def elim: with_result.elims)
    with leader_request_links(1) [OF w n, of r op addr] have "world_up (snd x)" by simp
    from leader_step_up [OF up sent this, of "cl_heard c"] leader_request(1) show ?thesis by simp
  next
    case (leader_charge account_id card_id amount r x)
    with leader_charge_links [OF w n, of hash account_id card_id amount r] lw have "world_up (snd x)" by simp
    from leader_step_up [OF up sent this, of "cl_heard c"] leader_charge(1) show ?thesis by simp
  next
    case (leader_result op i res success err x)
    have h: "handle_actor_event (leader_ops hash) (OperationResult i op res success err) (l, w) = (x, Ok ())"
      using leader_result(3) lw by simp
    have i: "i \<noteq> 0" using leader_cmd [OF inv lw] leader_result(4) lw by simp
    obtain p where "hm_get (ld_operations l) i = Some p" using leader_result_pending [OF h i] by blast
    from leader_result_links [OF w leader_result(2) i this, of hash res success err] h have "world_up (snd x)" by auto
    from leader_step_up [OF up sent this, of "cl_heard c"] leader_result(1) show ?thesis by simp
  next
    case (leader_hears a x)
    have "replica_msg (to_leader a c ! cl_heard c a)"
      using cluster_invD(7) [OF inv leader_hears(2)] leader_hears(3) by (simp add: list_all_length)
    then have "world_up (snd x)"
    proof (cases "to_leader a c ! cl_heard c a")
      case (Ack i)
      then have "leader_handle_ack i (l, w) = (x, Ok ())"
        using leader_hears(4) lw by (auto simp: leader_ops_def elim: with_result.elims)
      then show ?thesis using leader_ack_cases [OF li, of i] w by (auto split: option.splits)
    next
      case (Request r op addr)
      then have "leader_handle_request r op addr (l, w) = (x, Ok ())"
        using leader_hears(4) lw by (auto simp: leader_ops_def elim: with_result.elims)
      with leader_request_links(1) [OF w n, of r op addr] show ?thesis by simp
    qed auto
    from leader_step_up [OF up sent this] leader_hears(1) show ?thesis by simp
  next
    case (replica_reads a x)
    obtain rp v rp' v' where rv: "cl_replica c a = (rp, v)" "x = (rp', v')" by (metis surj_pair)
    have v: "world_up v" using up replica_reads(2) rv by (auto simp: cluster_up_def)
    have "leader_msg (to_replica a c ! cl_read c a)"
      using cluster_invD(6) [OF inv replica_reads(2)] replica_reads(3) by (simp add: list_all_length)
    then have "world_up v' \<and> rp_leader_addr rp' = rp_leader_addr rp \<and> (\<exists>ms. sent v' = sent v @ ms)"
    proof (cases "to_replica a c ! cl_read c a")
      case (Log i op)
      then have "replica_handle_log i op (rp, v) = ((rp', v'), Ok ())"
        using replica_reads(4) rv by (auto simp: replica_ops_def elim: with_result.elims)
      from replica_log_links [OF v this] show ?thesis by auto
    next
      case (Response r res)
      then have "replica_handle_response r res (rp, v) = ((rp', v'), Ok ())"
        using replica_reads(4) rv by (auto simp: replica_ops_def elim: with_result.elims)
      with replica_response_links [OF v, of r res rp] show ?thesis by auto
    qed auto
    then obtain ms where "world_up v'" "rp_leader_addr rp' = rp_leader_addr rp" "sent v' = sent v @ ms" by blast
    from replica_step_up [OF up sent replica_reads(2) rv(1) this, of "cl_answered c a"] replica_reads(1) rv(2)
    show ?thesis by simp
  next
    case (replica_request a op r addr x)
    obtain rp v where rv: "cl_replica c a = (rp, v)" by (rule prod.exhaust)
    have v: "world_up v" using up replica_request(2) rv by (auto simp: cluster_up_def)
    have "replica_handle_request r op addr (rp, v) = (x, Ok ())"
      using replica_request(4) rv by (auto simp: replica_ops_def elim: with_result.elims)
    with replica_request_links [OF v, of r op addr rp] obtain v' ms where x: "x = (rp, v')" "world_up v'" "sent v' = sent v @ ms"
      by auto
    from replica_step_up [OF up sent replica_request(2) rv x(2) refl x(3), of "cl_answered c a" "cl_read c"]
      replica_request(1) x(1) show ?thesis by simp
  next
    case (replica_charge a account_id card_id amount r x)
    obtain rp v rp' v' where rv: "cl_replica c a = (rp, v)" "x = (rp', v')" by (metis surj_pair)
    have v: "world_up v" using up replica_charge(2) rv by (auto simp: cluster_up_def)
    obtain ms where "world_up v'" "rp_leader_addr rp' = rp_leader_addr rp" "sent v' = sent v @ ms"
      using replica_charge_links [OF v replica_charge(3) [unfolded rv]] by blast
    from replica_step_up [OF up sent replica_charge(2) rv(1) this, of "cl_answered c a" "cl_read c"] replica_charge(1) rv(2)
    show ?thesis by simp
  next
    case (replica_result a i op res success err x)
    obtain rp v where rv: "cl_replica c a = (rp, v)" by (rule prod.exhaust)
    have v: "world_up v" using up replica_result(2) rv by (auto simp: cluster_up_def)
    note C = replica_cmd [OF inv replica_result(2,3)]
    obtain v' where x: "x = (rp, v')" "world_up v'" "sent v' = sent v @ [(Ack (i + 1), rp_leader_addr rp)]"
      using replica_result_links [OF v C(1,3), of hash res success err rp] replica_result(5) rv by auto
    have "Ack (i + 1) \<in> set (outbox (rp_leader_addr rp) v')" using x(3) by (simp add: outbox_def)
    then have A: "j \<in> cl_answered c a \<or> Ack (j + 1) \<in> set (outbox (rp_leader_addr rp) v')"
      if "j \<in> insert i (cl_answered c a)" for j
      using that by auto
    from replica_step_up [OF up sent replica_result(2) rv x(2) refl x(3) A, where k = "cl_read c" and A = "insert i (cl_answered c a)"] replica_result(1) x(1)
    show ?thesis by simp
  qed
qed

end
