(* ===== verification/ClusterSettles.thy ===== *)
theory ClusterSettles
  imports ClusterLinks
begin

text \<open>
  The cluster of \<open>Cluster\<close> settles: while its links are up, what is left to deliver is bounded, some
  delivery is possible until nothing is left, and then every request has been answered. The
  measure counts ahead what a message can still cause.
\<close>

section \<open>Deliveries\<close>

text \<open>The result the database gives for an operation of a client.\<close>

fun answer_fits :: "operation \<Rightarrow> operation_result \<Rightarrow> bool" where
  "answer_fits (Charge a c x off) (ResCharge r) = True"
| "answer_fits (LimitAccount a l) (ResLimitAccount r) = True"
| "answer_fits (LimitCard a c l) (ResLimitCard r) = True"
| "answer_fits (AccountQuery a) (ResAccountQuery r) = True"
| "answer_fits (Bill a p) (ResAccountQuery r) = True"
| "answer_fits op res = False"

lemma answer_exists: "client_operation op \<Longrightarrow> \<exists>res. answer_fits op res"
proof (cases op)
  case (Charge a c x off)
  then show ?thesis by (intro exI [of _ "ResCharge ChargeOk"]) simp
next
  case (LimitAccount a l)
  then show ?thesis by (intro exI [of _ "ResLimitAccount LimitOk"]) simp
next
  case (LimitCard a c l)
  then show ?thesis by (intro exI [of _ "ResLimitCard LimitOk"]) simp
next
  case (AccountQuery a)
  then show ?thesis by (intro exI [of _ "ResAccountQuery undefined"]) simp
next
  case (Bill a p)
  then show ?thesis by (intro exI [of _ "ResAccountQuery undefined"]) simp
qed simp_all

text \<open>The steps that no client and no pump causes.\<close>

inductive cluster_delivery :: "(socket_addr \<Rightarrow> u64) \<Rightarrow> socket_addr list \<Rightarrow> cluster_state \<Rightarrow> cluster_state \<Rightarrow> bool"
  for hash members where
  answers: "client_operation op \<Longrightarrow> answer_fits op res \<Longrightarrow>
    handle_actor_event (leader_ops hash) (OperationResult i op res success err) (cl_leader c) = (x, Ok ()) \<Longrightarrow>
    RouterCommand (Execute i op) \<in> set (mail_of (cl_leader c)) \<Longrightarrow>
    cluster_delivery hash members c (c\<lparr>cl_leader := x\<rparr>)"
| hears: "a \<in> set members \<Longrightarrow> cl_heard c a < length (to_leader a c) \<Longrightarrow>
    handle_node_msg (leader_ops hash) (to_leader a c ! cl_heard c a) (cl_leader c) = (x, Ok NoRoleChange) \<Longrightarrow>
    cluster_delivery hash members c (c\<lparr>cl_leader := x, cl_heard := (cl_heard c)(a := Suc (cl_heard c a))\<rparr>)"
| reads: "a \<in> set members \<Longrightarrow> cl_read c a < length (to_replica a c) \<Longrightarrow>
    handle_node_msg (replica_ops hash) (to_replica a c ! cl_read c a) (cl_replica c a) = (x, Ok NoRoleChange) \<Longrightarrow>
    cluster_delivery hash members c (set_replica a x (c\<lparr>cl_read := (cl_read c)(a := Suc (cl_read c a))\<rparr>))"
| executes_entry: "a \<in> set members \<Longrightarrow> answer_fits op res \<Longrightarrow>
    RouterCommand (Execute i op) \<in> set (mail_of (cl_replica c a)) \<Longrightarrow> i \<notin> cl_answered c a \<Longrightarrow>
    handle_actor_event (replica_ops hash) (OperationResult i op res success err) (cl_replica c a) = (x, Ok ()) \<Longrightarrow>
    cluster_delivery hash members c
      (set_replica a x (c\<lparr>cl_answered := (cl_answered c)(a := insert i (cl_answered c a))\<rparr>))"

lemma delivery_step: "cluster_delivery hash members c c' \<Longrightarrow> cluster_step hash members c c'"
  by (cases rule: cluster_delivery.cases, assumption)
    (auto intro: leader_result leader_hears replica_reads replica_result)

subsection \<open>What is left to deliver\<close>

text \<open>A log entry is read, its predecessor executed and acknowledged; a request becomes an entry for
  every member and a pending operation, which is answered by a message.\<close>

fun leader_msg_work :: "message \<Rightarrow> nat" where
  "leader_msg_work (Log i op) = 4"
| "leader_msg_work m = 1"

fun replica_msg_work :: "nat \<Rightarrow> message \<Rightarrow> nat" where
  "replica_msg_work n (Request r op addr) = 4 * n + 3"
| "replica_msg_work n m = 1"

fun unanswered :: "u32 set \<Rightarrow> router_input \<Rightarrow> bool" where
  "unanswered A (RouterCommand (Execute i op)) \<longleftrightarrow> i \<notin> A"
| "unanswered A m \<longleftrightarrow> False"

definition replica_work :: "nat \<Rightarrow> cluster_state \<Rightarrow> socket_addr \<Rightarrow> nat" where
  "replica_work n c a =
     sum_list (map leader_msg_work (drop (cl_read c a) (to_replica a c))) +
     sum_list (map (replica_msg_work n) (drop (cl_heard c a) (to_leader a c))) +
     2 * length (filter (unanswered (cl_answered c a)) (mail_of (cl_replica c a)))"

definition cluster_work :: "socket_addr list \<Rightarrow> cluster_state \<Rightarrow> nat" where
  "cluster_work members c =
     (\<Sum>a \<in> set members. replica_work (length members) c a) + 2 * hm_len (ld_operations (fst (cl_leader c)))"

lemma drop_next:
  "k < length ms \<Longrightarrow> sum_list (map f (drop k ms)) = f (ms ! k) + sum_list (map f (drop (Suc k) ms))"
  by (simp add: Cons_nth_drop_Suc [symmetric])

text \<open>Each message the leader sends is on its way to one member at most.\<close>

definition sent_work :: "(message \<times> socket_addr) list \<Rightarrow> nat" where
  "sent_work ms = sum_list (map (\<lambda>(m, b). leader_msg_work m) ms)"

lemma sent_work_members:
  "finite S \<Longrightarrow> (\<Sum>a \<in> S. sum_list (map leader_msg_work (map fst (filter (\<lambda>(m, b). b = a) ms)))) \<le> sent_work ms"
proof (induction ms)
  case (Cons x ms)
  obtain m b where x: "x = (m, b)" by (rule prod.exhaust)
  have "(\<Sum>a \<in> S. sum_list (map leader_msg_work (map fst (filter (\<lambda>(m, b). b = a) (x # ms))))) =
      (\<Sum>a \<in> S. (if b = a then leader_msg_work m else 0)) +
      (\<Sum>a \<in> S. sum_list (map leader_msg_work (map fst (filter (\<lambda>(m, b). b = a) ms))))"
    by (subst sum.distrib [symmetric]) (rule sum.cong, simp_all add: x)
  also have "(\<Sum>a \<in> S. (if b = a then leader_msg_work m else 0)) \<le> leader_msg_work m"
    using Cons.prems by (simp add: sum.delta')
  finally show ?case using Cons by (simp add: sent_work_def x)
qed (simp add: sent_work_def)

lemma leader_sends_work:
  assumes read: "\<And>a. a \<in> set members \<Longrightarrow> cl_read c a \<le> length (to_replica a c)"
    and ms: "sent (snd x) = sent (snd (cl_leader c)) @ ms"
  shows "(\<Sum>a \<in> set members. replica_work n (c\<lparr>cl_leader := x\<rparr>) a) \<le>
    (\<Sum>a \<in> set members. replica_work n c a) + sent_work ms"
proof -
  have "replica_work n (c\<lparr>cl_leader := x\<rparr>) a = replica_work n c a +
      sum_list (map leader_msg_work (map fst (filter (\<lambda>(m, b). b = a) ms)))" if "a \<in> set members" for a
    using read [OF that] ms
    by (simp add: replica_work_def to_replica_def to_leader_def outbox_def)
  then have "(\<Sum>a \<in> set members. replica_work n (c\<lparr>cl_leader := x\<rparr>) a) = (\<Sum>a \<in> set members. replica_work n c a) +
      (\<Sum>a \<in> set members. sum_list (map leader_msg_work (map fst (filter (\<lambda>(m, b). b = a) ms))))"
    by (simp add: sum.distrib)
  with sent_work_members [of "set members" ms] show ?thesis by simp
qed

lemma hear_work:
  assumes a: "a \<in> set members" and k: "cl_heard c a < length (to_leader a c)"
  shows "(\<Sum>b \<in> set members. replica_work n (c\<lparr>cl_heard := (cl_heard c)(a := Suc (cl_heard c a))\<rparr>) b) +
      replica_msg_work n (to_leader a c ! cl_heard c a) = (\<Sum>b \<in> set members. replica_work n c b)"
proof -
  let ?c = "c\<lparr>cl_heard := (cl_heard c)(a := Suc (cl_heard c a))\<rparr>"
  have "replica_work n ?c a + replica_msg_work n (to_leader a c ! cl_heard c a) = replica_work n c a"
    using drop_next [OF k, of "replica_msg_work n"] by (simp add: replica_work_def to_leader_def to_replica_def)
  moreover have "(\<Sum>b \<in> set members - {a}. replica_work n ?c b) = (\<Sum>b \<in> set members - {a}. replica_work n c b)"
    by (rule sum.cong) (auto simp: replica_work_def to_leader_def to_replica_def)
  ultimately show ?thesis using a by (simp add: sum.remove [of "set members" a])
qed

lemma replica_alone_work:
  assumes a: "a \<in> set members" and less: "replica_work n (set_replica a x (c\<lparr>cl_read := R, cl_answered := A\<rparr>)) a < replica_work n c a"
    and R: "\<And>b. b \<noteq> a \<Longrightarrow> R b = cl_read c b" "\<And>b. b \<noteq> a \<Longrightarrow> A b = cl_answered c b"
  shows "(\<Sum>b \<in> set members. replica_work n (set_replica a x (c\<lparr>cl_read := R, cl_answered := A\<rparr>)) b) <
    (\<Sum>b \<in> set members. replica_work n c b)"
proof (rule sum_strict_mono_ex1)
  show "\<forall>b \<in> set members. replica_work n (set_replica a x (c\<lparr>cl_read := R, cl_answered := A\<rparr>)) b \<le> replica_work n c b"
  proof
    fix b
    show "replica_work n (set_replica a x (c\<lparr>cl_read := R, cl_answered := A\<rparr>)) b \<le> replica_work n c b"
      using less R by (cases "b = a") (simp_all add: replica_work_def set_replica_def to_leader_def to_replica_def)
  qed
qed (use a less in auto)


subsection \<open>Every delivery leaves less\<close>

lemma answers_work:
  assumes inv: "cluster_inv members L c" and up: "cluster_up members c" and op: "client_operation op"
    and h: "handle_actor_event (leader_ops hash) (OperationResult i op res success err) (cl_leader c) = (x, Ok ())"
    and cmd: "RouterCommand (Execute i op) \<in> set (mail_of (cl_leader c))"
  shows "cluster_work members (c\<lparr>cl_leader := x\<rparr>) < cluster_work members c"
proof -
  obtain l w where lw: "cl_leader c = (l, w)" by (rule prod.exhaust)
  have i: "i \<noteq> 0" using leader_cmd [OF inv lw] cmd lw by simp
  obtain p where p: "hm_get (ld_operations l) i = Some p" using leader_result_pending [OF h [unfolded lw] i] by blast
  have "world_up w" using up lw by (simp add: cluster_up_def)
  from leader_result_links [OF this op i p, of hash res success err] h lw obtain w' ms where
    x: "x = (l\<lparr>ld_operations := hm_remove i (ld_operations l)\<rparr>, w')" "sent w' = sent w @ ms" "length ms \<le> 1"
      "\<forall>(m, b) \<in> set ms. \<exists>k v. m = Response k v" by auto
  have "sent_work ms \<le> 1" using x(3,4) by (cases ms) (auto simp: sent_work_def)
  moreover have "(\<Sum>a \<in> set members. replica_work (length members) (c\<lparr>cl_leader := x\<rparr>) a) \<le>
      (\<Sum>a \<in> set members. replica_work (length members) c a) + sent_work ms"
    by (rule leader_sends_work) (use cluster_invD(1) [OF inv] x lw in simp_all)
  moreover have "hm_len (hm_remove i (ld_operations l)) < hm_len (ld_operations l)" by (rule hm_len_facts(3) [OF p])
  ultimately show ?thesis using lw x(1) by (simp add: cluster_work_def)
qed

lemma hears_work:
  assumes inv: "cluster_inv members L c" and a: "a \<in> set members" and k: "cl_heard c a < length (to_leader a c)"
    and h: "handle_node_msg (leader_ops hash) (to_leader a c ! cl_heard c a) (cl_leader c) = (x, Ok NoRoleChange)"
  shows "cluster_work members (c\<lparr>cl_leader := x, cl_heard := (cl_heard c)(a := Suc (cl_heard c a))\<rparr>) < cluster_work members c"
proof -
  obtain l w l' w' where lw: "cl_leader c = (l, w)" "x = (l', w')" by (metis surj_pair)
  have li: "leader_inv members L (l, w)" using inv lw by (simp add: cluster_inv_def)
  let ?n = "length members" and ?c = "c\<lparr>cl_heard := (cl_heard c)(a := Suc (cl_heard c a))\<rparr>"
  let ?m = "to_leader a c ! cl_heard c a"
  have "\<exists>ms. sent w' = sent w @ ms \<and> sent_work ms + 2 * hm_len (ld_operations l') <
      replica_msg_work ?n ?m + 2 * hm_len (ld_operations l)"
  proof -
    have "replica_msg ?m" using cluster_invD(7) [OF inv a] k by (simp add: list_all_length)
    then consider (ack) i where "?m = Ack i" | (request) r op addr where "?m = Request r op addr"
      by (cases ?m) auto
    then show ?thesis
    proof cases
      case ack
      then have "leader_handle_ack i (l, w) = ((l', w'), Ok ())"
        using h lw by (auto simp: leader_ops_def elim: with_result.elims)
      then have "sent w' = sent w \<and> hm_len (ld_operations l') = hm_len (ld_operations l)"
        using leader_ack_cases [OF li, of i] by (auto simp: hm_len_facts(2) split: option.splits)
      with ack show ?thesis by (intro exI [of _ "[]"]) (simp add: sent_work_def)
    next
      case request
      then have s: "leader_handle_request r op addr (l, w) = ((l', w'), Ok ())"
        using h lw by (auto simp: leader_ops_def elim: with_result.elims)
      have "hm_len (ld_cluster l) \<noteq> 1" using leader_invD(3,4) [OF li] by auto
      note R = leader_request_ok [OF this s]
      let ?ms = "map (Pair (Log (ld_current_op_id l) op)) members"
      have "sent w' = sent w @ ?ms" using only_sent_fields(7) [OF R(2)] leader_invD(1) [OF li] by simp
      moreover have "sent_work ?ms = 4 * ?n" by (simp add: sent_work_def comp_def sum_list_triv)
      moreover have "hm_len (ld_operations l') \<le> Suc (hm_len (ld_operations l))"
        unfolding R(1) using hm_len_facts(1) by simp
      ultimately show ?thesis using request by (intro exI [of _ ?ms]) simp
    qed
  qed
  then obtain ms where ms: "sent w' = sent w @ ms" "sent_work ms + 2 * hm_len (ld_operations l') <
      replica_msg_work ?n ?m + 2 * hm_len (ld_operations l)" by blast
  have eq: "c\<lparr>cl_leader := x, cl_heard := (cl_heard c)(a := Suc (cl_heard c a))\<rparr> = ?c\<lparr>cl_leader := x\<rparr>"
    by (cases c) simp
  have "(\<Sum>b \<in> set members. replica_work ?n (?c\<lparr>cl_leader := x\<rparr>) b) \<le>
      (\<Sum>b \<in> set members. replica_work ?n ?c b) + sent_work ms"
    by (rule leader_sends_work) (use cluster_invD(1) [OF inv] ms lw in \<open>simp_all add: to_replica_def\<close>)
  then show ?thesis
    unfolding cluster_work_def eq using hear_work [OF a k, of ?n] ms(2) lw by simp
qed

lemma reads_work:
  assumes inv: "cluster_inv members L c" and up: "cluster_up members c" and a: "a \<in> set members"
    and k: "cl_read c a < length (to_replica a c)"
    and h: "handle_node_msg (replica_ops hash) (to_replica a c ! cl_read c a) (cl_replica c a) = (x, Ok NoRoleChange)"
  shows "cluster_work members (set_replica a x (c\<lparr>cl_read := (cl_read c)(a := Suc (cl_read c a))\<rparr>)) < cluster_work members c"
proof -
  obtain rp v rp' v' where rv: "cl_replica c a = (rp, v)" "x = (rp', v')" by (metis surj_pair)
  have v: "world_up v" using up a rv by (auto simp: cluster_up_def)
  note I = cluster_invD [OF inv a]
  let ?m = "to_replica a c ! cl_read c a"
  have "\<exists>ms cmds. rp_leader_addr rp' = rp_leader_addr rp \<and> sent v' = sent v @ ms \<and> db_mail v' = db_mail v @ cmds \<and>
      (\<forall>(m, b) \<in> set ms. m = Ack 1) \<and> length ms + 2 * length cmds < leader_msg_work ?m"
  proof -
    have "leader_msg ?m" using I(6) k by (simp add: list_all_length)
    then consider (log) i op where "?m = Log i op" | (response) r res where "?m = Response r res"
      by (cases ?m) auto
    then show ?thesis
    proof cases
      case log
      then have "replica_handle_log i op (rp, v) = ((rp', v'), Ok ())"
        using h rv by (auto simp: replica_ops_def elim: with_result.elims)
      from replica_log_links [OF v this] consider
          "rp_leader_addr rp' = rp_leader_addr rp" "sent v' = sent v @ [(Ack 1, rp_leader_addr rp)]" "db_mail v' = db_mail v @ []"
        | "rp_leader_addr rp' = rp_leader_addr rp" "sent v' = sent v @ []" "db_mail v' = db_mail v @ []"
        | j p where "rp_leader_addr rp' = rp_leader_addr rp" "sent v' = sent v @ []" "db_mail v' = db_mail v @ [RouterCommand (Execute j p)]"
        by auto
      then show ?thesis by cases (use log in fastforce)+
    next
      case response
      then have "replica_handle_response r res (rp, v) = ((rp', v'), Ok ())"
        using h rv by (auto simp: replica_ops_def elim: with_result.elims)
      with replica_response_links [OF v, of r res rp] have "rp' = rp" "sent v' = sent v @ []" "db_mail v' = db_mail v @ []"
        by auto
      with response show ?thesis by (intro exI [of _ "[]"]) simp
    qed
  qed
  then obtain ms cmds where ms: "rp_leader_addr rp' = rp_leader_addr rp" "sent v' = sent v @ ms" "db_mail v' = db_mail v @ cmds"
    "\<forall>(m, b) \<in> set ms. m = Ack 1" "length ms + 2 * length cmds < leader_msg_work ?m" by (elim exE conjE)
  let ?c = "set_replica a x (c\<lparr>cl_read := (cl_read c)(a := Suc (cl_read c a)), cl_answered := cl_answered c\<rparr>)"
  let ?new = "map fst (filter (\<lambda>(m, b). b = rp_leader_addr rp) ms)"
  have new: "sum_list (map (replica_msg_work n) ?new) \<le> length ms" for n
    using ms(4) by (induction ms) auto
  have old: "cl_heard c a \<le> length (outbox (rp_leader_addr rp) v)" using I(2) rv by (simp add: to_leader_def)
  have "replica_work (length members) ?c a < replica_work (length members) c a"
    using drop_next [OF k, of leader_msg_work] ms(1,3,5) rv old outbox_append [OF ms(2), of "rp_leader_addr rp"]
      new [of "length members"]
    by (simp add: replica_work_def set_replica_def to_leader_def to_replica_def mail_of_def)
      (use length_filter_le [of "unanswered (cl_answered c a)" cmds] in linarith)
  from replica_alone_work [OF a this] show ?thesis
    by (simp add: cluster_work_def) (simp add: set_replica_def)
qed

lemma executes_work:
  assumes inv: "cluster_inv members L c" and up: "cluster_up members c" and a: "a \<in> set members"
    and cmd: "RouterCommand (Execute i op) \<in> set (mail_of (cl_replica c a))" and new: "i \<notin> cl_answered c a"
    and h: "handle_actor_event (replica_ops hash) (OperationResult i op res success err) (cl_replica c a) = (x, Ok ())"
  shows "cluster_work members (set_replica a x (c\<lparr>cl_answered := (cl_answered c)(a := insert i (cl_answered c a))\<rparr>))
    < cluster_work members c"
proof -
  obtain rp v where rv: "cl_replica c a = (rp, v)" by (rule prod.exhaust)
  have v: "world_up v" using up a rv by (auto simp: cluster_up_def)
  note I = cluster_invD [OF inv a] and C = replica_cmd [OF inv a cmd]
  obtain v' where x: "x = (rp, v')" "nw_db v' = nw_db v" "sent v' = sent v @ [(Ack (i + 1), rp_leader_addr rp)]"
    using replica_result_links [OF v C(1,3), of hash res success err rp] h rv by auto
  let ?A = "cl_answered c a" and ?mail = "db_mail v"
  have "filter (unanswered (insert i ?A)) ?mail = filter (unanswered (insert i ?A)) (filter (unanswered ?A) ?mail)"
  proof -
    have "unanswered (insert i ?A) m \<Longrightarrow> unanswered ?A m" for m
      by (cases "(?A, m)" rule: unanswered.cases) simp_all
    then show ?thesis by (simp add: conj_absorb cong: conj_cong) (meson filter_cong)
  qed
  moreover have "length (filter (unanswered (insert i ?A)) (filter (unanswered ?A) ?mail)) < length (filter (unanswered ?A) ?mail)"
    by (rule length_filter_less [of "RouterCommand (Execute i op)"]) (use cmd new rv in \<open>simp_all add: mail_of_def\<close>)
  ultimately have fewer: "length (filter (unanswered (insert i ?A)) ?mail) < length (filter (unanswered ?A) ?mail)" by simp
  let ?c = "set_replica a x (c\<lparr>cl_read := cl_read c, cl_answered := (cl_answered c)(a := insert i ?A)\<rparr>)"
  have old: "cl_heard c a \<le> length (outbox (rp_leader_addr rp) v)" using I(2) rv by (simp add: to_leader_def)
  have "replica_work (length members) ?c a < replica_work (length members) c a"
    using fewer rv x old
    by (simp add: replica_work_def set_replica_def to_leader_def to_replica_def mail_of_def outbox_append [OF x(3)])
  from replica_alone_work [OF a this] show ?thesis
    by (simp add: cluster_work_def) (simp add: set_replica_def)
qed

lemma delivery_work:
  assumes "cluster_delivery hash members c c'" "cluster_inv members L c" "cluster_up members c"
  shows "cluster_work members c' < cluster_work members c"
  using assms(1)
proof (cases rule: cluster_delivery.cases)
  case (answers op res i success err x)
  with answers_work [OF assms(2,3)] show ?thesis by blast
next
  case (hears a x)
  with hears_work [OF assms(2)] show ?thesis by blast
next
  case (reads a x)
  with reads_work [OF assms(2,3)] show ?thesis by blast
next
  case (executes_entry a i op res success err x)
  with executes_work [OF assms(2,3)] show ?thesis by blast
qed


section \<open>A delivery is possible until all is quiet\<close>

lemma hears_possible:
  assumes inv: "cluster_inv members L c" and up: "cluster_up members c"
    and room: "unat (ld_current_op_id (fst (cl_leader c))) < 2 ^ 32 - 1"
    and a: "a \<in> set members" and k: "cl_heard c a < length (to_leader a c)"
  shows "\<exists>c'. cluster_delivery hash members c c'"
proof -
  obtain l w where lw: "cl_leader c = (l, w)" by (rule prod.exhaust)
  have li: "leader_inv members L (l, w)" using inv lw by (simp add: cluster_inv_def)
  have w: "world_up w" using up lw by (simp add: cluster_up_def)
  have "replica_msg (to_leader a c ! cl_heard c a)"
    using cluster_invD(7) [OF inv a] k by (simp add: list_all_length)
  then have "\<exists>x. handle_node_msg (leader_ops hash) (to_leader a c ! cl_heard c a) (cl_leader c) = (x, Ok NoRoleChange)"
  proof (cases "to_leader a c ! cl_heard c a")
    case (Ack i)
    with leader_ack_cases [OF li, of i] lw show ?thesis by (auto simp: leader_ops_def split: option.splits)
  next
    case (Request r op addr)
    have "hm_len (ld_cluster l) \<noteq> 1" using leader_invD(3,4) [OF li] by auto
    from leader_request_links(2) [OF w this, of r op addr] room lw
    obtain x where "leader_handle_request r op addr (l, w) = (x, Ok ())" by (metis fst_conv prod.collapse)
    with Request lw show ?thesis by (simp add: leader_ops_def)
  qed auto
  with hears [OF a k] show ?thesis by blast
qed

lemma reads_possible:
  assumes inv: "cluster_inv members L c" and up: "cluster_up members c"
    and a: "a \<in> set members" and k: "cl_read c a < length (to_replica a c)"
  shows "\<exists>c'. cluster_delivery hash members c c'"
proof -
  obtain rp v where rv: "cl_replica c a = (rp, v)" by (rule prod.exhaust)
  have v: "world_up v" using up a rv by (auto simp: cluster_up_def)
  note I = cluster_invD [OF inv a]
  have "leader_msg (to_replica a c ! cl_read c a)" using I(6) k by (simp add: list_all_length)
  then have "\<exists>x. handle_node_msg (replica_ops hash) (to_replica a c ! cl_read c a) (cl_replica c a) = (x, Ok NoRoleChange)"
  proof (cases "to_replica a c ! cl_read c a")
    case (Log i op)
    note e = next_entry [OF inv a k Log]
    have "unat i = Suc (received a c)" using e(1,2) I(8) by (simp add: unat_of_nat_u32 del: of_nat_Suc)
    then have "i \<noteq> 0" by auto
    moreover obtain rp' v' r where h: "replica_handle_log i op (rp, v) = ((rp', v'), r)" by (metis surj_pair)
    ultimately have "r = Ok ()" using replica_log_links [OF v h] by blast
    with h Log rv show ?thesis by (simp add: replica_ops_def)
  next
    case (Response r res)
    with replica_response_links [OF v, of r res rp] rv show ?thesis by (auto simp: replica_ops_def)
  qed auto
  with reads [OF a k] show ?thesis by blast
qed

lemma executes_possible:
  assumes inv: "cluster_inv members L c" and up: "cluster_up members c" and a: "a \<in> set members"
    and cmd: "RouterCommand (Execute i op) \<in> set (mail_of (cl_replica c a))" and new: "i \<notin> cl_answered c a"
  shows "\<exists>c'. cluster_delivery hash members c c'"
proof -
  obtain rp v where rv: "cl_replica c a = (rp, v)" by (rule prod.exhaust)
  have v: "world_up v" using up a rv by (auto simp: cluster_up_def)
  note C = replica_cmd [OF inv a cmd]
  obtain res where res: "answer_fits op res" using answer_exists [OF C(1)] by blast
  obtain v' where "handle_actor_event (replica_ops hash) (OperationResult i op res True None) (cl_replica c a) = ((rp, v'), Ok ())"
    using replica_result_links [OF v C(1,3), of hash res True None rp] rv by auto
  from executes_entry [OF a res cmd new this] show ?thesis by blast
qed

lemma answer_possible:
  assumes inv: "cluster_inv members L c" and up: "cluster_up members c"
    and p: "hm_get (ld_operations (fst (cl_leader c))) i = Some p"
    and cmd: "RouterCommand (Execute i (po_op p)) \<in> set (mail_of (cl_leader c))"
  shows "\<exists>c'. cluster_delivery hash members c c'"
proof -
  obtain l w where lw: "cl_leader c = (l, w)" by (rule prod.exhaust)
  have li: "leader_inv members L (l, w)" using inv lw by (simp add: cluster_inv_def)
  have w: "world_up w" using up lw by (simp add: cluster_up_def)
  have "(i, po_op p) \<in> set (entries_of L)" using leader_invD(10) [OF li] p lw by simp
  then have "po_op p \<in> set L" by (auto simp: entries_of_def)
  then have op: "client_operation (po_op p)" using leader_invD(7) [OF li] by (simp add: list_all_iff)
  have "i \<noteq> 0" using leader_cmd [OF inv lw] cmd lw by simp
  moreover obtain res where res: "answer_fits (po_op p) res" using answer_exists [OF op] by blast
  ultimately obtain x where
    "handle_actor_event (leader_ops hash) (OperationResult i (po_op p) res True None) (cl_leader c) = (x, Ok ())"
    using leader_result_links [OF w op, of i l p hash res True None] p lw by auto
  from answers [OF op res this cmd] show ?thesis by blast
qed

text \<open>Every entry that is still pending is acknowledged by all in a quiet cluster, so it was executed.\<close>

lemma quiet_pending_executed:
  assumes inv: "cluster_inv members L c" and acked: "first_acked members c" and q: "quiet members c"
    and p: "hm_get (ld_operations (fst (cl_leader c))) i = Some p"
  shows "RouterCommand (Execute i (po_op p)) \<in> set (mail_of (cl_leader c))"
proof -
  obtain l w where lw: "cl_leader c = (l, w)" by (rule prod.exhaust)
  have V: "votes_inv members L c" and li: "leader_inv members L (l, w)" using inv lw by (simp_all add: cluster_inv_def)
  note D = leader_invD [OF li]
  have "(i, po_op p) \<in> set (entries_of L)" using D(10) p lw by simp
  then have "0 < unat i" "unat i \<le> length L" using entries_of_mem [OF leader_inv_short [OF li]] by blast+
  then have "ackers members c i = set members" using quiet_ackers [OF inv acked q] by blast
  then have "card (ackers members c i) = length members" using D(2) by (simp add: distinct_card)
  with votes_invD(3) [OF V lw, of i p] p lw D(4) show ?thesis by (auto simp: mail_of_def)
qed

lemma delivery_or_quiet:
  assumes inv: "cluster_inv members L c" and up: "cluster_up members c" and sent: "acks_sent members c"
    and acked: "first_acked members c" and room: "unat (ld_current_op_id (fst (cl_leader c))) < 2 ^ 32 - 1"
  shows "(\<exists>c'. cluster_delivery hash members c c') \<or>
    quiet members c \<and> (\<forall>i. hm_get (ld_operations (fst (cl_leader c))) i = None)"
proof (rule disjCI)
  assume none: "\<not> (quiet members c \<and> (\<forall>i. hm_get (ld_operations (fst (cl_leader c))) i = None))"
  show "\<exists>c'. cluster_delivery hash members c c'"
  proof (cases "quiet members c")
    case True
    with none obtain i p where p: "hm_get (ld_operations (fst (cl_leader c))) i = Some p" by auto
    from answer_possible [OF inv up p quiet_pending_executed [OF inv acked True p]] show ?thesis .
  next
    case False
    then obtain a where a: "a \<in> set members" and "\<not> (cl_read c a = length (to_replica a c) \<and>
        cl_heard c a = length (to_leader a c) \<and>
        (\<forall>i op. RouterCommand (Execute i op) \<in> set (mail_of (cl_replica c a)) \<longrightarrow>
           i \<in> cl_answered c a \<and> Ack (i + 1) \<in> set (to_leader a c)))"
      unfolding quiet_def by blast
    then consider "cl_read c a < length (to_replica a c)" | "cl_heard c a < length (to_leader a c)"
      | i op where "RouterCommand (Execute i op) \<in> set (mail_of (cl_replica c a))" "i \<notin> cl_answered c a"
      using cluster_invD(1,2) [OF inv a] sent a unfolding acks_sent_def by (metis le_neq_implies_less)
    then show ?thesis
      using reads_possible [OF inv up a] hears_possible [OF inv up room a] executes_possible [OF inv up a] by cases blast+
  qed
qed


section \<open>The cluster settles\<close>

definition cluster_fine :: "socket_addr list \<Rightarrow> cluster_state \<Rightarrow> bool" where
  "cluster_fine members c \<longleftrightarrow> (\<exists>L. cluster_inv members L c) \<and> cluster_up members c \<and> acks_sent members c \<and>
     first_acked members c"

lemma cluster_step_fine:
  assumes "cluster_step hash members c c'" "cluster_fine members c"
  shows "cluster_fine members c'"
proof -
  obtain L where inv: "cluster_inv members L c" and up: "cluster_up members c" "acks_sent members c" "first_acked members c"
    using assms(2) by (auto simp: cluster_fine_def)
  show ?thesis
    using cluster_step_inv [OF assms(1) inv] cluster_step_up [OF assms(1) inv up(1,2)] first_acked_step [OF assms(1) inv up(3)]
    unfolding cluster_fine_def by blast
qed

lemma cluster_reachable_fine:
  assumes "(cluster_step hash members)\<^sup>*\<^sup>* c0 c" "cluster_fresh members c0" "cluster_up members c0"
  shows "cluster_fine members c"
  using assms(1)
proof (induction rule: rtranclp_induct)
  case base
  have "acks_sent members c0"
    using assms(2) by (auto simp: cluster_fresh_def acks_sent_def split: prod.splits)
  with cluster_reachable_progress [OF rtranclp.rtrancl_refl assms(2)] assms(3) show ?case
    unfolding cluster_fine_def by blast
next
  case (step c c')
  with cluster_step_fine show ?case by blast
qed

text \<open>The number of the next entry grows by one at most.\<close>

lemma delivery_number:
  assumes "cluster_delivery hash members c c'" "cluster_inv members L c"
  shows "unat (ld_current_op_id (fst (cl_leader c'))) \<le> Suc (unat (ld_current_op_id (fst (cl_leader c))))"
proof -
  obtain l w where lw: "cl_leader c = (l, w)" by (rule prod.exhaust)
  have li: "leader_inv members L (l, w)" using assms(2) lw by (simp add: cluster_inv_def)
  from assms(1) show ?thesis
  proof (cases rule: cluster_delivery.cases)
    case (answers op res i success err x)
    obtain l' w' where x: "x = (l', w')" by (rule prod.exhaust)
    have h: "handle_actor_event (leader_ops hash) (OperationResult i op res success err) (l, w) = ((l', w'), Ok ())"
      using answers(4) lw x by simp
    from leader_result_frame [OF answers(2) h] answers(1) lw x show ?thesis by auto
  next
    case (hears a x)
    obtain l' w' where x: "x = (l', w')" by (rule prod.exhaust)
    have "replica_msg (to_leader a c ! cl_heard c a)"
      using cluster_invD(7) [OF assms(2) hears(2)] hears(3) by (simp add: list_all_length)
    then have "unat (ld_current_op_id l') \<le> Suc (unat (ld_current_op_id l))"
    proof (cases "to_leader a c ! cl_heard c a")
      case (Ack i)
      then have "leader_handle_ack i (l, w) = ((l', w'), Ok ())"
        using hears(4) lw x by (auto simp: leader_ops_def elim: with_result.elims)
      then show ?thesis using leader_ack_cases [OF li, of i] by (auto split: option.splits)
    next
      case (Request r op addr)
      then have s: "leader_handle_request r op addr (l, w) = ((l', w'), Ok ())"
        using hears(4) lw x by (auto simp: leader_ops_def elim: with_result.elims)
      have "hm_len (ld_cluster l) \<noteq> 1" using leader_invD(3,4) [OF li] by auto
      from leader_request_ok(1,3) [OF this s] show ?thesis by simp
    qed auto
    with hears(1) lw x show ?thesis by simp
  qed (simp_all add: set_replica_def)
qed

lemma delivery_run:
  assumes "(cluster_delivery hash members ^^ k) c c'" "cluster_fine members c"
  shows "cluster_fine members c' \<and> (cluster_step hash members)\<^sup>*\<^sup>* c c' \<and>
    k + cluster_work members c' \<le> cluster_work members c \<and>
    unat (ld_current_op_id (fst (cl_leader c'))) + cluster_work members c' \<le>
      unat (ld_current_op_id (fst (cl_leader c))) + cluster_work members c"
  using assms(1)
proof (induction k arbitrary: c')
  case 0
  with assms(2) show ?case by simp
next
  case (Suc k)
  then obtain c1 where c1: "(cluster_delivery hash members ^^ k) c c1" "cluster_delivery hash members c1 c'" by auto
  note IH = Suc.IH [OF c1(1)]
  obtain L where L: "cluster_inv members L c1" "cluster_up members c1" using IH by (auto simp: cluster_fine_def)
  have less: "cluster_work members c' < cluster_work members c1" by (rule delivery_work [OF c1(2) L])
  have step: "cluster_step hash members c1 c'" by (rule delivery_step [OF c1(2)])
  have "(cluster_step hash members)\<^sup>*\<^sup>* c c'" using IH step by (meson rtranclp.rtrancl_into_rtrancl)
  moreover have "cluster_fine members c'" using cluster_step_fine [OF step] IH by blast
  ultimately show ?case using IH less delivery_number [OF c1(2) L(1)] by linarith
qed

text \<open>Nothing is pending, and all databases were given the same log: the leader's each entry once, a
  replica's the entries in order but the last.\<close>

definition at_rest :: "socket_addr list \<Rightarrow> cluster_state \<Rightarrow> bool" where
  "at_rest members c \<longleftrightarrow> (\<forall>i. hm_get (ld_operations (fst (cl_leader c))) i = None) \<and>
     (\<exists>L. mset (mail_of (cl_leader c)) = mset (executes 1 L) \<and>
        (\<forall>a \<in> set members. logs_in (to_replica a c) = entries_of L \<and>
           mail_of (cl_replica c a) = executes 1 (butlast L)))"



text \<open>A leader and two replicas, after one request of a client.\<close>

lemma sample_cluster_up: "cluster_up [node_addr 5001, node_addr 5002] sample_cluster"
  by (simp add: cluster_up_def world_up_def sample_run_defs sample_connection_def connection_ok_def active_ok_def hm_len_def)

lemma sample_cluster_asked:
  obtains c where "cluster_step (\<lambda>a. 0) [node_addr 5001, node_addr 5002] sample_cluster c"
    "cluster_work [node_addr 5001, node_addr 5002] c = 10" "ld_current_op_id (fst (cl_leader c)) = 2"
    "logs_in (to_replica (node_addr 5001) c) = [(1, AccountQuery 3)]"
proof -
  let ?a = "node_addr 5001" and ?b = "node_addr 5002" and ?q = "AccountQuery 3"
  obtain l w where req: "leader_handle_request 9 ?q (node_addr 7000) (cl_leader sample_cluster) = ((l, w), Ok ())"
    and out: "outbox ?a w = [Log 1 ?q]" "outbox ?b w = [Log 1 ?q]" by (rule sample_leader_asks)
  let ?c = "sample_cluster\<lparr>cl_leader := (l, w)\<rparr>"
  obtain l0 w0 where lw: "cl_leader sample_cluster = (l0, w0)" by (rule prod.exhaust)
  have l0: "hm_len (ld_cluster l0) \<noteq> 1" "ld_current_op_id l0 = 1" "ld_operations l0 = []"
    using lw by (auto simp: sample_run_defs)
  have l: "ld_current_op_id l = 2" "hm_len (ld_operations l) = 1"
    using leader_request_ok(1) [OF l0(1) req [unfolded lw]] l0 by (simp_all add: hm_insert_def hm_len_def)
  have step: "cluster_step (\<lambda>a. 0) [?a, ?b] sample_cluster ?c"
    by (rule leader_request [of ?q _ 9 "node_addr 7000"]) (use req in \<open>simp_all add: leader_ops_def\<close>)
  have "?a \<noteq> ?b" by (simp add: node_addr_def)
  moreover have "replica_work 2 ?c x = 4" if "x \<in> {?a, ?b}" for x
    using that out by (auto simp: replica_work_def to_replica_def to_leader_def mail_of_def)
      (simp_all add: sample_run_defs system_new_def outbox_def sample_connection_def)
  ultimately have "cluster_work [?a, ?b] ?c = 10" using l(2) by (simp add: cluster_work_def flip: numeral_2_eq_2)
  then show thesis using that [OF step] l(1) out(1) by (simp add: to_replica_def)
qed


end
