(* ===== verification/Election.thy ===== *)
theory Election
  imports Cluster
begin

text \<open>
  The election after the loss of a leader: the replicas that are left, each a whole node of
  \<open>NodeRuntime\<close>, with links that stay up and deliver in order. The node with the highest
  number takes over, and nobody else does.
\<close>

section \<open>Links that are up\<close>

text \<open>
  A node whose own address is IPv4, that is connected, reaches every member, and whose handlers
  all run.
\<close>

definition links_up :: "socket_addr set \<Rightarrow> node_world \<Rightarrow> bool" where
  "links_up members w \<longleftrightarrow> cn_connected (nw_conn w) \<and> is_ipv4 (cn_address (nw_conn w)) \<and>
     (\<forall>a \<in> members. cn_reachable (nw_conn w) a) \<and> (\<forall>(a, h) \<in> set (cn_active (nw_conn w)). ph_alive h)"

lemma set_hm_insert: "set (hm_insert k v m) \<subseteq> insert (k, v) (set m)"
  unfolding hm_insert_def by (induction m) auto

lemma set_hm_remove: "set (hm_remove k m) \<subseteq> set m"
  unfolding hm_remove_def by (induction m) auto

lemma set_add_handler: "set (add_handler_from active h n) \<subseteq> insert (ph_address h, h) (set active)"
  unfolding add_handler_from_def remove_last_recently_used_def
  using set_hm_insert [of "ph_address h" h] set_hm_remove [of _ active]
  by (auto split: option.splits)

lemma handshake_ipv4: "is_ipv4 a \<Longrightarrow> \<exists>bytes. send_handler_first_message a = Ok bytes"
  by (cases a rule: is_ipv4.cases) (auto simp: send_handler_first_message_def)

text \<open>A send over such a link is accepted, and one to anybody else does no harm.\<close>

lemma net_send_links:
  assumes up: "links_up members w" and s: "net_send m a w = (w', r)"
  shows "links_up members w'" "r \<noteq> Panicked" "a \<in> members \<Longrightarrow> r = Ok ()"
proof -
  let ?c = "nw_conn w"
  obtain bytes where hs: "send_handler_first_message (cn_address ?c) = Ok bytes"
    using up handshake_ipv4 [of "cn_address ?c"] unfolding links_up_def by blast
  let ?h = "handler_new (cn_now ?c) bytes [] a"
  have new: "ph_alive ?h" "ph_address ?h = a"
    by (simp_all add: handler_new_def new_handler_task_def ph_alive_def)
  have ok: "links_up members (w\<lparr>nw_conn := ?c\<lparr>cn_active := hm_insert a (ph_enqueue m (h\<lparr>ph_last_used := cn_now ?c\<rparr>)) act,
        cn_sent := log\<rparr>\<rparr>)"
    if "\<forall>(b, g) \<in> set act. ph_alive g" "ph_alive h" for h act log
  proof -
    have "ph_alive (ph_enqueue m (h\<lparr>ph_last_used := cn_now ?c\<rparr>))"
      using that(2) by (simp add: ph_enqueue_def ph_alive_def)
    then have "\<forall>(b, g) \<in> set (hm_insert a (ph_enqueue m (h\<lparr>ph_last_used := cn_now ?c\<rparr>)) act). ph_alive g"
      using that(1) set_hm_insert by fastforce
    then show ?thesis using up by (simp add: links_up_def)
  qed
  have alive: "\<forall>(b, g) \<in> set (cn_active ?c). ph_alive g" and con: "cn_connected ?c"
    using up by (simp_all add: links_up_def)
  have "links_up members w' \<and> r \<noteq> Panicked \<and> (a \<in> members \<longrightarrow> r = Ok ())"
  proof (cases "hm_get (cn_active ?c) a")
    case (Some h)
    then have h: "ph_alive h" using alive by (auto simp: hm_get_def dest: map_of_SomeD)
    then have "w' = w\<lparr>nw_conn := ?c\<lparr>cn_active := hm_insert a (ph_enqueue m (h\<lparr>ph_last_used := cn_now ?c\<rparr>)) (cn_active ?c),
        cn_sent := cn_sent ?c @ [(m, a)]\<rparr>\<rparr>" "r = Ok ()"
      using s con Some
      by (auto simp: net_send_def connection_send_def ensure_handler_def hm_contains_def ph_send_def Let_def)
    with ok [OF alive h] show ?thesis by simp
  next
    case None
    show ?thesis
    proof (cases "cn_reachable ?c a")
      case False
      then have "w' = w" "r = Error ConnectionRefused"
        using s con None by (auto simp: net_send_def connection_send_def ensure_handler_def hm_contains_def handler_start_def)
      with up False show ?thesis by (auto simp: links_up_def)
    next
      case True
      let ?act = "add_handler_from (cn_active ?c) ?h (cn_max_conns ?c)"
      have "hm_get ?act a = Some ?h" using new(2) by (simp add: add_handler_from_def hm.get_insert)
      then have "w' = w\<lparr>nw_conn := ?c\<lparr>cn_active := hm_insert a (ph_enqueue m (?h\<lparr>ph_last_used := cn_now ?c\<rparr>)) ?act,
          cn_sent := cn_sent ?c @ [(m, a)]\<rparr>\<rparr>" "r = Ok ()"
        using s con None True new hs
        by (auto simp: net_send_def connection_send_def ensure_handler_def hm_contains_def handler_start_def ph_send_def Let_def)
      moreover have "\<forall>(b, g) \<in> set ?act. ph_alive g"
        using alive new set_add_handler [of "cn_active ?c" ?h "cn_max_conns ?c"] by fastforce
      ultimately show ?thesis using ok [OF _ new(1)] by simp
    qed
  qed
  then show "links_up members w'" "r \<noteq> Panicked" "a \<in> members \<Longrightarrow> r = Ok ()" by blast+
qed

text \<open>One send whose error is dropped, over links that are up.\<close>

lemma ignored_send_links:
  assumes up: "links_up members w" and s: "ignore_error (net_send m a w) = (w', r)"
  shows "r = Ok ()" "links_up members w'"
    "\<exists>addrs. only_sent w w' (map (Pair m) addrs) \<and> set addrs \<subseteq> {a} \<and> {a} \<inter> members \<subseteq> set addrs"
proof -
  obtain w1 r1 where n: "net_send m a w = (w1, r1)" by (rule prod.exhaust)
  note L = net_send_links [OF up n]
  have "w' = w1" using s n by (metis fst_conv fst_ignore_error)
  moreover have "r = Ok ()" using s n L(2) by (cases "(w1, r1)" rule: ignore_error.cases) auto
  moreover have "\<exists>addrs. only_sent w w1 (map (Pair m) addrs) \<and> set addrs \<subseteq> {a} \<and> {a} \<inter> members \<subseteq> set addrs"
    using net_send_only [OF n] L(3)
    by (cases "is_ok r1") (auto intro: exI [of _ "[a]"] exI [of _ "[]"])
  ultimately show "r = Ok ()" "links_up members w'"
    "\<exists>addrs. only_sent w w' (map (Pair m) addrs) \<and> set addrs \<subseteq> {a} \<and> {a} \<inter> members \<subseteq> set addrs"
    using L(1) by auto
qed

lemma send_elections_links:
  assumes "links_up members w" and "send_elections i msg c b w = (w', r)"
  shows "\<exists>addrs. r = Ok (b \<or> (\<exists>m \<in> set c. i < fst m)) \<and> links_up members w' \<and>
    only_sent w w' (map (Pair msg) addrs) \<and> set addrs \<subseteq> snd ` {m \<in> set c. i < fst m} \<and>
    snd ` {m \<in> set c. i < fst m} \<inter> members \<subseteq> set addrs"
  using assms
proof (induction c arbitrary: b w)
  case Nil
  then show ?case by (intro exI [of _ "[]"]) auto
next
  case (Cons m c)
  obtain j a where m: "m = (j, a)" by (rule prod.exhaust)
  show ?case
  proof (cases "i < j")
    case False
    with Cons.prems m have "send_elections i msg c b w = (w', r)" by simp
    from Cons.IH [OF Cons.prems(1) this] obtain addrs where
      A: "r = Ok (b \<or> (\<exists>m \<in> set c. i < fst m))" "links_up members w'" "only_sent w w' (map (Pair msg) addrs)"
        "set addrs \<subseteq> snd ` {m \<in> set c. i < fst m}" "snd ` {m \<in> set c. i < fst m} \<inter> members \<subseteq> set addrs" by blast
    have "{x \<in> set (m # c). i < fst x} = {x \<in> set c. i < fst x}" using False m by auto
    with A False m show ?thesis by (intro exI [of _ addrs]) auto
  next
    case True
    obtain w1 r1 where s: "ignore_error (net_send msg a w) = (w1, r1)" by (rule prod.exhaust)
    note one = ignored_send_links [OF Cons.prems(1) s]
    have "send_elections i msg c True w1 = (w', r)" using Cons.prems(2) True m s one(1) by simp
    from Cons.IH [OF one(2) this] obtain addrs where
      A: "r = Ok True" "links_up members w'" "only_sent w1 w' (map (Pair msg) addrs)"
        "set addrs \<subseteq> snd ` {m \<in> set c. i < fst m}" "snd ` {m \<in> set c. i < fst m} \<inter> members \<subseteq> set addrs" by auto
    from one(3) obtain addrs1 where B: "only_sent w w1 (map (Pair msg) addrs1)" "set addrs1 \<subseteq> {a}"
      "{a} \<inter> members \<subseteq> set addrs1" by blast
    have "snd ` {x \<in> set (m # c). i < fst x} = insert a (snd ` {x \<in> set c. i < fst x})"
      using True m by force
    with A B True m only_sent_trans [OF B(1) A(3)] show ?thesis
      by (intro exI [of _ "addrs1 @ addrs"]) auto
  qed
qed

lemma announce_links:
  assumes "links_up members w" and "announce_to_peers i msg c w = (w', r)"
  shows "\<exists>addrs. r = Ok () \<and> links_up members w' \<and> only_sent w w' (map (Pair msg) addrs) \<and>
    set addrs \<subseteq> set (peers i c) \<and> set (peers i c) \<inter> members \<subseteq> set addrs"
  using assms
proof (induction c arbitrary: w)
  case Nil
  then show ?case by (intro exI [of _ "[]"]) auto
next
  case (Cons m c)
  obtain j a where m: "m = (j, a)" by (rule prod.exhaust)
  show ?case
  proof (cases "j = i")
    case True
    with Cons m show ?thesis by simp
  next
    case False
    obtain w1 r1 where s: "ignore_error (net_send msg a w) = (w1, r1)" by (rule prod.exhaust)
    note one = ignored_send_links [OF Cons.prems(1) s]
    have "announce_to_peers i msg c w1 = (w', r)" using Cons.prems(2) False m s one(1) by simp
    from Cons.IH [OF one(2) this] obtain addrs where
      A: "r = Ok ()" "links_up members w'" "only_sent w1 w' (map (Pair msg) addrs)"
        "set addrs \<subseteq> set (peers i c)" "set (peers i c) \<inter> members \<subseteq> set addrs" by blast
    from one(3) obtain addrs1 where B: "only_sent w w1 (map (Pair msg) addrs1)" "set addrs1 \<subseteq> {a}"
      "{a} \<inter> members \<subseteq> set addrs1" by blast
    from A B False m only_sent_trans [OF B(1) A(3)] show ?thesis
      by (intro exI [of _ "addrs1 @ addrs"]) auto
  qed
qed

section \<open>The system\<close>

abbreviation node_id :: "(socket_addr \<Rightarrow> u64) \<Rightarrow> socket_addr \<Rightarrow> u64" where
  "node_id \<equiv> get_id_given_addr"

text \<open>
  \<open>es_read s a b\<close> is how many of the messages from \<open>a\<close> the node \<open>b\<close> has read. A node takes a turn
  of its loop with the one result its connection has for it.
\<close>

record election_state =
  es_node :: "socket_addr \<Rightarrow> node_runtime \<times> node_world \<times> node_status"
  es_read :: "socket_addr \<Rightarrow> socket_addr \<Rightarrow> nat"

definition world_at :: "election_state \<Rightarrow> socket_addr \<Rightarrow> node_world" where
  "world_at s a = fst (snd (es_node s a))"

definition sent_to :: "election_state \<Rightarrow> socket_addr \<Rightarrow> socket_addr \<Rightarrow> message list" where
  "sent_to s a b = outbox b (world_at s a)"

definition receives :: "message app_result \<Rightarrow> node_world \<Rightarrow> node_world" where
  "receives r w = w\<lparr>nw_conn := (nw_conn w)\<lparr>cn_inbox := [r]\<rparr>\<rparr>"

inductive election_step :: "(socket_addr \<Rightarrow> u64) \<Rightarrow> socket_addr set \<Rightarrow> socket_addr \<Rightarrow> election_state \<Rightarrow>
    election_state \<Rightarrow> bool" for hash members old where
  notices: "a \<in> members \<Longrightarrow> es_node s a = (rt, w, NodeRunning) \<Longrightarrow>
    runtime_turn hash NetReady rt (receives (Error (ConnectionLostWith old)) w) = x \<Longrightarrow>
    election_step hash members old s (s\<lparr>es_node := (es_node s)(a := x)\<rparr>)"
| reads: "a \<in> members \<Longrightarrow> b \<in> members \<Longrightarrow> es_read s a b < length (sent_to s a b) \<Longrightarrow>
    es_node s b = (rt, w, NodeRunning) \<Longrightarrow>
    runtime_turn hash NetReady rt (receives (Ok (sent_to s a b ! es_read s a b)) w) = x \<Longrightarrow>
    election_step hash members old s
      (s\<lparr>es_node := (es_node s)(b := x),
         es_read := (es_read s)(a := (es_read s a)(b := Suc (es_read s a b)))\<rparr>)"

text \<open>
  The nodes that are left, with numbers of their own and the highest one among them, and the
  leader they lost.
\<close>

definition survivors :: "(socket_addr \<Rightarrow> u64) \<Rightarrow> socket_addr set \<Rightarrow> socket_addr \<Rightarrow> socket_addr \<Rightarrow> bool" where
  "survivors hash members old high \<longleftrightarrow> inj_on (node_id hash) (insert old members) \<and> old \<notin> members \<and>
     high \<in> members \<and> (\<forall>b \<in> members. node_id hash b \<le> node_id hash high)"

text \<open>
  A node's table holds every member, perhaps the lost leader, and nobody else; that of the
  highest node holds none above it.
\<close>

definition knows :: "(socket_addr \<Rightarrow> u64) \<Rightarrow> socket_addr set \<Rightarrow> socket_addr \<Rightarrow> socket_addr \<Rightarrow> socket_addr \<Rightarrow>
    cluster \<Rightarrow> bool" where
  "knows hash members old high a c \<longleftrightarrow>
     (\<lambda>b. (node_id hash b, b)) ` members \<subseteq> set c \<and> set c \<subseteq> (\<lambda>b. (node_id hash b, b)) ` insert old members \<and>
     (a = high \<longrightarrow> (\<forall>m \<in> set c. fst m \<le> node_id hash high))"

text \<open>Before anybody has noticed the loss.\<close>

definition election_fresh :: "(socket_addr \<Rightarrow> u64) \<Rightarrow> socket_addr set \<Rightarrow> socket_addr \<Rightarrow> socket_addr \<Rightarrow>
    election_state \<Rightarrow> bool" where
  "election_fresh hash members old high s \<longleftrightarrow> survivors hash members old high \<and>
     (\<forall>a \<in> members. \<exists>r w. es_node s a = (RunReplica r, w, NodeRunning) \<and> rp_id r = node_id hash a \<and>
        rp_address r = a \<and> rp_leader_addr r = old \<and> \<not> rp_election_in_progress r \<and>
        knows hash members old high a (rp_cluster r) \<and> links_up members w \<and> sent w = []) \<and>
     (\<forall>a b. es_read s a b = 0)"

section \<open>What one node does\<close>

text \<open>What a node sends, and to whom: it asks higher nodes, and only the highest announces itself.\<close>

fun election_msg :: "(socket_addr \<Rightarrow> u64) \<Rightarrow> socket_addr \<Rightarrow> socket_addr \<Rightarrow> message \<times> socket_addr \<Rightarrow> bool" where
  "election_msg hash high a (Election i c, b) = (i = node_id hash a \<and> c = a \<and> node_id hash a < node_id hash b)"
| "election_msg hash high a (ElectionOk i, b) = True"
| "election_msg hash high a (Coordinator i c, b) = (i = node_id hash high \<and> c = high \<and> a = high \<and> b \<noteq> high)"
| "election_msg hash high a (m, b) = False"

fun role_inv :: "(socket_addr \<Rightarrow> u64) \<Rightarrow> socket_addr set \<Rightarrow> socket_addr \<Rightarrow> socket_addr \<Rightarrow> socket_addr \<Rightarrow>
    (message \<times> socket_addr) list \<Rightarrow> node_runtime \<Rightarrow> bool" where
  "role_inv hash members old high a log (RunReplica r) \<longleftrightarrow>
     rp_id r = node_id hash a \<and> rp_address r = a \<and> knows hash members old high a (rp_cluster r) \<and>
     rp_leader_addr r \<in> {old, high} \<and>
     (if a = high then log = [] \<and> \<not> rp_election_in_progress r
      else log \<noteq> [] \<or> rp_election_in_progress r \<longrightarrow> (Election (node_id hash a) a, high) \<in> set log)"
| "role_inv hash members old high a log (RunLeader l) \<longleftrightarrow>
     a = high \<and> ld_id l = node_id hash a \<and> ld_address l = a \<and> knows hash members old high a (ld_cluster l) \<and>
     (\<forall>b \<in> members - {high}. (Coordinator (node_id hash high) high, b) \<in> set log)"

definition node_inv :: "(socket_addr \<Rightarrow> u64) \<Rightarrow> socket_addr set \<Rightarrow> socket_addr \<Rightarrow> socket_addr \<Rightarrow> socket_addr \<Rightarrow>
    node_runtime \<times> node_world \<times> node_status \<Rightarrow> bool" where
  "node_inv hash members old high a x \<longleftrightarrow>
     (let (rt, w, st) = x in st = NodeRunning \<and> links_up members w \<and>
        list_all (election_msg hash high a) (sent w) \<and> role_inv hash members old high a (sent w) rt)"

fun leads :: "node_runtime \<Rightarrow> bool" where
  "leads (RunLeader l) = True"
| "leads (RunReplica r) = False"

fun follows :: "socket_addr \<Rightarrow> node_runtime \<Rightarrow> bool" where
  "follows high (RunReplica r) = (rp_leader_addr r = high)"
| "follows high (RunLeader l) = False"

lemma survivors_inj:
  assumes "survivors hash members old high" "a \<in> insert old members" "b \<in> insert old members"
  shows "node_id hash a = node_id hash b \<longleftrightarrow> a = b"
  using assms by (auto simp: survivors_def inj_on_def)

lemma higher_known:
  assumes S: "survivors hash members old high" and K: "knows hash members old high a c" and a: "a \<in> members"
  shows "a = high \<Longrightarrow> {m \<in> set c. node_id hash a < fst m} = {}"
    "a \<noteq> high \<Longrightarrow> high \<in> snd ` {m \<in> set c. node_id hash a < fst m} \<inter> members"
    "b \<in> snd ` {m \<in> set c. node_id hash a < fst m} \<Longrightarrow> node_id hash a < node_id hash b"
proof -
  show "a = high \<Longrightarrow> {m \<in> set c. node_id hash a < fst m} = {}"
    using K by (auto simp: knows_def not_less)
  show "b \<in> snd ` {m \<in> set c. node_id hash a < fst m} \<Longrightarrow> node_id hash a < node_id hash b"
    using K by (auto simp: knows_def)
  assume "a \<noteq> high"
  then have "node_id hash a < node_id hash high"
    using S a survivors_inj [OF S, of a high] by (auto simp: survivors_def order.strict_iff_order)
  then show "high \<in> snd ` {m \<in> set c. node_id hash a < fst m} \<inter> members"
    using S K by (force simp: knows_def survivors_def)
qed

lemma peers_known:
  assumes S: "survivors hash members old high" and K: "knows hash members old high high c"
  shows "set (peers (node_id hash high) c) \<inter> members = members - {high}" "high \<notin> set (peers (node_id hash high) c)"
proof -
  have inj: "node_id hash b \<noteq> node_id hash high" if "b \<in> members" "b \<noteq> high" for b
    using that S survivors_inj [OF S, of b high] by (auto simp: survivors_def)
  have "b \<in> set (peers (node_id hash high) c) \<longleftrightarrow> (\<exists>j. (j, b) \<in> set c \<and> j \<noteq> node_id hash high)" for b
    by (force simp: peers_def)
  then show "set (peers (node_id hash high) c) \<inter> members = members - {high}" "high \<notin> set (peers (node_id hash high) c)"
    using K inj by (auto simp: knows_def image_subset_iff)
qed

lemma replica_election_sends:
  assumes S: "survivors hash members old high" and a: "a \<in> members"
    and r: "rp_id r = node_id hash a" "rp_address r = a" "knows hash members old high a (rp_cluster r)"
    and p: "a = high \<Longrightarrow> \<not> rp_election_in_progress r"
      "rp_election_in_progress r \<Longrightarrow> (Election (node_id hash a) a, high) \<in> set (sent w)"
    and up: "links_up members w" and step: "replica_start_election (r, w) = ((r', w'), res)"
  shows "links_up members w'" "rp_id r' = rp_id r" "rp_address r' = rp_address r" "rp_cluster r' = rp_cluster r"
    "rp_leader_addr r' = rp_leader_addr r"
    "\<exists>ms. sent w' = sent w @ ms \<and> list_all (election_msg hash high a) ms"
    "if a = high then res = Ok PromoteToLeader \<and>
       (\<forall>b \<in> members - {high}. (Coordinator (node_id hash high) high, b) \<in> set (sent w'))
     else res = Ok NoRoleChange \<and> (Election (node_id hash a) a, high) \<in> set (sent w')"
proof -
  let ?ask = "Election (node_id hash a) a" and ?H = "{m \<in> set (rp_cluster r). node_id hash a < fst m}"
  have "links_up members w' \<and> rp_id r' = rp_id r \<and> rp_address r' = rp_address r \<and> rp_cluster r' = rp_cluster r \<and>
    rp_leader_addr r' = rp_leader_addr r \<and>
    (\<exists>ms. sent w' = sent w @ ms \<and> list_all (election_msg hash high a) ms) \<and>
    (if a = high then res = Ok PromoteToLeader \<and>
       (\<forall>b \<in> members - {high}. (Coordinator (node_id hash high) high, b) \<in> set (sent w'))
     else res = Ok NoRoleChange \<and> (?ask, high) \<in> set (sent w'))"
  proof (cases "rp_election_in_progress r")
    case True
    with p up step show ?thesis by (auto simp: replica_start_election_def)
  next
    case idle: False
    obtain w1 r1 where s: "send_elections (rp_id r) (Election (rp_id r) (rp_address r)) (rp_cluster r) False w = (w1, r1)"
      by (rule prod.exhaust)
    from send_elections_links [OF up s] r(1,2) obtain addrs where
      A0: "r1 = Ok (\<exists>m \<in> set (rp_cluster r). node_id hash a < fst m)" and
      A: "links_up members w1" "only_sent w w1 (map (Pair ?ask) addrs)"
        "set addrs \<subseteq> snd ` ?H" "snd ` ?H \<inter> members \<subseteq> set addrs" by auto
    have A1: "r1 = Ok (?H \<noteq> {})"
      using A0 arg_cong [where f = Not, OF Collect_empty_eq [of "\<lambda>m. m \<in> set (rp_cluster r) \<and> node_id hash a < fst m"]]
      by (simp add: Bex_def)
    note f1 = only_sent_fields(7) [OF A(2)]
    have msgs: "list_all (election_msg hash high a) (map (Pair ?ask) addrs)"
      using A(3) higher_known(3) [OF S r(3) a] by (fastforce simp: list_all_iff)
    show ?thesis
    proof (cases "a = high")
      case False
      from higher_known(2) [OF S r(3) a False] have "high \<in> set addrs" "?H \<noteq> {}" using A(4) by auto
      then have "r1 = Ok True" using A1 by blast
      with s idle have "replica_start_election (r, w) =
          ((r\<lparr>rp_election_in_progress := True, rp_election_start := Some (now_of w1)\<rparr>, w1), Ok NoRoleChange)"
        by (simp add: replica_start_election_def on_world_def)
      with step False f1 msgs A(1) \<open>high \<in> set addrs\<close> show ?thesis by auto
    next
      case True
      then have none: "?H = {}" using higher_known(1) [OF S r(3) a] by simp
      with A(3) have "addrs = []" by auto
      with f1 have sw: "sent w1 = sent w" by simp
      obtain w2 r2 where n: "announce_to_peers (rp_id r) (Coordinator (rp_id r) (rp_address r)) (rp_cluster r) w1 = (w2, r2)"
        by (rule prod.exhaust)
      from announce_links [OF A(1) n] r(1,2) True obtain to' where
        B: "r2 = Ok ()" "links_up members w2" "only_sent w1 w2 (map (Pair (Coordinator (node_id hash high) high)) to')"
          "set to' \<subseteq> set (peers (node_id hash high) (rp_cluster r))"
          "set (peers (node_id hash high) (rp_cluster r)) \<inter> members \<subseteq> set to'" by auto
      note P = peers_known [OF S r(3) [unfolded True]]
      have "list_all (election_msg hash high high) (map (Pair (Coordinator (node_id hash high) high)) to')"
        using B(4) P(2) by (auto simp: list_all_iff)
      moreover have "members - {high} \<subseteq> set to'" using B(5) P(1) by simp
      moreover have "r1 = Ok False" using A1 none by blast
      with s idle n B(1) have "replica_start_election (r, w) =
          ((r\<lparr>rp_election_in_progress := False, rp_election_start := None\<rparr>, w2), Ok PromoteToLeader)"
        by (simp add: replica_start_election_def replica_anounce_coordinator_def replica_handle_coordinator_def
            on_world_def)
      ultimately show ?thesis
        using only_sent_fields(7) [OF B(3)] sw B(2) step True by auto
    qed
  qed
  then show "links_up members w'" "rp_id r' = rp_id r" "rp_address r' = rp_address r" "rp_cluster r' = rp_cluster r"
    "rp_leader_addr r' = rp_leader_addr r"
    "\<exists>ms. sent w' = sent w @ ms \<and> list_all (election_msg hash high a) ms"
    "if a = high then res = Ok PromoteToLeader \<and>
       (\<forall>b \<in> members - {high}. (Coordinator (node_id hash high) high, b) \<in> set (sent w'))
     else res = Ok NoRoleChange \<and> (?ask, high) \<in> set (sent w')" by blast+
qed

definition settled :: "node_world \<Rightarrow> node_world" where
  "settled w = w\<lparr>nw_conn := (nw_conn w)\<lparr>cn_inbox := []\<rparr>\<rparr>"

lemma settled_simps [simp]:
  "links_up members (settled w) = links_up members w" "sent (settled w) = sent w"
  by (simp_all add: settled_def links_up_def)

lemma receives_recv:
  "cn_connected (nw_conn w) \<Longrightarrow>
     connection_recv (nw_conn (receives e w)) = (nw_conn (settled w), Some e)"
  "(receives e w)\<lparr>nw_conn := nw_conn (settled w)\<rparr> = settled w"
  by (simp_all add: receives_def settled_def connection_recv_def)

lemma replica_turn_msg:
  assumes "cn_connected (nw_conn w)" and "rc \<in> {NoRoleChange, PromoteToLeader}"
    and "handle_node_msg (replica_ops hash) m (r, settled w) = ((r', w'), Ok rc)"
  shows "runtime_turn hash NetReady (RunReplica r) (receives (Ok m) w) =
    (if rc = PromoteToLeader then RunLeader (into_leader r') else RunReplica r', w', NodeRunning)"
  using assms(2,3)
  by (auto simp: node_turn_def node_select_def receives_recv(1) [OF assms(1)] receives_recv(2) after_select_def
      after_run_def)

lemma replica_turn_lost:
  assumes "cn_connected (nw_conn w)" and "rc \<in> {NoRoleChange, PromoteToLeader}"
    and "replica_handle_connection_lost_with hash old (r, settled w) = ((r', w'), Ok rc)"
  shows "runtime_turn hash NetReady (RunReplica r) (receives (Error (ConnectionLostWith old)) w) =
    (if rc = PromoteToLeader then RunLeader (into_leader r') else RunReplica r', w', NodeRunning)"
  using assms(2,3)
  by (auto simp: node_turn_def node_select_def receives_recv(1) [OF assms(1)] receives_recv(2) after_select_def
      after_run_def replica_ops_def)

lemma leader_turn_msg:
  assumes "cn_connected (nw_conn w)"
    and "handle_node_msg (leader_ops hash) m (l, settled w) = ((l', w'), Ok NoRoleChange)"
  shows "runtime_turn hash NetReady (RunLeader l) (receives (Ok m) w) = (RunLeader l', w', NodeRunning)"
  using assms(2)
  by (auto simp: node_turn_def node_select_def receives_recv(1) [OF assms(1)] receives_recv(2) after_select_def
      after_run_def)

lemma leader_turn_lost:
  assumes "cn_connected (nw_conn w)"
    and "leader_handle_connection_lost_with hash old (l, settled w) = ((l', w'), Ok NoRoleChange)"
  shows "runtime_turn hash NetReady (RunLeader l) (receives (Error (ConnectionLostWith old)) w) =
    (RunLeader l', w', NodeRunning)"
  using assms(2)
  by (auto simp: node_turn_def node_select_def receives_recv(1) [OF assms(1)] receives_recv(2) after_select_def
      after_run_def leader_ops_def)

text \<open>
  What a turn on \<open>e\<close> may do: it keeps the node's invariant and what it has sent; a leader stays
  leader and a follower of the highest node its follower; the highest node leads once it has
  been asked, and the others follow it once it has announced itself.
\<close>

definition turn_ok :: "(socket_addr \<Rightarrow> u64) \<Rightarrow> socket_addr set \<Rightarrow> socket_addr \<Rightarrow> socket_addr \<Rightarrow> socket_addr \<Rightarrow>
    message app_result \<Rightarrow> node_runtime \<Rightarrow> node_world \<Rightarrow> node_runtime \<times> node_world \<times> node_status \<Rightarrow> bool" where
  "turn_ok hash members old high a e rt w x \<longleftrightarrow> node_inv hash members old high a x \<and>
     (\<exists>ms. sent (fst (snd x)) = sent w @ ms) \<and>
     (leads rt \<longrightarrow> leads (fst x)) \<and>
     (a \<noteq> high \<longrightarrow> follows high rt \<or> (\<exists>i c. e = Ok (Coordinator i c)) \<longrightarrow> follows high (fst x)) \<and>
     (a = high \<longrightarrow> (\<exists>i c. e = Ok (Election i c)) \<longrightarrow> leads (fst x))"

text \<open>Once it starts an election the highest node leads and another has asked the highest.\<close>

lemma replica_election_turn:
  assumes S: "survivors hash members old high" and a: "a \<in> members"
    and r: "rp_id r = node_id hash a" "rp_address r = a" "knows hash members old high a (rp_cluster r)"
      "rp_leader_addr r \<in> {old, high}"
    and p: "a = high \<Longrightarrow> \<not> rp_election_in_progress r"
      "rp_election_in_progress r \<Longrightarrow> (Election (node_id hash a) a, high) \<in> set (sent w)"
    and up: "links_up members w" and log: "list_all (election_msg hash high a) (sent w)"
    and prev: "sent w = sent w0 @ ms0"
  obtains r' w' rc where "replica_start_election (r, w) = ((r', w'), Ok rc)" "rc \<in> {NoRoleChange, PromoteToLeader}"
    "node_inv hash members old high a
       (if rc = PromoteToLeader then RunLeader (into_leader r') else RunReplica r', w', NodeRunning)"
    "\<exists>ms. sent w' = sent w0 @ ms" "rc = PromoteToLeader \<longleftrightarrow> a = high" "rp_leader_addr r' = rp_leader_addr r"
proof -
  obtain r' w' res where s: "replica_start_election (r, w) = ((r', w'), res)" by (metis surj_pair)
  note E = replica_election_sends [OF S a r(1-3) p up s]
  from E(6) obtain ms where ms: "sent w' = sent w @ ms" "list_all (election_msg hash high a) ms" by blast
  define rc where "rc = (if a = high then PromoteToLeader else NoRoleChange)"
  have res: "res = Ok rc" using E(7) by (auto simp: rc_def split: if_splits)
  have "node_inv hash members old high a
      (if rc = PromoteToLeader then RunLeader (into_leader r') else RunReplica r', w', NodeRunning)"
    using E(1-5,7) ms log r by (auto simp: node_inv_def rc_def into_leader_def leader_from_existing_def split: if_splits)
  moreover have "\<exists>ms. sent w' = sent w0 @ ms" using ms(1) prev by simp
  ultimately show thesis
    using that [of r' w' rc] s res E(5) by (auto simp: rc_def)
qed

lemma knows_filter:
  assumes "survivors hash members old high" and "knows hash members old high a c"
  shows "knows hash members old high a (filter (\<lambda>m. snd m \<noteq> old) c)"
  using assms by (auto simp: knows_def survivors_def)

lemma knows_remove:
  assumes S: "survivors hash members old high" and K: "knows hash members old high a c"
  shows "knows hash members old high a (hm_remove (node_id hash old) c)"
proof -
  have "node_id hash b \<noteq> node_id hash old" if "b \<in> members" for b
    using survivors_inj [OF S, of b old] that S by (auto simp: survivors_def)
  moreover have "set (hm_remove k c) = {m \<in> set c. fst m \<noteq> k}" for k
    unfolding hm_remove_def by (induction c) auto
  ultimately show ?thesis using K by (auto simp: knows_def)
qed

lemma role_inv_sent:
  assumes "role_inv hash members old high a log (RunReplica r)" and "log \<noteq> [] \<or> log' = []"
  shows "role_inv hash members old high a (log @ log') (RunReplica r)"
  using assms by auto

lemma replica_turn_lost_ok:
  assumes S: "survivors hash members old high" and a: "a \<in> members"
    and inv: "node_inv hash members old high a (RunReplica r, w, NodeRunning)"
  shows "turn_ok hash members old high a (Error (ConnectionLostWith old)) (RunReplica r) w
    (runtime_turn hash NetReady (RunReplica r) (receives (Error (ConnectionLostWith old)) w))"
proof -
  have up: "links_up members w" and log: "list_all (election_msg hash high a) (sent w)"
    and R: "role_inv hash members old high a (sent w) (RunReplica r)" using inv by (simp_all add: node_inv_def)
  have con: "cn_connected (nw_conn w)" using up by (simp add: links_up_def)
  define r1 where "r1 = (if hm_contains (rp_cluster r) (node_id hash old)
      then r\<lparr>rp_cluster := filter (\<lambda>m. snd m \<noteq> old) (rp_cluster r)\<rparr> else r)"
  have K: "knows hash members old high a (rp_cluster r1)"
    using R knows_filter [OF S, of a "rp_cluster r"] by (simp add: r1_def)
  have f: "rp_id r1 = rp_id r" "rp_address r1 = rp_address r" "rp_leader_addr r1 = rp_leader_addr r"
    "rp_election_in_progress r1 = rp_election_in_progress r" by (simp_all add: r1_def)
  have h: "replica_handle_connection_lost_with hash old (r, settled w) =
      (if old = rp_leader_addr r then replica_start_election (r1, settled w) else ((r1, settled w), Ok NoRoleChange))"
    by (simp add: replica_handle_connection_lost_with_def Let_def f r1_def)
  show ?thesis
  proof (cases "old = rp_leader_addr r")
    case False
    have "runtime_turn hash NetReady (RunReplica r) (receives (Error (ConnectionLostWith old)) w) =
        (RunReplica r1, settled w, NodeRunning)"
      using replica_turn_lost [OF con, of NoRoleChange hash old r r1 "settled w"] h False by simp
    moreover have "node_inv hash members old high a (RunReplica r1, settled w, NodeRunning)"
      using R K f up log by (simp add: node_inv_def)
    ultimately show ?thesis using f by (auto simp: turn_ok_def)
  next
    case True
    have p: "a = high \<Longrightarrow> \<not> rp_election_in_progress r1"
      "rp_election_in_progress r1 \<Longrightarrow> (Election (node_id hash a) a, high) \<in> set (sent (settled w))"
      using R f by (auto split: if_splits)
    obtain r' w' rc where E: "replica_start_election (r1, settled w) = ((r', w'), Ok rc)"
      "rc \<in> {NoRoleChange, PromoteToLeader}"
      "node_inv hash members old high a
         (if rc = PromoteToLeader then RunLeader (into_leader r') else RunReplica r', w', NodeRunning)"
      "\<exists>ms. sent w' = sent w @ ms" "rc = PromoteToLeader \<longleftrightarrow> a = high" "rp_leader_addr r' = rp_leader_addr r1"
      by (rule replica_election_turn [OF S a _ _ K _ p, of w "[]"]) (use R f up log in simp_all)
    have "runtime_turn hash NetReady (RunReplica r) (receives (Error (ConnectionLostWith old)) w) =
        (if rc = PromoteToLeader then RunLeader (into_leader r') else RunReplica r', w', NodeRunning)"
      by (rule replica_turn_lost [OF con E(2)]) (use h True E(1) in simp)
    with E f show ?thesis by (auto simp: turn_ok_def)
  qed
qed

lemma replica_turn_msg_ok:
  assumes S: "survivors hash members old high" and a: "a \<in> members" and b: "b \<in> members"
    and inv: "node_inv hash members old high a (RunReplica r, w, NodeRunning)"
    and m: "election_msg hash high b (m, a)"
  shows "turn_ok hash members old high a (Ok m) (RunReplica r) w
    (runtime_turn hash NetReady (RunReplica r) (receives (Ok m) w))"
proof -
  have up: "links_up members w" and log: "list_all (election_msg hash high a) (sent w)"
    and R: "role_inv hash members old high a (sent w) (RunReplica r)" using inv by (simp_all add: node_inv_def)
  have con: "cn_connected (nw_conn w)" using up by (simp add: links_up_def)
  show ?thesis
  proof (cases m)
    case (Election i c)
    with m have lower: "i < rp_id r" using R by simp
    obtain w1 r1 where s: "ignore_error (net_send (ElectionOk (rp_id r)) c (settled w)) = (w1, r1)"
      by (rule prod.exhaust)
    have "links_up members (settled w)" using up by simp
    note one = ignored_send_links [OF this s]
    have w1: "fst (net_send (ElectionOk (rp_id r)) c (settled w)) = w1" using s by (metis fst_conv fst_ignore_error)
    from one(3) obtain addrs where "only_sent (settled w) w1 (map (Pair (ElectionOk (rp_id r))) addrs)" by blast
    from only_sent_fields(7) [OF this] have s1: "sent w1 = sent w @ map (Pair (ElectionOk (rp_id r))) addrs" by simp
    then have log1: "list_all (election_msg hash high a) (sent w1)" using log by (auto simp: list_all_iff)
    have p: "a = high \<Longrightarrow> \<not> rp_election_in_progress r"
      "rp_election_in_progress r \<Longrightarrow> (Election (node_id hash a) a, high) \<in> set (sent w1)"
      using R s1 by (auto split: if_splits)
    obtain r' w' rc where E: "replica_start_election (r, w1) = ((r', w'), Ok rc)"
      "rc \<in> {NoRoleChange, PromoteToLeader}"
      "node_inv hash members old high a
         (if rc = PromoteToLeader then RunLeader (into_leader r') else RunReplica r', w', NodeRunning)"
      "\<exists>ms. sent w' = sent w @ ms" "rc = PromoteToLeader \<longleftrightarrow> a = high" "rp_leader_addr r' = rp_leader_addr r"
      by (rule replica_election_turn [OF S a _ _ _ _ p one(2) log1 s1]) (use R in simp_all)
    have "runtime_turn hash NetReady (RunReplica r) (receives (Ok m) w) =
        (if rc = PromoteToLeader then RunLeader (into_leader r') else RunReplica r', w', NodeRunning)"
      by (rule replica_turn_msg [OF con E(2)])
        (use Election lower s w1 one(1) E(1) in \<open>simp add: replica_ops_def replica_handle_election_def on_world_def\<close>)
    with E Election show ?thesis by (auto simp: turn_ok_def)
  next
    case (ElectionOk i)
    let ?r = "r\<lparr>rp_election_in_progress := False, rp_election_start := None\<rparr>"
    have "runtime_turn hash NetReady (RunReplica r) (receives (Ok m) w) = (RunReplica ?r, settled w, NodeRunning)"
    proof -
      have "handle_node_msg (replica_ops hash) m (r, settled w) = ((?r, settled w), Ok NoRoleChange)"
        using ElectionOk by (simp add: replica_ops_def replica_handle_election_ok_def)
      from replica_turn_msg [OF con _ this] show ?thesis by simp
    qed
    moreover have "node_inv hash members old high a (RunReplica ?r, settled w, NodeRunning)"
      using R up log by (auto simp: node_inv_def)
    ultimately show ?thesis using ElectionOk by (auto simp: turn_ok_def)
  next
    case (Coordinator i c)
    with m have c: "i = node_id hash high" "c = high" "a \<noteq> high" by simp_all
    have "rp_id r < i"
      using c R a S survivors_inj [OF S, of a high] by (auto simp: survivors_def order.strict_iff_order)
    let ?r = "r\<lparr>rp_election_in_progress := False, rp_election_start := None, rp_leader_addr := high\<rparr>"
    have "runtime_turn hash NetReady (RunReplica r) (receives (Ok m) w) = (RunReplica ?r, settled w, NodeRunning)"
    proof -
      have "handle_node_msg (replica_ops hash) m (r, settled w) = ((?r, settled w), Ok NoRoleChange)"
        using Coordinator c(2) \<open>rp_id r < i\<close> by (auto simp: replica_ops_def replica_handle_coordinator_def Let_def)
      from replica_turn_msg [OF con _ this] show ?thesis by simp
    qed
    moreover have "node_inv hash members old high a (RunReplica ?r, settled w, NodeRunning)"
      using R up log c(3) by (auto simp: node_inv_def)
    ultimately show ?thesis using c(3) by (auto simp: turn_ok_def)
  qed (use m in simp_all)
qed

lemma leader_election_turn:
  assumes S: "survivors hash members old high"
    and l: "ld_id l = node_id hash high" "ld_address l = high" "knows hash members old high high (ld_cluster l)"
    and up: "links_up members w" and log: "list_all (election_msg hash high high) (sent w)"
    and prev: "sent w = sent w0 @ ms0"
    and told: "\<forall>b \<in> members - {high}. (Coordinator (node_id hash high) high, b) \<in> set (sent w)"
  obtains l' w' where "leader_start_election (l, w) = ((l', w'), Ok NoRoleChange)"
    "node_inv hash members old high high (RunLeader l', w', NodeRunning)" "\<exists>ms. sent w' = sent w0 @ ms"
proof (cases "ld_election_in_progress l")
  case True
  then have "leader_start_election (l, w) = ((l, w), Ok NoRoleChange)" by (simp add: leader_start_election_def)
  moreover have "node_inv hash members old high high (RunLeader l, w, NodeRunning)"
    using l up log told by (simp add: node_inv_def)
  ultimately show thesis using that prev by blast
next
  case False
  have high: "high \<in> members" using S by (simp add: survivors_def)
  obtain w1 r1 where s: "send_elections (ld_id l) (Election (ld_id l) (ld_address l)) (ld_cluster l) False w = (w1, r1)"
    by (rule prod.exhaust)
  from send_elections_links [OF up s] obtain addrs where
    r1: "r1 = Ok (\<exists>m \<in> set (ld_cluster l). node_id hash high < fst m)" and
    A: "links_up members w1" "only_sent w w1 (map (Pair (Election (ld_id l) (ld_address l))) addrs)"
      "set addrs \<subseteq> snd ` {m \<in> set (ld_cluster l). ld_id l < fst m}" using l(1) by auto
  have none: "{m \<in> set (ld_cluster l). node_id hash high < fst m} = {}"
    using higher_known(1) [OF S l(3) high] by simp
  then have "r1 = Ok False" using r1 by auto
  have sw: "sent w1 = sent w" using only_sent_fields(7) [OF A(2)] A(3) none l(1) by simp
  obtain w2 r2 where n: "announce_to_peers (ld_id l) (Coordinator (ld_id l) (ld_address l)) (ld_cluster l) w1 = (w2, r2)"
    by (rule prod.exhaust)
  from announce_links [OF A(1) n] l(1,2) obtain to' where
    B: "r2 = Ok ()" "links_up members w2" "only_sent w1 w2 (map (Pair (Coordinator (node_id hash high) high)) to')"
      "set to' \<subseteq> set (peers (node_id hash high) (ld_cluster l))" by auto
  have announced: "list_all (election_msg hash high high) (map (Pair (Coordinator (node_id hash high) high)) to')"
    using B(4) peers_known(2) [OF S l(3)] by (auto simp: list_all_iff)
  have step: "leader_start_election (l, w) =
      ((l\<lparr>ld_election_in_progress := False, ld_election_start := None\<rparr>, w2), Ok NoRoleChange)"
    using \<open>r1 = Ok False\<close> s False n B(1)
    by (simp add: leader_start_election_def leader_anounce_coordinator_def on_world_def)
  have w2: "sent w2 = sent w @ map (Pair (Coordinator (node_id hash high) high)) to'"
    using only_sent_fields(7) [OF B(3)] sw by simp
  with announced have "node_inv hash members old high high
      (RunLeader (l\<lparr>ld_election_in_progress := False, ld_election_start := None\<rparr>), w2, NodeRunning)"
    using B(2) log l told by (simp add: node_inv_def)
  moreover have "\<exists>ms. sent w2 = sent w0 @ ms" using w2 prev by simp
  ultimately show thesis using that step by blast
qed

lemma leader_turn_ok:
  assumes S: "survivors hash members old high" and b: "b \<in> members"
    and inv: "node_inv hash members old high a (RunLeader l, w, NodeRunning)"
    and e: "e = Error (ConnectionLostWith old) \<or> (\<exists>m. e = Ok m \<and> election_msg hash high b (m, a))"
  shows "turn_ok hash members old high a e (RunLeader l) w
    (runtime_turn hash NetReady (RunLeader l) (receives e w))"
proof -
  have up: "links_up members w" and log: "list_all (election_msg hash high a) (sent w)"
    and L: "role_inv hash members old high a (sent w) (RunLeader l)"
    using inv unfolding node_inv_def Let_def prod.case by blast+
  have con: "cn_connected (nw_conn w)" using up by (simp add: links_up_def)
  have a: "a = high" using L by simp
  note L = L [unfolded a] and log = log [unfolded a]
  from e consider (lost) "e = Error (ConnectionLostWith old)"
    | (asked) i c where "e = Ok (Election i c)" "election_msg hash high b (Election i c, a)"
    | (answered) i where "e = Ok (ElectionOk i)"
    using a by (auto elim!: election_msg.elims)
  then show ?thesis
  proof cases
    case lost
    let ?l = "l\<lparr>ld_cluster := hm_remove (node_id hash old) (ld_cluster l)\<rparr>"
    have "runtime_turn hash NetReady (RunLeader l) (receives e w) = (RunLeader ?l, settled w, NodeRunning)"
      unfolding lost by (rule leader_turn_lost [OF con]) (simp add: leader_handle_connection_lost_with_def)
    moreover have "node_inv hash members old high a (RunLeader ?l, settled w, NodeRunning)"
      using L up log a knows_remove [OF S] by (simp add: node_inv_def)
    ultimately show ?thesis using lost by (auto simp: turn_ok_def)
  next
    case asked
    then have lower: "i < ld_id l" using L a by simp
    obtain w1 r1 where s: "ignore_error (net_send (ElectionOk (ld_id l)) c (settled w)) = (w1, r1)"
      by (rule prod.exhaust)
    have "links_up members (settled w)" using up by simp
    note one = ignored_send_links [OF this s]
    have w1: "fst (net_send (ElectionOk (ld_id l)) c (settled w)) = w1" using s by (metis fst_conv fst_ignore_error)
    from one(3) obtain addrs where "only_sent (settled w) w1 (map (Pair (ElectionOk (ld_id l))) addrs)" by blast
    from only_sent_fields(7) [OF this] have s1: "sent w1 = sent w @ map (Pair (ElectionOk (ld_id l))) addrs" by simp
    have log1: "list_all (election_msg hash high high) (sent w1)" using log s1 by (auto simp: list_all_iff)
    obtain l' w' where E: "leader_start_election (l, w1) = ((l', w'), Ok NoRoleChange)"
      "node_inv hash members old high high (RunLeader l', w', NodeRunning)" "\<exists>ms. sent w' = sent w @ ms"
      by (rule leader_election_turn [OF S _ _ _ one(2) log1 s1]) (use L s1 in auto)
    have "runtime_turn hash NetReady (RunLeader l) (receives e w) = (RunLeader l', w', NodeRunning)"
      unfolding asked(1) by (rule leader_turn_msg [OF con])
        (use lower s w1 one(1) E(1) in \<open>simp add: leader_ops_def leader_handle_election_def on_world_def\<close>)
    with E a show ?thesis by (auto simp: turn_ok_def)
  next
    case answered
    let ?l = "l\<lparr>ld_election_in_progress := False, ld_election_start := None\<rparr>"
    have "runtime_turn hash NetReady (RunLeader l) (receives e w) = (RunLeader ?l, settled w, NodeRunning)"
      unfolding answered by (rule leader_turn_msg [OF con]) (simp add: leader_ops_def leader_handle_election_ok_def)
    moreover have "node_inv hash members old high a (RunLeader ?l, settled w, NodeRunning)"
      using L up log a by (simp add: node_inv_def)
    ultimately show ?thesis using answered by (auto simp: turn_ok_def)
  qed
qed

section \<open>The system keeps its invariant\<close>

definition election_inv :: "(socket_addr \<Rightarrow> u64) \<Rightarrow> socket_addr set \<Rightarrow> socket_addr \<Rightarrow> socket_addr \<Rightarrow>
    election_state \<Rightarrow> bool" where
  "election_inv hash members old high s \<longleftrightarrow>
     (\<forall>a \<in> members. node_inv hash members old high a (es_node s a)) \<and>
     (\<forall>a \<in> members. \<forall>b \<in> members. es_read s a b \<le> length (sent_to s a b) \<and>
        (b = high \<longrightarrow> (\<exists>i c. Election i c \<in> set (take (es_read s a b) (sent_to s a b))) \<longrightarrow>
           leads (fst (es_node s b))) \<and>
        (b \<noteq> high \<longrightarrow> (\<exists>i c. Coordinator i c \<in> set (take (es_read s a b) (sent_to s a b))) \<longrightarrow>
           follows high (fst (es_node s b))))"

lemma node_turn_ok:
  assumes S: "survivors hash members old high" and a: "a \<in> members" and b: "b \<in> members"
    and inv: "node_inv hash members old high a (rt, w, NodeRunning)"
    and e: "e = Error (ConnectionLostWith old) \<or> (\<exists>m. e = Ok m \<and> election_msg hash high b (m, a))"
  shows "turn_ok hash members old high a e rt w (runtime_turn hash NetReady rt (receives e w))"
proof (cases rt)
  case (RunLeader l)
  with leader_turn_ok [OF S b _ e] inv show ?thesis by simp
next
  case (RunReplica r)
  with replica_turn_lost_ok [OF S a] replica_turn_msg_ok [OF S a b] inv e show ?thesis by auto
qed

lemma election_fresh_inv:
  assumes "election_fresh hash members old high s"
  shows "survivors hash members old high" "election_inv hash members old high s"
proof -
  show S: "survivors hash members old high" using assms by (simp add: election_fresh_def)
  have "node_inv hash members old high a (es_node s a)" if "a \<in> members" for a
    using assms that by (fastforce simp: election_fresh_def node_inv_def)
  with assms show "election_inv hash members old high s"
    by (simp add: election_inv_def election_fresh_def)
qed

lemma election_invD:
  assumes "election_inv hash members old high s" and "a \<in> members"
  shows "node_inv hash members old high a (es_node s a)"
    "b \<in> members \<Longrightarrow> es_read s a b \<le> length (sent_to s a b)"
    "high \<in> members \<Longrightarrow> Election i c \<in> set (take (es_read s a high) (sent_to s a high)) \<Longrightarrow>
      leads (fst (es_node s high))"
    "b \<in> members \<Longrightarrow> b \<noteq> high \<Longrightarrow> Coordinator i c \<in> set (take (es_read s a b) (sent_to s a b)) \<Longrightarrow>
      follows high (fst (es_node s b))"
  using assms by (simp_all add: election_inv_def) blast+

lemma node_moves:
  assumes inv: "election_inv hash members old high s" and b: "b \<in> members"
    and n: "es_node s b = (rt, w, NodeRunning)" and ok: "turn_ok hash members old high b e rt w x"
    and len: "\<And>a c. a \<in> members \<Longrightarrow> c \<in> members \<Longrightarrow> rd a c \<le> length (sent_to s a c)"
    and others: "\<And>a c. c \<noteq> b \<Longrightarrow> rd a c = es_read s a c"
    and new: "\<And>a m. a \<in> members \<Longrightarrow> m \<in> set (take (rd a b) (sent_to s a b)) \<Longrightarrow>
      m \<in> set (take (es_read s a b) (sent_to s a b)) \<or> e = Ok m"
  shows "election_inv hash members old high (s\<lparr>es_node := (es_node s)(b := x), es_read := rd\<rparr>)"
    (is "election_inv _ _ _ _ ?s")
proof -
  note T = ok [unfolded turn_ok_def]
  have grow: "\<exists>more. sent_to ?s a c = sent_to s a c @ more" for a c
    using T n by (cases "a = b") (auto simp: sent_to_def world_at_def)
  have same: "take (rd a c) (sent_to ?s a c) = take (rd a c) (sent_to s a c)"
    "rd a c \<le> length (sent_to ?s a c)" if "a \<in> members" "c \<in> members" for a c
    using grow [of a c] len [OF that] by auto
  have N: "node_inv hash members old high a (es_node ?s a)" if "a \<in> members" for a
    using election_invD(1) [OF inv that] T by auto
  have A: "leads (fst (es_node ?s high))"
    if "a \<in> members" "high \<in> members" "Election i c \<in> set (take (rd a high) (sent_to ?s a high))" for a i c
  proof (cases "high = b")
    case True
    with that same(1) new [of a "Election i c"] election_invD(3) [OF inv that(1,2)] T n show ?thesis by auto
  next
    case False
    have "Election i c \<in> set (take (es_read s a high) (sent_to s a high))"
      using that(3) [unfolded same(1) [OF that(1,2)], unfolded others [OF False]] .
    with election_invD(3) [OF inv that(1,2)] False show ?thesis by simp
  qed
  have F: "follows high (fst (es_node ?s d))"
    if "a \<in> members" "d \<in> members" "d \<noteq> high" "Coordinator i c \<in> set (take (rd a d) (sent_to ?s a d))" for a d i c
  proof (cases "d = b")
    case True
    with that same(1) new [of a "Coordinator i c"] election_invD(4) [OF inv that(1-3)] T n show ?thesis by auto
  next
    case False
    have "Coordinator i c \<in> set (take (es_read s a d) (sent_to s a d))"
      using that(4) [unfolded same(1) [OF that(1,2)], unfolded others [OF False]] .
    with election_invD(4) [OF inv that(1-3)] False show ?thesis by simp
  qed
  have rd: "es_read ?s = rd" by simp
  show ?thesis unfolding election_inv_def rd using N A F same(2) by blast
qed

lemma sent_to_msg:
  assumes "election_inv hash members old high s" "a \<in> members" "m \<in> set (sent_to s a b)"
  shows "election_msg hash high a (m, b)"
  using election_invD(1) [OF assms(1,2)] assms(3)
  by (auto simp: node_inv_def sent_to_def world_at_def outbox_def list_all_iff split: prod.splits)

lemma election_step_inv:
  assumes S: "survivors hash members old high" and step: "election_step hash members old s s'"
    and inv: "election_inv hash members old high s"
  shows "election_inv hash members old high s'"
  using step
proof cases
  case (notices a rt w x)
  have "turn_ok hash members old high a (Error (ConnectionLostWith old)) rt w x"
    using node_turn_ok [OF S notices(2,2), of rt w "Error (ConnectionLostWith old)"]
      election_invD(1) [OF inv notices(2)] notices by simp
  from node_moves [OF inv notices(2,3) this, of "es_read s"] election_invD(2) [OF inv] notices(1)
  show ?thesis by simp
next
  case (reads a b rt w x)
  let ?m = "sent_to s a b ! es_read s a b"
  have "election_msg hash high a (?m, b)" by (rule sent_to_msg [OF inv reads(2)]) (use reads(4) in simp)
  then have T: "turn_ok hash members old high b (Ok ?m) rt w x"
    using node_turn_ok [OF S reads(3,2), of rt w "Ok ?m"] election_invD(1) [OF inv reads(3)] reads by simp
  show ?thesis
    unfolding reads(1)
    by (rule node_moves [OF inv reads(3,5) T])
      (use election_invD(2) [OF inv] reads(4) in \<open>auto simp: take_Suc_conv_app_nth split: if_splits\<close>)
qed

lemma election_reachable_inv:
  assumes "(election_step hash members old)\<^sup>*\<^sup>* s0 s" and "election_fresh hash members old high s0"
  shows "election_inv hash members old high s"
  using assms
proof (induction rule: rtranclp_induct)
  case base
  then show ?case by (rule election_fresh_inv)
next
  case (step s s')
  with election_step_inv election_fresh_inv(1) show ?case by blast
qed

section \<open>The highest node is elected\<close>

text \<open>C4: After the loss of the leader, over links that stay up: at every moment all nodes are running
  and only the one with the highest number leads; and when some node has noticed the loss and
  told another, and everything that was sent has been read, the highest node leads and all
  others follow it.\<close>

theorem highest_node_elected:
  assumes "election_fresh hash members old high s0" and "(election_step hash members old)\<^sup>*\<^sup>* s0 s"
  shows "(\<forall>a \<in> members. snd (snd (es_node s a)) = NodeRunning \<and> (leads (fst (es_node s a)) \<longrightarrow> a = high)) \<and>
    ((\<exists>a \<in> members. sent (world_at s a) \<noteq> []) \<and>
     (\<forall>a \<in> members. \<forall>b \<in> members. es_read s a b = length (sent_to s a b)) \<longrightarrow>
     leads (fst (es_node s high)) \<and> (\<forall>b \<in> members - {high}. follows high (fst (es_node s b))))"
proof (intro conjI ballI impI)
  note inv = election_reachable_inv [OF assms(2,1)]
  have high: "high \<in> members" using assms(1) by (simp add: election_fresh_def survivors_def)
  fix a assume a: "a \<in> members"
  obtain rt w st where n: "es_node s a = (rt, w, st)" by (metis prod_cases3)
  have N: "st = NodeRunning" "role_inv hash members old high a (sent w) rt"
    using election_invD(1) [OF inv a] n by (simp_all add: node_inv_def)
  then show "snd (snd (es_node s a)) = NodeRunning" using n by simp
  assume "leads (fst (es_node s a))"
  with N n show "a = high" by (cases rt) auto
next
  note inv = election_reachable_inv [OF assms(2,1)]
  have high: "high \<in> members" using assms(1) by (simp add: election_fresh_def survivors_def)
  assume q: "(\<exists>a \<in> members. sent (world_at s a) \<noteq> []) \<and>
     (\<forall>a \<in> members. \<forall>b \<in> members. es_read s a b = length (sent_to s a b))"
  then obtain a where a: "a \<in> members" "sent (world_at s a) \<noteq> []" by blast
  obtain rt w st where n: "es_node s a = (rt, w, st)" by (metis prod_cases3)
  have N: "role_inv hash members old high a (sent w) rt" and w: "sent w \<noteq> []"
    using election_invD(1) [OF inv a(1)] a(2) n by (simp_all add: node_inv_def world_at_def)
  show L: "leads (fst (es_node s high))"
  proof (cases "leads rt")
    case True
    with N n show ?thesis by (cases rt) auto
  next
    case False
    then have "a \<noteq> high" "(Election (node_id hash a) a, high) \<in> set (sent w)"
      using N w by (cases rt; auto split: if_splits)+
    then have "Election (node_id hash a) a \<in> set (sent_to s a high)"
      using n by (auto simp: sent_to_def world_at_def outbox_def image_iff intro!: bexI)
    with election_invD(3) [OF inv a(1) high] q a(1) high show ?thesis by auto
  qed
  obtain l v st' where h: "es_node s high = (RunLeader l, v, st')"
    using L by (metis leads.elims(2) prod.collapse)
  fix b assume b: "b \<in> members - {high}"
  have "role_inv hash members old high high (sent v) (RunLeader l)"
    using election_invD(1) [OF inv high] h by (simp add: node_inv_def)
  then have "(Coordinator (node_id hash high) high, b) \<in> set (sent v)" using b by simp
  then have "Coordinator (node_id hash high) high \<in> set (sent_to s high b)"
    using h by (auto simp: sent_to_def world_at_def outbox_def image_iff intro!: bexI)
  with election_invD(4) [OF inv high] q b high show "follows high (fst (es_node s b))" by auto
qed

section \<open>A run\<close>

definition port_hash :: "socket_addr \<Rightarrow> u64" where
  "port_hash a = ucast (sa_port a)"

definition survivor :: "socket_addr \<Rightarrow> replica" where
  "survivor a = (replica_start_state port_hash a (node_addr 5000) (0, 0) 0)
     \<lparr>rp_cluster := [(5002, node_addr 5001), (5003, node_addr 5002)]\<rparr>"

definition sample_election :: election_state where
  "sample_election = \<lparr>es_node = (\<lambda>a. (RunReplica (survivor a), snd pair_cluster, NodeRunning)), es_read = (\<lambda>a b. 0)\<rparr>"

lemma sample_ids [simp]:
  "node_id port_hash (node_addr 5000) = 5001" "node_id port_hash (node_addr 5001) = 5002"
  "node_id port_hash (node_addr 5002) = 5003" "node_addr p = node_addr q \<longleftrightarrow> p = q"
  by (simp_all add: get_id_given_addr_def node_addr_def port_hash_def)

lemma survivor_simps [simp]:
  "rp_id (survivor (node_addr 5001)) = 5002" "rp_id (survivor (node_addr 5002)) = 5003"
  "rp_address (survivor a) = a" "rp_cluster (survivor a) = [(5002, node_addr 5001), (5003, node_addr 5002)]"
  "rp_leader_addr (survivor a) = node_addr 5000" "\<not> rp_election_in_progress (survivor a)"
  using sample_ids by (simp_all add: survivor_def replica_start_state_def)

lemma sample_world: "links_up UNIV (snd pair_cluster)" "sent (snd pair_cluster) = []"
  by (simp_all add: links_up_def pair_cluster_def sample_connection_def)

lemma sample_election_fresh:
  "election_fresh port_hash {node_addr 5001, node_addr 5002} (node_addr 5000) (node_addr 5002) sample_election"
  using sample_world
  by (auto simp: election_fresh_def survivors_def sample_election_def knows_def links_up_def)

lemma send_up:
  assumes "links_up UNIV w"
  obtains w' where "net_send m a w = (w', Ok ())" "links_up UNIV w'" "sent w' = sent w @ [(m, a)]"
proof -
  obtain w' r where s: "net_send m a w = (w', r)" by (rule prod.exhaust)
  with that net_send_links [OF assms s] only_sent_fields(7) [OF net_send_only [OF s]] show thesis by simp
qed

lemma sample_elected:
  "\<exists>s. (election_step port_hash {node_addr 5001, node_addr 5002} (node_addr 5000))\<^sup>*\<^sup>* sample_election s \<and>
     sent (world_at s (node_addr 5001)) \<noteq> [] \<and>
     (\<forall>a \<in> {node_addr 5001, node_addr 5002}. \<forall>b \<in> {node_addr 5001, node_addr 5002}.
        es_read s a b = length (sent_to s a b))"
proof -
  let ?a = "node_addr 5001" and ?b = "node_addr 5002" and ?w0 = "snd pair_cluster"
  let ?step = "election_step port_hash {?a, ?b} (node_addr 5000)"
  have up0: "links_up UNIV (settled ?w0)" "sent (settled ?w0) = []" using sample_world by simp_all
  have con: "cn_connected (nw_conn w)" if "links_up UNIV w" for w using that by (simp add: links_up_def)
  obtain w1 where s1: "net_send (Election 5002 ?a) ?b (settled ?w0) = (w1, Ok ())" and
    u1: "links_up UNIV w1" and "sent w1 = sent (settled ?w0) @ [(Election 5002 ?a, ?b)]" by (rule send_up [OF up0(1)])
  then have o1: "sent w1 = [(Election 5002 ?a, ?b)]" using up0(2) by simp
  define ra where "ra = (survivor ?a)\<lparr>rp_election_in_progress := True, rp_election_start := Some (now_of w1)\<rparr>"
  have t1: "runtime_turn port_hash NetReady (RunReplica (survivor ?a))
      (receives (Error (ConnectionLostWith (node_addr 5000))) ?w0) = (RunReplica ra, w1, NodeRunning)"
    using replica_turn_lost [OF con [OF sample_world(1)], of NoRoleChange port_hash "node_addr 5000" "survivor ?a" ra w1] s1
    by (simp add: replica_handle_connection_lost_with_def replica_start_election_def on_world_def hm_contains_def
        hm_get_def Let_def ra_def del: runtime_turn.simps)
  define s1' where "s1' = sample_election\<lparr>es_node := (es_node sample_election)(?a := (RunReplica ra, w1, NodeRunning))\<rparr>"
  have 1: "?step sample_election s1'"
    unfolding s1'_def by (rule notices [OF _ _ t1]) (simp_all add: sample_election_def)
  have n1: "es_node s1' ?a = (RunReplica ra, w1, NodeRunning)" "es_node s1' ?b = (RunReplica (survivor ?b), ?w0, NodeRunning)"
    "es_read s1' = (\<lambda>a b. 0)" by (simp_all add: s1'_def sample_election_def)
  have m1: "sent_to s1' ?a ?b = [Election 5002 ?a]" using n1 o1 by (simp add: sent_to_def world_at_def outbox_def)
  obtain w2 where s2: "net_send (ElectionOk 5003) ?a (settled ?w0) = (w2, Ok ())" and
    u2: "links_up UNIV w2" and o2: "sent w2 = sent (settled ?w0) @ [(ElectionOk 5003, ?a)]" by (rule send_up [OF up0(1)])
  obtain w3 where s3: "net_send (Coordinator 5003 ?b) ?a w2 = (w3, Ok ())" and
    u3: "links_up UNIV w3" and o3: "sent w3 = sent w2 @ [(Coordinator 5003 ?b, ?a)]" by (rule send_up [OF u2])
  define rb where "rb = (survivor ?b)\<lparr>rp_election_in_progress := False, rp_election_start := None\<rparr>"
  have t2: "runtime_turn port_hash NetReady (RunReplica (survivor ?b)) (receives (Ok (Election 5002 ?a)) ?w0) =
      (RunLeader (into_leader rb), w3, NodeRunning)"
    using replica_turn_msg [OF con [OF sample_world(1)], of PromoteToLeader port_hash "Election 5002 ?a" "survivor ?b" rb w3] s2 s3
    by (simp add: replica_ops_def replica_handle_election_def replica_start_election_def replica_anounce_coordinator_def
        replica_handle_coordinator_def on_world_def rb_def del: runtime_turn.simps)
  define s2' where "s2' = s1'\<lparr>es_node := (es_node s1')(?b := (RunLeader (into_leader rb), w3, NodeRunning)),
    es_read := (es_read s1')(?a := (es_read s1' ?a)(?b := Suc (es_read s1' ?a ?b)))\<rparr>"
  have 2: "?step s1' s2'"
    unfolding s2'_def by (rule reads) (use n1 m1 t2 in \<open>simp_all del: runtime_turn.simps\<close>)
  have n2: "es_node s2' ?a = (RunReplica ra, w1, NodeRunning)" "es_node s2' ?b = (RunLeader (into_leader rb), w3, NodeRunning)"
    "es_read s2' ?b ?a = 0" using n1 by (simp_all add: s2'_def)
  have m2: "sent_to s2' ?b ?a = [ElectionOk 5003, Coordinator 5003 ?b]"
    using n2 o2 o3 up0(2) by (simp add: sent_to_def world_at_def outbox_def)
  define rc where "rc = ra\<lparr>rp_election_in_progress := False, rp_election_start := None\<rparr>"
  have t3: "runtime_turn port_hash NetReady (RunReplica ra) (receives (Ok (ElectionOk 5003)) w1) =
      (RunReplica rc, settled w1, NodeRunning)"
    using replica_turn_msg [OF con [OF u1], of NoRoleChange port_hash "ElectionOk 5003" ra rc "settled w1"]
    by (simp add: replica_ops_def replica_handle_election_ok_def rc_def del: runtime_turn.simps)
  define s3' where "s3' = s2'\<lparr>es_node := (es_node s2')(?a := (RunReplica rc, settled w1, NodeRunning)),
    es_read := (es_read s2')(?b := (es_read s2' ?b)(?a := Suc (es_read s2' ?b ?a)))\<rparr>"
  have 3: "?step s2' s3'"
    unfolding s3'_def by (rule reads) (use n2 m2 t3 in \<open>simp_all del: runtime_turn.simps\<close>)
  have n3: "es_node s3' ?a = (RunReplica rc, settled w1, NodeRunning)" "es_node s3' ?b = (RunLeader (into_leader rb), w3, NodeRunning)"
    "es_read s3' ?b ?a = 1" using n2 by (simp_all add: s3'_def)
  have m3: "sent_to s3' ?b ?a = [ElectionOk 5003, Coordinator 5003 ?b]"
    using n3 o2 o3 up0(2) by (simp add: sent_to_def world_at_def outbox_def)
  define rd where "rd = rc\<lparr>rp_leader_addr := ?b\<rparr>"
  have t4: "runtime_turn port_hash NetReady (RunReplica rc) (receives (Ok (Coordinator 5003 ?b)) (settled w1)) =
      (RunReplica rd, settled (settled w1), NodeRunning)"
    using replica_turn_msg [OF con, of "settled w1" NoRoleChange port_hash "Coordinator 5003 ?b" rc rd "settled (settled w1)"] u1
    by (simp add: replica_ops_def replica_handle_coordinator_def rd_def rc_def ra_def Let_def del: runtime_turn.simps)
  define s4' where "s4' = s3'\<lparr>es_node := (es_node s3')(?a := (RunReplica rd, settled (settled w1), NodeRunning)),
    es_read := (es_read s3')(?b := (es_read s3' ?b)(?a := Suc (es_read s3' ?b ?a)))\<rparr>"
  have 4: "?step s3' s4'"
    unfolding s4'_def by (rule reads) (use n3 m3 t4 in \<open>simp_all del: runtime_turn.simps\<close>)
  have w4: "world_at s4' ?a = settled (settled w1)" "world_at s4' ?b = w3"
    using n3 by (simp_all add: s4'_def world_at_def)
  have "es_read s4' ?a ?b = 1" "es_read s4' ?a ?a = 0" "es_read s4' ?b ?b = 0" "es_read s4' ?b ?a = 2"
    using n3(3) by (simp_all add: s4'_def s3'_def s2'_def s1'_def sample_election_def)
  moreover have "sent_to s4' ?a ?b = [Election 5002 ?a]" "sent_to s4' ?a ?a = []" "sent_to s4' ?b ?b = []"
    "sent_to s4' ?b ?a = [ElectionOk 5003, Coordinator 5003 ?b]"
    using o1 o2 o3 up0(2) by (simp_all add: sent_to_def w4 outbox_def)
  moreover have "?step\<^sup>*\<^sup>* sample_election s4'"
    using 1 2 3 4 by (meson converse_rtranclp_into_rtranclp rtranclp.rtrancl_refl)
  ultimately show ?thesis
    using o1 w4(1) by (intro exI [of _ s4']) auto
qed

theorem highest_node_elected_witness:
  "\<exists>s :: election_state. leads (fst (es_node s (node_addr 5002))) \<and> follows (node_addr 5002) (fst (es_node s (node_addr 5001))) \<and>
     \<not> leads (fst (es_node s (node_addr 5001)))"
proof -
  from sample_elected obtain s where
    s: "(election_step port_hash {node_addr 5001, node_addr 5002} (node_addr 5000))\<^sup>*\<^sup>* sample_election s"
      "sent (world_at s (node_addr 5001)) \<noteq> []"
      "\<forall>a \<in> {node_addr 5001, node_addr 5002}. \<forall>b \<in> {node_addr 5001, node_addr 5002}.
        es_read s a b = length (sent_to s a b)" by blast
  from highest_node_elected [OF sample_election_fresh s(1)] s(2,3) show ?thesis
    by (intro exI [of _ s]) auto
qed

section \<open>An answer that comes late\<close>

text \<open>C38: The timeout undoes this: a replica that has asked and waited for two seconds announces itself
  to every member and leads, also to those above it; one of these that is alive and reads the
  announcement panics, so there the slow answer of the better candidate kills it.\<close>

theorem late_answer_kills_higher_node:
  assumes "rp_election_in_progress r" "rp_election_start r = Some t" "ELECTION_TIMEOUT \<le> now_of w - t"
    and "links_up {b} w" "(rp_id h, b) \<in> set (rp_cluster r)" "rp_id r < rp_id h" "cn_connected (nw_conn v)"
  shows "\<exists>l w' h' v'. runtime_turn hash ElectionTick (RunReplica r) w = (RunLeader l, w', NodeRunning) \<and>
    (Coordinator (rp_id r) (rp_address r), b) \<in> set (sent w') \<and>
    runtime_turn hash NetReady (RunReplica h)
      (receives (Ok (Coordinator (rp_id r) (rp_address r))) v) = (RunReplica h', v', NodePanicked)"
proof -
  let ?r = "r\<lparr>rp_election_in_progress := False, rp_election_start := None\<rparr>"
  obtain w1 r1 where n: "announce_to_peers (rp_id r) (Coordinator (rp_id r) (rp_address r)) (rp_cluster r) w = (w1, r1)"
    by (rule prod.exhaust)
  from announce_links [OF assms(4) n] obtain addrs where
    A: "r1 = Ok ()" "only_sent w w1 (map (Pair (Coordinator (rp_id r) (rp_address r))) addrs)"
      "set (peers (rp_id r) (rp_cluster r)) \<inter> {b} \<subseteq> set addrs" by blast
  have "b \<in> set (peers (rp_id r) (rp_cluster r))" using assms(5,6) by (force simp: peers_def)
  with A(3) only_sent_fields(7) [OF A(2)] have s: "(Coordinator (rp_id r) (rp_address r), b) \<in> set (sent w1)" by auto
  have "replica_handle_election_timeout (r, w) = ((?r, w1), Ok PromoteToLeader)"
    using assms(1-3) n A(1)
    by (simp add: replica_handle_election_timeout_def replica_anounce_coordinator_def
        replica_handle_coordinator_def on_world_def)
  then have "runtime_turn hash ElectionTick (RunReplica r) w = (RunLeader (into_leader ?r), w1, NodeRunning)"
    by (simp add: node_turn_def node_select_def after_select_def after_run_def replica_ops_def)
  moreover have "runtime_turn hash NetReady (RunReplica h)
      (receives (Ok (Coordinator (rp_id r) (rp_address r))) v) =
      (RunReplica (h\<lparr>rp_election_in_progress := False, rp_election_start := None\<rparr>), settled v, NodePanicked)"
    using assms(6,7)
    by (auto simp: node_turn_def node_select_def receives_recv after_select_def after_run_def replica_ops_def
        replica_handle_coordinator_def Let_def)
  ultimately show ?thesis using s by blast
qed

theorem late_answer_kills_higher_node_witness:
  "\<exists>h' v'. runtime_turn port_hash NetReady (RunReplica (survivor (node_addr 5002)))
      (receives (Ok (Coordinator 5002 (node_addr 5001))) (snd pair_cluster)) = (RunReplica h', v', NodePanicked)"
proof -
  let ?r = "(survivor (node_addr 5001))\<lparr>rp_election_in_progress := True, rp_election_start := Some 0\<rparr>"
  let ?w = "(snd pair_cluster)\<lparr>nw_conn := (nw_conn (snd pair_cluster))\<lparr>cn_now := 2000\<rparr>\<rparr>"
  have "links_up {node_addr 5002} ?w" "cn_connected (nw_conn (snd pair_cluster))"
    using sample_world by (simp_all add: links_up_def)
  with late_answer_kills_higher_node [of ?r 0 ?w "node_addr 5002" "survivor (node_addr 5002)"
      "snd pair_cluster" port_hash]
  show ?thesis by (auto simp: ELECTION_TIMEOUT_def simp del: runtime_turn.simps)
qed

end
