(* ===== verification/CommandText.thy ===== *)
theory CommandText
  imports Domain
begin

text \<open>
  The text handling of the command lines, which the station simulator
  (\<open>common/src/station.rs\<close>) and the administrator (\<open>client/src/administrator/main.rs\<close>) take
  from the standard library: \<open>trim\<close>, \<open>split_whitespace\<close>, \<open>eq_ignore_ascii_case\<close>, and
  \<open>parse\<close> to \<open>usize\<close>, \<open>u64\<close> and \<open>f32\<close>. A Rust string is its UTF-8 bytes, one \<open>char\<close>
  each.
\<close>

section \<open>Whitespace\<close>

text \<open>The Unicode characters with the property \<open>White_Space\<close>, encoded.\<close>

definition white_spaces :: "string list" where
  "white_spaces =
     map (\<lambda>c. [c]) [CHR 0x09, CHR 0x0A, CHR 0x0B, CHR 0x0C, CHR 0x0D, CHR 0x20] @
     map (\<lambda>c. [CHR 0xC2, c]) [CHR 0x85, CHR 0xA0] @
     [[CHR 0xE1, CHR 0x9A, CHR 0x80]] @
     map (\<lambda>c. [CHR 0xE2, CHR 0x80, c])
       [CHR 0x80, CHR 0x81, CHR 0x82, CHR 0x83, CHR 0x84, CHR 0x85, CHR 0x86, CHR 0x87,
        CHR 0x88, CHR 0x89, CHR 0x8A, CHR 0xA8, CHR 0xA9, CHR 0xAF] @
     [[CHR 0xE2, CHR 0x81, CHR 0x9F], [CHR 0xE3, CHR 0x80, CHR 0x80]]"

text \<open>The number of bytes of the whitespace character a text starts with; 0 if there is none.\<close>

definition ws_prefix :: "string \<Rightarrow> nat" where
  "ws_prefix s =
     (case filter (\<lambda>w. take (length w) s = w) white_spaces of [] \<Rightarrow> 0 | w # _ \<Rightarrow> length w)"

function trim_start :: "string \<Rightarrow> string" where
  "trim_start s = (if s = [] \<or> ws_prefix s = 0 then s else trim_start (drop (ws_prefix s) s))"
  by auto
termination by (relation "measure length") auto

declare trim_start.simps [simp del]

fun trim_end :: "string \<Rightarrow> string" where
  "trim_end [] = []"
| "trim_end (c # cs) = (if trim_start (c # cs) = [] then [] else c # trim_end cs)"

definition trim :: "string \<Rightarrow> string" where
  "trim s = trim_end (trim_start s)"

text \<open>\<open>w\<close> is the word being read.\<close>

function split_words :: "string \<Rightarrow> string \<Rightarrow> string list" where
  "split_words w [] = (if w = [] then [] else [w])"
| "split_words w (c # cs) =
     (if ws_prefix (c # cs) = 0 then split_words (w @ [c]) cs
      else (if w = [] then [] else [w]) @ split_words [] (drop (ws_prefix (c # cs)) (c # cs)))"
  by pat_completeness auto
termination by (relation "measure (\<lambda>(w, s). length s)") auto

declare split_words.simps(2) [simp del]

definition split_whitespace :: "string \<Rightarrow> string list" where
  "split_whitespace s = split_words [] s"

section \<open>ASCII case\<close>

definition ascii_lower :: "char \<Rightarrow> char" where
  "ascii_lower c =
     (let n = of_char c :: nat in if 65 \<le> n \<and> n \<le> 90 then char_of (n + 32) else c)"

definition eq_ignore_ascii_case :: "string \<Rightarrow> string \<Rightarrow> bool" where
  "eq_ignore_ascii_case s t \<longleftrightarrow> map ascii_lower s = map ascii_lower t"

section \<open>Unsigned integers\<close>

definition digit_value :: "char \<Rightarrow> nat option" where
  "digit_value c =
     (let n = of_char c :: nat in if 48 \<le> n \<and> n \<le> 57 then Some (n - 48) else None)"

fun digits_value :: "nat \<Rightarrow> string \<Rightarrow> nat option" where
  "digits_value acc [] = Some acc"
| "digits_value acc (c # cs) =
     (case digit_value c of None \<Rightarrow> None | Some d \<Rightarrow> digits_value (10 * acc + d) cs)"

text \<open>\<open>parse\<close> to a 64-bit integer: an optional \<open>+\<close>, at least one digit, no overflow.\<close>

definition parse_u64_value :: "string \<Rightarrow> nat option" where
  "parse_u64_value s =
     (let t = (case s of [] \<Rightarrow> [] | c # cs \<Rightarrow> if c = CHR ''+'' then cs else s) in
      if t = [] then None
      else (case digits_value 0 t of
              None \<Rightarrow> None
            | Some n \<Rightarrow> if n < 2 ^ 64 then Some n else None))"

definition parse_usize :: "string \<Rightarrow> nat option" where
  "parse_usize = parse_u64_value"

definition parse_u64 :: "string \<Rightarrow> u64 option" where
  "parse_u64 s = map_option of_nat (parse_u64_value s)"

section \<open>Floating-point numbers\<close>

text \<open>
  The magnitude nearest to \<open>n / d\<close>, ties to even: \<open>mag_round\<close> with the remainder of the
  division by \<open>d\<close> taken into account.
\<close>

definition mag_of_ratio :: "nat \<Rightarrow> nat \<Rightarrow> nat" where
  "mag_of_ratio n d =
     (let v = n * 2 ^ 149 div d; s = bit_len v - 24; q = v div 2 ^ s;
          r = n * 2 ^ 149 - q * (d * 2 ^ s);
          up = (d * 2 ^ s < 2 * r \<or> (2 * r = d * 2 ^ s \<and> odd q))
      in min inf_mag (s * 2 ^ 23 + q + (if up then 1 else 0)))"

text \<open>The longest prefix of digits, and the rest.\<close>

definition span_digits :: "string \<Rightarrow> string \<times> string" where
  "span_digits s = (takeWhile (\<lambda>c. digit_value c \<noteq> None) s, dropWhile (\<lambda>c. digit_value c \<noteq> None) s)"

definition split_sign :: "string \<Rightarrow> bool \<times> string" where
  "split_sign s =
     (case s of
        [] \<Rightarrow> (False, [])
      | c # cs \<Rightarrow> if c = CHR ''-'' then (True, cs) else if c = CHR ''+'' then (False, cs) else (False, s))"

text \<open>An optional exponent: \<open>None\<close> when the text is not one.\<close>

definition parse_exponent :: "string \<Rightarrow> int option" where
  "parse_exponent s =
     (case s of
        [] \<Rightarrow> Some 0
      | c # cs \<Rightarrow>
          if c = CHR ''e'' \<or> c = CHR ''E'' then
            (let (neg, ds) = split_sign cs in
             if ds = [] then None
             else map_option (\<lambda>n. if neg then - int n else int n) (digits_value 0 ds))
          else None)"

text \<open>\<open>digits [. digits] [e exponent]\<close> with at least one digit before the exponent.\<close>

definition parse_decimal :: "string \<Rightarrow> nat option" where
  "parse_decimal s =
     (let (whole, s1) = span_digits s;
          (frac, s2) = (case s1 of
             [] \<Rightarrow> ([], [])
           | c # t \<Rightarrow> if c = CHR ''.'' then span_digits t else ([], s1))
      in if whole @ frac = [] then None
         else (case (digits_value 0 (whole @ frac), parse_exponent s2) of
                 (Some n, Some e) \<Rightarrow>
                   (let k = e - int (length frac) in
                    Some (if 0 \<le> k then mag_of_ratio (n * 10 ^ nat k) 1
                          else mag_of_ratio n (10 ^ nat (- k))))
               | _ \<Rightarrow> None))"

definition parse_f32 :: "string \<Rightarrow> f32 option" where
  "parse_f32 s =
     (let (neg, t) = split_sign s in
      case parse_decimal t of
        Some m \<Rightarrow> Some (f32_make neg m)
      | None \<Rightarrow>
          if eq_ignore_ascii_case t ''inf'' \<or> eq_ignore_ascii_case t ''infinity''
          then Some (f32_make neg inf_mag)
          else if eq_ignore_ascii_case t ''nan'' then Some (f32_make neg (f32_mag f32_nan))
          else None)"

section \<open>Reading printable words back\<close>

text \<open>Printable ASCII other than the space starts no whitespace character.\<close>

definition graphic :: "char \<Rightarrow> bool" where
  "graphic c \<longleftrightarrow> 33 \<le> (of_char c :: nat) \<and> (of_char c :: nat) \<le> 126"

lemma white_space_heads: "w \<in> set white_spaces \<Longrightarrow> w \<noteq> [] \<and> \<not> graphic (hd w)"
  by (auto simp: white_spaces_def graphic_def)

lemma white_space_chars: "w \<in> set white_spaces \<Longrightarrow> list_all (\<lambda>b. \<not> graphic b) w"
  by (auto simp: white_spaces_def graphic_def)

lemma ws_prefix_graphic [simp]: "graphic c \<Longrightarrow> ws_prefix (c # cs) = 0"
proof -
  assume c: "graphic c"
  have "take (length w) (c # cs) \<noteq> w" if "w \<in> set white_spaces" for w
    using white_space_heads [OF that] c by (cases w) auto
  then have "filter (\<lambda>w. take (length w) (c # cs) = w) white_spaces = []"
    by (simp add: filter_empty_conv)
  then show ?thesis unfolding ws_prefix_def by simp
qed

lemma ws_prefix_space [simp]: "ws_prefix (CHR '' '' # cs) = 1"
  by (simp add: ws_prefix_def white_spaces_def)

lemma ws_prefix_Nil [simp]: "ws_prefix [] = 0"
  by (simp add: ws_prefix_def white_spaces_def)

lemma split_words_graphic:
  "list_all graphic u \<Longrightarrow> split_words w (u @ s) = split_words (w @ u) s"
  by (induction u arbitrary: w) (simp_all add: split_words.simps(2))

lemma split_words_space [simp]:
  "split_words w (CHR '' '' # cs) = (if w = [] then [] else [w]) @ split_words [] cs"
  by (simp add: split_words.simps(2))

text \<open>Words separated by single spaces.\<close>

fun unwords :: "string list \<Rightarrow> string" where
  "unwords [] = []"
| "unwords [w] = w"
| "unwords (w # ws) = w @ CHR '' '' # unwords ws"

lemma split_whitespace_unwords:
  assumes "list_all (\<lambda>w. w \<noteq> [] \<and> list_all graphic w) ws"
  shows "split_whitespace (unwords ws) = ws"
proof -
  have "split_words [] (unwords ws) = ws"
    using assms
  proof (induction ws rule: unwords.induct)
    case (2 w)
    then show ?case using split_words_graphic [of w "[]" "[]"] by simp
  next
    case (3 w v vs)
    then show ?case
      using split_words_graphic [of w "[]" "CHR '' '' # unwords (v # vs)"] by simp
  qed simp
  then show ?thesis by (simp add: split_whitespace_def)
qed

lemma trim_start_graphic [simp]: "graphic c \<Longrightarrow> trim_start (c # cs) = c # cs"
  by (simp add: trim_start.simps)

text \<open>A text that starts and ends with a printable character is not changed by \<open>trim\<close>.\<close>

lemma trim_start_last: "graphic c \<Longrightarrow> trim_start (u @ [c]) \<noteq> []"
proof (induction "length u" arbitrary: u rule: less_induct)
  case less
  define n where "n = ws_prefix (u @ [c])"
  show ?case
  proof (cases "n = 0")
    case True
    then show ?thesis by (subst trim_start.simps) (simp add: n_def)
  next
    case False
    have "take n (u @ [c]) \<in> set white_spaces"
      using False unfolding n_def ws_prefix_def
      by (auto split: list.splits dest!: arg_cong [where f = set] simp: set_eq_iff)
         (metis list.set_intros(1))
    then have "list_all (\<lambda>b. \<not> graphic b) (take n (u @ [c]))"
      by (rule white_space_chars)
    then have "n \<le> length u"
      using less.prems by (cases "n \<le> length u") (auto simp: take_Cons' split: if_splits)
    then have "drop n (u @ [c]) = drop n u @ [c]" "length (drop n u) < length u \<or> n = 0"
      using False by auto
    then have "trim_start (u @ [c]) = trim_start (drop n u @ [c])"
      using False by (subst trim_start.simps) (simp add: n_def)
    then show ?thesis
      using less.hyps [OF _ less.prems, of "drop n u"] \<open>n \<le> length u\<close> False by fastforce
  qed
qed

lemma trim_end_last: "graphic c \<Longrightarrow> trim_end (u @ [c]) = u @ [c]"
proof (induction u)
  case (Cons b u)
  then show ?case using trim_start_last [of c "b # u"] by simp
qed simp

lemma trim_graphic:
  assumes "graphic (hd s)" "graphic (last s)" "s \<noteq> []"
  shows "trim s = s"
proof -
  have "trim_start s = s" using assms by (cases s) simp_all
  moreover have "trim_end s = s"
    using trim_end_last [OF assms(2), of "butlast s"] assms(3) by simp
  ultimately show ?thesis by (simp add: trim_def)
qed

section \<open>Decimal numerals\<close>

fun show_nat :: "nat \<Rightarrow> string" where
  "show_nat n = (if n < 10 then [char_of (48 + n)]
     else show_nat (n div 10) @ [char_of (48 + n mod 10)])"

declare show_nat.simps [simp del]

lemma of_char_digit: "d < 10 \<Longrightarrow> (of_char (char_of (48 + d) :: char) :: nat) = 48 + d"
  by simp

lemma digit_value_char [simp]: "d < 10 \<Longrightarrow> digit_value (char_of (48 + d)) = Some d"
  by (simp add: digit_value_def Let_def)

lemma digits_value_append:
  "digits_value acc (s @ t) = (case digits_value acc s of None \<Rightarrow> None | Some m \<Rightarrow> digits_value m t)"
  by (induction acc s rule: digits_value.induct) (auto split: option.splits)

lemma digits_value_show: "digits_value 0 (show_nat n) = Some n"
proof (induction n rule: show_nat.induct)
  case (1 n)
  show ?case
  proof (cases "n < 10")
    case True
    then show ?thesis by (simp add: show_nat.simps [of n])
  next
    case False
    with 1 show ?thesis
      by (simp add: show_nat.simps [of n] digits_value_append)
  qed
qed

lemma show_nat_digits: "list_all (\<lambda>c. digit_value c \<noteq> None) (show_nat n)"
  by (induction n rule: show_nat.induct) (subst show_nat.simps, auto)

lemma show_nat_not_Nil [simp]: "show_nat n \<noteq> []"
  by (subst show_nat.simps) simp

lemma digit_graphic: "digit_value c \<noteq> None \<Longrightarrow> graphic c"
  by (auto simp: digit_value_def graphic_def Let_def split: if_splits)

lemma show_nat_graphic [simp]: "list_all graphic (show_nat n)"
  using show_nat_digits by (rule list.pred_mono_strong) (rule digit_graphic)

lemma digit_value_signs [simp]:
  "digit_value CHR ''+'' = None" "digit_value CHR ''-'' = None" "digit_value CHR ''.'' = None"
  by (simp_all add: digit_value_def)

lemma show_nat_Cons: obtains c cs where "show_nat n = c # cs" and "digit_value c \<noteq> None"
  using show_nat_digits [of n] by (cases "show_nat n") auto

lemma split_sign_show [simp]: "split_sign (show_nat n) = (False, show_nat n)"
  by (rule show_nat_Cons [of n]) (auto simp: split_sign_def)

lemma parse_u64_value_show: "n < 2 ^ 64 \<Longrightarrow> parse_u64_value (show_nat n) = Some n"
proof -
  have "(case show_nat n of [] \<Rightarrow> [] | c # cs \<Rightarrow> if c = CHR ''+'' then cs else show_nat n) = show_nat n"
    by (rule show_nat_Cons [of n]) auto
  then show "n < 2 ^ 64 \<Longrightarrow> ?thesis"
    by (simp add: parse_u64_value_def digits_value_show)
qed

lemma parse_u64_show: "parse_u64 (show_nat (unat x)) = Some x"
proof -
  have "unat x < 2 ^ 64" using unsigned_less [of x, where 'a = nat] by simp
  then show ?thesis by (simp add: parse_u64_def parse_u64_value_show)
qed

lemma parse_usize_show: "n < 2 ^ 64 \<Longrightarrow> parse_usize (show_nat n) = Some n"
  by (simp add: parse_usize_def parse_u64_value_show)

lemma mag_of_ratio_1: "mag_of_ratio n 1 = mag_round (n * 2 ^ 149)"
proof -
  have "v - v div 2 ^ s * 2 ^ s = v mod 2 ^ s" for v s :: nat
    by (simp add: minus_div_mult_eq_mod)
  then show ?thesis by (simp add: mag_of_ratio_def mag_round_def Let_def)
qed

text \<open>A whole amount is read as the nearest \<open>f32\<close>.\<close>

lemma span_digits_show [simp]: "span_digits (show_nat n) = (show_nat n, [])"
  using show_nat_digits [of n] unfolding span_digits_def
  by (simp only: prod.inject takeWhile_eq_all_conv dropWhile_eq_Nil_conv list_all_iff)

lemma parse_f32_show: "parse_f32 (show_nat n) = Some (f32_of_usize n)"
proof -
  have "parse_decimal (show_nat n) = Some (mag_round (n * 2 ^ 149))"
    using mag_of_ratio_1 [of n]
    by (simp del: power_numeral add: parse_decimal_def digits_value_show parse_exponent_def)
  moreover have "nat \<bar>int n * 2 ^ 149\<bar> = n * 2 ^ 149"
    by (simp add: nat_mult_distrib)
  ultimately show ?thesis
    by (simp add: parse_f32_def f32_of_usize_def f32_of_val_def)
qed

end
