(* ===== verification/Station.thy ===== *)
theory Station
  imports CommandText
begin

text \<open>
  The station simulator (\<open>common/src/station.rs\<close>): commands typed at the pumps become
  charge requests to the node, the node's results free the pumps. The channels to and from
  the node are the messages accepted and the events delivered; \<open>rand\<close>'s draws are a
  parameter.
\<close>

section \<open>State\<close>

record pump_request =
  pr_pump_id :: nat
  pr_account_id :: u64
  pr_card_id :: u64
  pr_amount :: f32
  pr_request_id :: u32

record parsed_command =
  pc_pump_id :: nat
  pc_account_id :: u64
  pc_card_id :: u64
  pc_amount :: f32

text \<open>The error texts of a command, with the values they quote.\<close>

datatype command_error =
    WrongTokenCount nat
  | InvalidPumpId
  | PumpOutOfRange nat
  | InvalidAccountId
  | InvalidCardId
  | InvalidAmount
  | PumpBusy nat u32

text \<open>What the simulator prints.\<close>

datatype station_line =
    LineHelp
  | LineQuit
  | LineEof
  | LineNodeClosed
  | LineInputError
  | LineCommandError command_error
  | LineSendFailed
  | LineLostRequest u32
  | LineRequest pump_request
  | LineUnknownResult u32
  | LineChargeOk pump_request
  | LineChargeDenied pump_request "verify_error option"
  | LineDebug

record station_sim =
  ss_num_pumps :: nat
  ss_in_flight :: "u32 option list"
  ss_requests :: "(u32, pump_request) hash_map"
  ss_to_node :: "station_to_node_msg list"
  ss_to_node_open :: bool
  ss_printed :: "station_line list"

definition say :: "station_line \<Rightarrow> station_sim \<Rightarrow> station_sim" where
  "say l sim = sim\<lparr>ss_printed := ss_printed sim @ [l]\<rparr>"

section \<open>Commands\<close>

text \<open>The last two lines of the out-of-range case: its message computes \<open>num_pumps - 1\<close>.\<close>

definition parse_command :: "string \<Rightarrow> nat \<Rightarrow> (command_error, parsed_command) result" where
  "parse_command line num_pumps =
     (case split_whitespace line of
        [p0, p1, p2, p3] \<Rightarrow>
          (case parse_usize p0 of
             None \<Rightarrow> Error InvalidPumpId
           | Some pump_id \<Rightarrow>
               if num_pumps \<le> pump_id then
                 (if num_pumps = 0 then Panicked else Error (PumpOutOfRange pump_id))
               else
                 (case parse_u64 p1 of
                    None \<Rightarrow> Error InvalidAccountId
                  | Some account_id \<Rightarrow>
                      (case parse_u64 p2 of
                         None \<Rightarrow> Error InvalidCardId
                       | Some card_id \<Rightarrow>
                           (case parse_f32 p3 of
                              None \<Rightarrow> Error InvalidAmount
                            | Some amount \<Rightarrow>
                                Ok \<lparr>pc_pump_id = pump_id, pc_account_id = account_id,
                                    pc_card_id = card_id, pc_amount = amount\<rparr>))))
      | parts \<Rightarrow> Error (WrongTokenCount (length parts)))"

text \<open>
  The loop that draws a request number: \<open>draws\<close> is what the generator will return, and
  \<open>None\<close> that the loop is still drawing when they are used up.
\<close>

definition request_id_free :: "u32 \<Rightarrow> station_sim \<Rightarrow> bool" where
  "request_id_free candidate sim \<longleftrightarrow> candidate \<noteq> 0 \<and>
     \<not> hm_contains (ss_requests sim) candidate \<and> Some candidate \<notin> set (ss_in_flight sim)"

fun draw_request_id :: "u32 list \<Rightarrow> station_sim \<Rightarrow> u32 option" where
  "draw_request_id [] sim = None"
| "draw_request_id (candidate # draws) sim =
     (if request_id_free candidate sim then Some candidate else draw_request_id draws sim)"

text \<open>Indexing \<open>in_flight_by_pump\<close> out of range panics.\<close>

definition handle_user_command :: "u32 list \<Rightarrow> string \<Rightarrow> station_sim \<Rightarrow>
    (station_sim \<times> (command_error, u32 option) result) option" where
  "handle_user_command draws line sim =
     (case parse_command line (ss_num_pumps sim) of
        Inl f \<Rightarrow> Some (sim, Inl f)
      | Inr parsed \<Rightarrow>
          if length (ss_in_flight sim) \<le> pc_pump_id parsed then Some (sim, Panicked)
          else (case ss_in_flight sim ! pc_pump_id parsed of
                  Some existing_req \<Rightarrow> Some (sim, Error (PumpBusy (pc_pump_id parsed) existing_req))
                | None \<Rightarrow>
                    (case draw_request_id draws sim of
                       None \<Rightarrow> None
                     | Some request_id \<Rightarrow>
                         Some (sim\<lparr>ss_requests := hm_insert request_id
                                 \<lparr>pr_pump_id = pc_pump_id parsed, pr_account_id = pc_account_id parsed,
                                  pr_card_id = pc_card_id parsed, pr_amount = pc_amount parsed,
                                  pr_request_id = request_id\<rparr> (ss_requests sim),
                               ss_in_flight := (ss_in_flight sim)[pc_pump_id parsed := Some request_id]\<rparr>,
                               Ok (Some request_id)))))"

section \<open>Results of the node\<close>

fun handle_node_event :: "node_to_station_msg \<Rightarrow> station_sim \<Rightarrow> (command_error, station_sim) result"
  where
  "handle_node_event (StationChargeResult request_id allowed error) sim =
     (case hm_get (ss_requests sim) request_id of
        None \<Rightarrow> Ok (say (LineUnknownResult request_id) sim)
      | Some req \<Rightarrow>
          (let sim1 = say (if allowed then LineChargeOk req else LineChargeDenied req error)
                        (sim\<lparr>ss_requests := hm_remove request_id (ss_requests sim)\<rparr>)
           in if length (ss_in_flight sim1) \<le> pr_pump_id req then Panicked
              else Ok (sim1\<lparr>ss_in_flight := (ss_in_flight sim1)[pr_pump_id req := None]\<rparr>)))"
| "handle_node_event StationDebug sim = Ok (say LineDebug sim)"

section \<open>The simulator's loop\<close>

datatype sim_status = SimRunning | SimStopped | SimPanicked

text \<open>\<open>to_node_tx.send\<close>: it fails when the node's half of the channel is gone.\<close>

definition tell_node :: "station_to_node_msg \<Rightarrow> station_sim \<Rightarrow> station_sim" where
  "tell_node msg sim = sim\<lparr>ss_to_node := ss_to_node sim @ [msg]\<rparr>"

definition send_control :: "station_to_node_msg \<Rightarrow> station_sim \<Rightarrow> station_sim" where
  "send_control msg sim = (if ss_to_node_open sim then tell_node msg sim else say LineSendFailed sim)"

fun free_slot :: "u32 \<Rightarrow> u32 option list \<Rightarrow> u32 option list" where
  "free_slot r [] = []"
| "free_slot r (s # ss) = (if s = Some r then None # ss else s # free_slot r ss)"

text \<open>The request that was just registered is sent, or taken back when that fails.\<close>

definition submit_request :: "u32 \<Rightarrow> station_sim \<Rightarrow> station_sim \<times> sim_status" where
  "submit_request req_id sim =
     (case hm_get (ss_requests sim) req_id of
        None \<Rightarrow>
          (say (LineLostRequest req_id) (sim\<lparr>ss_in_flight := free_slot req_id (ss_in_flight sim)\<rparr>),
           SimRunning)
      | Some req \<Rightarrow>
          (let sim1 = say (LineRequest req) sim in
           if ss_to_node_open sim1 then
             (tell_node (ChargeRequest (pr_account_id req) (pr_card_id req) (pr_amount req)
                (pr_request_id req)) sim1, SimRunning)
           else if length (ss_in_flight sim1) \<le> pr_pump_id req then
             (say LineSendFailed sim1, SimPanicked)
           else
             ((say LineSendFailed sim1)\<lparr>ss_in_flight := (ss_in_flight sim1)[pr_pump_id req := None],
                ss_requests := hm_remove (pr_request_id req) (ss_requests sim1)\<rparr>, SimRunning)))"

definition handle_line :: "u32 list \<Rightarrow> string \<Rightarrow> station_sim \<Rightarrow> (station_sim \<times> sim_status) option"
  where
  "handle_line draws input sim =
     (let line = trim input in
      if line = [] then Some (sim, SimRunning)
      else if eq_ignore_ascii_case line ''quit'' \<or> eq_ignore_ascii_case line ''exit''
      then Some (say LineQuit sim, SimStopped)
      else if eq_ignore_ascii_case line ''help'' then Some (say LineHelp sim, SimRunning)
      else if eq_ignore_ascii_case line ''disconnect''
      then Some (send_control DisconnectNode sim, SimRunning)
      else if eq_ignore_ascii_case line ''connect''
      then Some (send_control ConnectNode sim, SimRunning)
      else (case handle_user_command draws line sim of
              None \<Rightarrow> None
            | Some (sim1, Inr (Some req_id)) \<Rightarrow> Some (submit_request req_id sim1)
            | Some (sim1, Inr None) \<Rightarrow> Some (sim1, SimRunning)
            | Some (sim1, Inl (Err e)) \<Rightarrow> Some (say (LineCommandError e) sim1, SimRunning)
            | Some (sim1, Inl Panic) \<Rightarrow> Some (sim1, SimPanicked)))"

text \<open>The branches of the loop's \<open>select!\<close>.\<close>

datatype station_event =
    StdinLine string "u32 list"
  | StdinEof
  | StdinError
  | NodeEvent node_to_station_msg
  | NodeClosed

fun station_step :: "station_event \<Rightarrow> station_sim \<Rightarrow> (station_sim \<times> sim_status) option" where
  "station_step (StdinLine line draws) sim = handle_line draws line sim"
| "station_step StdinEof sim = Some (say LineEof sim, SimStopped)"
| "station_step StdinError sim = Some (say LineInputError sim, SimRunning)"
| "station_step (NodeEvent msg) sim =
     (case handle_node_event msg sim of
        Inr sim1 \<Rightarrow> Some (sim1, SimRunning)
      | Inl f \<Rightarrow> Some (sim, SimPanicked))"
| "station_step NodeClosed sim = Some (say LineNodeClosed sim, SimStopped)"

fun station_run :: "station_event list \<Rightarrow> station_sim \<Rightarrow> (station_sim \<times> sim_status) option" where
  "station_run [] sim = Some (sim, SimRunning)"
| "station_run (e # es) sim =
     (case station_step e sim of
        Some (sim1, SimRunning) \<Rightarrow> station_run es sim1
      | r \<Rightarrow> r)"

text \<open>\<open>Station::start\<close>: with no pumps the simulator ends before its loop.\<close>

definition station_start :: "nat \<Rightarrow> station_sim \<times> sim_status" where
  "station_start num_pumps =
     (\<lparr>ss_num_pumps = num_pumps, ss_in_flight = replicate num_pumps None, ss_requests = [],
       ss_to_node = [], ss_to_node_open = True, ss_printed = []\<rparr>,
      if num_pumps = 0 then SimStopped else SimRunning)"

section \<open>Invariant\<close>

text \<open>
  The two tables agree: every registered request marks its own pump as busy, and every busy
  pump has its request registered.
\<close>

definition station_ok :: "station_sim \<Rightarrow> bool" where
  "station_ok sim \<longleftrightarrow> length (ss_in_flight sim) = ss_num_pumps sim \<and>
     hm_wf (ss_requests sim) \<and>
     (\<forall>r req. hm_get (ss_requests sim) r = Some req \<longrightarrow> r \<noteq> 0 \<and> pr_request_id req = r \<and>
        pr_pump_id req < ss_num_pumps sim \<and> ss_in_flight sim ! pr_pump_id req = Some r) \<and>
     (\<forall>i < ss_num_pumps sim. \<forall>r. ss_in_flight sim ! i = Some r \<longrightarrow>
        (\<exists>req. hm_get (ss_requests sim) r = Some req \<and> pr_pump_id req = i))"

lemma station_okD:
  assumes "station_ok sim"
  shows "length (ss_in_flight sim) = ss_num_pumps sim"
    and "hm_get (ss_requests sim) r = Some req \<Longrightarrow> r \<noteq> 0 \<and> pr_request_id req = r \<and>
        pr_pump_id req < ss_num_pumps sim \<and> ss_in_flight sim ! pr_pump_id req = Some r"
    and "i < ss_num_pumps sim \<Longrightarrow> ss_in_flight sim ! i = Some r \<Longrightarrow>
        \<exists>req. hm_get (ss_requests sim) r = Some req \<and> pr_pump_id req = i"
  using assms by (auto simp: station_ok_def)

lemma say_ok [simp]: "station_ok (say l sim) = station_ok sim"
  by (simp add: station_ok_def say_def)

lemma tell_node_ok [simp]: "station_ok (tell_node msg sim) = station_ok sim"
  by (simp add: station_ok_def tell_node_def)

lemma send_control_ok [simp]: "station_ok (send_control msg sim) = station_ok sim"
  by (simp add: send_control_def)

lemma station_start_ok: "station_ok (fst (station_start n))"
  by (simp add: station_start_def station_ok_def)

definition register :: "pump_request \<Rightarrow> station_sim \<Rightarrow> station_sim" where
  "register req sim =
     sim\<lparr>ss_requests := hm_insert (pr_request_id req) req (ss_requests sim),
         ss_in_flight := (ss_in_flight sim)[pr_pump_id req := Some (pr_request_id req)]\<rparr>"

definition release :: "pump_request \<Rightarrow> station_sim \<Rightarrow> station_sim" where
  "release req sim =
     sim\<lparr>ss_requests := hm_remove (pr_request_id req) (ss_requests sim),
         ss_in_flight := (ss_in_flight sim)[pr_pump_id req := None]\<rparr>"

lemma register_ok:
  assumes ok: "station_ok sim" and i: "pr_pump_id req < ss_num_pumps sim"
    and idle: "ss_in_flight sim ! pr_pump_id req = None"
    and free: "request_id_free (pr_request_id req) sim"
  shows "station_ok (register req sim)"
  unfolding station_ok_def
proof (intro conjI allI impI)
  note D = station_okD [OF ok]
  show "length (ss_in_flight (register req sim)) = ss_num_pumps (register req sim)"
    using D(1) by (simp add: register_def)
  show "hm_wf (ss_requests (register req sim))"
    using ok by (simp add: station_ok_def register_def hm.wf_insert)
next
  note D = station_okD [OF ok]
  fix r q assume "hm_get (ss_requests (register req sim)) r = Some q"
  then have q: "r = pr_request_id req \<and> q = req \<or>
      r \<noteq> pr_request_id req \<and> hm_get (ss_requests sim) r = Some q"
    by (auto simp: register_def hm.get_insert split: if_splits)
  then have "r \<noteq> 0 \<and> pr_request_id q = r \<and> pr_pump_id q < ss_num_pumps sim \<and>
      ss_in_flight (register req sim) ! pr_pump_id q = Some r"
    using D(1) D(2) [of r q] i idle free
    by (cases "pr_pump_id q = pr_pump_id req") (auto simp: register_def request_id_free_def)
  then show "r \<noteq> 0" "pr_request_id q = r" "pr_pump_id q < ss_num_pumps (register req sim)"
    "ss_in_flight (register req sim) ! pr_pump_id q = Some r"
    by (simp_all add: register_def)
next
  note D = station_okD [OF ok]
  fix j r assume j: "j < ss_num_pumps (register req sim)"
    and b: "ss_in_flight (register req sim) ! j = Some r"
  show "\<exists>q. hm_get (ss_requests (register req sim)) r = Some q \<and> pr_pump_id q = j"
  proof (cases "j = pr_pump_id req")
    case True
    with b D(1) i show ?thesis by (auto simp: register_def)
  next
    case False
    with b have f: "ss_in_flight sim ! j = Some r" by (simp add: register_def)
    with j D(1) have "Some r \<in> set (ss_in_flight sim)"
      by (simp add: register_def) (metis nth_mem)
    then have "r \<noteq> pr_request_id req" using free by (auto simp: request_id_free_def)
    with D(3) [OF _ f] j show ?thesis by (simp add: register_def hm.get_insert)
  qed
qed

lemma release_ok:
  assumes ok: "station_ok sim" and r: "hm_get (ss_requests sim) (pr_request_id req) = Some req"
  shows "station_ok (release req sim)"
  unfolding station_ok_def
proof (intro conjI allI impI)
  note D = station_okD [OF ok]
  show "length (ss_in_flight (release req sim)) = ss_num_pumps (release req sim)"
    using D(1) by (simp add: release_def)
  show "hm_wf (ss_requests (release req sim))"
    using ok by (simp add: station_ok_def release_def hm.wf_remove)
next
  note D = station_okD [OF ok]
  fix k q assume "hm_get (ss_requests (release req sim)) k = Some q"
  then have q: "k \<noteq> pr_request_id req" "hm_get (ss_requests sim) k = Some q"
    by (auto simp: release_def hm.get_remove split: if_splits)
  with D(2) [OF q(2)] D(2) [OF r] have "pr_pump_id q \<noteq> pr_pump_id req" by auto
  with D(2) [OF q(2)] show "k \<noteq> 0" "pr_request_id q = k"
    "pr_pump_id q < ss_num_pumps (release req sim)"
    "ss_in_flight (release req sim) ! pr_pump_id q = Some k"
    by (simp_all add: release_def)
next
  note D = station_okD [OF ok]
  fix j k assume j: "j < ss_num_pumps (release req sim)"
    and b: "ss_in_flight (release req sim) ! j = Some k"
  have "j \<noteq> pr_pump_id req" using b j D(1) by (auto simp: release_def)
  with b have f: "ss_in_flight sim ! j = Some k" by (simp add: release_def)
  then obtain q where q: "hm_get (ss_requests sim) k = Some q" "pr_pump_id q = j"
    using D(3) j by (auto simp: release_def)
  with r \<open>j \<noteq> pr_pump_id req\<close> have "k \<noteq> pr_request_id req" by auto
  with q show "\<exists>q. hm_get (ss_requests (release req sim)) k = Some q \<and> pr_pump_id q = j"
    by (simp add: release_def hm.get_remove)
qed

section \<open>The pumps, abstractly\<close>

text \<open>What the operator sees of a station: for each pump, the request it is waiting for.\<close>

type_synonym pumps = "pump_request option list"

definition pumps_of :: "station_sim \<Rightarrow> pumps" where
  "pumps_of sim = map (\<lambda>s. Option.bind s (hm_get (ss_requests sim))) (ss_in_flight sim)"

definition waits_for :: "u32 \<Rightarrow> pump_request option \<Rightarrow> bool" where
  "waits_for r p \<longleftrightarrow> (case p of None \<Rightarrow> False | Some req \<Rightarrow> pr_request_id req = r)"

definition fresh_id :: "u32 list \<Rightarrow> pumps \<Rightarrow> u32 option" where
  "fresh_id draws ps = find (\<lambda>d. d \<noteq> 0 \<and> list_all (\<lambda>p. \<not> waits_for d p) ps) draws"

definition new_request :: "u32 \<Rightarrow> parsed_command \<Rightarrow> pump_request" where
  "new_request r c =
     \<lparr>pr_pump_id = pc_pump_id c, pr_account_id = pc_account_id c, pr_card_id = pc_card_id c,
      pr_amount = pc_amount c, pr_request_id = r\<rparr>"

text \<open>An idle pump takes a request under a fresh number, a busy one refuses.\<close>

definition pumps_charge :: "u32 list \<Rightarrow> parsed_command \<Rightarrow> pumps \<Rightarrow>
    (pumps \<times> station_to_node_msg list) option" where
  "pumps_charge draws c ps =
     (case ps ! pc_pump_id c of
        Some req \<Rightarrow> Some (ps, [])
      | None \<Rightarrow>
          map_option (\<lambda>r. (ps[pc_pump_id c := Some (new_request r c)],
              [ChargeRequest (pc_account_id c) (pc_card_id c) (pc_amount c) r]))
            (fresh_id draws ps))"

definition pumps_line :: "nat \<Rightarrow> u32 list \<Rightarrow> string \<Rightarrow> pumps \<Rightarrow>
    (pumps \<times> station_to_node_msg list) option" where
  "pumps_line n draws input ps =
     (let line = trim input; word = eq_ignore_ascii_case line in
      if line = [] \<or> word ''quit'' \<or> word ''exit'' \<or> word ''help'' then Some (ps, [])
      else if word ''disconnect'' then Some (ps, [DisconnectNode])
      else if word ''connect'' then Some (ps, [ConnectNode])
      else (case parse_command line n of
              Inl f \<Rightarrow> Some (ps, [])
            | Inr c \<Rightarrow> pumps_charge draws c ps))"

text \<open>A result frees the pump that waits for it; everything else changes no pump.\<close>

fun pumps_step :: "nat \<Rightarrow> station_event \<Rightarrow> pumps \<Rightarrow> (pumps \<times> station_to_node_msg list) option" where
  "pumps_step n (StdinLine input draws) ps = pumps_line n draws input ps"
| "pumps_step n (NodeEvent (StationChargeResult r allowed error)) ps =
     Some (map (\<lambda>p. if waits_for r p then None else p) ps, [])"
| "pumps_step n e ps = Some (ps, [])"

section \<open>The simulator implements the pumps\<close>

lemma pumps_of_say [simp]: "pumps_of (say l sim) = pumps_of sim"
  by (simp add: pumps_of_def say_def)

lemma pumps_of_tell [simp]: "pumps_of (tell_node m sim) = pumps_of sim"
  by (simp add: pumps_of_def tell_node_def)

lemma length_pumps_of [simp]: "length (pumps_of sim) = length (ss_in_flight sim)"
  by (simp add: pumps_of_def)

lemma to_node_simps [simp]:
  "ss_to_node (say l sim) = ss_to_node sim"
  "ss_to_node (tell_node m sim) = ss_to_node sim @ [m]"
  "ss_to_node_open (say l sim) = ss_to_node_open sim"
  "ss_to_node (register req sim) = ss_to_node sim"
  "ss_to_node (release req sim) = ss_to_node sim"
  by (simp_all add: say_def tell_node_def register_def release_def)

lemma pumps_of_nth:
  assumes "station_ok sim" "i < ss_num_pumps sim"
  shows "pumps_of sim ! i = Some req \<longleftrightarrow>
    hm_get (ss_requests sim) (pr_request_id req) = Some req \<and> pr_pump_id req = i"
  using assms station_okD [OF assms(1)]
  by (auto simp: pumps_of_def bind_eq_Some_conv) (metis option.inject)+

lemma waits_for_pump:
  assumes "station_ok sim" "i < ss_num_pumps sim"
  shows "waits_for r (pumps_of sim ! i) \<longleftrightarrow> ss_in_flight sim ! i = Some r"
proof (cases "ss_in_flight sim ! i")
  case None
  with assms station_okD(1) [OF assms(1)] show ?thesis
    by (simp add: pumps_of_def waits_for_def)
next
  case (Some k)
  with station_okD(3) [OF assms(1,2)] obtain req where
    r: "hm_get (ss_requests sim) k = Some req" by blast
  with station_okD(2) [OF assms(1) r] Some assms(2) station_okD(1) [OF assms(1)]
  show ?thesis by (simp add: pumps_of_def waits_for_def)
qed

lemma fresh_iff_free:
  assumes ok: "station_ok sim"
  shows "d \<noteq> 0 \<and> list_all (\<lambda>p. \<not> waits_for d p) (pumps_of sim) \<longleftrightarrow> request_id_free d sim"
proof -
  have "list_all (\<lambda>p. \<not> waits_for d p) (pumps_of sim) \<longleftrightarrow> Some d \<notin> set (ss_in_flight sim)"
    using waits_for_pump [OF ok] station_okD(1) [OF ok]
    by (auto simp: list_all_length in_set_conv_nth)
  moreover have "hm_contains (ss_requests sim) d \<Longrightarrow> Some d \<in> set (ss_in_flight sim)"
    using station_okD(1,2) [OF ok] by (auto simp: hm_contains_def) (metis nth_mem)
  ultimately show ?thesis by (auto simp: request_id_free_def)
qed

lemma draw_is_find: "draw_request_id draws sim = find (\<lambda>d. request_id_free d sim) draws"
  by (induction draws) simp_all

lemma fresh_id_draw: "station_ok sim \<Longrightarrow> fresh_id draws (pumps_of sim) = draw_request_id draws sim"
  by (simp add: fresh_id_def draw_is_find fresh_iff_free)

lemma pumps_of_register:
  assumes ok: "station_ok sim" and "pr_pump_id req < ss_num_pumps sim"
    and free: "request_id_free (pr_request_id req) sim"
  shows "pumps_of (register req sim) = (pumps_of sim)[pr_pump_id req := Some req]"
proof (rule nth_equalityI)
  fix j assume j: "j < length (pumps_of (register req sim))"
  with free have "ss_in_flight sim ! j \<noteq> Some (pr_request_id req)"
    by (simp add: register_def request_id_free_def) (metis nth_mem)
  with j show "pumps_of (register req sim) ! j = (pumps_of sim)[pr_pump_id req := Some req] ! j"
    by (cases "j = pr_pump_id req"; cases "ss_in_flight sim ! j")
      (auto simp: register_def pumps_of_def hm.get_insert nth_list_update)
qed (simp add: register_def)

lemma pumps_of_release:
  assumes ok: "station_ok sim" and r: "hm_get (ss_requests sim) (pr_request_id req) = Some req"
  shows "pumps_of (release req sim) =
    map (\<lambda>p. if waits_for (pr_request_id req) p then None else p) (pumps_of sim)"
proof (rule nth_equalityI)
  fix j assume "j < length (pumps_of (release req sim))"
  then have j: "j < ss_num_pumps sim" "j < length (ss_in_flight sim)"
    using station_okD(1) [OF ok] by (simp_all add: release_def)
  show "pumps_of (release req sim) ! j =
      map (\<lambda>p. if waits_for (pr_request_id req) p then None else p) (pumps_of sim) ! j"
  proof (cases "j = pr_pump_id req")
    case True
    with j station_okD(2) [OF ok r] waits_for_pump [OF ok j(1)]
    show ?thesis by (simp add: release_def pumps_of_def)
  next
    case False
    have "ss_in_flight sim ! j \<noteq> Some (pr_request_id req)"
      using station_okD(3) [OF ok j(1)] r False by fastforce
    with j False waits_for_pump [OF ok j(1), of "pr_request_id req"] show ?thesis
      by (cases "ss_in_flight sim ! j") (simp_all add: release_def pumps_of_def hm.get_remove)
  qed
qed (simp add: release_def)

lemma nobody_waits:
  assumes ok: "station_ok sim" and "hm_get (ss_requests sim) r = None"
  shows "map (\<lambda>p. if waits_for r p then None else p) (pumps_of sim) = pumps_of sim"
proof -
  have "\<not> waits_for r (pumps_of sim ! i)" if "i < ss_num_pumps sim" for i
    using waits_for_pump [OF ok that] station_okD(3) [OF ok that] assms(2) by fastforce
  then show ?thesis
    using station_okD(1) [OF ok] by (intro nth_equalityI) simp_all
qed

lemma parse_command_pump:
  "parse_command line n = Ok c \<Longrightarrow> pc_pump_id c < n"
  by (auto simp: parse_command_def split: list.splits option.splits if_splits)

lemma parse_command_no_panic: "0 < n \<Longrightarrow> parse_command line n \<noteq> Panicked"
  by (auto simp: parse_command_def split: list.splits option.splits)

text \<open>The outcomes of a command, and what they do to the simulator.\<close>

lemma handle_user_command_cases:
  assumes ok: "station_ok sim" and parsed: "parse_command line (ss_num_pumps sim) = Ok c"
  shows "handle_user_command draws line sim =
    (case ss_in_flight sim ! pc_pump_id c of
       Some existing \<Rightarrow> Some (sim, Error (PumpBusy (pc_pump_id c) existing))
     | None \<Rightarrow> map_option (\<lambda>r. (register (new_request r c) sim, Ok (Some r)))
                 (draw_request_id draws sim))"
  using parse_command_pump [OF parsed] station_okD(1) [OF ok] parsed
  by (simp add: handle_user_command_def register_def new_request_def split: option.splits)

lemma draw_free: "draw_request_id draws sim = Some r \<Longrightarrow> request_id_free r sim"
  by (simp add: draw_is_find find_Some_iff) blast

lemma submit_registered:
  assumes "ss_to_node_open sim"
  shows "submit_request r (register (new_request r c) sim) =
    (tell_node (ChargeRequest (pc_account_id c) (pc_card_id c) (pc_amount c) r)
       (say (LineRequest (new_request r c)) (register (new_request r c) sim)), SimRunning)"
  using assms
  by (simp add: submit_request_def register_def new_request_def say_def tell_node_def)

lemma submit_refused:
  assumes ok: "station_ok sim" and "\<not> ss_to_node_open sim"
    and "pc_pump_id c < ss_num_pumps sim"
  shows "submit_request r (register (new_request r c) sim) =
    (release (new_request r c) (say LineSendFailed (say (LineRequest (new_request r c))
       (register (new_request r c) sim))), SimRunning)"
  using assms station_okD(1) [OF ok]
  by (simp add: submit_request_def register_def new_request_def say_def release_def)

lemma handle_user_command_ok:
  assumes ok: "station_ok sim" and pos: "0 < ss_num_pumps sim"
    and h: "handle_user_command draws line sim = Some (sim1, res)"
  shows "res \<noteq> Panicked \<and> station_ok sim1 \<and> res \<noteq> Ok None \<and>
    (\<forall>r. res = Ok (Some r) \<longrightarrow> station_ok (fst (submit_request r sim1)) \<and>
       snd (submit_request r sim1) = SimRunning)"
proof (cases "parse_command line (ss_num_pumps sim)")
  case (Inl f)
  with h parse_command_no_panic [OF pos, of line] ok show ?thesis
    by (auto simp: handle_user_command_def)
next
  case (Inr c)
  note P = parse_command_pump [OF Inr]
  show ?thesis
  proof (cases "ss_in_flight sim ! pc_pump_id c")
    case (Some existing)
    with h ok handle_user_command_cases [OF ok Inr] show ?thesis by auto
  next
    case None
    with h handle_user_command_cases [OF ok Inr] obtain r where
      r: "draw_request_id draws sim = Some r" "sim1 = register (new_request r c) sim"
        "res = Ok (Some r)" by auto
    have reg: "station_ok sim1"
      unfolding r(2) using P None draw_free [OF r(1)]
      by (intro register_ok [OF ok]) (simp_all add: new_request_def)
    have "station_ok (fst (submit_request r sim1)) \<and> snd (submit_request r sim1) = SimRunning"
    proof (cases "ss_to_node_open sim")
      case True
      with reg show ?thesis unfolding r(2) by (simp add: submit_registered)
    next
      case False
      have "hm_get (ss_requests sim1) r = Some (new_request r c)"
        by (simp add: r(2) register_def new_request_def)
      with reg have "station_ok (release (new_request r c)
          (say LineSendFailed (say (LineRequest (new_request r c)) sim1)))"
        by (intro release_ok) (simp, simp add: say_def new_request_def)
      with submit_refused [OF ok False P] show ?thesis by (simp add: r(2))
    qed
    with reg r show ?thesis by simp
  qed
qed

lemma handle_result_known:
  assumes ok: "station_ok sim" and r: "hm_get (ss_requests sim) r = Some req"
  shows "handle_node_event (StationChargeResult r allowed error) sim =
    Ok (say (if allowed then LineChargeOk req else LineChargeDenied req error) (release req sim))"
  using r station_okD(2) [OF ok r] station_okD(1) [OF ok] by (simp add: say_def release_def)

lemma handle_node_event_ok:
  assumes ok: "station_ok sim"
  shows "\<exists>sim1. handle_node_event msg sim = Ok sim1 \<and> station_ok sim1 \<and>
    ss_num_pumps sim1 = ss_num_pumps sim"
proof (cases msg)
  case (StationChargeResult r allowed error)
  show ?thesis
  proof (cases "hm_get (ss_requests sim) r")
    case None
    with StationChargeResult ok show ?thesis by (simp add: say_def station_ok_def)
  next
    case (Some req)
    have "station_ok (release req sim)"
      using release_ok [OF ok] Some station_okD(2) [OF ok Some] by simp
    with handle_result_known [OF ok Some] StationChargeResult show ?thesis
      by (simp add: say_def release_def station_ok_def del: handle_node_event.simps)
  qed
next
  case StationDebug
  with ok show ?thesis by (simp add: say_def station_ok_def)
qed

lemma num_pumps_simps [simp]:
  "ss_num_pumps (say l sim) = ss_num_pumps sim"
  "ss_num_pumps (tell_node m sim) = ss_num_pumps sim"
  "ss_num_pumps (send_control m sim) = ss_num_pumps sim"
  "ss_num_pumps (fst (submit_request r sim)) = ss_num_pumps sim"
  by (simp_all add: say_def tell_node_def send_control_def submit_request_def Let_def
      split: option.splits)

lemma submit_request_pumps: "submit_request r sim = (sim1, st) \<Longrightarrow> ss_num_pumps sim1 = ss_num_pumps sim"
  by (metis fst_conv num_pumps_simps(4))

lemma handle_user_command_pumps:
  "handle_user_command draws line sim = Some (sim1, res) \<Longrightarrow> ss_num_pumps sim1 = ss_num_pumps sim"
  by (auto simp: handle_user_command_def split: sum.splits option.splits if_splits)

lemma handle_line_ok:
  assumes ok: "station_ok sim" and pos: "0 < ss_num_pumps sim"
    and h: "handle_line draws input sim = Some (sim1, st)"
  shows "st \<noteq> SimPanicked \<and> station_ok sim1 \<and> ss_num_pumps sim1 = ss_num_pumps sim"
proof (cases "handle_user_command draws (trim input) sim")
  case None
  with h ok show ?thesis by (auto simp: handle_line_def Let_def split: if_splits)
next
  case (Some x)
  obtain sim2 res where x: "x = (sim2, res)" by force
  from handle_user_command_ok [OF ok pos Some [unfolded x]]
    handle_user_command_pumps [OF Some [unfolded x]] Some x h ok
  show ?thesis
    by (cases res rule: sum.exhaust)
      (auto simp: handle_line_def Let_def split: if_splits failure.splits option.splits
        dest: submit_request_pumps)
qed

lemma station_step_ok:
  assumes ok: "station_ok sim" and pos: "0 < ss_num_pumps sim"
    and e: "station_step e sim = Some (sim1, st)"
  shows "st \<noteq> SimPanicked \<and> station_ok sim1 \<and> ss_num_pumps sim1 = ss_num_pumps sim"
proof (cases e)
  case (StdinLine line draws)
  with handle_line_ok [OF ok pos] e show ?thesis by simp
next
  case (NodeEvent msg)
  obtain sim2 where "handle_node_event msg sim = Ok sim2" "station_ok sim2"
    "ss_num_pumps sim2 = ss_num_pumps sim" using handle_node_event_ok [OF ok] by blast
  with e NodeEvent show ?thesis by simp
qed (use e ok in \<open>simp_all, auto\<close>)

lemma station_run_ok:
  "station_run es sim = Some (sim1, st) \<Longrightarrow> station_ok sim \<Longrightarrow> 0 < ss_num_pumps sim \<Longrightarrow>
     st \<noteq> SimPanicked \<and> station_ok sim1 \<and> ss_num_pumps sim1 = ss_num_pumps sim"
proof (induction es arbitrary: sim)
  case (Cons e es)
  then obtain sim2 st2 where s: "station_step e sim = Some (sim2, st2)"
    by (cases "station_step e sim") auto
  from station_step_ok [OF Cons.prems(2,3) s] have
    "st2 \<noteq> SimPanicked" "station_ok sim2" "ss_num_pumps sim2 = ss_num_pumps sim" by simp_all
  with Cons s show ?case by (cases st2) auto
qed auto

section \<open>Properties\<close>

text \<open>A station with pumps never panics, and in every state it can reach the table of
  requests and the table of busy pumps agree: every open request has a number other than
  zero, marks its own pump as busy, and every busy pump has its request open; so a pump waits
  for at most one request and no two pumps share a number.\<close>

theorem station_tables_agree:
  assumes "0 < n" and "station_run es (fst (station_start n)) = Some (sim, st)"
  shows "st \<noteq> SimPanicked \<and> length (ss_in_flight sim) = n \<and>
    (\<forall>r req. hm_get (ss_requests sim) r = Some req \<longrightarrow> r \<noteq> 0 \<and> pr_request_id req = r \<and>
       pr_pump_id req < n \<and> ss_in_flight sim ! pr_pump_id req = Some r) \<and>
    (\<forall>i < n. \<forall>r. ss_in_flight sim ! i = Some r \<longrightarrow>
       (\<exists>req. hm_get (ss_requests sim) r = Some req \<and> pr_pump_id req = i))"
proof -
  have "ss_num_pumps (fst (station_start n)) = n" by (simp add: station_start_def)
  with station_run_ok [OF assms(2) station_start_ok] assms(1) have
    "st \<noteq> SimPanicked" "station_ok sim" "ss_num_pumps sim = n" by simp_all
  with station_okD [OF this(2)] show ?thesis by auto
qed

theorem station_tables_agree_witness:
  "ss_in_flight (fst (the (station_run [StdinLine ''help'' []] (fst (station_start 2))))) !
     0 = None"
proof -
  have r: "station_run [StdinLine ''help'' []] (fst (station_start 2)) =
      Some (say LineHelp (fst (station_start 2)), SimRunning)"
    using trim_graphic [of "''help''"]
    by (simp add: handle_line_def graphic_def eq_ignore_ascii_case_def ascii_lower_def)
  from station_tables_agree [OF _ r] have
    "length (ss_in_flight (say LineHelp (fst (station_start 2)))) = 2" by simp
  with r show ?thesis by (simp add: say_def station_start_def)
qed

lemma handle_line_refines:
  assumes ok: "station_ok sim" and pos: "0 < ss_num_pumps sim" and op: "ss_to_node_open sim"
  shows "map_option (\<lambda>(s, st). (pumps_of s, ss_to_node s)) (handle_line draws input sim) =
    map_option (\<lambda>(ps, msgs). (ps, ss_to_node sim @ msgs))
      (pumps_line (ss_num_pumps sim) draws input (pumps_of sim))"
proof -
  define line where "line = trim input"
  define word where "word = eq_ignore_ascii_case line"
  show ?thesis
  proof (cases "line = [] \<or> word ''quit'' \<or> word ''exit'' \<or> word ''help'' \<or>
      word ''disconnect'' \<or> word ''connect''")
    case True
    then show ?thesis using op
      by (auto simp: handle_line_def pumps_line_def Let_def line_def [symmetric] word_def send_control_def)
  next
    case no_word: False
    show ?thesis
    proof (cases "parse_command line (ss_num_pumps sim)")
      case (Inl f)
      with parse_command_no_panic [OF pos, of line] obtain e where "f = Err e"
        by (cases f) auto
      with no_word Inl show ?thesis
        by (auto simp: handle_line_def pumps_line_def Let_def line_def [symmetric] word_def
            handle_user_command_def)
    next
      case (Inr c)
      note P = parse_command_pump [OF Inr]
      have spec: "pumps_line (ss_num_pumps sim) draws input (pumps_of sim) =
          pumps_charge draws c (pumps_of sim)"
        using no_word Inr by (simp add: pumps_line_def Let_def line_def [symmetric] word_def)
      have code: "handle_line draws input sim = (case handle_user_command draws line sim of
              None \<Rightarrow> None
            | Some (sim1, Inr (Some req_id)) \<Rightarrow> Some (submit_request req_id sim1)
            | Some (sim1, Inr None) \<Rightarrow> Some (sim1, SimRunning)
            | Some (sim1, Inl (Err e)) \<Rightarrow> Some (say (LineCommandError e) sim1, SimRunning)
            | Some (sim1, Inl Panic) \<Rightarrow> Some (sim1, SimPanicked))"
        using no_word by (simp add: handle_line_def Let_def line_def [symmetric] word_def)
      show ?thesis
      proof (cases "ss_in_flight sim ! pc_pump_id c")
        case (Some r)
        with station_okD(3) [OF ok P] obtain req where
          "hm_get (ss_requests sim) r = Some req" by blast
        with Some P station_okD(1) [OF ok] have "pumps_of sim ! pc_pump_id c = Some req"
          by (simp add: pumps_of_def)
        with Some show ?thesis
          by (simp add: spec code handle_user_command_cases [OF ok Inr] pumps_charge_def)
      next
        case None
        with P station_okD(1) [OF ok] have "pumps_of sim ! pc_pump_id c = None"
          by (simp add: pumps_of_def)
        moreover have "pumps_of (register (new_request r c) sim) =
            (pumps_of sim)[pc_pump_id c := Some (new_request r c)]"
          if "draw_request_id draws sim = Some r" for r
          using pumps_of_register [OF ok, of "new_request r c"] P draw_free [OF that]
          by (simp add: new_request_def)
        ultimately show ?thesis using None
          by (cases "draw_request_id draws sim")
            (simp_all add: spec code handle_user_command_cases [OF ok Inr] pumps_charge_def
              fresh_id_draw [OF ok] submit_registered [OF op])
      qed
    qed
  qed
qed

text \<open>C15: The simulator implements the pumps: as long as its node listens, every event changes the
  pumps as the abstract station does (an idle pump takes a well-formed charge under a fresh
  number and sends exactly that request, a busy pump refuses, a result frees the pump that
  waits for it, nothing else touches a pump), and sends the node exactly the abstract
  station's messages.\<close>

theorem station_refines_pumps:
  assumes "station_ok sim" and "0 < ss_num_pumps sim" and "ss_to_node_open sim"
  shows "map_option (\<lambda>(s, st). (pumps_of s, ss_to_node s)) (station_step e sim) =
    map_option (\<lambda>(ps, msgs). (ps, ss_to_node sim @ msgs))
      (pumps_step (ss_num_pumps sim) e (pumps_of sim))"
proof (cases e)
  case (StdinLine line draws)
  with handle_line_refines [OF assms] show ?thesis by simp
next
  case (NodeEvent msg)
  show ?thesis
  proof (cases msg)
    case (StationChargeResult r allowed error)
    show ?thesis
    proof (cases "hm_get (ss_requests sim) r")
      case None
      with nobody_waits [OF assms(1) None] NodeEvent StationChargeResult show ?thesis by simp
    next
      case (Some req)
      with handle_result_known [OF assms(1) Some] pumps_of_release [OF assms(1), of req]
        station_okD(2) [OF assms(1) Some] NodeEvent StationChargeResult
      show ?thesis by (simp del: handle_node_event.simps)
    qed
  next
    case StationDebug
    with NodeEvent show ?thesis by simp
  qed
qed auto

theorem station_refines_pumps_witness:
  "map_option (\<lambda>(s, st). (pumps_of s, ss_to_node s))
     (station_step (NodeEvent (StationChargeResult 9 True None)) (fst (station_start 2))) =
   Some ([None, None], [])"
  using station_refines_pumps [OF station_start_ok, of 2 "NodeEvent (StationChargeResult 9 True None)"]
  by (simp add: station_start_def pumps_of_def waits_for_def numeral_2_eq_2)

text \<open>C35: A command a pump prints in decimal is read back: pump, account, card and a whole amount,
  which becomes the nearest \<open>f32\<close>.\<close>

theorem station_command_roundtrip:
  assumes "pump < n" and "n \<le> 2 ^ 64"
  shows "parse_command (unwords [show_nat pump, show_nat (unat account_id), show_nat (unat card_id),
      show_nat amount]) n =
    Ok \<lparr>pc_pump_id = pump, pc_account_id = account_id, pc_card_id = card_id,
        pc_amount = f32_of_usize amount\<rparr>"
proof -
  have "split_whitespace (unwords [show_nat pump, show_nat (unat account_id), show_nat (unat card_id),
      show_nat amount]) = [show_nat pump, show_nat (unat account_id), show_nat (unat card_id), show_nat amount]"
    by (rule split_whitespace_unwords) simp
  with assms show ?thesis
    by (simp add: parse_command_def parse_usize_show parse_u64_show parse_f32_show)
qed

theorem station_command_roundtrip_witness:
  "parse_command (unwords [show_nat 1, show_nat (unat (2::u64)), show_nat (unat (20::u64)), show_nat 125]) 4
    = Ok \<lparr>pc_pump_id = 1, pc_account_id = 2, pc_card_id = 20, pc_amount = f32_of_usize 125\<rparr>"
  by (rule station_command_roundtrip) simp_all

text \<open>The loop that draws a request number ends: at most one number per pump is taken, so among
  any \<open>n + 2\<close> different draws one is accepted, and the accepted one is new.\<close>

theorem request_id_draw_returns:
  assumes "station_ok sim" and "distinct draws" and "ss_num_pumps sim + 1 < length draws"
  shows "\<exists>r. draw_request_id draws sim = Some r \<and> r \<in> set draws \<and> r \<noteq> 0 \<and>
    hm_get (ss_requests sim) r = None"
proof (cases "draw_request_id draws sim")
  case None
  have "set draws \<subseteq> insert 0 (the ` set (ss_in_flight sim))"
  proof
    fix d assume "d \<in> set draws"
    with None have "\<not> request_id_free d sim" by (auto simp: draw_is_find find_None_iff)
    then have "d = 0 \<or> Some d \<in> set (ss_in_flight sim)"
      unfolding fresh_iff_free [OF assms(1), symmetric]
      using waits_for_pump [OF assms(1)] station_okD(1) [OF assms(1)]
      by (auto simp: list_all_length) (metis nth_mem)
    then show "d \<in> insert 0 (the ` set (ss_in_flight sim))" by force
  qed
  then have "card (set draws) \<le> card (insert 0 (the ` set (ss_in_flight sim)))"
    by (rule card_mono [rotated]) simp
  also have "\<dots> \<le> Suc (card (the ` set (ss_in_flight sim)))" by (rule card_insert_le_m1) auto
  also have "\<dots> \<le> Suc (length (ss_in_flight sim))"
    by (metis Suc_le_mono card_image_le card_length List.finite_set order_trans)
  finally show ?thesis
    using assms station_okD(1) [OF assms(1)] by (simp add: distinct_card)
next
  case (Some r)
  with draw_free [OF Some] show ?thesis
    by (auto simp: draw_is_find find_Some_iff request_id_free_def hm_contains_def)
qed

theorem request_id_draw_returns_witness:
  "\<exists>r. draw_request_id [0, 7, 8, 9] (fst (station_start 2)) = Some r \<and> r \<noteq> 0"
proof -
  have "distinct [0, 7, 8, 9 :: u32]" "ss_num_pumps (fst (station_start 2)) + 1 < length [0, 7, 8, 9 :: u32]"
    by (simp_all add: station_start_def)
  from request_id_draw_returns [OF station_start_ok this] show ?thesis by blast
qed

end
