(* ===== verification/NodeClient.thy ===== *)
theory NodeClient
  imports Node
begin

text \<open>
  The forwarding client (\<open>client/src/node_client/node_client.rs\<close>): a process with a station
  and a connection but no database, which passes its pumps' charges on to the first known
  node that takes them, grants and queues them when none does, and replays the queue when it
  is told to connect.
\<close>

section \<open>State\<close>

record queued_charge =
  qc_account_id :: u64
  qc_card_id :: u64
  qc_amount :: f32

record node_client =
  nc_bind_addr :: socket_addr
  nc_known_nodes :: "socket_addr list"
  nc_next_node_idx :: nat
  nc_online :: bool
  nc_offline_queue :: "queued_charge list"
  nc_active_online_requests :: "u32 set"
  nc_next_replay_req_id :: u32

text \<open>Its resources: the connection and the two channels of the station.\<close>

record client_world =
  cw_conn :: connection
  cw_to_station :: "node_to_station_msg list"
  cw_to_station_open :: bool
  cw_from_station :: "station_to_node_msg list"
  cw_from_station_open :: bool

type_synonym client_state = "node_client \<times> client_world"

definition client_get_id_given_addr :: "(socket_addr \<Rightarrow> u64) \<Rightarrow> socket_addr \<Rightarrow> u64" where
  "client_get_id_given_addr hash addr = hash addr mod 100000 + 1"

definition client_net_send :: "message \<Rightarrow> socket_addr \<Rightarrow> client_world \<Rightarrow> (client_world, unit) outcome"
  where
  "client_net_send msg addr w =
     (let (conn, r) = connection_send msg addr (cw_conn w) in (w\<lparr>cw_conn := conn\<rparr>, r))"

definition client_station_send :: "node_to_station_msg \<Rightarrow> client_world \<Rightarrow> (client_world, unit) outcome"
  where
  "client_station_send msg w =
     (if cw_to_station_open w then (w\<lparr>cw_to_station := cw_to_station w @ [msg]\<rparr>, Ok ())
      else (w, Error Channel))"

text \<open>A call that touches the resources only.\<close>

definition in_world :: "node_client \<Rightarrow> (client_world, 'a) outcome \<Rightarrow> (client_state, 'a) outcome" where
  "in_world self o' = ((self, fst o'), snd o')"

definition client_new :: "socket_addr \<Rightarrow> socket_addr list \<Rightarrow> node_client" where
  "client_new bind_addr known_nodes =
     \<lparr>nc_bind_addr = bind_addr, nc_known_nodes = known_nodes, nc_next_node_idx = 0,
      nc_online = True, nc_offline_queue = [], nc_active_online_requests = {},
      nc_next_replay_req_id = 1000000\<rparr>"

text \<open>\<open>% self.known_nodes.len()\<close> panics when there is none.\<close>

definition pick_next_node :: "node_client \<Rightarrow> node_client \<times> socket_addr app_result" where
  "pick_next_node self =
     (let n = length (nc_known_nodes self); idx = nc_next_node_idx self mod n in
      if n = 0 then (self, Panicked)
      else (self\<lparr>nc_next_node_idx := (nc_next_node_idx self + 1) mod n\<rparr>,
            Ok (nc_known_nodes self ! idx)))"

section \<open>Charges\<close>

definition enqueue_offline_charge :: "u64 \<Rightarrow> u64 \<Rightarrow> f32 \<Rightarrow> u32 \<Rightarrow> client_state \<Rightarrow>
    (client_state, unit) outcome" where
  "enqueue_offline_charge account_id card_id amount request_id x =
     (let (self, w) = x;
          q = \<lparr>qc_account_id = account_id, qc_card_id = card_id, qc_amount = amount\<rparr>
      in in_world (self\<lparr>nc_offline_queue := nc_offline_queue self @ [q]\<rparr>)
           (client_station_send (StationChargeResult request_id True None) w))"

text \<open>The known nodes in order, until one takes the request; the value says whether one did.\<close>

fun forward_to_known :: "message \<Rightarrow> socket_addr list \<Rightarrow> client_world \<Rightarrow> (client_world, bool) outcome"
  where
  "forward_to_known msg [] w = (w, Ok False)"
| "forward_to_known msg (target # rest) w =
     (case client_net_send msg target w of
        (w', Inr u) \<Rightarrow> (w', Ok True)
      | (w', Inl (Err e)) \<Rightarrow> forward_to_known msg rest w'
      | (w', Inl Panic) \<Rightarrow> (w', Panicked))"

definition forward_online_charge :: "u64 \<Rightarrow> u64 \<Rightarrow> f32 \<Rightarrow> u32 \<Rightarrow> client_state \<Rightarrow>
    (client_state, unit) outcome" where
  "forward_online_charge account_id card_id amount request_id x =
     (let (self, w) = x in
      then_do (in_world self (forward_to_known
          (Request request_id (Charge account_id card_id amount False) (nc_bind_addr self))
          (nc_known_nodes self) w)) (\<lambda>was_sent (self', w').
        if was_sent then
          ((self'\<lparr>nc_active_online_requests := insert request_id (nc_active_online_requests self')\<rparr>, w'),
           Ok ())
        else enqueue_offline_charge account_id card_id amount request_id (self', w')))"

definition forward_or_enqueue_charge :: "u64 \<Rightarrow> u64 \<Rightarrow> f32 \<Rightarrow> u32 \<Rightarrow> client_state \<Rightarrow>
    (client_state, unit) outcome" where
  "forward_or_enqueue_charge account_id card_id amount request_id x =
     (let (self, w) = x in
      if nc_known_nodes self = [] then
        then_do (in_world self (ignore_error (client_station_send StationDebug w)))
          (\<lambda>_. enqueue_offline_charge account_id card_id amount request_id)
      else if \<not> nc_online self then enqueue_offline_charge account_id card_id amount request_id x
      else forward_online_charge account_id card_id amount request_id x)"

section \<open>Replaying the queue\<close>

text \<open>Every attempt takes a number of its own.\<close>

fun replay_to_known :: "operation \<Rightarrow> socket_addr \<Rightarrow> socket_addr list \<Rightarrow> u32 \<times> client_world \<Rightarrow>
    (u32 \<times> client_world, bool) outcome" where
  "replay_to_known op bind_addr [] (next_id, w) = ((next_id, w), Ok False)"
| "replay_to_known op bind_addr (target # rest) (next_id, w) =
     (case client_net_send (Request next_id op bind_addr) target w of
        (w', Inr u) \<Rightarrow> ((next_id + 1, w'), Ok True)
      | (w', Inl (Err e)) \<Rightarrow> replay_to_known op bind_addr rest (next_id + 1, w')
      | (w', Inl Panic) \<Rightarrow> ((next_id + 1, w'), Panicked))"

text \<open>The value is \<open>still_pending\<close>.\<close>

definition replay_op :: "queued_charge \<Rightarrow> operation" where
  "replay_op q = Charge (qc_account_id q) (qc_card_id q) (qc_amount q) True"

fun replay_queue :: "socket_addr \<Rightarrow> socket_addr list \<Rightarrow> queued_charge list \<Rightarrow> u32 \<times> client_world \<Rightarrow>
    (u32 \<times> client_world, queued_charge list) outcome" where
  "replay_queue bind_addr known [] y = (y, Ok [])"
| "replay_queue bind_addr known (queued # rest) y =
     then_do (replay_to_known (replay_op queued) bind_addr known y) (\<lambda>was_sent y'.
       then_do (replay_queue bind_addr known rest y') (\<lambda>still_pending y''.
         (y'', Ok (if was_sent then still_pending else queued # still_pending))))"

definition flush_offline_queue :: "client_state \<Rightarrow> (client_state, unit) outcome" where
  "flush_offline_queue x =
     (let (self, w) = x in
      if nc_offline_queue self = [] then (x, Ok ())
      else if nc_known_nodes self = [] then (x, Ok ())
      else (case replay_queue (nc_bind_addr self) (nc_known_nodes self) (nc_offline_queue self)
                   (nc_next_replay_req_id self, w) of
              ((next_id, w'), Inr still_pending) \<Rightarrow>
                ((self\<lparr>nc_next_replay_req_id := next_id, nc_offline_queue := still_pending\<rparr>, w'), Ok ())
            | ((next_id, w'), Inl f) \<Rightarrow> ((self\<lparr>nc_next_replay_req_id := next_id\<rparr>, w'), Inl f)))"

section \<open>Messages\<close>

fun client_handle_station_msg :: "station_to_node_msg \<Rightarrow> client_state \<Rightarrow> (client_state, unit) outcome"
  where
  "client_handle_station_msg (ChargeRequest account_id card_id amount request_id) x =
     forward_or_enqueue_charge account_id card_id amount request_id x"
| "client_handle_station_msg DisconnectNode (self, w) =
     in_world (self\<lparr>nc_online := False\<rparr>) (ignore_error (client_station_send StationDebug w))"
| "client_handle_station_msg ConnectNode (self, w) =
     then_do (in_world (self\<lparr>nc_online := True\<rparr>) (ignore_error (client_station_send StationDebug w)))
       (\<lambda>_. flush_offline_queue)"

fun handle_response_from_node :: "u32 \<Rightarrow> operation_result \<Rightarrow> client_world \<Rightarrow> (client_world, unit) outcome"
  where
  "handle_response_from_node req_id (ResCharge cr) w =
     (let (allowed, error) = charge_outcome cr
      in client_station_send (StationChargeResult req_id allowed error) w)"
| "handle_response_from_node req_id other w = ignore_error (client_station_send StationDebug w)"

fun client_handle_node_msg :: "(socket_addr \<Rightarrow> u64) \<Rightarrow> message \<Rightarrow> client_state \<Rightarrow>
    (client_state, unit) outcome" where
  "client_handle_node_msg hash (Response req_id op_result) (self, w) =
     (if req_id \<notin> nc_active_online_requests self then ((self, w), Ok ())
      else in_world (self\<lparr>nc_active_online_requests := nc_active_online_requests self - {req_id}\<rparr>)
             (handle_response_from_node req_id op_result w))"
| "client_handle_node_msg hash (RoleQuery addr) (self, w) =
     in_world self (client_net_send
       (RoleResponse (client_get_id_given_addr hash (nc_bind_addr self)) RoleStation) addr w)"
| "client_handle_node_msg hash other x = (x, Ok ())"

section \<open>The event loop\<close>

datatype client_source = ClientStation | ClientNet

datatype client_status = ClientRunning | ClientStopped "app_error option" | ClientPanicked

fun client_after :: "(client_state, unit) outcome \<Rightarrow> client_state \<times> client_status" where
  "client_after (x, Inr u) = (x, ClientRunning)"
| "client_after (x, Inl (Err e)) = (x, ClientStopped (Some e))"
| "client_after (x, Inl Panic) = (x, ClientPanicked)"

text \<open>A closed station ends the client; an error of the connection is printed only.\<close>

definition client_turn :: "(socket_addr \<Rightarrow> u64) \<Rightarrow> client_source \<Rightarrow> client_state \<Rightarrow>
    client_state \<times> client_status" where
  "client_turn hash source x =
     (let (self, w) = x in
      case source of
        ClientStation \<Rightarrow>
          (case cw_from_station w of
             msg # msgs \<Rightarrow>
               client_after (client_handle_station_msg msg (self, w\<lparr>cw_from_station := msgs\<rparr>))
           | [] \<Rightarrow> if cw_from_station_open w then (x, ClientRunning) else (x, ClientStopped None))
      | ClientNet \<Rightarrow>
          (case connection_recv (cw_conn w) of
             (conn, None) \<Rightarrow> (x, ClientRunning)
           | (conn, Some (Inr msg)) \<Rightarrow>
               client_after (client_handle_node_msg hash msg (self, w\<lparr>cw_conn := conn\<rparr>))
           | (conn, Some (Inl f)) \<Rightarrow> ((self, w\<lparr>cw_conn := conn\<rparr>), ClientRunning)))"

section \<open>What sending changes\<close>

abbreviation client_sent :: "client_world \<Rightarrow> (message \<times> socket_addr) list" where
  "client_sent w \<equiv> cn_sent (cw_conn w)"

abbreviation reported :: "client_world \<Rightarrow> node_to_station_msg list" where
  "reported w \<equiv> cw_to_station w"

definition same_station :: "client_world \<Rightarrow> client_world \<Rightarrow> bool" where
  "same_station w w' \<longleftrightarrow> cw_to_station w' = cw_to_station w \<and>
     cw_to_station_open w' = cw_to_station_open w"

lemma same_station_refl [simp]: "same_station w w"
  by (simp add: same_station_def)

lemma same_station_trans: "same_station w w1 \<Longrightarrow> same_station w1 w2 \<Longrightarrow> same_station w w2"
  by (simp add: same_station_def)

lemma client_net_send_frame:
  assumes "client_net_send m a w = (w', r)"
  shows "same_station w w'" "client_sent w' = client_sent w @ (if is_ok r then [(m, a)] else [])"
proof -
  obtain conn where c: "connection_send m a (cw_conn w) = (conn, r)" "w' = w\<lparr>cw_conn := conn\<rparr>"
    using assms by (auto simp: client_net_send_def split: prod.splits)
  show "same_station w w'" by (simp add: c same_station_def)
  show "client_sent w' = client_sent w @ (if is_ok r then [(m, a)] else [])"
    using conjunct2 [OF connection_send_frame [OF c(1)]] c(2) by simp
qed

lemma forward_to_known_frame:
  "forward_to_known msg known w = (w', Ok b) \<Longrightarrow> same_station w w' \<and>
     (if b then \<exists>target \<in> set known. client_sent w' = client_sent w @ [(msg, target)]
      else client_sent w' = client_sent w)"
proof (induction known arbitrary: w)
  case (Cons target rest)
  obtain w1 r where s: "client_net_send msg target w = (w1, r)" by force
  note F = client_net_send_frame [OF s]
  show ?case
  proof (cases r)
    case (Inr u)
    with Cons.prems s F show ?thesis by auto
  next
    case (Inl f)
    then obtain e where "f = Err e" using Cons.prems s by (cases f) auto
    with Cons.prems s Inl have "forward_to_known msg rest w1 = (w', Ok b)" by simp
    from Cons.IH [OF this] F Inl show ?thesis
      using same_station_trans [OF F(1)] by (auto split: if_splits)
  qed
qed simp

lemma replay_to_known_frame:
  "replay_to_known op bind_addr known (i, w) = ((i', w'), Ok b) \<Longrightarrow> same_station w w' \<and>
     (if b then \<exists>k target. target \<in> set known \<and>
        client_sent w' = client_sent w @ [(Request k op bind_addr, target)]
      else client_sent w' = client_sent w)"
proof (induction known arbitrary: i w)
  case (Cons target rest)
  obtain w1 r where s: "client_net_send (Request i op bind_addr) target w = (w1, r)" by force
  note F = client_net_send_frame [OF s]
  show ?case
  proof (cases r)
    case (Inr u)
    with Cons.prems s F show ?thesis by auto
  next
    case (Inl f)
    then obtain e where f: "f = Err e" using Cons.prems s by (cases f) auto
    with Cons.prems s Inl have "replay_to_known op bind_addr rest (i + 1, w1) = ((i', w'), Ok b)"
      by simp
    from Cons.IH [OF this] F Inl show ?thesis
      using same_station_trans [OF F(1)] by (auto split: if_splits)
  qed
qed simp

text \<open>The requests that replay \<open>done'\<close>: triples of a charge, its number and the node it went to.\<close>

definition replays :: "socket_addr \<Rightarrow> (queued_charge \<times> u32 \<times> socket_addr) list \<Rightarrow>
    (message \<times> socket_addr) list" where
  "replays bind_addr done' = map (\<lambda>(q, i, target). (Request i (replay_op q) bind_addr, target)) done'"

lemma replay_queue_frame:
  "replay_queue bind_addr known queue (i, w) = ((i', w'), Ok pending) \<Longrightarrow>
     \<exists>done'. same_station w w' \<and> client_sent w' = client_sent w @ replays bind_addr done' \<and>
       (\<forall>(q, k, target) \<in> set done'. target \<in> set known) \<and> queue \<in> shuffles (map fst done') pending"
proof (induction queue arbitrary: i w i' w' pending)
  case Nil
  then show ?case by (auto simp: replays_def intro!: exI [of _ "[]"])
next
  case (Cons queued rest)
  obtain i1 w1 r where t: "replay_to_known (replay_op queued) bind_addr known (i, w) = ((i1, w1), r)"
    by (metis prod.exhaust)
  then obtain b where r: "r = Ok b" using Cons.prems by (cases r) auto
  obtain i2 w2 r2 where q: "replay_queue bind_addr known rest (i1, w1) = ((i2, w2), r2)"
    by (metis prod.exhaust)
  then obtain pending' where r2: "r2 = Ok pending'" using Cons.prems t r by (cases r2) auto
  from Cons.prems t r q r2 have end': "w' = w2" "i' = i2"
    "pending = (if b then pending' else queued # pending')" by simp_all
  from Cons.IH [OF q [unfolded r2]] obtain done' where d: "same_station w1 w2"
    "client_sent w2 = client_sent w1 @ replays bind_addr done'"
    "\<forall>(q, k, target) \<in> set done'. target \<in> set known" "rest \<in> shuffles (map fst done') pending'"
    by blast
  from replay_to_known_frame [OF t [unfolded r]] have one: "same_station w w1"
    "if b then \<exists>k target. target \<in> set known \<and>
       client_sent w1 = client_sent w @ [(Request k (replay_op queued) bind_addr, target)]
     else client_sent w1 = client_sent w" by simp_all
  show ?case
  proof (cases b)
    case True
    with one(2) obtain k target where kt: "target \<in> set known"
      "client_sent w1 = client_sent w @ [(Request k (replay_op queued) bind_addr, target)]" by auto
    with True d end' same_station_trans [OF one(1) d(1)] show ?thesis
      by (intro exI [of _ "(queued, k, target) # done'"])
        (simp add: replays_def Cons_in_shuffles_iff)
  next
    case False
    with one(2) d end' same_station_trans [OF one(1) d(1)] show ?thesis
      by (intro exI [of _ done']) (simp add: Cons_in_shuffles_iff)
  qed
qed

section \<open>Properties\<close>

text \<open>A client of one node, with one charge queued and a pump waiting under number 1000000.\<close>

definition sample_node :: socket_addr where
  "sample_node = SocketAddr (V4 127 0 0 1) 5001"

definition sample_client :: node_client where
  "sample_client = (client_new (SocketAddr (V4 127 0 0 1) 6000) [sample_node])
     \<lparr>nc_offline_queue := [\<lparr>qc_account_id = 1, qc_card_id = 10, qc_amount = f32_one\<rparr>],
      nc_active_online_requests := {1000000}\<rparr>"

definition sample_client_world :: client_world where
  "sample_client_world =
     \<lparr>cw_conn = sample_connection, cw_to_station = [], cw_to_station_open = True,
      cw_from_station = [], cw_from_station_open = True\<rparr>"

lemma sample_client_send:
  obtains w1 where "client_net_send m a sample_client_world = (w1, Ok ())"
proof -
  have "connection_ok sample_connection"
    by (simp add: sample_connection_def connection_ok_def active_ok_def hm_len_def)
  then have "snd (connection_send m a sample_connection) = Ok ()"
    by (rule send_to_new) (simp_all add: sample_connection_def)
  then have "snd (client_net_send m a sample_client_world) = Ok ()"
    by (cases "connection_send m a sample_connection")
      (simp add: client_net_send_def sample_client_world_def)
  with that show ?thesis by (metis prod.collapse)
qed

text \<open>C22: Replaying loses and doubles no charge: of the queue some charges were sent, once each, marked
  as offline charges, to a known node, and the others are queued still; both parts keep their
  order. The station is told nothing.\<close>

theorem client_flush_conserves_charges:
  assumes "flush_offline_queue (self, w) = ((self', w'), Ok ())"
  shows "\<exists>done'. client_sent w' = client_sent w @ replays (nc_bind_addr self) done' \<and>
    (\<forall>(q, k, target) \<in> set done'. target \<in> set (nc_known_nodes self)) \<and>
    nc_offline_queue self \<in> shuffles (map fst done') (nc_offline_queue self') \<and>
    reported w' = reported w \<and> nc_active_online_requests self' = nc_active_online_requests self"
proof (cases "nc_offline_queue self = [] \<or> nc_known_nodes self = []")
  case True
  with assms show ?thesis
    by (intro exI [of _ "[]"]) (auto simp: flush_offline_queue_def replays_def split: if_splits)
next
  case False
  obtain i' w1 r where q: "replay_queue (nc_bind_addr self) (nc_known_nodes self)
      (nc_offline_queue self) (nc_next_replay_req_id self, w) = ((i', w1), r)"
    by (metis prod.exhaust)
  then obtain pending where r: "r = Ok pending"
    using assms False by (cases r) (simp_all add: flush_offline_queue_def)
  with q False assms have "w' = w1" "nc_offline_queue self' = pending"
    "nc_active_online_requests self' = nc_active_online_requests self"
    by (auto simp: flush_offline_queue_def)
  with replay_queue_frame [OF q [unfolded r]] show ?thesis by (auto simp: same_station_def)
qed

theorem client_flush_conserves_charges_witness:
  "nc_active_online_requests (fst (fst (flush_offline_queue (sample_client, sample_client_world)))) = {1000000}"
proof -
  obtain w1 where s: "client_net_send (Request 1000000 (Charge 1 10 f32_one True)
      (SocketAddr (V4 127 0 0 1) 6000)) sample_node sample_client_world = (w1, Ok ())"
    by (rule sample_client_send)
  obtain self' where f: "flush_offline_queue (sample_client, sample_client_world) = ((self', w1), Ok ())"
    using s by (simp add: flush_offline_queue_def sample_client_def client_new_def replay_op_def)
  from client_flush_conserves_charges [OF f] have
    "nc_active_online_requests self' = nc_active_online_requests sample_client" by blast
  with f show ?thesis by (simp add: sample_client_def)
qed

lemma client_charge_cases:
  assumes "forward_or_enqueue_charge a c amount request_id (self, w) = ((self', w'), Ok ())"
  shows "(\<exists>target \<in> set (nc_known_nodes self). nc_online self \<and>
      client_sent w' = client_sent w @
        [(Request request_id (Charge a c amount False) (nc_bind_addr self), target)] \<and>
      nc_active_online_requests self' = insert request_id (nc_active_online_requests self) \<and>
      nc_offline_queue self' = nc_offline_queue self \<and> reported w' = reported w) \<or>
    (client_sent w' = client_sent w \<and>
      nc_active_online_requests self' = nc_active_online_requests self \<and>
      nc_offline_queue self' = nc_offline_queue self @
        [\<lparr>qc_account_id = a, qc_card_id = c, qc_amount = amount\<rparr>] \<and>
      filter (\<lambda>m. m \<noteq> StationDebug) (reported w') =
        filter (\<lambda>m. m \<noteq> StationDebug) (reported w) @ [StationChargeResult request_id True None])"
proof -
  have enqueue: "client_sent w2 = client_sent w1 \<and>
      nc_active_online_requests self2 = nc_active_online_requests self1 \<and>
      nc_offline_queue self2 = nc_offline_queue self1 @
        [\<lparr>qc_account_id = a, qc_card_id = c, qc_amount = amount\<rparr>] \<and>
      reported w2 = reported w1 @ [StationChargeResult request_id True None]"
    if "enqueue_offline_charge a c amount request_id (self1, w1) = ((self2, w2), Ok ())"
    for self1 w1 self2 w2
    using that by (auto simp: enqueue_offline_charge_def in_world_def client_station_send_def
        Let_def split: if_splits)
  show ?thesis
  proof (cases "nc_known_nodes self = [] \<or> \<not> nc_online self")
    case True
    then show ?thesis
      using assms by (auto simp: forward_or_enqueue_charge_def in_world_def
        client_station_send_def Let_def split: if_splits dest!: enqueue)
  next
    case False
    obtain w1 r where f: "forward_to_known
        (Request request_id (Charge a c amount False) (nc_bind_addr self)) (nc_known_nodes self) w
        = (w1, r)" by force
    from assms False f obtain b where r: "r = Ok b"
      by (cases r) (simp_all add: forward_or_enqueue_charge_def forward_online_charge_def in_world_def)
    note F = forward_to_known_frame [OF f [unfolded r]]
    show ?thesis
    proof (cases b)
      case True
      with assms False f r F show ?thesis
        by (auto simp: forward_or_enqueue_charge_def forward_online_charge_def in_world_def
            same_station_def)
    next
      case b: False
      with assms False f r have
        "enqueue_offline_charge a c amount request_id (self, w1) = ((self', w'), Ok ())"
        by (simp add: forward_or_enqueue_charge_def forward_online_charge_def in_world_def)
      from enqueue [OF this] b F show ?thesis by (auto simp: same_station_def)
    qed
  qed
qed

text \<open>C36: Every charge of a pump is settled in one of two ways: it went to one known node and its
  answer is awaited, with nothing queued and nothing reported; or it was granted on the spot
  and queued for a replay, with nothing sent.\<close>

theorem client_charge_settled:
  assumes "forward_or_enqueue_charge a c amount request_id (self, w) = ((self', w'), Ok ())"
  shows "(\<exists>target \<in> set (nc_known_nodes self). nc_online self \<and>
      client_sent w' = client_sent w @
        [(Request request_id (Charge a c amount False) (nc_bind_addr self), target)] \<and>
      nc_active_online_requests self' = insert request_id (nc_active_online_requests self) \<and>
      nc_offline_queue self' = nc_offline_queue self \<and> reported w' = reported w) \<or>
    (client_sent w' = client_sent w \<and>
      nc_active_online_requests self' = nc_active_online_requests self \<and>
      nc_offline_queue self' = nc_offline_queue self @
        [\<lparr>qc_account_id = a, qc_card_id = c, qc_amount = amount\<rparr>] \<and>
      filter (\<lambda>m. m \<noteq> StationDebug) (reported w') =
        filter (\<lambda>m. m \<noteq> StationDebug) (reported w) @ [StationChargeResult request_id True None])"
  using assms by (rule client_charge_cases)

theorem client_charge_settled_witness:
  "filter (\<lambda>m. m \<noteq> StationDebug) (reported (snd (fst (forward_or_enqueue_charge 1 10 f32_one 9
     (sample_client\<lparr>nc_online := False\<rparr>, sample_client_world))))) = [StationChargeResult 9 True None]"
proof -
  obtain self' w' where f: "forward_or_enqueue_charge 1 10 f32_one 9
      (sample_client\<lparr>nc_online := False\<rparr>, sample_client_world) = ((self', w'), Ok ())"
    by (simp add: forward_or_enqueue_charge_def enqueue_offline_charge_def in_world_def
        client_station_send_def sample_client_def client_new_def sample_client_world_def)
  have "\<not> nc_online (sample_client\<lparr>nc_online := False\<rparr>)" "reported sample_client_world = []"
    by (simp_all add: sample_client_world_def)
  with client_charge_settled [OF f] f show ?thesis by auto
qed

text \<open>The answer to a forwarded charge reaches the pump once: the first response under its number
  is reported with the cluster's outcome, a second one is ignored.\<close>

theorem client_reports_response_once:
  assumes "req_id \<in> nc_active_online_requests self" and "cw_to_station_open w"
    and "charge_outcome cr = (allowed, error)"
    and "client_handle_node_msg hash (Response req_id (ResCharge cr)) (self, w) = (x', r)"
  shows "r = Ok () \<and> reported (snd x') = reported w @ [StationChargeResult req_id allowed error] \<and>
    client_handle_node_msg hash (Response req_id res) x' = (x', Ok ())"
  using assms by (auto simp: in_world_def client_station_send_def)

theorem client_reports_response_once_witness:
  "reported (snd (fst (client_handle_node_msg (\<lambda>a. 0) (Response 1000000 (ResCharge ChargeOk))
     (sample_client, sample_client_world)))) = [StationChargeResult 1000000 True None]"
  using client_reports_response_once [of 1000000 sample_client sample_client_world ChargeOk True None "\<lambda>a. 0"
      "fst (client_handle_node_msg (\<lambda>a. 0) (Response 1000000 (ResCharge ChargeOk)) (sample_client, sample_client_world))"
      "snd (client_handle_node_msg (\<lambda>a. 0) (Response 1000000 (ResCharge ChargeOk)) (sample_client, sample_client_world))"]
  by (simp add: sample_client_def sample_client_world_def del: client_handle_node_msg.simps)

text \<open>Replay numbers are not separated from the pumps' numbers, which are random: when a pump waits
  under the number the next replay takes, the answer to the replayed charge is reported to
  that pump as the outcome of its own charge, whose real answer is ignored afterwards.\<close>

theorem replay_answer_reaches_pump:
  assumes "nc_offline_queue self = [q]" and "nc_known_nodes self = target # rest"
    and "nc_next_replay_req_id self \<in> nc_active_online_requests self"
    and "client_net_send (Request (nc_next_replay_req_id self) (replay_op q) (nc_bind_addr self)) target w
      = (w1, Ok ())"
    and "cw_to_station_open w" and "charge_outcome cr = (allowed, error)"
  shows "\<exists>self1 self2 w2. flush_offline_queue (self, w) = ((self1, w1), Ok ()) \<and>
    client_handle_node_msg hash (Response (nc_next_replay_req_id self) (ResCharge cr)) (self1, w1) =
      ((self2, w2), Ok ()) \<and>
    reported w2 = reported w @ [StationChargeResult (nc_next_replay_req_id self) allowed error] \<and>
    client_handle_node_msg hash (Response (nc_next_replay_req_id self) res) (self2, w2) =
      ((self2, w2), Ok ())"
  using assms client_net_send_frame(1) [OF assms(4)]
  by (simp add: flush_offline_queue_def in_world_def client_station_send_def same_station_def)

theorem replay_answer_reaches_pump_witness:
  "\<exists>w1 self1 self2 w2. client_handle_node_msg (\<lambda>a. 0) (Response 1000000 (ResCharge ChargeOk)) (self1, w1) =
      ((self2, w2), Ok ()) \<and> reported w2 = [StationChargeResult 1000000 True None]"
proof -
  obtain w1 where s: "client_net_send (Request (nc_next_replay_req_id sample_client)
      (replay_op \<lparr>qc_account_id = 1, qc_card_id = 10, qc_amount = f32_one\<rparr>) (nc_bind_addr sample_client))
      sample_node sample_client_world = (w1, Ok ())"
    by (rule sample_client_send)
  have "nc_next_replay_req_id sample_client = 1000000" "reported sample_client_world = []"
    by (simp_all add: sample_client_def client_new_def sample_client_world_def)
  with replay_answer_reaches_pump [OF _ _ _ s, of "[]" ChargeOk True None "\<lambda>a. 0"] show ?thesis
    by (fastforce simp: sample_client_def client_new_def sample_client_world_def)
qed

end
