(* ===== verification/DatabaseSpec.thy ===== *)
theory DatabaseSpec
  imports ActorSystem
begin

text \<open>
  The contract of the database (\<open>server/src/node/database.rs\<close> and its actors), as a ledger:
  a limit and a consumption for each account and each card, changed by one operation at a
  time. The actors implement it: an operation submitted when nothing is in flight has the
  ledger's effect and the ledger's result once its messages have been delivered.
\<close>

section \<open>The ledger\<close>

type_synonym row = "f32 option \<times> f32"

record ledger =
  lg_accounts :: "u64 \<Rightarrow> row"
  lg_cards :: "card_key \<Rightarrow> row"

fun exceeds :: "row \<Rightarrow> f32 \<Rightarrow> bool" where
  "exceeds (None, consumed) amount = False"
| "exceeds (Some limit, consumed) amount = (limit < consumed + amount)"

fun add_charge :: "f32 \<Rightarrow> row \<Rightarrow> row" where
  "add_charge amount (l, consumed) = (l, consumed + amount)"

text \<open>A charge taken offline is never refused; otherwise the card is checked first.\<close>

definition ledger_charge :: "u64 \<Rightarrow> u64 \<Rightarrow> f32 \<Rightarrow> bool \<Rightarrow> ledger \<Rightarrow> ledger \<times> verify_error option"
  where
  "ledger_charge a c amount offline lg =
     (if \<not> offline \<and> exceeds (lg_cards lg (a, c)) amount
      then (lg, Some (ChargeLimit CardLimitExceeded))
      else if \<not> offline \<and> exceeds (lg_accounts lg a) amount
      then (lg, Some (ChargeLimit AccountLimitExceeded))
      else (lg\<lparr>lg_accounts := (lg_accounts lg)(a := add_charge amount (lg_accounts lg a)),
               lg_cards := (lg_cards lg)((a, c) := add_charge amount (lg_cards lg (a, c)))\<rparr>, None))"

text \<open>A limit may not be set below what is consumed.\<close>

fun set_limit :: "f32 option \<Rightarrow> row \<Rightarrow> row option" where
  "set_limit None (l, consumed) = Some (None, consumed)"
| "set_limit (Some limit) (l, consumed) =
     (if consumed \<le> limit then Some (Some limit, consumed) else None)"

definition ledger_limit_account :: "u64 \<Rightarrow> f32 option \<Rightarrow> ledger \<Rightarrow> ledger \<times> verify_error option"
  where
  "ledger_limit_account a l lg =
     (case set_limit l (lg_accounts lg a) of
        None \<Rightarrow> (lg, Some (LimitUpdate BelowCurrentUsage))
      | Some row \<Rightarrow> (lg\<lparr>lg_accounts := (lg_accounts lg)(a := row)\<rparr>, None))"

definition ledger_limit_card :: "u64 \<Rightarrow> u64 \<Rightarrow> f32 option \<Rightarrow> ledger \<Rightarrow> ledger \<times> verify_error option"
  where
  "ledger_limit_card a c l lg =
     (case set_limit l (lg_cards lg (a, c)) of
        None \<Rightarrow> (lg, Some (LimitUpdate BelowCurrentUsage))
      | Some row \<Rightarrow> (lg\<lparr>lg_cards := (lg_cards lg)((a, c) := row)\<rparr>, None))"

fun ledger_step :: "operation \<Rightarrow> ledger \<Rightarrow> ledger \<times> verify_error option" where
  "ledger_step (Charge a c amount offline) lg = ledger_charge a c amount offline lg"
| "ledger_step (LimitAccount a l) lg = ledger_limit_account a l lg"
| "ledger_step (LimitCard a c l) lg = ledger_limit_card a c l lg"
| "ledger_step op lg = (lg, None)"

text \<open>The updating operations, the result an error stands for, and the event that reports it.\<close>

fun updates :: "operation \<Rightarrow> bool" where
  "updates (Charge a c amount offline) = True"
| "updates (LimitAccount a l) = True"
| "updates (LimitCard a c l) = True"
| "updates op = False"

fun result_of :: "operation \<Rightarrow> verify_error option \<Rightarrow> operation_result" where
  "result_of (Charge a c x off) error =
     ResCharge (case error of None \<Rightarrow> ChargeOk | Some e \<Rightarrow> ChargeFailed e)"
| "result_of (LimitAccount a l) error =
     ResLimitAccount (case error of None \<Rightarrow> LimitOk | Some e \<Rightarrow> LimitFailed e)"
| "result_of op error = ResLimitCard (case error of None \<Rightarrow> LimitOk | Some e \<Rightarrow> LimitFailed e)"

definition ledger_event :: "u32 \<Rightarrow> operation \<Rightarrow> ledger \<Rightarrow> actor_event" where
  "ledger_event i op lg =
     (let error = snd (ledger_step op lg)
      in OperationResult i op (result_of op error) (error = None) error)"

section \<open>Reading the ledger off the actors\<close>

text \<open>An actor that has not been created yet counts as a fresh one.\<close>

definition account_at :: "actor_system \<Rightarrow> u64 \<Rightarrow> account_actor" where
  "account_at sys a = (case hm_get (sy_accounts sys) a of Some (acc, m) \<Rightarrow> acc | None \<Rightarrow> account_new a)"

definition card_at :: "actor_system \<Rightarrow> card_key \<Rightarrow> card_actor" where
  "card_at sys k =
     (case hm_get (sy_cards sys) k of Some (self, m) \<Rightarrow> self | None \<Rightarrow> card_new (snd k) (fst k))"

definition ledger_of :: "actor_system \<Rightarrow> ledger" where
  "ledger_of sys =
     \<lparr>lg_accounts = (\<lambda>a. (ac_limit (account_at sys a), ac_consumed (account_at sys a))),
      lg_cards = (\<lambda>k. (ca_limit (card_at sys k), ca_consumed (card_at sys k)))\<rparr>"

text \<open>Nothing is in flight.\<close>

definition settled :: "actor_system \<Rightarrow> bool" where
  "settled sys \<longleftrightarrow> system_ok sys \<and> sy_router_mail sys = [] \<and>
     (\<forall>a acc m. hm_get (sy_accounts sys) a = Some (acc, m) \<longrightarrow> m = []) \<and>
     (\<forall>k self m. hm_get (sy_cards sys) k = Some (self, m) \<longrightarrow>
        m = [] \<and> ca_current_task self = None \<and> ca_queue self = [])"

lemma hm_get_insert_upd [simp]: "hm_get (hm_insert k v m) = (hm_get m)(k \<mapsto> v)"
  by (rule ext) (simp add: hm.get_insert)

lemma settled_new: "settled system_new"
  using system_new_ok by (simp add: settled_def system_new_def)

text \<open>The keys the router knows are those of the actors.\<close>

lemma router_account:
  assumes "system_ok sys"
  shows "hm_get (rt_accounts (sy_router sys)) a =
    (if hm_get (sy_accounts sys) a = None then None else Some a)"
proof -
  have "a \<in> dom (hm_get (rt_accounts (sy_router sys))) \<longleftrightarrow> a \<in> dom (hm_get (sy_accounts sys))"
    using assms by (simp add: system_ok_def known_accounts_def)
  moreover have "b = a" if "hm_get (rt_accounts (sy_router sys)) a = Some b" for b
    using assms that unfolding system_ok_def router_keys_ok_def by blast
  ultimately show ?thesis
    by (cases "hm_get (rt_accounts (sy_router sys)) a") (auto simp: domIff)
qed

lemma router_card:
  assumes "system_ok sys"
  shows "hm_get (rt_cards (sy_router sys)) k = (if hm_get (sy_cards sys) k = None then None else Some k)"
proof -
  have "k \<in> dom (hm_get (rt_cards (sy_router sys))) \<longleftrightarrow> k \<in> dom (hm_get (sy_cards sys))"
    using assms by (simp add: system_ok_def known_cards_def)
  moreover have "c = k" if "hm_get (rt_cards (sy_router sys)) k = Some c" for c
    using assms that by (intro router_keys_card) (simp_all add: system_ok_def)
  ultimately show ?thesis
    by (cases "hm_get (rt_cards (sy_router sys)) k") (auto simp: domIff)
qed

lemma card_has_account:
  assumes "system_ok sys" "hm_get (sy_cards sys) k \<noteq> None"
  shows "hm_get (sy_accounts sys) (fst k) \<noteq> None"
  using assms actors_okD(3) [of "{}" sys k] by (cases "hm_get (sy_cards sys) k") (auto simp: system_ok_def)

lemma card_at_fields:
  assumes "settled sys"
  shows "ca_account_id (card_at sys k) = fst k" "ca_card_id (card_at sys k) = snd k"
    "ca_current_task (card_at sys k) = None" "ca_queue (card_at sys k) = []"
proof -
  have "(ca_account_id (card_at sys k) = fst k \<and> ca_card_id (card_at sys k) = snd k) \<and>
      ca_current_task (card_at sys k) = None \<and> ca_queue (card_at sys k) = []"
  proof (cases "hm_get (sy_cards sys) k")
    case None
    then show ?thesis by (simp add: card_at_def card_new_def)
  next
    case (Some x)
    obtain self m where x: "x = (self, m)" by force
    with Some assms have "card_state_ok k self m"
      using actors_okD(2) [of "{}" sys k self m] by (simp add: settled_def system_ok_def)
    then have "own_key self = k" by (simp add: card_state_ok_def)
    then have "ca_account_id self = fst k \<and> ca_card_id self = snd k" by (auto simp: own_key_def)
    with Some x assms show ?thesis
      unfolding settled_def by (cases k) (auto simp: card_at_def)
  qed
  then show "ca_account_id (card_at sys k) = fst k" "ca_card_id (card_at sys k) = snd k"
    "ca_current_task (card_at sys k) = None" "ca_queue (card_at sys k) = []" by simp_all
qed

section \<open>Routing an operation\<close>

text \<open>
  After the router has handled the command, the actor concerned exists and has its message;
  everything else is as it was.
\<close>

definition routed :: "u32 \<Rightarrow> operation \<Rightarrow> actor_system \<Rightarrow> actor_system \<Rightarrow> bool" where
  "routed i op sys sys1 \<longleftrightarrow> sy_router_mail sys1 = [] \<and>
     rt_events (sy_router sys1) = rt_events (sy_router sys) \<and>
     rt_events_open (sy_router sys1) = rt_events_open (sy_router sys) \<and>
     hm_get (rt_operations (sy_router sys1)) i = Some op"

lemma route_to_card:
  assumes s: "settled sys"
    and e: "execute_operation i op rt =
      (let (k, rt', out) = get_or_create_card a c rt in (rt', out @ [TellCard k msg]))"
    and rt: "rt = (sy_router sys)\<lparr>rt_operations := hm_insert i op (rt_operations (sy_router sys))\<rparr>"
  shows "\<exists>sys1. system_run [SysSend i op, SysDeliver RouterId] sys = Ok sys1 \<and> routed i op sys sys1 \<and>
    hm_get (sy_accounts sys1) = (hm_get (sy_accounts sys))(a \<mapsto> (account_at sys a, [])) \<and>
    hm_get (sy_cards sys1) = (hm_get (sy_cards sys))((a, c) \<mapsto> (card_at sys (a, c), [CardCommand msg]))"
proof -
  have ok: "system_ok sys" and mail: "sy_router_mail sys = []"
    using s by (simp_all add: settled_def)
  have acc_mail: "hm_get (sy_accounts sys) a = Some (acc, m) \<Longrightarrow> m = []" for acc m
    using s unfolding settled_def by blast
  have card_mail: "hm_get (sy_cards sys) (a, c) = Some (self, m) \<Longrightarrow> m = []" for self m
    using s unfolding settled_def by blast
  note run = database_send_def post_router_def mail deliver_router_def e [unfolded rt] rt Let_def
  show ?thesis
  proof (cases "hm_get (sy_cards sys) (a, c)")
    case (Some x)
    obtain self m where x: "x = (self, m)" by force
    from card_has_account [OF ok, of "(a, c)"] Some obtain acc m' where
      acc: "hm_get (sy_accounts sys) a = Some (acc, m')" by auto
    from Some x acc acc_mail card_mail show ?thesis
      by (simp add: run routed_def get_or_create_card_def router_card [OF ok] post_card_def
          account_at_def card_at_def fun_upd_idem)
  next
    case None
    show ?thesis
    proof (cases "hm_get (sy_accounts sys) a")
      case acc: None
      with None show ?thesis
        by (simp add: run routed_def get_or_create_card_def router_card [OF ok]
            get_or_create_account_def router_account [OF ok] post_card_def account_at_def
            card_at_def fun_upd_idem)
    next
      case (Some x)
      obtain acc m where "x = (acc, m)" by force
      with None Some acc_mail show ?thesis
        by (simp add: run routed_def get_or_create_card_def router_card [OF ok]
            get_or_create_account_def router_account [OF ok] post_card_def account_at_def
            card_at_def fun_upd_idem)
    qed
  qed
qed

lemma route_to_account:
  assumes s: "settled sys"
  shows "\<exists>sys1. system_run [SysSend i (LimitAccount a l), SysDeliver RouterId] sys = Ok sys1 \<and>
    routed i (LimitAccount a l) sys sys1 \<and>
    hm_get (sy_accounts sys1) = (hm_get (sy_accounts sys))(a \<mapsto> (account_at sys a, [ApplyAccountLimit i l])) \<and>
    hm_get (sy_cards sys1) = hm_get (sy_cards sys)"
proof -
  have ok: "system_ok sys" and mail: "sy_router_mail sys = []"
    using s by (simp_all add: settled_def)
  have acc_mail: "hm_get (sy_accounts sys) a = Some (acc, m) \<Longrightarrow> m = []" for acc m
    using s unfolding settled_def by blast
  show ?thesis
    using acc_mail
    by (cases "hm_get (sy_accounts sys) a")
      (auto simp: database_send_def post_router_def mail deliver_router_def routed_def
        execute_limit_account_def get_or_create_account_def router_account [OF ok]
        post_account_def account_at_def)
qed

section \<open>Serving it\<close>

lemma exceeds_account:
  "check_account_limit x acc =
     (if exceeds (ac_limit acc, ac_consumed acc) x then Error AccountLimitExceeded else Ok ())"
  by (cases "ac_limit acc") (simp_all add: check_account_limit_def)

lemma exceeds_card:
  "check_charge_limit x self =
     (if exceeds (ca_limit self, ca_consumed self) x then Error CardLimitExceeded else Ok ())"
  by (cases "ca_limit self") (simp_all add: check_charge_limit_def)

lemma no_task [simp]: "ca_current_task self = None \<Longrightarrow> self\<lparr>ca_current_task := None\<rparr> = self"
  by simp

text \<open>A charge on an idle card: refused by the card, refused by the account, or applied by both.\<close>

definition charge_task :: "u32 \<Rightarrow> u64 \<Rightarrow> f32 \<Rightarrow> bool \<Rightarrow> card_task" where
  "charge_task i a x off = TaskCharge \<lparr>co_op_id = i, co_account_id = a, co_amount = x,
     co_from_offline_station = off\<rparr>"

lemma card_takes_charge:
  assumes "ca_current_task self = None" "ca_queue self = []" "own_key self = (a, c)"
  shows "card_handle (CardCommand (ExecuteCharge i a c x off)) self =
    (if \<not> off \<and> exceeds (ca_limit self, ca_consumed self) x
     then (self, [CardToRouter (OperationCompleted i False (Some (ChargeLimit CardLimitExceeded)))])
     else (self\<lparr>ca_current_task := Some (charge_task i a x off)\<rparr>,
           [CardToAccount (ApplyChargeFromCard i x c off (a, c))]))"
  using assms
  by (cases self) (auto simp: own_key_def submit_task_def start_current_task.simps
      finish_current_task.simps exceeds_card charge_task_def)

lemma card_ends_charge:
  assumes "ca_queue self = []" "ca_current_task self = Some (charge_task i a x off)"
  shows "card_handle (CardChargeReply \<lparr>re_op_id = i, re_success = ok, re_error = e\<rparr>) self =
    (self\<lparr>ca_current_task := None, ca_consumed := (if ok then ca_consumed self + x else ca_consumed self)\<rparr>,
     [CardToRouter (OperationCompleted i ok e)])"
  using assms
  by (cases self) (simp add: card_handle_reply_def charge_task_def finish_current_task.simps)

lemma account_takes_charge:
  "account_handle (ApplyChargeFromCard i x c off k) acc =
    (if \<not> off \<and> exceeds (ac_limit acc, ac_consumed acc) x
     then (acc, [AccountToCard k \<lparr>re_op_id = i, re_success = False,
              re_error = Some (ChargeLimit AccountLimitExceeded)\<rparr>])
     else (acc\<lparr>ac_consumed := ac_consumed acc + x\<rparr>,
           [AccountToCard k \<lparr>re_op_id = i, re_success = True, re_error = None\<rparr>]))"
  by (simp add: handle_apply_charge_def exceeds_account)

lemma completion_of:
  "updates op \<Longrightarrow> completion_result op (e = None) e = Ok (result_of op e)"
  by (cases op; cases e) (simp_all add: charge_result_of_def limit_result_of_def)

text \<open>The router reports a completion.\<close>

lemma deliver_completion:
  assumes "sy_router_mail sys = [RouterInternal (OperationCompleted i (e = None) e)]"
    and "hm_get (rt_operations (sy_router sys)) i = Some op" "updates op"
    and "rt_events_open (sy_router sys)" "length (rt_events (sy_router sys)) < 128"
  shows "system_run [SysDeliver RouterId] sys =
    Ok (sys\<lparr>sy_router := (sy_router sys)\<lparr>rt_events := rt_events (sy_router sys) @
          [OperationResult i op (result_of op e) (e = None) e]\<rparr>, sy_router_mail := []\<rparr>)"
  using assms completion_of [OF assms(3), of e]
  by (simp add: deliver_router_def handle_operation_completed_def emit_def EVENT_CHANNEL_CAPACITY_def)

text \<open>The card, its account and the card again.\<close>

definition serve :: "u64 \<Rightarrow> u64 \<Rightarrow> system_event list" where
  "serve a c = [SysDeliver (CardId (a, c)), SysDeliver (AccountId a), SysDeliver (CardId (a, c))]"

definition charge_error :: "bool \<Rightarrow> f32 \<Rightarrow> card_actor \<Rightarrow> account_actor \<Rightarrow> verify_error option" where
  "charge_error off x self acc =
     (if \<not> off \<and> exceeds (ca_limit self, ca_consumed self) x then Some (ChargeLimit CardLimitExceeded)
      else if \<not> off \<and> exceeds (ac_limit acc, ac_consumed acc) x
      then Some (ChargeLimit AccountLimitExceeded) else None)"

lemma serve_charge:
  assumes mail: "sy_router_mail sys = []"
    and acc: "hm_get (sy_accounts sys) a = Some (acc, [])"
    and card: "hm_get (sy_cards sys) (a, c) = Some (self, [CardCommand (ExecuteCharge i a c x off)])"
    and idle: "ca_current_task self = None" "ca_queue self = []" "own_key self = (a, c)"
    and e: "e = charge_error off x self acc"
  shows "\<exists>sys2. system_run (serve a c) sys = Ok sys2 \<and> sy_router sys2 = sy_router sys \<and>
    sy_router_mail sys2 = [RouterInternal (OperationCompleted i (e = None) e)] \<and>
    hm_get (sy_accounts sys2) = (hm_get (sy_accounts sys))(a \<mapsto>
      (if e = None then acc\<lparr>ac_consumed := ac_consumed acc + x\<rparr> else acc, [])) \<and>
    hm_get (sy_cards sys2) = (hm_get (sy_cards sys))((a, c) \<mapsto>
      (if e = None then self\<lparr>ca_consumed := ca_consumed self + x\<rparr> else self, []))"
proof -
  have key: "ca_account_id self = a" using idle(3) by (simp add: own_key_def)
  show ?thesis
  proof (cases "\<not> off \<and> exceeds (ca_limit self, ca_consumed self) x")
    case True
    then have e': "e = Some (ChargeLimit CardLimitExceeded)" by (simp add: e charge_error_def)
    have "card_handle (CardCommand (ExecuteCharge i a c x off)) self =
        (self, [CardToRouter (OperationCompleted i False (Some (ChargeLimit CardLimitExceeded)))])"
      using card_takes_charge [OF idle, of i x off] True by (auto simp del: card_handle.simps)
    then show ?thesis
      by (simp add: serve_def deliver_card_def deliver_account_def post_router_def e' card acc mail
          key fun_upd_idem del: card_handle.simps)
  next
    case ask: False
    let ?self = "self\<lparr>ca_current_task := Some (charge_task i a x off)\<rparr>"
    have ends: "card_handle (CardChargeReply \<lparr>re_op_id = i, re_success = ok, re_error = e\<rparr>) ?self =
        (if ok then self\<lparr>ca_consumed := ca_consumed self + x\<rparr> else self,
         [CardToRouter (OperationCompleted i ok e)])" for ok e
      using card_ends_charge [of ?self i a x off ok e] idle by (cases self) simp
    have takes: "card_handle (CardCommand (ExecuteCharge i a c x off)) self =
        (?self, [CardToAccount (ApplyChargeFromCard i x c off (a, c))])"
      using card_takes_charge [OF idle, of i x off] ask by (auto simp del: card_handle.simps)
    show ?thesis
    proof (cases "\<not> off \<and> exceeds (ac_limit acc, ac_consumed acc) x")
      case True
      with ask have "e = Some (ChargeLimit AccountLimitExceeded)" by (auto simp: e charge_error_def)
      moreover have "account_handle (ApplyChargeFromCard i x c off (a, c)) acc =
          (acc, [AccountToCard (a, c) \<lparr>re_op_id = i, re_success = False,
              re_error = Some (ChargeLimit AccountLimitExceeded)\<rparr>])"
        using account_takes_charge [of i x c off "(a, c)" acc] True
        by (auto simp del: account_handle.simps)
      ultimately show ?thesis
        by (simp add: serve_def deliver_card_def deliver_account_def post_router_def
            post_account_def post_card_def takes ends card acc mail key
            fun_upd_idem del: card_handle.simps account_handle.simps)
    next
      case False
      with ask have "e = None" by (auto simp: e charge_error_def)
      moreover have "account_handle (ApplyChargeFromCard i x c off (a, c)) acc =
          (acc\<lparr>ac_consumed := ac_consumed acc + x\<rparr>,
           [AccountToCard (a, c) \<lparr>re_op_id = i, re_success = True, re_error = None\<rparr>])"
        using account_takes_charge [of i x c off "(a, c)" acc] False
        by (auto simp del: account_handle.simps)
      ultimately show ?thesis
        by (simp add: serve_def deliver_card_def deliver_account_def post_router_def
            post_account_def post_card_def takes ends card acc mail key
            fun_upd_idem del: card_handle.simps account_handle.simps)
    qed
  qed
qed

text \<open>A limit change is decided by the actor that holds the limit.\<close>

definition limit_error :: "f32 option \<Rightarrow> f32 \<Rightarrow> verify_error option" where
  "limit_error l consumed =
     (if set_limit l (None, consumed) = None then Some (LimitUpdate BelowCurrentUsage) else None)"

lemma account_takes_limit:
  "account_handle (ApplyAccountLimit i l) acc =
    (if limit_error l (ac_consumed acc) = None then acc\<lparr>ac_limit := l\<rparr> else acc,
     [AccountToRouter (OperationCompleted i (limit_error l (ac_consumed acc) = None)
        (limit_error l (ac_consumed acc)))])"
  by (cases l) (simp_all add: handle_apply_limit_def can_raise_limit_def limit_error_def)

lemma card_takes_limit:
  assumes "ca_current_task self = None" "ca_queue self = []"
  shows "card_handle (CardCommand (ExecuteLimitChange i l)) self =
    (if limit_error l (ca_consumed self) = None then self\<lparr>ca_limit := l\<rparr> else self,
     [CardToRouter (OperationCompleted i (limit_error l (ca_consumed self) = None)
        (limit_error l (ca_consumed self)))])"
  using assms
  by (cases self; cases l) (simp_all add: submit_task_def start_current_task.simps
      finish_current_task.simps can_set_new_limit_def limit_error_def)

lemma serve_account_limit:
  assumes mail: "sy_router_mail sys = []"
    and acc: "hm_get (sy_accounts sys) a = Some (acc, [ApplyAccountLimit i l])"
    and card: "\<And>self m. hm_get (sy_cards sys) (a, c) = Some (self, m) \<Longrightarrow> m = []"
    and e: "e = limit_error l (ac_consumed acc)"
  shows "\<exists>sys2. system_run (serve a c) sys = Ok sys2 \<and> sy_router sys2 = sy_router sys \<and>
    sy_router_mail sys2 = [RouterInternal (OperationCompleted i (e = None) e)] \<and>
    hm_get (sy_accounts sys2) = (hm_get (sy_accounts sys))(a \<mapsto>
      (if e = None then acc\<lparr>ac_limit := l\<rparr> else acc, [])) \<and>
    hm_get (sy_cards sys2) = hm_get (sy_cards sys)"
  using card
  by (cases "hm_get (sy_cards sys) (a, c)")
    (auto simp: serve_def deliver_card_def deliver_account_def post_router_def mail acc e
      account_takes_limit simp del: account_handle.simps)

lemma serve_card_limit:
  assumes mail: "sy_router_mail sys = []"
    and acc: "hm_get (sy_accounts sys) a = Some (acc, [])"
    and card: "hm_get (sy_cards sys) (a, c) = Some (self, [CardCommand (ExecuteLimitChange i l)])"
    and idle: "ca_current_task self = None" "ca_queue self = []"
    and e: "e = limit_error l (ca_consumed self)"
  shows "\<exists>sys2. system_run (serve a c) sys = Ok sys2 \<and> sy_router sys2 = sy_router sys \<and>
    sy_router_mail sys2 = [RouterInternal (OperationCompleted i (e = None) e)] \<and>
    hm_get (sy_accounts sys2) = hm_get (sy_accounts sys) \<and>
    hm_get (sy_cards sys2) = (hm_get (sy_cards sys))((a, c) \<mapsto>
      (if e = None then self\<lparr>ca_limit := l\<rparr> else self, []))"
  by (simp add: serve_def deliver_card_def deliver_account_def post_router_def mail acc card e
      card_takes_limit [OF idle] del: card_handle.simps)

section \<open>One operation\<close>

lemma system_run_append:
  "system_run (es @ fs) sys = and_then (system_run es sys) (system_run fs)"
proof (induction es arbitrary: sys)
  case (Cons e es)
  then show ?case by (cases "system_step e sys") simp_all
qed simp

lemma run_operation:
  assumes "system_run [SysSend i op, SysDeliver RouterId] sys = Ok sys1" and "routed i op sys sys1"
    and "system_run (serve a c) sys1 = Ok sys2" and "sy_router sys2 = sy_router sys1"
    and "sy_router_mail sys2 = [RouterInternal (OperationCompleted i (e = None) e)]"
    and "updates op" "rt_events_open (sy_router sys)" "length (rt_events (sy_router sys)) < 128"
  shows "\<exists>sys3. system_run (SysSend i op # charge_schedule a c) sys = Ok sys3 \<and>
    sy_router_mail sys3 = [] \<and> rt_events_open (sy_router sys3) \<and>
    rt_events (sy_router sys3) = rt_events (sy_router sys) @
      [OperationResult i op (result_of op e) (e = None) e] \<and>
    sy_accounts sys3 = sy_accounts sys2 \<and> sy_cards sys3 = sy_cards sys2"
proof -
  have split: "SysSend i op # charge_schedule a c =
      [SysSend i op, SysDeliver RouterId] @ serve a c @ [SysDeliver RouterId]"
    by (simp add: charge_schedule_def serve_def)
  have "hm_get (rt_operations (sy_router sys2)) i = Some op" "rt_events_open (sy_router sys2)"
    "length (rt_events (sy_router sys2)) < 128"
    using assms by (simp_all add: routed_def)
  note done' = deliver_completion [OF assms(5) this(1) assms(6) this(2,3)]
  show ?thesis
    unfolding split system_run_append assms(1,3) and_then.simps done'
    using assms(2,4,7) by (simp add: routed_def)
qed

lemma settled_after:
  assumes "settled sys" and "system_run es sys = Ok sys3" and "sy_router_mail sys3 = []"
    and "\<And>a acc m. hm_get (sy_accounts sys3) a = Some (acc, m) \<Longrightarrow>
      m = [] \<or> hm_get (sy_accounts sys) a = Some (acc, m)"
    and "\<And>k self m. hm_get (sy_cards sys3) k = Some (self, m) \<Longrightarrow>
      m = [] \<and> ca_current_task self = None \<and> ca_queue self = [] \<or> hm_get (sy_cards sys) k = Some (self, m)"
  shows "settled sys3"
proof -
  have "system_ok sys3"
    using assms(1,2) system_run_ok [of sys es] by (auto simp: settled_def)
  moreover have "m = []" if "hm_get (sy_accounts sys3) a = Some (acc, m)" for a acc m
    using assms(4) [OF that] assms(1) unfolding settled_def by blast
  moreover have "m = [] \<and> ca_current_task self = None \<and> ca_queue self = []"
    if "hm_get (sy_cards sys3) k = Some (self, m)" for k self m
    using assms(5) [OF that] assms(1) unfolding settled_def by blast
  ultimately show ?thesis using assms(3) unfolding settled_def by blast
qed

lemma account_at_upd:
  "hm_get (sy_accounts sys3) = (hm_get (sy_accounts sys))(a \<mapsto> (acc, [])) \<Longrightarrow>
     account_at sys3 = (account_at sys)(a := acc)"
  by (rule ext) (simp add: account_at_def)

lemma card_at_upd:
  "hm_get (sy_cards sys3) = (hm_get (sy_cards sys))(k \<mapsto> (self, [])) \<Longrightarrow>
     card_at sys3 = (card_at sys)(k := self)"
  by (rule ext) (simp add: card_at_def)

lemma account_at_same: "hm_get (sy_accounts sys3) = hm_get (sy_accounts sys) \<Longrightarrow> account_at sys3 = account_at sys"
  by (rule ext) (simp add: account_at_def)

lemma card_at_same: "hm_get (sy_cards sys3) = hm_get (sy_cards sys) \<Longrightarrow> card_at sys3 = card_at sys"
  by (rule ext) (simp add: card_at_def)

definition operation_schedule :: "operation \<Rightarrow> system_event list" where
  "operation_schedule op =
     (case op of
        Charge a c x off \<Rightarrow> charge_schedule a c
      | LimitCard a c l \<Rightarrow> charge_schedule a c
      | LimitAccount a l \<Rightarrow> charge_schedule a 0
      | _ \<Rightarrow> [])"

text \<open>What one operation does to a settled system.\<close>

definition implements_step :: "u32 \<Rightarrow> operation \<Rightarrow> actor_system \<Rightarrow> bool" where
  "implements_step i op sys \<longleftrightarrow>
     (\<exists>sys3. system_run (SysSend i op # operation_schedule op) sys = Ok sys3 \<and> settled sys3 \<and>
        rt_events_open (sy_router sys3) \<and>
        ledger_of sys3 = fst (ledger_step op (ledger_of sys)) \<and>
        rt_events (sy_router sys3) = rt_events (sy_router sys) @ [ledger_event i op (ledger_of sys)])"

lemma charge_implements:
  assumes s: "settled sys" and room: "rt_events_open (sy_router sys)" "length (rt_events (sy_router sys)) < 128"
  shows "implements_step i (Charge a c x off) sys"
proof -
  let ?op = "Charge a c x off"
  obtain sys1 where s1: "system_run [SysSend i ?op, SysDeliver RouterId] sys = Ok sys1"
    "routed i ?op sys sys1"
    "hm_get (sy_accounts sys1) = (hm_get (sy_accounts sys))(a \<mapsto> (account_at sys a, []))"
    "hm_get (sy_cards sys1) = (hm_get (sy_cards sys))((a, c) \<mapsto>
       (card_at sys (a, c), [CardCommand (ExecuteCharge i a c x off)]))"
    using route_to_card [OF s, of i ?op _ a c "ExecuteCharge i a c x off"]
    by (auto simp: execute_charge_def)
  define e where "e = charge_error off x (card_at sys (a, c)) (account_at sys a)"
  have key: "own_key (card_at sys (a, c)) = (a, c)"
    using card_at_fields [OF s, of "(a, c)"] by (simp add: own_key_def)
  obtain sys2 where s2: "system_run (serve a c) sys1 = Ok sys2" "sy_router sys2 = sy_router sys1"
    "sy_router_mail sys2 = [RouterInternal (OperationCompleted i (e = None) e)]"
    "hm_get (sy_accounts sys2) = (hm_get (sy_accounts sys1))(a \<mapsto>
      (if e = None then (account_at sys a)\<lparr>ac_consumed := ac_consumed (account_at sys a) + x\<rparr>
       else account_at sys a, []))"
    "hm_get (sy_cards sys2) = (hm_get (sy_cards sys1))((a, c) \<mapsto>
      (if e = None then (card_at sys (a, c))\<lparr>ca_consumed := ca_consumed (card_at sys (a, c)) + x\<rparr>
       else card_at sys (a, c), []))"
    using serve_charge [of sys1 a "account_at sys a" c "card_at sys (a, c)" i x off e] s1 e_def
      card_at_fields [OF s, of "(a, c)"] key by (auto simp: routed_def)
  from run_operation [OF s1(1,2) s2(1-3) _ room] obtain sys3 where
    s3: "system_run (SysSend i ?op # charge_schedule a c) sys = Ok sys3"
      "sy_router_mail sys3 = []" "rt_events_open (sy_router sys3)"
      "rt_events (sy_router sys3) = rt_events (sy_router sys) @
         [OperationResult i ?op (result_of ?op e) (e = None) e]"
      "sy_accounts sys3 = sy_accounts sys2" "sy_cards sys3 = sy_cards sys2" by auto
  note accs = s2(4) [unfolded s1(3) fun_upd_upd, folded s3(5)]
  note cards = s2(5) [unfolded s1(4) fun_upd_upd, folded s3(6)]
  have "settled sys3"
    using card_at_fields [OF s, of "(a, c)"]
    by (intro settled_after [OF s s3(1,2)]) (auto simp: accs cards split: if_splits)
  moreover have "snd (ledger_step ?op (ledger_of sys)) = e"
    by (simp add: ledger_charge_def e_def charge_error_def ledger_of_def)
  moreover have "ledger_of sys3 = fst (ledger_step ?op (ledger_of sys))"
    by (simp add: ledger_of_def account_at_upd [OF accs] card_at_upd [OF cards] ledger_charge_def
        e_def charge_error_def fun_eq_iff)
  ultimately show ?thesis
    using s3 by (auto simp: implements_step_def operation_schedule_def ledger_event_def)
qed

lemma set_limit_row: "set_limit l (l', consumed) =
    (if limit_error l consumed = None then Some (l, consumed) else None)"
  by (cases l) (simp_all add: limit_error_def)

lemma account_limit_implements:
  assumes s: "settled sys" and room: "rt_events_open (sy_router sys)" "length (rt_events (sy_router sys)) < 128"
  shows "implements_step i (LimitAccount a l) sys"
proof -
  let ?op = "LimitAccount a l"
  obtain sys1 where s1: "system_run [SysSend i ?op, SysDeliver RouterId] sys = Ok sys1"
    "routed i ?op sys sys1"
    "hm_get (sy_accounts sys1) = (hm_get (sy_accounts sys))(a \<mapsto> (account_at sys a, [ApplyAccountLimit i l]))"
    "hm_get (sy_cards sys1) = hm_get (sy_cards sys)"
    using route_to_account [OF s] by blast
  define e where "e = limit_error l (ac_consumed (account_at sys a))"
  have quiet: "hm_get (sy_cards sys1) (a, 0) = Some (self, m) \<Longrightarrow> m = []" for self m
    using s s1(4) unfolding settled_def by metis
  obtain sys2 where s2: "system_run (serve a 0) sys1 = Ok sys2" "sy_router sys2 = sy_router sys1"
    "sy_router_mail sys2 = [RouterInternal (OperationCompleted i (e = None) e)]"
    "hm_get (sy_accounts sys2) = (hm_get (sy_accounts sys1))(a \<mapsto>
      (if e = None then (account_at sys a)\<lparr>ac_limit := l\<rparr> else account_at sys a, []))"
    "hm_get (sy_cards sys2) = hm_get (sy_cards sys1)"
    using serve_account_limit [of sys1 a "account_at sys a" i l 0 e] s1 e_def quiet
    by (auto simp: routed_def)
  from run_operation [OF s1(1,2) s2(1-3) _ room] obtain sys3 where
    s3: "system_run (SysSend i ?op # charge_schedule a 0) sys = Ok sys3"
      "sy_router_mail sys3 = []" "rt_events_open (sy_router sys3)"
      "rt_events (sy_router sys3) = rt_events (sy_router sys) @
         [OperationResult i ?op (result_of ?op e) (e = None) e]"
      "sy_accounts sys3 = sy_accounts sys2" "sy_cards sys3 = sy_cards sys2" by auto
  note accs = s2(4) [unfolded s1(3) fun_upd_upd, folded s3(5)]
  note cards = s2(5) [unfolded s1(4), folded s3(6)]
  have "settled sys3"
    by (intro settled_after [OF s s3(1,2)]) (auto simp: accs cards split: if_splits)
  moreover have "snd (ledger_step ?op (ledger_of sys)) = e"
    by (simp add: ledger_limit_account_def e_def ledger_of_def set_limit_row)
       (simp add: limit_error_def)
  moreover have "ledger_of sys3 = fst (ledger_step ?op (ledger_of sys))"
    by (simp add: ledger_of_def account_at_upd [OF accs] card_at_same [OF cards]
        ledger_limit_account_def e_def set_limit_row fun_eq_iff) auto
  ultimately show ?thesis
    using s3 by (auto simp: implements_step_def operation_schedule_def ledger_event_def)
qed

lemma card_limit_implements:
  assumes s: "settled sys" and room: "rt_events_open (sy_router sys)" "length (rt_events (sy_router sys)) < 128"
  shows "implements_step i (LimitCard a c l) sys"
proof -
  let ?op = "LimitCard a c l"
  obtain sys1 where s1: "system_run [SysSend i ?op, SysDeliver RouterId] sys = Ok sys1"
    "routed i ?op sys sys1"
    "hm_get (sy_accounts sys1) = (hm_get (sy_accounts sys))(a \<mapsto> (account_at sys a, []))"
    "hm_get (sy_cards sys1) = (hm_get (sy_cards sys))((a, c) \<mapsto>
       (card_at sys (a, c), [CardCommand (ExecuteLimitChange i l)]))"
    using route_to_card [OF s, of i ?op _ a c "ExecuteLimitChange i l"]
    by (auto simp: execute_limit_card_def)
  define e where "e = limit_error l (ca_consumed (card_at sys (a, c)))"
  obtain sys2 where s2: "system_run (serve a c) sys1 = Ok sys2" "sy_router sys2 = sy_router sys1"
    "sy_router_mail sys2 = [RouterInternal (OperationCompleted i (e = None) e)]"
    "hm_get (sy_accounts sys2) = hm_get (sy_accounts sys1)"
    "hm_get (sy_cards sys2) = (hm_get (sy_cards sys1))((a, c) \<mapsto>
      (if e = None then (card_at sys (a, c))\<lparr>ca_limit := l\<rparr> else card_at sys (a, c), []))"
    using serve_card_limit [of sys1 a "account_at sys a" c "card_at sys (a, c)" i l e] s1 e_def
      card_at_fields [OF s, of "(a, c)"] by (auto simp: routed_def)
  from run_operation [OF s1(1,2) s2(1-3) _ room] obtain sys3 where
    s3: "system_run (SysSend i ?op # charge_schedule a c) sys = Ok sys3"
      "sy_router_mail sys3 = []" "rt_events_open (sy_router sys3)"
      "rt_events (sy_router sys3) = rt_events (sy_router sys) @
         [OperationResult i ?op (result_of ?op e) (e = None) e]"
      "sy_accounts sys3 = sy_accounts sys2" "sy_cards sys3 = sy_cards sys2" by auto
  note accs = s2(4) [unfolded s1(3), folded s3(5)]
  note cards = s2(5) [unfolded s1(4) fun_upd_upd, folded s3(6)]
  have "settled sys3"
    using card_at_fields [OF s, of "(a, c)"]
    by (intro settled_after [OF s s3(1,2)]) (auto simp: accs cards split: if_splits)
  moreover have "snd (ledger_step ?op (ledger_of sys)) = e"
    by (simp add: ledger_limit_card_def e_def ledger_of_def set_limit_row)
       (simp add: limit_error_def)
  moreover have "ledger_of sys3 = fst (ledger_step ?op (ledger_of sys))"
    by (simp add: ledger_of_def account_at_upd [OF accs] card_at_upd [OF cards]
        ledger_limit_card_def e_def set_limit_row fun_eq_iff) auto
  ultimately show ?thesis
    using s3 by (auto simp: implements_step_def operation_schedule_def ledger_event_def)
qed

section \<open>A sequence of operations\<close>

text \<open>The operations one after the other, and what the ledger makes of them.\<close>

fun serial :: "(u32 \<times> operation) list \<Rightarrow> system_event list" where
  "serial [] = []"
| "serial ((i, op) # ops) = SysSend i op # operation_schedule op @ serial ops"

fun ledger_run :: "(u32 \<times> operation) list \<Rightarrow> ledger \<Rightarrow> ledger \<times> actor_event list" where
  "ledger_run [] lg = (lg, [])"
| "ledger_run ((i, op) # ops) lg =
     (let (lg', evs) = ledger_run ops (fst (ledger_step op lg)) in (lg', ledger_event i op lg # evs))"

lemma serial_implements:
  "settled sys \<Longrightarrow> list_all (\<lambda>(i, op). updates op) ops \<Longrightarrow> rt_events_open (sy_router sys) \<Longrightarrow>
     length (rt_events (sy_router sys)) + length ops \<le> 128 \<Longrightarrow>
     \<exists>sys'. system_run (serial ops) sys = Ok sys' \<and> settled sys' \<and>
       ledger_run ops (ledger_of sys) =
         (ledger_of sys', drop (length (rt_events (sy_router sys))) (rt_events (sy_router sys'))) \<and>
       take (length (rt_events (sy_router sys))) (rt_events (sy_router sys')) = rt_events (sy_router sys)"
proof (induction ops arbitrary: sys)
  case (Cons iop ops)
  obtain i op where iop: "iop = (i, op)" by force
  have "implements_step i op sys"
    using Cons.prems iop
    by (cases op) (auto intro: charge_implements account_limit_implements card_limit_implements)
  then obtain sys1 where s1: "system_run (SysSend i op # operation_schedule op) sys = Ok sys1"
    "settled sys1" "rt_events_open (sy_router sys1)"
    "ledger_of sys1 = fst (ledger_step op (ledger_of sys))"
    "rt_events (sy_router sys1) = rt_events (sy_router sys) @ [ledger_event i op (ledger_of sys)]"
    by (auto simp: implements_step_def)
  let ?n = "length (rt_events (sy_router sys))"
  from Cons.IH [OF s1(2) _ s1(3)] Cons.prems s1(5) obtain sys' where
    s': "system_run (serial ops) sys1 = Ok sys'" "settled sys'"
      "ledger_run ops (ledger_of sys1) = (ledger_of sys', drop (Suc ?n) (rt_events (sy_router sys')))"
      "take (Suc ?n) (rt_events (sy_router sys')) = rt_events (sy_router sys) @ [ledger_event i op (ledger_of sys)]"
    by auto
  have "system_run (serial (iop # ops)) sys = Ok sys'"
    using system_run_append [of "SysSend i op # operation_schedule op" "serial ops" sys] s1(1) s'(1)
    by (simp add: iop)
  moreover have evs: "rt_events (sy_router sys') =
      rt_events (sy_router sys) @ ledger_event i op (ledger_of sys) # drop (Suc ?n) (rt_events (sy_router sys'))"
    by (metis append.assoc append_Cons append_Nil append_take_drop_id s'(4))
  have "drop ?n (rt_events (sy_router sys')) =
      ledger_event i op (ledger_of sys) # drop (Suc ?n) (rt_events (sy_router sys'))"
    by (subst evs) simp
  moreover have "take ?n (rt_events (sy_router sys')) = rt_events (sy_router sys)"
    by (subst evs) simp
  ultimately show ?case using s'(2,3) s1(4) by (simp add: iop)
qed simp

text \<open>C9: The actors implement the ledger: charges and limit changes submitted one after the other
  (each one's messages delivered before the next is submitted), from the empty database, leave exactly the limits and consumptions the ledger computes, and
  the node receives exactly the ledger's results, in order, as long as the event channel has
  room for them (128).\<close>

theorem database_implements_ledger:
  assumes "list_all (\<lambda>(i, op). updates op) ops" and "length ops \<le> 128"
  shows "\<exists>sys. system_run (serial ops) system_new = Ok sys \<and>
    ledger_run ops \<lparr>lg_accounts = (\<lambda>a. (None, 0)), lg_cards = (\<lambda>k. (None, 0))\<rparr> =
      (ledger_of sys, rt_events (sy_router sys))"
proof -
  have "ledger_of system_new = \<lparr>lg_accounts = (\<lambda>a. (None, 0)), lg_cards = (\<lambda>k. (None, 0))\<rparr>"
    by (simp add: ledger_of_def account_at_def card_at_def system_new_def account_new_def card_new_def)
  with serial_implements [OF settled_new assms(1)] assms(2) show ?thesis
    by (auto simp: system_new_def router_new_def)
qed

theorem database_implements_ledger_witness:
  "\<exists>sys. system_run (serial [(1, LimitCard 3 5 (Some f32_one)), (2, Charge 3 5 f32_one False)]) system_new
     = Ok sys"
  using database_implements_ledger [of "[(1, LimitCard 3 5 (Some f32_one)), (2, Charge 3 5 f32_one False)]"]
  by (simp del: serial.simps) blast

section \<open>The order of the messages decides\<close>

fun submitted :: "system_event list \<Rightarrow> (u32 \<times> operation) list" where
  "submitted [] = []"
| "submitted (SysSend i op # es) = (i, op) # submitted es"
| "submitted (e # es) = submitted es"

text \<open>A charge and an account limit given to the database together: the limit is one message away
  from the account, the charge goes through its card.\<close>

definition together :: "u64 \<Rightarrow> u64 \<Rightarrow> f32 \<Rightarrow> f32 \<Rightarrow> system_event list" where
  "together a c x limit =
     [SysSend 1 (Charge a c x False), SysSend 2 (LimitAccount a (Some limit)),
      SysDeliver RouterId, SysDeliver RouterId, SysDeliver (AccountId a), SysDeliver (CardId (a, c)),
      SysDeliver (AccountId a), SysDeliver (CardId (a, c)), SysDeliver RouterId, SysDeliver RouterId]"

lemmas actor_run_defs = system_new_def router_new_def database_send_def post_router_def post_account_def post_card_def
  deliver_router_def deliver_account_def deliver_card_def
  execute_charge_def execute_limit_account_def get_or_create_account_def get_or_create_card_def
  account_new_def card_new_def submit_task_def handle_apply_limit_def handle_apply_charge_def
  check_account_limit_def check_charge_limit_def can_raise_limit_def card_handle_reply_def
  handle_operation_completed_def emit_def charge_result_of_def limit_result_of_def

lemma hm_get_empty [simp]: "hm_get [] = Map.empty"
  by (rule ext) simp

lemma together_states:
  assumes "0 \<le> limit" and "limit < 0 + x"
  shows "\<exists>sys. system_run (together a c x limit) system_new = Ok sys \<and> sy_router_mail sys = [] \<and>
    hm_get (sy_accounts sys) = [a \<mapsto> (account_new a\<lparr>ac_limit := Some limit\<rparr>, [])] \<and>
    hm_get (sy_cards sys) = [(a, c) \<mapsto> (card_new c a, [])] \<and>
    rt_events (sy_router sys) =
     [OperationResult 2 (LimitAccount a (Some limit)) (ResLimitAccount LimitOk) True None,
      OperationResult 1 (Charge a c x False) (ResCharge (ChargeFailed (ChargeLimit AccountLimitExceeded)))
        False (Some (ChargeLimit AccountLimitExceeded))]"
  using assms
  by (simp add: together_def actor_run_defs start_current_task.simps finish_current_task.simps own_key_def
      EVENT_CHANNEL_CAPACITY_def Let_def)

lemma together_run:
  assumes "0 \<le> limit" and "limit < 0 + x"
  shows "\<exists>sys. system_run (together a c x limit) system_new = Ok sys \<and> settled sys \<and>
    lg_accounts (ledger_of sys) a = (Some limit, 0) \<and>
    rt_events (sy_router sys) =
     [OperationResult 2 (LimitAccount a (Some limit)) (ResLimitAccount LimitOk) True None,
      OperationResult 1 (Charge a c x False) (ResCharge (ChargeFailed (ChargeLimit AccountLimitExceeded)))
        False (Some (ChargeLimit AccountLimitExceeded))]"
proof -
  from together_states [OF assms, of a c] obtain sys where
    run: "system_run (together a c x limit) system_new = Ok sys" and
    mail: "sy_router_mail sys = []" and
    acc: "hm_get (sy_accounts sys) = [a \<mapsto> (account_new a\<lparr>ac_limit := Some limit\<rparr>, [])]" and
    card: "hm_get (sy_cards sys) = [(a, c) \<mapsto> (card_new c a, [])]" and
    evs: "rt_events (sy_router sys) =
     [OperationResult 2 (LimitAccount a (Some limit)) (ResLimitAccount LimitOk) True None,
      OperationResult 1 (Charge a c x False) (ResCharge (ChargeFailed (ChargeLimit AccountLimitExceeded)))
        False (Some (ChargeLimit AccountLimitExceeded))]" by blast
  have "system_ok sys" using system_run_ok [OF system_new_ok, of "together a c x limit"] run by simp
  then have "settled sys" using mail acc card by (auto simp: settled_def card_new_def split: if_splits)
  moreover have "lg_accounts (ledger_of sys) a = (Some limit, 0)"
    using acc by (simp add: ledger_of_def account_at_def account_new_def)
  ultimately show ?thesis using run evs by blast
qed

text \<open>C27: Two databases given the same operations in the same order can end up different: a charge and
  an account limit below it, one settled before the other is submitted, leave the charge
  accepted and the limit refused; submitted together, before the actors run, they leave the limit
  accepted and the charge refused. Replicas that execute one log are such databases.\<close>

theorem same_operations_different_databases:
  assumes "0 \<le> limit" and "limit < 0 + x"
  shows "\<exists>sys1 sys2.
    system_run (serial [(1, Charge a c x False), (2, LimitAccount a (Some limit))]) system_new = Ok sys1 \<and>
    system_run (together a c x limit) system_new = Ok sys2 \<and>
    submitted (together a c x limit) = [(1, Charge a c x False), (2, LimitAccount a (Some limit))] \<and>
    settled sys1 \<and> settled sys2 \<and>
    lg_accounts (ledger_of sys1) a = (None, 0 + x) \<and> lg_accounts (ledger_of sys2) a = (Some limit, 0) \<and>
    rt_events (sy_router sys1) =
      [OperationResult 1 (Charge a c x False) (ResCharge ChargeOk) True None,
       OperationResult 2 (LimitAccount a (Some limit)) (ResLimitAccount (LimitFailed (LimitUpdate BelowCurrentUsage)))
         False (Some (LimitUpdate BelowCurrentUsage))] \<and>
    rt_events (sy_router sys2) =
      [OperationResult 2 (LimitAccount a (Some limit)) (ResLimitAccount LimitOk) True None,
       OperationResult 1 (Charge a c x False) (ResCharge (ChargeFailed (ChargeLimit AccountLimitExceeded)))
         False (Some (ChargeLimit AccountLimitExceeded))]"
proof -
  let ?ops = "[(1, Charge a c x False), (2, LimitAccount a (Some limit))]"
  have "\<not> 0 + x \<le> limit" using assms(2) by (simp add: f32_less_iff f32_less_eq_iff)
  then have run: "ledger_run ?ops (ledger_of system_new) =
      ((ledger_of system_new)\<lparr>lg_accounts := (lg_accounts (ledger_of system_new))(a := (None, 0 + x)),
         lg_cards := (lg_cards (ledger_of system_new))((a, c) := (None, 0 + x))\<rparr>,
       [OperationResult 1 (Charge a c x False) (ResCharge ChargeOk) True None,
        OperationResult 2 (LimitAccount a (Some limit)) (ResLimitAccount (LimitFailed (LimitUpdate BelowCurrentUsage)))
          False (Some (LimitUpdate BelowCurrentUsage))])"
    by (simp add: ledger_of_def account_at_def card_at_def system_new_def account_new_def card_new_def
        ledger_charge_def ledger_limit_account_def ledger_event_def Let_def)
  have "rt_events (sy_router system_new) = []" "rt_events_open (sy_router system_new)"
    by (simp_all add: system_new_def router_new_def)
  with serial_implements [OF settled_new, of ?ops] obtain sys1 where s1:
    "system_run (serial ?ops) system_new = Ok sys1" "settled sys1"
    "ledger_run ?ops (ledger_of system_new) = (ledger_of sys1, rt_events (sy_router sys1))"
    by (auto simp del: serial.simps ledger_run.simps)
  from s1(3) [unfolded run, symmetric] have "lg_accounts (ledger_of sys1) a = (None, 0 + x)"
    "rt_events (sy_router sys1) =
      [OperationResult 1 (Charge a c x False) (ResCharge ChargeOk) True None,
       OperationResult 2 (LimitAccount a (Some limit)) (ResLimitAccount (LimitFailed (LimitUpdate BelowCurrentUsage)))
         False (Some (LimitUpdate BelowCurrentUsage))]" by simp_all
  note this s1(1,2)
  moreover have "submitted (together a c x limit) = ?ops" by (simp add: together_def)
  ultimately show ?thesis using together_run [OF assms, of a c] by blast
qed

lemma f32_zero_less_one: "(0 :: f32) < 0 + f32_one"
proof -
  have fin: "f32_is_finite 0" "f32_is_finite f32_one" "f32_mag f32_one \<le> inf_mag" "0 < f32_key f32_one" "f32_val 0 = 0" "f32_key 0 = 0"
    "\<not> f32_is_nan 0"
    by (simp_all add: f32_is_finite_def f32_one_def zero_f32_def f32_mag_def f32_neg_def f32_key_def f32_val_def inf_mag_def
        f32_is_nan_def mag_val_def sign_bit_def)
  from f32_add_finite [OF fin(1,2)] have "\<not> f32_is_nan (0 + f32_one)" "f32_key (0 + f32_one) = f32_key f32_one"
    using fin round_key_val by simp_all
  with fin show ?thesis by (simp add: f32_less_iff)
qed

theorem same_operations_different_databases_witness:
  "\<exists>sys1 sys2. system_run (serial [(1, Charge 3 5 f32_one False), (2, LimitAccount 3 (Some 0))]) system_new = Ok sys1 \<and>
     system_run (together 3 5 f32_one 0) system_new = Ok sys2 \<and>
     rt_events (sy_router sys1) \<noteq> rt_events (sy_router sys2)"
proof -
  have "(0 :: f32) \<le> 0" using f32_zero_le_one by (simp add: f32_less_eq_iff)
  from same_operations_different_databases [OF this f32_zero_less_one, of 3 5] show ?thesis by fastforce
qed

end
