(* ===== verification/PumpTrip.thy ===== *)
theory PumpTrip
  imports Station NodeClient Leader DatabaseSpec
begin

text \<open>
  The way of one charge through the whole system: typed at a pump behind a forwarding client,
  forwarded to a leader, executed by its database, answered, and reported to the pump.
\<close>

section \<open>At the pump\<close>

lemma charge_line:
  assumes ok: "station_ok sim" and pos: "0 < ss_num_pumps sim" and op: "ss_to_node_open sim"
    and line: "handle_line draws input sim = Some (sim1, SimRunning)"
    and told: "ss_to_node sim1 = ss_to_node sim @ [ChargeRequest a c x r]"
  shows "station_ok sim1 \<and> ss_num_pumps sim1 = ss_num_pumps sim \<and>
    map (\<lambda>p. if waits_for r p then None else p) (pumps_of sim1) = pumps_of sim"
proof -
  from handle_line_refines [OF ok pos op, of draws input] line told have
    spec: "pumps_line (ss_num_pumps sim) draws input (pumps_of sim) =
      Some (pumps_of sim1, [ChargeRequest a c x r])" by (auto simp: map_option_case split: option.splits)
  then obtain cmd where cmd: "parse_command (trim input) (ss_num_pumps sim) = Ok cmd"
    "pumps_charge draws cmd (pumps_of sim) = Some (pumps_of sim1, [ChargeRequest a c x r])"
    by (auto simp: pumps_line_def Let_def split: if_splits sum.splits)
  let ?i = "pc_pump_id cmd"
  from cmd(2) have idle: "pumps_of sim ! ?i = None" and
    after: "pumps_of sim1 = (pumps_of sim)[?i := Some (new_request r cmd)]" and
    fresh: "fresh_id draws (pumps_of sim) = Some r"
    by (auto simp: pumps_charge_def split: option.splits)
  from fresh have others: "\<forall>p \<in> set (pumps_of sim). \<not> waits_for r p"
    by (auto simp: fresh_id_def find_Some_iff list_all_iff)
  have "map (\<lambda>p. if waits_for r p then None else p) (pumps_of sim1) = pumps_of sim"
  proof (rule nth_equalityI)
    fix j assume "j < length (map (\<lambda>p. if waits_for r p then None else p) (pumps_of sim1))"
    then have "j < length (pumps_of sim)" using after by (metis length_list_update length_map)
    then show "map (\<lambda>p. if waits_for r p then None else p) (pumps_of sim1) ! j = pumps_of sim ! j"
      using idle others by (cases "j = ?i") (auto simp: after waits_for_def new_request_def)
  qed (simp only: after length_map length_list_update)
  with handle_line_ok [OF ok pos line] show ?thesis by simp
qed

text \<open>The answer to the charge frees the pump, whatever it says.\<close>

lemma charge_answer:
  assumes "station_ok sim1" and "map (\<lambda>p. if waits_for r p then None else p) (pumps_of sim1) = ps"
  obtains sim2 where "station_step (NodeEvent (StationChargeResult r allowed error)) sim1 = Some (sim2, SimRunning)"
    and "pumps_of sim2 = ps"
proof -
  obtain sim2 where s2: "handle_node_event (StationChargeResult r allowed error) sim1 = Ok sim2"
    using handle_node_event_ok [of sim1] assms(1) by blast
  have "pumps_of sim2 = map (\<lambda>p. if waits_for r p then None else p) (pumps_of sim1)"
  proof (cases "hm_get (ss_requests sim1) r")
    case None
    with s2 nobody_waits [of sim1 r] assms(1) show ?thesis by auto
  next
    case (Some req)
    with s2 handle_result_known [of sim1 r req allowed error] assms(1)
    obtain line where "sim2 = say line (release req sim1)" by (auto split: if_splits option.splits)
    with pumps_of_release [of sim1 req] station_okD(2) [of sim1 r req] Some assms(1) show ?thesis by auto
  qed
  with s2 assms(2) show thesis by (intro that [of sim2]) simp_all
qed

section \<open>At the client\<close>

lemma forward_to_known_connected:
  "forward_to_known msg known w = (w', Ok b) \<Longrightarrow> cn_connected (cw_conn w') = cn_connected (cw_conn w)"
proof (induction known arbitrary: w)
  case (Cons target rest)
  obtain conn r where c: "connection_send msg target (cw_conn w) = (conn, r)" by (rule prod.exhaust)
  then have same: "cn_connected conn = cn_connected (cw_conn w)"
    using connection_send_frame [OF c] by (metis connection.select_convs(6) connection.surjective connection.update_convs(1) connection.update_convs(10))
  from Cons c same show ?case
    by (auto simp: client_net_send_def split: sum.splits failure.splits)
qed simp

text \<open>A client that reached a node waits for its answer, with nothing told to the station.\<close>

lemma client_forwards:
  assumes "cw_from_station w = [ChargeRequest a c x r]" "cn_connected (cw_conn w)"
    and turn: "client_turn hash ClientStation (self, w) = ((self1, w1), ClientRunning)"
    and sent: "client_sent w1 = client_sent w @ [(m, target)]"
  shows "m = Request r (Charge a c x False) (nc_bind_addr self) \<and> target \<in> set (nc_known_nodes self) \<and>
    r \<in> nc_active_online_requests self1 \<and> reported w1 = reported w \<and>
    cw_to_station_open w1 = cw_to_station_open w \<and> cn_connected (cw_conn w1)"
proof -
  let ?w = "w\<lparr>cw_from_station := []\<rparr>"
  let ?m = "Request r (Charge a c x False) (nc_bind_addr self)"
  from turn assms(1) have f: "forward_or_enqueue_charge a c x r (self, ?w) = ((self1, w1), Ok ())"
    by (cases "forward_or_enqueue_charge a c x r (self, ?w)" rule: client_after.cases)
      (simp_all add: client_turn_def)
  from client_charge_cases [OF f] sent
  have m: "m = ?m" "target \<in> set (nc_known_nodes self)" "r \<in> nc_active_online_requests self1"
      "reported w1 = reported w" and on: "nc_online self" "nc_known_nodes self \<noteq> []"
    by auto
  obtain w2 o2 where k: "forward_to_known ?m (nc_known_nodes self) ?w = (w2, o2)" by (rule prod.exhaust)
  from f on k obtain b where b: "o2 = Ok b"
    by (cases o2) (simp_all add: forward_or_enqueue_charge_def forward_online_charge_def in_world_def)
  note fr = forward_to_known_frame [OF k [unfolded b]] forward_to_known_connected [OF k [unfolded b]]
  have b
  proof (rule ccontr)
    assume "\<not> b"
    with f on k b have "enqueue_offline_charge a c x r (self, w2) = ((self1, w1), Ok ())"
      by (simp add: forward_or_enqueue_charge_def forward_online_charge_def in_world_def)
    then have "client_sent w1 = client_sent w2"
      by (auto simp: enqueue_offline_charge_def in_world_def client_station_send_def Let_def split: if_splits)
    with \<open>\<not> b\<close> fr(1) sent show False by simp
  qed
  with f on k b have "w1 = w2"
    by (simp add: forward_or_enqueue_charge_def forward_online_charge_def in_world_def)
  with m fr assms(2) show ?thesis by (simp add: same_station_def)
qed

lemma client_reports:
  assumes "r \<in> nc_active_online_requests self1" "cw_to_station_open w1" "cn_connected (cw_conn w1)"
    and "cn_inbox (cw_conn w1) = Ok (Response r (ResCharge cr)) # rest"
    and "charge_outcome cr = (allowed, error)"
  obtains self2 w2 where "client_turn hash ClientNet (self1, w1) = ((self2, w2), ClientRunning)"
    and "reported w2 = reported w1 @ [StationChargeResult r allowed error]"
    and "r \<notin> nc_active_online_requests self2"
  using assms by (simp add: client_turn_def connection_recv_def in_world_def client_station_send_def)

section \<open>At the leader\<close>

lemma leader_takes_request:
  assumes "cn_connected (nw_conn v)" "cn_inbox (nw_conn v) = Ok (Request r op addr) # rest"
    and "hm_len (ld_cluster l) = 1"
  shows "node_turn (leader_ops hash) NetReady (l, v) =
    (l\<lparr>ld_operations := hm_insert (ld_current_op_id l) (pending_new op addr r) (ld_operations l)\<rparr>,
     db_send (ld_current_op_id l) op (v\<lparr>nw_conn := (nw_conn v)\<lparr>cn_inbox := rest\<rparr>\<rparr>), None)"
  using assms
  by (simp add: node_turn_def node_select_def after_select_def connection_recv_def leader_ops_def
      leader_handle_request_def Let_def)

lemma leader_answers:
  assumes "rt_events (sy_router (nw_db v)) = OperationResult i (Charge a c x off) result success error # evs"
    and "i \<noteq> 0" "hm_get (ld_operations l) i = Some (pending_new op addr r)" "addr \<noteq> ld_address l"
    and "cn_connected (nw_conn v)" "hm_get (cn_active (nw_conn v)) addr = Some h" "ph_alive h"
  obtains v' where "node_turn (leader_ops hash) ActorReady (l, v) =
      (l\<lparr>ld_operations := hm_remove i (ld_operations l)\<rparr>, v', None)"
    and "sent v' = sent v @ [(Response r result, addr)]"
proof -
  let ?v = "v\<lparr>nw_db := (nw_db v)\<lparr>sy_router := (sy_router (nw_db v))\<lparr>rt_events := evs\<rparr>\<rparr>\<rparr>"
  obtain v' where s: "net_send (Response r result) addr ?v = (v', Ok ())"
      and "sent v' = sent v @ [(Response r result, addr)]"
    using send_to_alive [OF assms(5-7)] by (simp add: net_send_def)
  with assms(1-4) show thesis
    by (intro that [of v'])
      (simp_all add: node_turn_def node_select_def database_recv_def leader_ops_def leader_answer_def
        on_world_def pending_new_def after_select_def)
qed

section \<open>The whole way\<close>


text \<open>A line \<open>0 1 10 5\<close> at a station with one pump, under request number 9.\<close>

lemma sample_line_command: "parse_command ''0 1 10 5'' 1 =
    Ok \<lparr>pc_pump_id = 0, pc_account_id = 1, pc_card_id = 10, pc_amount = f32_of_usize 5\<rparr>"
proof -
  have "split_whitespace ''0 1 10 5'' = [show_nat 0, show_nat 1, show_nat 10, show_nat 5]" by code_simp
  then show ?thesis
    using parse_u64_show [of 1] parse_u64_show [of 10]
    by (simp add: parse_command_def parse_usize_show parse_f32_show)
qed

lemma sample_line_charge: "\<exists>sim1. handle_line [9] ''0 1 10 5'' (fst (station_start 1)) = Some (sim1, SimRunning) \<and>
   ss_to_node sim1 = [ChargeRequest 1 10 (f32_of_usize 5) 9]"
proof -
  have w: "trim ''0 1 10 5'' = ''0 1 10 5''" "\<not> eq_ignore_ascii_case ''0 1 10 5'' ''quit''" 
   "\<not> eq_ignore_ascii_case ''0 1 10 5'' ''exit''" "\<not> eq_ignore_ascii_case ''0 1 10 5'' ''help''"
   "\<not> eq_ignore_ascii_case ''0 1 10 5'' ''connect''" "\<not> eq_ignore_ascii_case ''0 1 10 5'' ''disconnect''"
    by code_simp+
  then show ?thesis
   by (simp add: handle_line_def sample_line_command [unfolded One_nat_def] handle_user_command_def station_start_def request_id_free_def hm_contains_def hm_get_def hm_insert_def submit_request_def say_def tell_node_def)
qed

text \<open>The leader of \<open>alone\<close> with the charge in its inbox and the connection that brought it.\<close>

definition sample_charge :: message where
  "sample_charge = Request 9 (Charge 1 10 (f32_of_usize 5) False) (SocketAddr (V4 127 0 0 1) 6000)"

definition sample_server :: node_world where
  "sample_server = (snd alone)\<lparr>nw_db := system_new, nw_conn := sample_connection\<lparr>
     cn_active := [(SocketAddr (V4 127 0 0 1) 6000, idle_handler 0 6000)], cn_inbox := [Ok sample_charge]\<rparr>\<rparr>"


end
