(* ===== verification/Snapshots.thy ===== *)
theory Snapshots
  imports DatabaseSpec Roundtrip Replica Leader
begin

text \<open>
  How a replica gets its database: the leader's actors answer \<open>GetDatabase\<close> with a snapshot, the
  snapshot crosses the network in a \<open>ClusterView\<close>, and the replica's actors execute
  \<open>ReplaceDatabase\<close> with it. The copy is compared with the original as ledgers; an entry that
  was pending when the replica joined is in neither its copy nor its log.
\<close>

section \<open>Messages to many actors\<close>

lemma tell_accounts:
  "distinct as \<Longrightarrow>
     (let sys' = fold perform_router_output (map (\<lambda>a. TellAccount a (f a)) as) sys in
      hm_get (sy_accounts sys') = (\<lambda>b. if b \<in> set as
        then map_option (\<lambda>(acc, m). (acc, m @ [f b])) (hm_get (sy_accounts sys) b)
        else hm_get (sy_accounts sys) b) \<and>
      sy_cards sys' = sy_cards sys \<and> sy_router sys' = sy_router sys \<and>
      sy_router_mail sys' = sy_router_mail sys)"
proof (induction as arbitrary: sys)
  case Nil
  then show ?case by simp
next
  case (Cons a as)
  let ?sys = "post_account a (f a) sys"
  have p: "hm_get (sy_accounts ?sys) = (\<lambda>b. if b = a
      then map_option (\<lambda>(acc, m). (acc, m @ [f b])) (hm_get (sy_accounts sys) b)
      else hm_get (sy_accounts sys) b)"
    "sy_cards ?sys = sy_cards sys" "sy_router ?sys = sy_router sys" "sy_router_mail ?sys = sy_router_mail sys"
    by (auto simp: post_account_def fun_eq_iff split: option.split)
  from Cons.IH [of ?sys] Cons.prems show ?case
    by (auto simp: p Let_def fun_eq_iff)
qed

lemma tell_cards:
  "distinct ks \<Longrightarrow>
     (let sys' = fold perform_router_output (map (\<lambda>k. TellCard k (f k)) ks) sys in
      hm_get (sy_cards sys') = (\<lambda>k. if k \<in> set ks
        then map_option (\<lambda>(self, m). (self, m @ [CardCommand (f k)])) (hm_get (sy_cards sys) k)
        else hm_get (sy_cards sys) k) \<and>
      sy_accounts sys' = sy_accounts sys \<and> sy_router sys' = sy_router sys \<and>
      sy_router_mail sys' = sy_router_mail sys)"
proof (induction ks arbitrary: sys)
  case Nil
  then show ?case by simp
next
  case (Cons k ks)
  let ?sys = "post_card k (CardCommand (f k)) sys"
  have p: "hm_get (sy_cards ?sys) = (\<lambda>b. if b = k
      then map_option (\<lambda>(self, m). (self, m @ [CardCommand (f b)])) (hm_get (sy_cards sys) b)
      else hm_get (sy_cards sys) b)"
    "sy_accounts ?sys = sy_accounts sys" "sy_router ?sys = sy_router sys" "sy_router_mail ?sys = sy_router_mail sys"
    by (auto simp: post_card_def fun_eq_iff split: option.split)
  from Cons.IH [of ?sys] Cons.prems show ?case
    by (auto simp: p Let_def fun_eq_iff)
qed

section \<open>Taking the snapshot\<close>

definition account_snap :: "account_actor \<Rightarrow> account_snapshot" where
  "account_snap acc = \<lparr>as_account_id = ac_account_id acc, as_limit = ac_limit acc, as_consumed = ac_consumed acc\<rparr>"

definition card_snap :: "card_actor \<Rightarrow> card_snapshot" where
  "card_snap self = \<lparr>cs_account_id = ca_account_id self, cs_card_id = ca_card_id self,
     cs_limit = ca_limit self, cs_consumed = ca_consumed self\<rparr>"

text \<open>The actors that were asked answer one after the other and are left as they were.\<close>

lemma accounts_answer:
  "distinct as \<Longrightarrow> \<forall>a \<in> set as. hm_get (sy_accounts sys) a = Some (A a, [AccountGetSnapshot i]) \<Longrightarrow>
     \<exists>sys'. system_run (map (\<lambda>a. SysDeliver (AccountId a)) as) sys = Ok sys' \<and>
       sy_router sys' = sy_router sys \<and> sy_cards sys' = sy_cards sys \<and>
       sy_router_mail sys' = sy_router_mail sys @
         map (\<lambda>a. RouterInternal (AccountSnapshotCollected i (account_snap (A a)))) as \<and>
       hm_get (sy_accounts sys') =
         (\<lambda>b. if b \<in> set as then Some (A b, []) else hm_get (sy_accounts sys) b)"
proof (induction as arbitrary: sys)
  case Nil
  then show ?case by simp
next
  case (Cons a as)
  let ?sys = "deliver_account a sys"
  have p: "hm_get (sy_accounts ?sys) = (hm_get (sy_accounts sys))(a \<mapsto> (A a, []))"
    "sy_cards ?sys = sy_cards sys" "sy_router ?sys = sy_router sys"
    "sy_router_mail ?sys = sy_router_mail sys @ [RouterInternal (AccountSnapshotCollected i (account_snap (A a)))]"
    using Cons.prems(2) by (simp_all add: deliver_account_def post_router_def account_snap_def)
  have "\<forall>b \<in> set as. hm_get (sy_accounts ?sys) b = Some (A b, [AccountGetSnapshot i])"
    using Cons.prems by (auto simp: p)
  from Cons.IH [OF _ this] Cons.prems(1) show ?case
    by (auto simp: p fun_eq_iff)
qed

lemma cards_answer:
  "distinct ks \<Longrightarrow> \<forall>k \<in> set ks. hm_get (sy_cards sys) k = Some (C k, [CardCommand (CardGetSnapshot i)]) \<Longrightarrow>
     \<exists>sys'. system_run (map (\<lambda>k. SysDeliver (CardId k)) ks) sys = Ok sys' \<and>
       sy_router sys' = sy_router sys \<and> sy_accounts sys' = sy_accounts sys \<and>
       sy_router_mail sys' = sy_router_mail sys @
         map (\<lambda>k. RouterInternal (CardSnapshotCollected i (card_snap (C k)))) ks \<and>
       hm_get (sy_cards sys') =
         (\<lambda>k. if k \<in> set ks then Some (C k, []) else hm_get (sy_cards sys) k)"
proof (induction ks arbitrary: sys)
  case Nil
  then show ?case by simp
next
  case (Cons k ks)
  let ?sys = "deliver_card k sys"
  have p: "hm_get (sy_cards ?sys) = (hm_get (sy_cards sys))(k \<mapsto> (C k, []))"
    "sy_accounts ?sys = sy_accounts sys" "sy_router ?sys = sy_router sys"
    "sy_router_mail ?sys = sy_router_mail sys @ [RouterInternal (CardSnapshotCollected i (card_snap (C k)))]"
    using Cons.prems(2) by (simp_all add: deliver_card_def post_router_def card_snap_def)
  have "\<forall>b \<in> set ks. hm_get (sy_cards ?sys) b = Some (C b, [CardCommand (CardGetSnapshot i)])"
    using Cons.prems by (auto simp: p)
  from Cons.IH [OF _ this] Cons.prems(1) show ?case
    by (auto simp: p fun_eq_iff simp del: split_paired_All)
qed

text \<open>The router collects the answers and reports when the last one is in.\<close>

lemma router_collects:
  assumes "ss \<noteq> [] \<or> cs \<noteq> []"
    and "sy_router_mail sys = map (\<lambda>s. RouterInternal (AccountSnapshotCollected i s)) ss @
      map (\<lambda>s. RouterInternal (CardSnapshotCollected i s)) cs"
    and "hm_get (rt_pending_db_snapshots (sy_router sys)) i = Some p"
    and "pd_expected_accounts p = length (pd_accounts p) + length ss"
    and "pd_expected_cards p = length (pd_cards p) + length cs"
    and "hm_get (rt_operations (sy_router sys)) i = Some op"
    and "rt_events_open (sy_router sys)" "length (rt_events (sy_router sys)) < 128"
  shows "\<exists>sys'. system_run (replicate (length ss + length cs) (SysDeliver RouterId)) sys = Ok sys' \<and>
    sy_router_mail sys' = [] \<and> sy_accounts sys' = sy_accounts sys \<and> sy_cards sys' = sy_cards sys \<and>
    rt_events_open (sy_router sys') \<and>
    rt_events (sy_router sys') = rt_events (sy_router sys) @ [OperationResult i op
      (ResDatabaseSnapshot \<lparr>ds_addr = pd_addr p, ds_accounts = pd_accounts p @ ss, ds_cards = pd_cards p @ cs\<rparr>)
      True None]"
  using assms
proof (induction ss arbitrary: sys p)
  case Nil
  then show ?case
  proof (induction cs arbitrary: sys p)
    case (Cons c cs)
    let ?p = "p\<lparr>pd_cards := pd_cards p @ [c]\<rparr>"
    show ?case
    proof (cases "cs = []")
      case True
      with Cons.prems show ?thesis
        by (simp add: deliver_router_def handle_card_snapshot_def try_complete_db_snapshot_def
            emit_def EVENT_CHANNEL_CAPACITY_def)
    next
      case False
      let ?sys = "sys\<lparr>sy_router := (sy_router sys)\<lparr>rt_pending_db_snapshots :=
        hm_insert i ?p (rt_pending_db_snapshots (sy_router sys))\<rparr>,
        sy_router_mail := map (\<lambda>s. RouterInternal (CardSnapshotCollected i s)) cs\<rparr>"
      have "deliver_router sys = Ok ?sys"
        using Cons.prems False
        by (simp add: deliver_router_def handle_card_snapshot_def try_complete_db_snapshot_def)
      with Cons.IH [of ?sys ?p] Cons.prems False show ?thesis by simp
    qed
  qed simp
next
  case (Cons s ss)
  let ?p = "p\<lparr>pd_accounts := pd_accounts p @ [s]\<rparr>"
  show ?case
  proof (cases "ss = [] \<and> cs = []")
    case True
    with Cons.prems show ?thesis
      by (simp add: deliver_router_def handle_account_snapshot_def try_complete_db_snapshot_def
          emit_def EVENT_CHANNEL_CAPACITY_def)
  next
    case False
    let ?sys = "sys\<lparr>sy_router := (sy_router sys)\<lparr>rt_pending_db_snapshots :=
      hm_insert i ?p (rt_pending_db_snapshots (sy_router sys))\<rparr>,
      sy_router_mail := map (\<lambda>s. RouterInternal (AccountSnapshotCollected i s)) ss @
        map (\<lambda>s. RouterInternal (CardSnapshotCollected i s)) cs\<rparr>"
    have "deliver_router sys = Ok ?sys"
      using Cons.prems False
      by (auto simp: deliver_router_def handle_account_snapshot_def try_complete_db_snapshot_def)
    with Cons.IH [of ?sys ?p] Cons.prems False show ?thesis by auto
  qed
qed

text \<open>The actors the router asks are all there are, each once.\<close>

lemma values_are_keys:
  assumes "hm_wf m" and "\<And>k v. hm_get m k = Some v \<Longrightarrow> v = k"
  shows "hm_values m = hm_keys m"
proof -
  have "snd e = fst e" if "e \<in> set m" for e
    using that assms hm.entries_get [OF assms(1), of "fst e" "snd e"] by auto
  then show ?thesis by (simp add: hm_values_def hm_keys_def)
qed

lemma router_tables:
  assumes "settled sys"
  shows "hm_values (rt_accounts (sy_router sys)) = hm_keys (rt_accounts (sy_router sys))"
    and "hm_values (rt_cards (sy_router sys)) = hm_keys (rt_cards (sy_router sys))"
    and "distinct (hm_keys (rt_accounts (sy_router sys)))" "distinct (hm_keys (rt_cards (sy_router sys)))"
    and "a \<in> set (hm_keys (rt_accounts (sy_router sys))) \<longleftrightarrow> hm_get (sy_accounts sys) a \<noteq> None"
    and "k \<in> set (hm_keys (rt_cards (sy_router sys))) \<longleftrightarrow> hm_get (sy_cards sys) k \<noteq> None"
proof -
  have ok: "system_ok sys" using assms by (simp add: settled_def)
  then have wf: "hm_wf (rt_accounts (sy_router sys))" "hm_wf (rt_cards (sy_router sys))"
    by (simp_all add: system_ok_def router_maps_wf_def)
  show "hm_values (rt_accounts (sy_router sys)) = hm_keys (rt_accounts (sy_router sys))"
    by (rule values_are_keys [OF wf(1)]) (simp add: router_account [OF ok] split: if_splits)
  show "hm_values (rt_cards (sy_router sys)) = hm_keys (rt_cards (sy_router sys))"
    by (rule values_are_keys [OF wf(2)]) (simp add: router_card [OF ok] split: if_splits)
  show "distinct (hm_keys (rt_accounts (sy_router sys)))" "distinct (hm_keys (rt_cards (sy_router sys)))"
    using wf by (simp_all add: hm_keys_def hm_wf_def)
  show "a \<in> set (hm_keys (rt_accounts (sy_router sys))) \<longleftrightarrow> hm_get (sy_accounts sys) a \<noteq> None"
    using hm.entries_keys [OF wf(1)] by (simp add: hm_keys_def domIff router_account [OF ok])
  show "k \<in> set (hm_keys (rt_cards (sy_router sys))) \<longleftrightarrow> hm_get (sy_cards sys) k \<noteq> None"
    using hm.entries_keys [OF wf(2)] by (simp add: hm_keys_def domIff router_card [OF ok])
qed

lemma settled_account:
  "settled sys \<Longrightarrow> hm_get (sy_accounts sys) a = None \<or> hm_get (sy_accounts sys) a = Some (account_at sys a, [])"
  unfolding settled_def by (cases "hm_get (sy_accounts sys) a") (auto simp: account_at_def)

lemma settled_card:
  "settled sys \<Longrightarrow> hm_get (sy_cards sys) k = None \<or> hm_get (sy_cards sys) k = Some (card_at sys k, [])"
  unfolding settled_def by (cases "hm_get (sy_cards sys) k") (auto simp: card_at_def simp del: split_paired_All)

definition snapshot_of :: "socket_addr \<Rightarrow> actor_system \<Rightarrow> database_snapshot" where
  "snapshot_of addr sys =
     \<lparr>ds_addr = addr,
      ds_accounts = map (\<lambda>a. account_snap (account_at sys a)) (hm_keys (rt_accounts (sy_router sys))),
      ds_cards = map (\<lambda>k. card_snap (card_at sys k)) (hm_keys (rt_cards (sy_router sys)))\<rparr>"

text \<open>The router, every account, every card, and the router once for each answer.\<close>

definition snapshot_schedule :: "actor_system \<Rightarrow> system_event list" where
  "snapshot_schedule sys =
     (let as = hm_keys (rt_accounts (sy_router sys)); ks = hm_keys (rt_cards (sy_router sys))
      in [SysDeliver RouterId] @ map (\<lambda>a. SysDeliver (AccountId a)) as @
         map (\<lambda>k. SysDeliver (CardId k)) ks @ replicate (length as + length ks) (SysDeliver RouterId))"

lemma router_asks:
  assumes s: "settled sys" and some: "hm_keys (rt_accounts (sy_router sys)) \<noteq> [] \<or> hm_keys (rt_cards (sy_router sys)) \<noteq> []"
  shows "\<exists>sys1 p. system_run [SysSend i (GetDatabase addr), SysDeliver RouterId] sys = Ok sys1 \<and>
    sy_router_mail sys1 = [] \<and>
    hm_get (sy_accounts sys1) = (\<lambda>a. if hm_get (sy_accounts sys) a = None then None
      else Some (account_at sys a, [AccountGetSnapshot i])) \<and>
    hm_get (sy_cards sys1) = (\<lambda>k. if hm_get (sy_cards sys) k = None then None
      else Some (card_at sys k, [CardCommand (CardGetSnapshot i)])) \<and>
    hm_get (rt_pending_db_snapshots (sy_router sys1)) i = Some p \<and>
    p = \<lparr>pd_addr = addr, pd_expected_accounts = length (hm_keys (rt_accounts (sy_router sys))),
      pd_expected_cards = length (hm_keys (rt_cards (sy_router sys))), pd_accounts = [], pd_cards = []\<rparr> \<and>
    hm_get (rt_operations (sy_router sys1)) i = Some (GetDatabase addr) \<and>
    rt_events (sy_router sys1) = rt_events (sy_router sys) \<and>
    rt_events_open (sy_router sys1) = rt_events_open (sy_router sys)"
proof -
  note T = router_tables [OF s]
  let ?as = "hm_keys (rt_accounts (sy_router sys))" and ?ks = "hm_keys (rt_cards (sy_router sys))"
  let ?p = "\<lparr>pd_addr = addr, pd_expected_accounts = length ?as, pd_expected_cards = length ?ks,
    pd_accounts = [], pd_cards = []\<rparr>"
  let ?rt = "(sy_router sys)\<lparr>rt_operations := hm_insert i (GetDatabase addr) (rt_operations (sy_router sys)),
    rt_pending_db_snapshots := hm_insert i ?p (rt_pending_db_snapshots (sy_router sys))\<rparr>"
  let ?sys = "sys\<lparr>sy_router := ?rt, sy_router_mail := []\<rparr>"
  let ?sysa = "fold perform_router_output (map (\<lambda>a. TellAccount a (AccountGetSnapshot i)) ?as) ?sys"
  let ?sys1 = "fold perform_router_output (map (\<lambda>k. TellCard k (CardGetSnapshot i)) ?ks) ?sysa"
  have mail: "sy_router_mail sys = []" using s by (simp add: settled_def)
  have "system_run [SysSend i (GetDatabase addr), SysDeliver RouterId] sys = Ok ?sys1"
    using some mail
    by (auto simp: database_send_def post_router_def deliver_router_def execute_get_database_def
        T(1,2) Let_def hm_len_def hm_keys_def)
  moreover note A = tell_accounts [OF T(3), of "\<lambda>_. AccountGetSnapshot i" ?sys]
  moreover note C = tell_cards [OF T(4), of "\<lambda>_. CardGetSnapshot i" ?sysa]
  moreover have "hm_get (sy_accounts ?sys1) = (\<lambda>a. if hm_get (sy_accounts sys) a = None then None
      else Some (account_at sys a, [AccountGetSnapshot i]))"
  proof
    fix a
    show "hm_get (sy_accounts ?sys1) a = (if hm_get (sy_accounts sys) a = None then None
      else Some (account_at sys a, [AccountGetSnapshot i]))"
      using A C T(5) [of a] settled_account [OF s, of a] by (elim disjE) (simp_all add: Let_def)
  qed
  moreover have "hm_get (sy_cards ?sys1) = (\<lambda>k. if hm_get (sy_cards sys) k = None then None
      else Some (card_at sys k, [CardCommand (CardGetSnapshot i)]))"
  proof
    fix k
    show "hm_get (sy_cards ?sys1) k = (if hm_get (sy_cards sys) k = None then None
      else Some (card_at sys k, [CardCommand (CardGetSnapshot i)]))"
      using A C T(6) [of k] settled_card [OF s, of k] by (elim disjE) (simp_all add: Let_def)
  qed
  ultimately show ?thesis
    by (intro exI [of _ ?sys1] exI [of _ ?p] conjI) (simp_all add: Let_def mail)
qed

lemma database_snapshot_taken:
  assumes s: "settled sys" and room: "rt_events_open (sy_router sys)" "length (rt_events (sy_router sys)) < 128"
  shows "\<exists>sys'. system_run (SysSend i (GetDatabase addr) # snapshot_schedule sys) sys = Ok sys' \<and>
    settled sys' \<and> ledger_of sys' = ledger_of sys \<and> rt_events_open (sy_router sys') \<and>
    rt_events (sy_router sys') = rt_events (sy_router sys) @
      [OperationResult i (GetDatabase addr) (ResDatabaseSnapshot (snapshot_of addr sys)) True None]"
proof -
  note T = router_tables [OF s]
  let ?as = "hm_keys (rt_accounts (sy_router sys))" and ?ks = "hm_keys (rt_cards (sy_router sys))"
  let ?run = "SysSend i (GetDatabase addr) # snapshot_schedule sys"
  have mail: "sy_router_mail sys = []" using s by (simp add: settled_def)
  obtain sys' where run: "system_run ?run sys = Ok sys'" "sy_router_mail sys' = []"
    "hm_get (sy_accounts sys') = hm_get (sy_accounts sys)" "hm_get (sy_cards sys') = hm_get (sy_cards sys)"
    "rt_events_open (sy_router sys')"
    "rt_events (sy_router sys') = rt_events (sy_router sys) @
      [OperationResult i (GetDatabase addr) (ResDatabaseSnapshot (snapshot_of addr sys)) True None]"
  proof (cases "?as = [] \<and> ?ks = []")
    case True
    then have "hm_len (rt_accounts (sy_router sys)) = 0" "hm_len (rt_cards (sy_router sys)) = 0"
      by (simp_all add: hm_keys_def hm_len_def)
    let ?sys = "sys\<lparr>sy_router := (sy_router sys)\<lparr>rt_operations :=
      hm_insert i (GetDatabase addr) (rt_operations (sy_router sys)), rt_events := rt_events (sy_router sys) @
        [OperationResult i (GetDatabase addr) (ResDatabaseSnapshot (snapshot_of addr sys)) True None]\<rparr>,
      sy_router_mail := []\<rparr>"
    have "system_run ?run sys = Ok ?sys"
      using True room mail \<open>hm_len (rt_accounts (sy_router sys)) = 0\<close> \<open>hm_len (rt_cards (sy_router sys)) = 0\<close>
      by (simp add: snapshot_schedule_def database_send_def post_router_def
          deliver_router_def execute_get_database_def emit_def EVENT_CHANNEL_CAPACITY_def snapshot_of_def)
    with room mail show thesis by (intro that [of ?sys]) simp_all
  next
    case False
    then obtain sys1 p where 1: "system_run [SysSend i (GetDatabase addr), SysDeliver RouterId] sys = Ok sys1"
      "sy_router_mail sys1 = []"
      "hm_get (sy_accounts sys1) = (\<lambda>a. if hm_get (sy_accounts sys) a = None then None
        else Some (account_at sys a, [AccountGetSnapshot i]))"
      "hm_get (sy_cards sys1) = (\<lambda>k. if hm_get (sy_cards sys) k = None then None
        else Some (card_at sys k, [CardCommand (CardGetSnapshot i)]))"
      "hm_get (rt_pending_db_snapshots (sy_router sys1)) i = Some p"
      "p = \<lparr>pd_addr = addr, pd_expected_accounts = length ?as, pd_expected_cards = length ?ks,
        pd_accounts = [], pd_cards = []\<rparr>"
      "hm_get (rt_operations (sy_router sys1)) i = Some (GetDatabase addr)"
      "rt_events (sy_router sys1) = rt_events (sy_router sys)"
      "rt_events_open (sy_router sys1) = rt_events_open (sy_router sys)"
      using router_asks [OF s, of i addr] by blast
    have "\<forall>a \<in> set ?as. hm_get (sy_accounts sys1) a = Some (account_at sys a, [AccountGetSnapshot i])"
      by (simp add: 1(3) T(5))
    from accounts_answer [OF T(3) this] obtain sys2 where 2:
      "system_run (map (\<lambda>a. SysDeliver (AccountId a)) ?as) sys1 = Ok sys2"
      "sy_router sys2 = sy_router sys1" "sy_cards sys2 = sy_cards sys1"
      "sy_router_mail sys2 = map (\<lambda>a. RouterInternal (AccountSnapshotCollected i (account_snap (account_at sys a)))) ?as"
      "hm_get (sy_accounts sys2) = (\<lambda>b. if b \<in> set ?as then Some (account_at sys b, []) else hm_get (sy_accounts sys1) b)"
      by (auto simp: 1(2))
    have "\<forall>k \<in> set ?ks. hm_get (sy_cards sys2) k = Some (card_at sys k, [CardCommand (CardGetSnapshot i)])"
      by (simp add: 2(3) 1(4) T(6))
    from cards_answer [OF T(4) this] obtain sys3 where 3:
      "system_run (map (\<lambda>k. SysDeliver (CardId k)) ?ks) sys2 = Ok sys3"
      "sy_router sys3 = sy_router sys2" "sy_accounts sys3 = sy_accounts sys2"
      "sy_router_mail sys3 = sy_router_mail sys2 @
        map (\<lambda>k. RouterInternal (CardSnapshotCollected i (card_snap (card_at sys k)))) ?ks"
      "hm_get (sy_cards sys3) = (\<lambda>k. if k \<in> set ?ks then Some (card_at sys k, []) else hm_get (sy_cards sys2) k)"
      by blast
    obtain sys4 where 4: "system_run (replicate (length ?as + length ?ks) (SysDeliver RouterId)) sys3 = Ok sys4"
      "sy_router_mail sys4 = []" "sy_accounts sys4 = sy_accounts sys3" "sy_cards sys4 = sy_cards sys3"
      "rt_events_open (sy_router sys4)"
      "rt_events (sy_router sys4) = rt_events (sy_router sys) @
        [OperationResult i (GetDatabase addr) (ResDatabaseSnapshot (snapshot_of addr sys)) True None]"
      using router_collects [of "map (\<lambda>a. account_snap (account_at sys a)) ?as"
          "map (\<lambda>k. card_snap (card_at sys k)) ?ks" sys3 i p "GetDatabase addr"] False room
      by (auto simp: 2 3 1(5-9) snapshot_of_def comp_def)
    have "system_run ?run sys = Ok sys4"
    proof -
      have "?run = [SysSend i (GetDatabase addr), SysDeliver RouterId] @ map (\<lambda>a. SysDeliver (AccountId a)) ?as @
          map (\<lambda>k. SysDeliver (CardId k)) ?ks @ replicate (length ?as + length ?ks) (SysDeliver RouterId)"
        by (simp add: snapshot_schedule_def Let_def)
      then show ?thesis
        by (simp only: system_run_append 1(1) 2(1) 3(1) 4(1) and_then.simps)
    qed
    moreover have "hm_get (sy_accounts sys4) = hm_get (sy_accounts sys)"
    proof
      show "hm_get (sy_accounts sys4) a = hm_get (sy_accounts sys) a" for a
        using settled_account [OF s, of a] by (elim disjE) (simp_all add: 4(3) 3(3) 2(5) 1(3) T(5))
    qed
    moreover have "hm_get (sy_cards sys4) = hm_get (sy_cards sys)"
    proof
      show "hm_get (sy_cards sys4) k = hm_get (sy_cards sys) k" for k
        using settled_card [OF s, of k] by (elim disjE) (simp_all add: 4(4) 3(5) 2(3) 1(4) T(6))
    qed
    ultimately show thesis using 4 that by blast
  qed
  have "settled sys'" by (rule settled_after [OF s run(1,2)]) (simp_all add: run(3,4))
  moreover have "ledger_of sys' = ledger_of sys"
    by (simp add: ledger_of_def account_at_same [OF run(3)] card_at_same [OF run(4)])
  ultimately show ?thesis using run by blast
qed

section \<open>Restoring a snapshot\<close>

abbreviation account_entry :: "account_snapshot list \<Rightarrow> u64 \<Rightarrow> account_snapshot option" where
  "account_entry ss \<equiv> map_of (map (\<lambda>s. (as_account_id s, s)) ss)"

definition card_entry_key :: "card_snapshot \<Rightarrow> card_key" where
  "card_entry_key s = (cs_account_id s, cs_card_id s)"

abbreviation card_entry :: "card_snapshot list \<Rightarrow> card_key \<Rightarrow> card_snapshot option" where
  "card_entry cs \<equiv> map_of (map (\<lambda>s. (card_entry_key s, s)) cs)"

text \<open>The router's tables and the actors, for a router that is about to be installed.\<close>

definition router_matches :: "actor_router \<Rightarrow> actor_system \<Rightarrow> bool" where
  "router_matches rt sys \<longleftrightarrow>
     hm_get (rt_accounts rt) = (\<lambda>a. map_option (\<lambda>_. a) (hm_get (sy_accounts sys) a)) \<and>
     hm_get (rt_cards rt) = (\<lambda>k. map_option (\<lambda>_. k) (hm_get (sy_cards sys) k))"

text \<open>One account or card of the snapshot: it exists afterwards and has been told its new state.\<close>

lemma account_told:
  assumes "router_matches rt sys"
    and "hm_get (sy_accounts sys) a = None \<or> hm_get (sy_accounts sys) a = Some (account_at sys a, [])"
    and "get_or_create_account a rt = (acc, rt', out)"
  shows "let sys' = fold perform_router_output (out @ [TellAccount acc m]) sys in
    hm_get (sy_accounts sys') = (hm_get (sy_accounts sys))(a \<mapsto> (account_at sys a, [m])) \<and>
    router_matches rt' sys' \<and> rt' = rt\<lparr>rt_accounts := rt_accounts rt'\<rparr> \<and>
    sy_cards sys' = sy_cards sys \<and> sy_router sys' = sy_router sys \<and> sy_router_mail sys' = sy_router_mail sys"
proof (cases "hm_get (sy_accounts sys) a")
  case None
  with assms show ?thesis
    by (auto simp: router_matches_def get_or_create_account_def post_account_def account_at_def Let_def fun_eq_iff
        simp del: split_paired_All)
next
  case (Some x)
  with assms show ?thesis
    by (auto simp: router_matches_def get_or_create_account_def post_account_def Let_def fun_eq_iff
        simp del: split_paired_All)
qed

lemma card_told:
  assumes "router_matches rt sys" and "hm_get (sy_accounts sys) a \<noteq> None"
    and "hm_get (sy_cards sys) (a, c) = None \<or> hm_get (sy_cards sys) (a, c) = Some (card_at sys (a, c), [])"
    and "get_or_create_card a c rt = (k, rt', out)"
  shows "let sys' = fold perform_router_output (out @ [TellCard k m]) sys in
    hm_get (sy_cards sys') = (hm_get (sy_cards sys))((a, c) \<mapsto> (card_at sys (a, c), [CardCommand m])) \<and>
    router_matches rt' sys' \<and> rt' = rt\<lparr>rt_cards := rt_cards rt'\<rparr> \<and>
    sy_accounts sys' = sy_accounts sys \<and> sy_router sys' = sy_router sys \<and> sy_router_mail sys' = sy_router_mail sys"
proof (cases "hm_get (sy_cards sys) (a, c)")
  case None
  with assms show ?thesis
    by (auto simp: router_matches_def get_or_create_card_def get_or_create_account_def post_card_def
        card_at_def Let_def fun_eq_iff simp del: split_paired_All split: if_splits)
next
  case (Some x)
  with assms show ?thesis
    by (auto simp: router_matches_def get_or_create_card_def post_card_def Let_def fun_eq_iff
        simp del: split_paired_All split: if_splits)
qed

lemma replace_accounts_run:
  assumes "router_matches rt sys" and "distinct (map as_account_id ss)"
    and "\<forall>s \<in> set ss. hm_get (sy_accounts sys) (as_account_id s) = None \<or>
      hm_get (sy_accounts sys) (as_account_id s) = Some (account_at sys (as_account_id s), [])"
    and "replace_accounts ss rt = (rt', out)"
  shows "let sys' = fold perform_router_output out sys in
    hm_get (sy_accounts sys') = (\<lambda>a. case account_entry ss a of
       Some s \<Rightarrow> Some (account_at sys a, [AccountReplaceState (as_limit s) (as_consumed s)])
     | None \<Rightarrow> hm_get (sy_accounts sys) a) \<and>
    router_matches rt' sys' \<and> rt' = rt\<lparr>rt_accounts := rt_accounts rt'\<rparr> \<and>
    sy_cards sys' = sy_cards sys \<and> sy_router sys' = sy_router sys \<and> sy_router_mail sys' = sy_router_mail sys"
  using assms
proof (induction ss arbitrary: rt rt' sys out)
  case Nil
  then show ?case by simp
next
  case (Cons s ss)
  let ?a = "as_account_id s"
  obtain acc rt1 out1 where g: "get_or_create_account ?a rt = (acc, rt1, out1)" by (metis prod.exhaust)
  obtain rt2 out2 where r: "replace_accounts ss rt1 = (rt2, out2)" by (rule prod.exhaust)
  let ?m = "AccountReplaceState (as_limit s) (as_consumed s)"
  define sys1 where "sys1 = fold perform_router_output (out1 @ [TellAccount acc ?m]) sys"
  have end': "rt' = rt2" "fold perform_router_output out sys = fold perform_router_output out2 sys1"
    using Cons.prems(4) g r by (auto simp: sys1_def)
  have one: "hm_get (sy_accounts sys1) = (hm_get (sy_accounts sys))(?a \<mapsto> (account_at sys ?a, [?m]))"
    "router_matches rt1 sys1" "rt1 = rt\<lparr>rt_accounts := rt_accounts rt1\<rparr>"
    "sy_cards sys1 = sy_cards sys" "sy_router sys1 = sy_router sys" "sy_router_mail sys1 = sy_router_mail sys"
    using account_told [OF Cons.prems(1) _ g, of ?m] Cons.prems(3) by (simp_all add: Let_def sys1_def)
  have same: "account_at sys1 b = account_at sys b" for b
    by (cases "b = ?a") (simp_all add: account_at_def one(1) split: option.split)
  have fresh: "as_account_id t \<noteq> ?a" if "t \<in> set ss" for t
    using Cons.prems(2) that by (auto simp: image_iff)
  have rest: "\<forall>t \<in> set ss. hm_get (sy_accounts sys1) (as_account_id t) = None \<or>
      hm_get (sy_accounts sys1) (as_account_id t) = Some (account_at sys1 (as_account_id t), [])"
  proof
    fix t assume t: "t \<in> set ss"
    from Cons.prems(3) t have "hm_get (sy_accounts sys) (as_account_id t) = None \<or>
      hm_get (sy_accounts sys) (as_account_id t) = Some (account_at sys (as_account_id t), [])" by simp
    then show "hm_get (sy_accounts sys1) (as_account_id t) = None \<or>
      hm_get (sy_accounts sys1) (as_account_id t) = Some (account_at sys1 (as_account_id t), [])"
      by (simp only: one(1) same fun_upd_apply fresh [OF t] if_False)
  qed
  define sys2 where "sys2 = fold perform_router_output out2 sys1"
  have two: "hm_get (sy_accounts sys2) = (\<lambda>a. case account_entry ss a of
       Some s \<Rightarrow> Some (account_at sys1 a, [AccountReplaceState (as_limit s) (as_consumed s)])
     | None \<Rightarrow> hm_get (sy_accounts sys1) a)"
    "router_matches rt2 sys2" "rt2 = rt1\<lparr>rt_accounts := rt_accounts rt2\<rparr>"
    "sy_cards sys2 = sy_cards sys1" "sy_router sys2 = sy_router sys1" "sy_router_mail sys2 = sy_router_mail sys1"
    using Cons.IH [OF one(2) _ rest r] Cons.prems(2) unfolding Let_def sys2_def by simp_all
  have none: "account_entry ss ?a = None"
    using Cons.prems(2) by (simp add: map_of_eq_None_iff image_image)
  have "hm_get (sy_accounts sys2) = (\<lambda>a. case account_entry (s # ss) a of
       Some s \<Rightarrow> Some (account_at sys a, [AccountReplaceState (as_limit s) (as_consumed s)])
     | None \<Rightarrow> hm_get (sy_accounts sys) a)"
    using none by (auto simp: two(1) one(1) same fun_eq_iff split: option.split)
  moreover have "rt2 = rt\<lparr>rt_accounts := rt_accounts rt2\<rparr>"
    by (subst two(3), subst one(3)) simp
  ultimately show ?case
    using two(2,4-6) one(4-6) end' sys2_def by simp
qed

lemma replace_cards_run:
  assumes "router_matches rt sys" and "distinct (map card_entry_key ss)"
    and "\<forall>s \<in> set ss. hm_get (sy_accounts sys) (cs_account_id s) \<noteq> None"
    and "\<forall>s \<in> set ss. hm_get (sy_cards sys) (card_entry_key s) = None \<or>
      hm_get (sy_cards sys) (card_entry_key s) = Some (card_at sys (card_entry_key s), [])"
    and "replace_cards ss rt = (rt', out)"
  shows "let sys' = fold perform_router_output out sys in
    hm_get (sy_cards sys') = (\<lambda>k. case card_entry ss k of
       Some s \<Rightarrow> Some (card_at sys k, [CardCommand (CardReplaceState (cs_limit s) (cs_consumed s))])
     | None \<Rightarrow> hm_get (sy_cards sys) k) \<and>
    router_matches rt' sys' \<and> rt' = rt\<lparr>rt_cards := rt_cards rt'\<rparr> \<and>
    sy_accounts sys' = sy_accounts sys \<and> sy_router sys' = sy_router sys \<and> sy_router_mail sys' = sy_router_mail sys"
  using assms
proof (induction ss arbitrary: rt rt' sys out)
  case Nil
  then show ?case by simp
next
  case (Cons s ss)
  let ?k = "card_entry_key s"
  obtain c rt1 out1 where g: "get_or_create_card (cs_account_id s) (cs_card_id s) rt = (c, rt1, out1)"
    by (metis prod.exhaust)
  obtain rt2 out2 where r: "replace_cards ss rt1 = (rt2, out2)" by (rule prod.exhaust)
  let ?m = "CardReplaceState (cs_limit s) (cs_consumed s)"
  define sys1 where "sys1 = fold perform_router_output (out1 @ [TellCard c ?m]) sys"
  have end': "rt' = rt2" "fold perform_router_output out sys = fold perform_router_output out2 sys1"
    using Cons.prems(5) g r by (auto simp: sys1_def)
  have one: "hm_get (sy_cards sys1) = (hm_get (sy_cards sys))(?k \<mapsto> (card_at sys ?k, [CardCommand ?m]))"
    "router_matches rt1 sys1" "rt1 = rt\<lparr>rt_cards := rt_cards rt1\<rparr>"
    "sy_accounts sys1 = sy_accounts sys" "sy_router sys1 = sy_router sys" "sy_router_mail sys1 = sy_router_mail sys"
    using card_told [OF Cons.prems(1) _ _ g, of ?m] Cons.prems(3,4)
    by (simp_all add: Let_def sys1_def card_entry_key_def)
  have same: "card_at sys1 b = card_at sys b" for b
    by (cases "b = ?k") (simp_all add: card_at_def one(1) split: option.split)
  have fresh: "card_entry_key t \<noteq> ?k" if "t \<in> set ss" for t
    using Cons.prems(2) that by (auto simp: image_iff)
  have rest: "\<forall>t \<in> set ss. hm_get (sy_cards sys1) (card_entry_key t) = None \<or>
      hm_get (sy_cards sys1) (card_entry_key t) = Some (card_at sys1 (card_entry_key t), [])"
  proof
    fix t assume t: "t \<in> set ss"
    from Cons.prems(4) t have "hm_get (sy_cards sys) (card_entry_key t) = None \<or>
      hm_get (sy_cards sys) (card_entry_key t) = Some (card_at sys (card_entry_key t), [])" by simp
    then show "hm_get (sy_cards sys1) (card_entry_key t) = None \<or>
      hm_get (sy_cards sys1) (card_entry_key t) = Some (card_at sys1 (card_entry_key t), [])"
      by (simp only: one(1) same fun_upd_apply fresh [OF t] if_False)
  qed
  have accounts: "\<forall>t \<in> set ss. hm_get (sy_accounts sys1) (cs_account_id t) \<noteq> None"
    using Cons.prems(3) by (simp add: one(4))
  define sys2 where "sys2 = fold perform_router_output out2 sys1"
  have two: "hm_get (sy_cards sys2) = (\<lambda>k. case card_entry ss k of
       Some s \<Rightarrow> Some (card_at sys1 k, [CardCommand (CardReplaceState (cs_limit s) (cs_consumed s))])
     | None \<Rightarrow> hm_get (sy_cards sys1) k)"
    "router_matches rt2 sys2" "rt2 = rt1\<lparr>rt_cards := rt_cards rt2\<rparr>"
    "sy_accounts sys2 = sy_accounts sys1" "sy_router sys2 = sy_router sys1" "sy_router_mail sys2 = sy_router_mail sys1"
    using Cons.IH [OF one(2) _ accounts rest r] Cons.prems(2) unfolding Let_def sys2_def by simp_all
  have none: "card_entry ss ?k = None"
    using Cons.prems(2) by (simp add: map_of_eq_None_iff image_image)
  have "hm_get (sy_cards sys2) = (\<lambda>k. case card_entry (s # ss) k of
       Some s \<Rightarrow> Some (card_at sys k, [CardCommand (CardReplaceState (cs_limit s) (cs_consumed s))])
     | None \<Rightarrow> hm_get (sy_cards sys) k)"
    using none by (auto simp: two(1) one(1) same fun_eq_iff split: option.split simp del: split_paired_All)
  moreover have "rt2 = rt\<lparr>rt_cards := rt_cards rt2\<rparr>"
    by (subst two(3), subst one(3)) simp
  ultimately show ?case
    using two(2,4-6) one(4-6) end' sys2_def by simp
qed

text \<open>The actors read what they were told.\<close>

lemma accounts_restored:
  assumes "distinct (map as_account_id ss)"
    and "\<forall>s \<in> set ss. hm_get (sy_accounts sys) (as_account_id s) =
      Some (A (as_account_id s), [AccountReplaceState (as_limit s) (as_consumed s)])"
  shows "\<exists>sys'. system_run (map (\<lambda>s. SysDeliver (AccountId (as_account_id s))) ss) sys = Ok sys' \<and>
    sy_router sys' = sy_router sys \<and> sy_cards sys' = sy_cards sys \<and> sy_router_mail sys' = sy_router_mail sys \<and>
    hm_get (sy_accounts sys') = (\<lambda>a. case account_entry ss a of
       Some s \<Rightarrow> Some ((A a)\<lparr>ac_limit := as_limit s, ac_consumed := as_consumed s\<rparr>, [])
     | None \<Rightarrow> hm_get (sy_accounts sys) a)"
  using assms
proof (induction ss arbitrary: sys)
  case Nil
  then show ?case by simp
next
  case (Cons s ss)
  let ?a = "as_account_id s"
  let ?sys = "deliver_account ?a sys"
  let ?acc = "(A ?a)\<lparr>ac_limit := as_limit s, ac_consumed := as_consumed s\<rparr>"
  have p: "hm_get (sy_accounts ?sys) = (hm_get (sy_accounts sys))(?a \<mapsto> (?acc, []))"
    "sy_cards ?sys = sy_cards sys" "sy_router ?sys = sy_router sys" "sy_router_mail ?sys = sy_router_mail sys"
    using Cons.prems(2) by (simp_all add: deliver_account_def)
  have none: "account_entry ss ?a = None"
    using Cons.prems(1) by (simp add: map_of_eq_None_iff image_image)
  have rest: "\<forall>t \<in> set ss. hm_get (sy_accounts ?sys) (as_account_id t) =
      Some (A (as_account_id t), [AccountReplaceState (as_limit t) (as_consumed t)])"
  proof
    fix t assume "t \<in> set ss"
    moreover then have "as_account_id t \<noteq> ?a" using Cons.prems(1) by (auto simp: image_iff)
    ultimately show "hm_get (sy_accounts ?sys) (as_account_id t) =
      Some (A (as_account_id t), [AccountReplaceState (as_limit t) (as_consumed t)])"
      using Cons.prems(2) by (simp add: p(1))
  qed
  obtain sys' where s': "system_run (map (\<lambda>s. SysDeliver (AccountId (as_account_id s))) ss) ?sys = Ok sys'"
    "sy_router sys' = sy_router ?sys" "sy_cards sys' = sy_cards ?sys" "sy_router_mail sys' = sy_router_mail ?sys"
    "hm_get (sy_accounts sys') = (\<lambda>a. case account_entry ss a of
       Some s \<Rightarrow> Some ((A a)\<lparr>ac_limit := as_limit s, ac_consumed := as_consumed s\<rparr>, [])
     | None \<Rightarrow> hm_get (sy_accounts ?sys) a)"
    using Cons.IH [OF _ rest] Cons.prems(1) by auto
  have "hm_get (sy_accounts sys') = (\<lambda>a. case account_entry (s # ss) a of
       Some s \<Rightarrow> Some ((A a)\<lparr>ac_limit := as_limit s, ac_consumed := as_consumed s\<rparr>, [])
     | None \<Rightarrow> hm_get (sy_accounts sys) a)"
    using none by (auto simp: s'(5) p(1) fun_eq_iff split: option.split)
  with s'(1-4) show ?case by (simp add: p(2-4))
qed

lemma cards_restored:
  assumes "distinct (map card_entry_key ss)"
    and "\<forall>s \<in> set ss. hm_get (sy_cards sys) (card_entry_key s) =
      Some (C (card_entry_key s), [CardCommand (CardReplaceState (cs_limit s) (cs_consumed s))])"
  shows "\<exists>sys'. system_run (map (\<lambda>s. SysDeliver (CardId (card_entry_key s))) ss) sys = Ok sys' \<and>
    sy_router sys' = sy_router sys \<and> sy_accounts sys' = sy_accounts sys \<and> sy_router_mail sys' = sy_router_mail sys \<and>
    hm_get (sy_cards sys') = (\<lambda>k. case card_entry ss k of
       Some s \<Rightarrow> Some ((C k)\<lparr>ca_limit := cs_limit s, ca_consumed := cs_consumed s,
                       ca_current_task := None, ca_queue := []\<rparr>, [])
     | None \<Rightarrow> hm_get (sy_cards sys) k)"
  using assms
proof (induction ss arbitrary: sys)
  case Nil
  then show ?case by simp
next
  case (Cons s ss)
  let ?k = "card_entry_key s"
  let ?sys = "deliver_card ?k sys"
  let ?self = "(C ?k)\<lparr>ca_limit := cs_limit s, ca_consumed := cs_consumed s, ca_current_task := None, ca_queue := []\<rparr>"
  have p: "hm_get (sy_cards ?sys) = (hm_get (sy_cards sys))(?k \<mapsto> (?self, []))"
    "sy_accounts ?sys = sy_accounts sys" "sy_router ?sys = sy_router sys" "sy_router_mail ?sys = sy_router_mail sys"
    using Cons.prems(2) by (simp_all add: deliver_card_def)
  have none: "card_entry ss ?k = None"
    using Cons.prems(1) by (simp add: map_of_eq_None_iff image_image)
  have rest: "\<forall>t \<in> set ss. hm_get (sy_cards ?sys) (card_entry_key t) =
      Some (C (card_entry_key t), [CardCommand (CardReplaceState (cs_limit t) (cs_consumed t))])"
  proof
    fix t assume "t \<in> set ss"
    moreover then have "card_entry_key t \<noteq> ?k" using Cons.prems(1) by (auto simp: image_iff)
    ultimately show "hm_get (sy_cards ?sys) (card_entry_key t) =
      Some (C (card_entry_key t), [CardCommand (CardReplaceState (cs_limit t) (cs_consumed t))])"
      using Cons.prems(2) by (simp add: p(1))
  qed
  obtain sys' where s': "system_run (map (\<lambda>s. SysDeliver (CardId (card_entry_key s))) ss) ?sys = Ok sys'"
    "sy_router sys' = sy_router ?sys" "sy_accounts sys' = sy_accounts ?sys" "sy_router_mail sys' = sy_router_mail ?sys"
    "hm_get (sy_cards sys') = (\<lambda>k. case card_entry ss k of
       Some s \<Rightarrow> Some ((C k)\<lparr>ca_limit := cs_limit s, ca_consumed := cs_consumed s,
                       ca_current_task := None, ca_queue := []\<rparr>, [])
     | None \<Rightarrow> hm_get (sy_cards ?sys) k)"
    using Cons.IH [OF _ rest] Cons.prems(1) by auto
  have "hm_get (sy_cards sys') = (\<lambda>k. case card_entry (s # ss) k of
       Some s \<Rightarrow> Some ((C k)\<lparr>ca_limit := cs_limit s, ca_consumed := cs_consumed s,
                       ca_current_task := None, ca_queue := []\<rparr>, [])
     | None \<Rightarrow> hm_get (sy_cards sys) k)"
    using none by (auto simp: s'(5) p(1) fun_eq_iff split: option.split simp del: split_paired_All)
  with s'(1-4) show ?case by (simp add: p(2-4))
qed

text \<open>What a snapshot makes of a ledger: the rows it holds replace the old ones, the others stay.\<close>

definition restored :: "database_snapshot \<Rightarrow> ledger \<Rightarrow> ledger" where
  "restored d lg =
     \<lparr>lg_accounts = (\<lambda>a. case account_entry (ds_accounts d) a of
        Some s \<Rightarrow> (as_limit s, as_consumed s) | None \<Rightarrow> lg_accounts lg a),
      lg_cards = (\<lambda>k. case card_entry (ds_cards d) k of
        Some s \<Rightarrow> (cs_limit s, cs_consumed s) | None \<Rightarrow> lg_cards lg k)\<rparr>"

definition snapshot_wf :: "database_snapshot \<Rightarrow> bool" where
  "snapshot_wf d \<longleftrightarrow> distinct (map as_account_id (ds_accounts d)) \<and>
     distinct (map card_entry_key (ds_cards d)) \<and>
     (\<forall>c \<in> set (ds_cards d). cs_account_id c \<in> as_account_id ` set (ds_accounts d))"

definition restore_schedule :: "database_snapshot \<Rightarrow> system_event list" where
  "restore_schedule d = [SysDeliver RouterId] @
     map (\<lambda>s. SysDeliver (AccountId (as_account_id s))) (ds_accounts d) @
     map (\<lambda>s. SysDeliver (CardId (card_entry_key s))) (ds_cards d)"

lemma account_entry_id: "account_entry ss a = Some s \<Longrightarrow> s \<in> set ss \<and> as_account_id s = a"
  by (auto dest!: map_of_SomeD)

lemma account_entry_in:
  "distinct (map as_account_id ss) \<Longrightarrow> s \<in> set ss \<Longrightarrow> account_entry ss (as_account_id s) = Some s"
  by (rule map_of_is_SomeI) (auto simp: comp_def)

lemma card_entry_in:
  "distinct (map card_entry_key ss) \<Longrightarrow> s \<in> set ss \<Longrightarrow> card_entry ss (card_entry_key s) = Some s"
  by (rule map_of_is_SomeI) (auto simp: comp_def)

lemma router_restores:
  assumes s: "settled sys" and room: "rt_events_open (sy_router sys)" "length (rt_events (sy_router sys)) < 128"
    and wf: "snapshot_wf d"
  shows "\<exists>sys1. system_run [SysSend i (ReplaceDatabase d), SysDeliver RouterId] sys = Ok sys1 \<and>
    sy_router_mail sys1 = [] \<and>
    hm_get (sy_accounts sys1) = (\<lambda>a. case account_entry (ds_accounts d) a of
       Some s \<Rightarrow> Some (account_at sys a, [AccountReplaceState (as_limit s) (as_consumed s)])
     | None \<Rightarrow> hm_get (sy_accounts sys) a) \<and>
    hm_get (sy_cards sys1) = (\<lambda>k. case card_entry (ds_cards d) k of
       Some s \<Rightarrow> Some (card_at sys k, [CardCommand (CardReplaceState (cs_limit s) (cs_consumed s))])
     | None \<Rightarrow> hm_get (sy_cards sys) k) \<and>
    rt_events (sy_router sys1) = rt_events (sy_router sys) @
      [OperationResult i (ReplaceDatabase d) ResReplaceDatabase True None] \<and>
    rt_events_open (sy_router sys1)"
proof -
  have ok: "system_ok sys" and mail: "sy_router_mail sys = []" using s by (simp_all add: settled_def)
  let ?rt = "(sy_router sys)\<lparr>rt_operations := hm_insert i (ReplaceDatabase d) (rt_operations (sy_router sys))\<rparr>"
  obtain rt1 out1 where r1: "replace_accounts (ds_accounts d) ?rt = (rt1, out1)" by (rule prod.exhaust)
  obtain rt2 out2 where r2: "replace_cards (ds_cards d) rt1 = (rt2, out2)" by (rule prod.exhaust)
  let ?ev = "OperationResult i (ReplaceDatabase d) ResReplaceDatabase True None"
  define sys0 where "sys0 = sys\<lparr>sy_router := emit ?ev rt2, sy_router_mail := []\<rparr>"
  define sysa where "sysa = fold perform_router_output out1 sys0"
  define sysb where "sysb = fold perform_router_output out2 sysa"
  have run: "system_run [SysSend i (ReplaceDatabase d), SysDeliver RouterId] sys = Ok sysb"
    using r1 r2 mail
    by (simp add: database_send_def post_router_def deliver_router_def execute_replace_database_def
        sysb_def sysa_def sys0_def)
  have same0: "account_at sys0 = account_at sys" "card_at sys0 = card_at sys"
    by (rule account_at_same card_at_same, simp add: sys0_def)+
  have m0: "router_matches ?rt sys0"
    by (auto simp: router_matches_def sys0_def router_account [OF ok] router_card [OF ok] fun_eq_iff
        simp del: split_paired_All)
  have q0: "\<forall>s \<in> set (ds_accounts d). hm_get (sy_accounts sys0) (as_account_id s) = None \<or>
      hm_get (sy_accounts sys0) (as_account_id s) = Some (account_at sys0 (as_account_id s), [])"
    using settled_account [OF s] by (simp add: same0) (simp add: sys0_def)
  have init: "sy_accounts sys0 = sy_accounts sys" "sy_cards sys0 = sy_cards sys"
    "sy_router sys0 = emit ?ev rt2" "sy_router_mail sys0 = []" by (simp_all add: sys0_def)
  have "distinct (map as_account_id (ds_accounts d))" using wf by (simp add: snapshot_wf_def)
  note accounts = replace_accounts_run [OF m0 this q0 r1, unfolded Let_def, folded sysa_def, unfolded same0 init]
  have A: "hm_get (sy_accounts sysa) = (\<lambda>a. case account_entry (ds_accounts d) a of
       Some s \<Rightarrow> Some (account_at sys a, [AccountReplaceState (as_limit s) (as_consumed s)])
     | None \<Rightarrow> hm_get (sy_accounts sys) a)"
    "router_matches rt1 sysa" "rt1 = ?rt\<lparr>rt_accounts := rt_accounts rt1\<rparr>"
    "sy_cards sysa = sy_cards sys" "sy_router sysa = emit ?ev rt2" "sy_router_mail sysa = []"
    using accounts by - (elim conjE, assumption)+
  have sameA: "card_at sysa = card_at sys" by (rule card_at_same) (simp add: A(4))
  have acc: "\<forall>s \<in> set (ds_cards d). hm_get (sy_accounts sysa) (cs_account_id s) \<noteq> None"
  proof
    fix c assume "c \<in> set (ds_cards d)"
    then obtain a where a: "a \<in> set (ds_accounts d)" "cs_account_id c = as_account_id a"
      using wf by (auto simp: snapshot_wf_def)
    then have "account_entry (ds_accounts d) (cs_account_id c) = Some a"
      using wf account_entry_in by (simp add: snapshot_wf_def)
    then show "hm_get (sy_accounts sysa) (cs_account_id c) \<noteq> None" by (simp add: A(1))
  qed
  have crd: "\<forall>s \<in> set (ds_cards d). hm_get (sy_cards sysa) (card_entry_key s) = None \<or>
      hm_get (sy_cards sysa) (card_entry_key s) = Some (card_at sysa (card_entry_key s), [])"
    using settled_card [OF s] by (simp add: sameA A(4))
  have "distinct (map card_entry_key (ds_cards d))" using wf by (simp add: snapshot_wf_def)
  note cards = replace_cards_run [OF A(2) this acc crd r2, unfolded Let_def, folded sysb_def, unfolded sameA A(4)]
  have B: "hm_get (sy_cards sysb) = (\<lambda>k. case card_entry (ds_cards d) k of
       Some s \<Rightarrow> Some (card_at sys k, [CardCommand (CardReplaceState (cs_limit s) (cs_consumed s))])
     | None \<Rightarrow> hm_get (sy_cards sys) k)"
    "rt2 = rt1\<lparr>rt_cards := rt_cards rt2\<rparr>"
    "sy_accounts sysb = sy_accounts sysa" "sy_router sysb = sy_router sysa" "sy_router_mail sysb = sy_router_mail sysa"
    using cards by - (elim conjE, assumption)+
  have "rt_events rt2 = rt_events (sy_router sys)" "rt_events_open rt2 = rt_events_open (sy_router sys)"
    by (subst B(2), simp, subst A(3), simp)+
  with room have "rt_events (sy_router sysb) = rt_events (sy_router sys) @ [?ev] \<and> rt_events_open (sy_router sysb)"
    by (simp add: B(4) A(5) emit_def EVENT_CHANNEL_CAPACITY_def)
  with run A(1,6) B(1,3,5) show ?thesis by (intro exI [of _ sysb]) simp
qed

lemma database_restored:
  assumes s: "settled sys" and room: "rt_events_open (sy_router sys)" "length (rt_events (sy_router sys)) < 128"
    and wf: "snapshot_wf d"
  shows "\<exists>sys'. system_run (SysSend i (ReplaceDatabase d) # restore_schedule d) sys = Ok sys' \<and>
    settled sys' \<and> ledger_of sys' = restored d (ledger_of sys) \<and>
    rt_events (sy_router sys') = rt_events (sy_router sys) @
      [OperationResult i (ReplaceDatabase d) ResReplaceDatabase True None]"
proof -
  let ?ss = "ds_accounts d" and ?cs = "ds_cards d"
  have dist: "distinct (map as_account_id ?ss)" "distinct (map card_entry_key ?cs)"
    using wf by (simp_all add: snapshot_wf_def)
  obtain sys1 where 1: "system_run [SysSend i (ReplaceDatabase d), SysDeliver RouterId] sys = Ok sys1"
    "sy_router_mail sys1 = []"
    "hm_get (sy_accounts sys1) = (\<lambda>a. case account_entry ?ss a of
       Some s \<Rightarrow> Some (account_at sys a, [AccountReplaceState (as_limit s) (as_consumed s)])
     | None \<Rightarrow> hm_get (sy_accounts sys) a)"
    "hm_get (sy_cards sys1) = (\<lambda>k. case card_entry ?cs k of
       Some s \<Rightarrow> Some (card_at sys k, [CardCommand (CardReplaceState (cs_limit s) (cs_consumed s))])
     | None \<Rightarrow> hm_get (sy_cards sys) k)"
    "rt_events (sy_router sys1) = rt_events (sy_router sys) @
      [OperationResult i (ReplaceDatabase d) ResReplaceDatabase True None]"
    using router_restores [OF s room wf] by blast
  have "\<forall>s \<in> set ?ss. hm_get (sy_accounts sys1) (as_account_id s) =
      Some (account_at sys (as_account_id s), [AccountReplaceState (as_limit s) (as_consumed s)])"
    by (simp add: 1(3) account_entry_in [OF dist(1)])
  from accounts_restored [OF dist(1) this] obtain sys2 where 2:
    "system_run (map (\<lambda>s. SysDeliver (AccountId (as_account_id s))) ?ss) sys1 = Ok sys2"
    "sy_router sys2 = sy_router sys1" "sy_cards sys2 = sy_cards sys1" "sy_router_mail sys2 = sy_router_mail sys1"
    "hm_get (sy_accounts sys2) = (\<lambda>a. case account_entry ?ss a of
       Some s \<Rightarrow> Some ((account_at sys a)\<lparr>ac_limit := as_limit s, ac_consumed := as_consumed s\<rparr>, [])
     | None \<Rightarrow> hm_get (sy_accounts sys1) a)" by blast
  have "\<forall>s \<in> set ?cs. hm_get (sy_cards sys2) (card_entry_key s) =
      Some (card_at sys (card_entry_key s), [CardCommand (CardReplaceState (cs_limit s) (cs_consumed s))])"
    by (simp add: 2(3) 1(4) card_entry_in [OF dist(2)])
  from cards_restored [OF dist(2) this] obtain sys3 where 3:
    "system_run (map (\<lambda>s. SysDeliver (CardId (card_entry_key s))) ?cs) sys2 = Ok sys3"
    "sy_router sys3 = sy_router sys2" "sy_accounts sys3 = sy_accounts sys2" "sy_router_mail sys3 = sy_router_mail sys2"
    "hm_get (sy_cards sys3) = (\<lambda>k. case card_entry ?cs k of
       Some s \<Rightarrow> Some ((card_at sys k)\<lparr>ca_limit := cs_limit s, ca_consumed := cs_consumed s,
                       ca_current_task := None, ca_queue := []\<rparr>, [])
     | None \<Rightarrow> hm_get (sy_cards sys2) k)" by blast
  have "SysSend i (ReplaceDatabase d) # restore_schedule d = [SysSend i (ReplaceDatabase d), SysDeliver RouterId] @
      map (\<lambda>s. SysDeliver (AccountId (as_account_id s))) ?ss @ map (\<lambda>s. SysDeliver (CardId (card_entry_key s))) ?cs"
    by (simp add: restore_schedule_def)
  then have run: "system_run (SysSend i (ReplaceDatabase d) # restore_schedule d) sys = Ok sys3"
    by (simp only: system_run_append 1(1) 2(1) 3(1) and_then.simps)
  have accs: "hm_get (sy_accounts sys3) = (\<lambda>a. case account_entry ?ss a of
       Some s \<Rightarrow> Some ((account_at sys a)\<lparr>ac_limit := as_limit s, ac_consumed := as_consumed s\<rparr>, [])
     | None \<Rightarrow> hm_get (sy_accounts sys) a)"
    by (simp add: 3(3) 2(5) 1(3) fun_eq_iff split: option.split)
  have cards: "hm_get (sy_cards sys3) = (\<lambda>k. case card_entry ?cs k of
       Some s \<Rightarrow> Some ((card_at sys k)\<lparr>ca_limit := cs_limit s, ca_consumed := cs_consumed s,
                       ca_current_task := None, ca_queue := []\<rparr>, [])
     | None \<Rightarrow> hm_get (sy_cards sys) k)"
    by (simp add: 3(5) 2(3) 1(4) fun_eq_iff split: option.split del: split_paired_All)
  have "settled sys3"
  proof (rule settled_after [OF s run])
    show "sy_router_mail sys3 = []" by (simp add: 3(4) 2(4) 1(2))
    show "m = [] \<or> hm_get (sy_accounts sys) a = Some (acc, m)"
      if "hm_get (sy_accounts sys3) a = Some (acc, m)" for a acc m
      using that by (auto simp: accs split: option.splits)
    show "m = [] \<and> ca_current_task self = None \<and> ca_queue self = [] \<or> hm_get (sy_cards sys) k = Some (self, m)"
      if "hm_get (sy_cards sys3) k = Some (self, m)" for k self m
      using that by (auto simp: cards split: option.splits)
  qed
  moreover have "account_at sys3 a = (case account_entry ?ss a of
      Some s \<Rightarrow> (account_at sys a)\<lparr>ac_limit := as_limit s, ac_consumed := as_consumed s\<rparr> | None \<Rightarrow> account_at sys a)" for a
    by (simp add: account_at_def [of sys3] accs account_at_def [of sys a] split: option.split)
  moreover have "card_at sys3 k = (case card_entry ?cs k of
      Some s \<Rightarrow> (card_at sys k)\<lparr>ca_limit := cs_limit s, ca_consumed := cs_consumed s,
                       ca_current_task := None, ca_queue := []\<rparr> | None \<Rightarrow> card_at sys k)" for k
    by (simp add: card_at_def [of sys3] cards card_at_def [of sys k] split: option.split)
  ultimately have "settled sys3 \<and> ledger_of sys3 = restored d (ledger_of sys)"
    by (simp add: ledger_of_def restored_def fun_eq_iff split: option.split del: split_paired_All)
  with run 1(5) show ?thesis by (simp add: 3(2) 2(2))
qed

section \<open>The copy a replica gets\<close>

text \<open>Limits as the peer reads them: the sentinel is no limit.\<close>

definition as_read :: "ledger \<Rightarrow> ledger" where
  "as_read lg = \<lparr>lg_accounts = (\<lambda>a. map_prod limit_image id (lg_accounts lg a)),
                 lg_cards = (\<lambda>k. map_prod limit_image id (lg_cards lg k))\<rparr>"

lemma snapshot_fields:
  assumes s: "settled sys"
  shows "ac_account_id (account_at sys a) = a" and "card_entry_key (card_snap (card_at sys k)) = k"
proof -
  show "ac_account_id (account_at sys a) = a"
  proof (cases "hm_get (sy_accounts sys) a")
    case (Some x)
    then show ?thesis
      using s actors_okD(1) [of "{}" sys a] by (cases x) (auto simp: account_at_def settled_def system_ok_def)
  qed (simp add: account_at_def account_new_def)
  show "card_entry_key (card_snap (card_at sys k)) = k"
    using card_at_fields [OF s, of k] by (simp add: card_entry_key_def card_snap_def)
qed

lemma snapshot_of_wf: "settled sys \<Longrightarrow> snapshot_wf (database_image (snapshot_of addr sys))"
proof -
  assume s: "settled sys"
  note T = router_tables [OF s] and F = snapshot_fields [OF s]
  have key: "card_entry_key (card_snapshot_image c) = card_entry_key c" for c
    by (simp add: card_entry_key_def card_snapshot_image_def)
  have "map as_account_id (ds_accounts (database_image (snapshot_of addr sys))) = hm_keys (rt_accounts (sy_router sys))"
    by (simp add: database_image_def snapshot_of_def account_snap_def account_snapshot_image_def F comp_def)
  moreover have "map card_entry_key (ds_cards (database_image (snapshot_of addr sys))) = hm_keys (rt_cards (sy_router sys))"
    by (simp add: database_image_def snapshot_of_def key F comp_def)
  moreover have "fst k \<in> set (hm_keys (rt_accounts (sy_router sys)))" if "k \<in> set (hm_keys (rt_cards (sy_router sys)))" for k
    using that card_has_account [of sys k] s by (simp add: T(5,6) settled_def)
  moreover have "cs_account_id (card_snapshot_image (card_snap (card_at sys k))) = fst k" for k
    using card_at_fields(1) [OF s, of k] by (simp add: card_snapshot_image_def card_snap_def)
  ultimately show ?thesis
    using T(3,4) unfolding snapshot_wf_def set_map [symmetric]
    by (auto simp: database_image_def snapshot_of_def)
qed

lemma map_of_key_list:
  "map_of (map (\<lambda>k. (k, f k)) ks) k = (if k \<in> set ks then Some (f k) else None)"
  by (induction ks) auto

lemma restored_snapshot:
  assumes s: "settled sys"
  shows "restored (database_image (snapshot_of addr sys)) (ledger_of system_new) = as_read (ledger_of sys)"
proof -
  note T = router_tables [OF s] and F = snapshot_fields [OF s]
  let ?d = "database_image (snapshot_of addr sys)"
  have key: "card_entry_key (card_snapshot_image c) = card_entry_key c" for c
    by (simp add: card_entry_key_def card_snapshot_image_def)
  have accs: "account_entry (ds_accounts ?d) a = (if hm_get (sy_accounts sys) a = None then None
      else Some (account_snapshot_image (account_snap (account_at sys a))))" for a
    using map_of_key_list [of "\<lambda>a. account_snapshot_image (account_snap (account_at sys a))"
        "hm_keys (rt_accounts (sy_router sys))" a] T(5) [of a]
    by (simp add: database_image_def snapshot_of_def comp_def account_snapshot_image_def account_snap_def F)
  have cards: "card_entry (ds_cards ?d) k = (if hm_get (sy_cards sys) k = None then None
      else Some (card_snapshot_image (card_snap (card_at sys k))))" for k
    using map_of_key_list [of "\<lambda>k. card_snapshot_image (card_snap (card_at sys k))"
        "hm_keys (rt_cards (sy_router sys))" k] T(6) [of k]
    by (simp add: database_image_def snapshot_of_def comp_def key F(2))
  have new: "ledger_of system_new = \<lparr>lg_accounts = (\<lambda>a. (None, 0)), lg_cards = (\<lambda>k. (None, 0))\<rparr>"
    by (simp add: ledger_of_def account_at_def card_at_def system_new_def account_new_def card_new_def)
  have "account_at sys a = account_new a" if "hm_get (sy_accounts sys) a = None" for a
    using that by (simp add: account_at_def)
  moreover have "card_at sys k = card_new (snd k) (fst k)" if "hm_get (sy_cards sys) k = None" for k
    using that by (simp add: card_at_def)
  moreover have "limit_image None = None" by (simp add: limit_image_def)
  ultimately show ?thesis
    unfolding restored_def as_read_def new accs cards
    by (auto simp: ledger_of_def account_snapshot_image_def account_snap_def card_snapshot_image_def
        card_snap_def account_new_def card_new_def fun_eq_iff simp del: split_paired_All)
qed

lemma send_elections_db: "nw_db (fst (send_elections i m c b w)) = nw_db w"
proof (induction c arbitrary: b w)
  case (Cons p c)
  obtain j a where p: "p = (j, a)" by (rule prod.exhaust)
  obtain w1 r where n: "net_send m a w = (w1, r)" by (rule prod.exhaust)
  have "nw_db w1 = nw_db w" using only_sent_fields(1) [OF net_send_only [OF n]] .
  then show ?case
    using Cons.IH p n by (cases "(w1, r)" rule: ignore_error.cases) auto
qed simp

lemma announce_db: "nw_db (fst (announce_to_peers i m c w)) = nw_db w"
proof (induction c arbitrary: w)
  case (Cons p c)
  obtain j a where p: "p = (j, a)" by (rule prod.exhaust)
  obtain w1 r where n: "net_send m a w = (w1, r)" by (rule prod.exhaust)
  have "nw_db w1 = nw_db w" using only_sent_fields(1) [OF net_send_only [OF n]] .
  then show ?case
    using Cons.IH p n by (cases "(w1, r)" rule: ignore_error.cases) auto
qed simp

lemma election_db: "nw_db (snd (fst (replica_start_election (self, w)))) = nw_db w"
proof -
  obtain w1 r where e: "send_elections (rp_id self) (Election (rp_id self) (rp_address self)) (rp_cluster self) False w = (w1, r)"
    by (rule prod.exhaust)
  have w1: "nw_db w1 = nw_db w"
    using send_elections_db [of "rp_id self" _ "rp_cluster self" False w] e by (metis fst_conv)
  have "nw_db (snd (fst (replica_anounce_coordinator (self', w1)))) = nw_db w1" for self'
  proof -
    obtain w2 r2 where "announce_to_peers (rp_id self') (Coordinator (rp_id self') (rp_address self')) (rp_cluster self') w1 = (w2, r2)"
      by (rule prod.exhaust)
    then show ?thesis
      using announce_db [of "rp_id self'" "Coordinator (rp_id self') (rp_address self')" "rp_cluster self'" w1]
      by (cases r2) (simp_all add: replica_anounce_coordinator_def replica_handle_coordinator_def on_world_def Let_def)
  qed
  with e w1 show ?thesis
    by (cases r) (auto simp: replica_start_election_def on_world_def)
qed

lemma view_read_db:
  "nw_db (snd (fst (replica_handle_cluster_view hash members leader_addr d (self, u)))) =
     database_send 0 (ReplaceDatabase d) (nw_db u)"
  using election_db [of "self\<lparr>rp_cluster := cluster_of members, rp_leader_addr := leader_addr\<rparr>"
      "db_send 0 (ReplaceDatabase d) u"]
  by (simp add: replica_handle_cluster_view_def db_send_def Let_def)

lemma join_db:
  "nw_db (snd (fst (leader_handle_join hash addr (l, v)))) = database_send 0 (GetDatabase addr) (nw_db v)"
proof -
  have "nw_db (fst (send_cluster_update a b msg addrs w)) = nw_db w" for a b msg addrs w
  proof (induction addrs arbitrary: w)
    case (Cons c addrs)
    obtain w1 r where n: "net_send msg c w = (w1, r)" by (rule prod.exhaust)
    have "nw_db w1 = nw_db w" using only_sent_fields(1) [OF net_send_only [OF n]] .
    then show ?case using Cons.IH n by (cases r) simp_all
  qed simp
  then show ?thesis by (simp add: leader_handle_join_def db_send_def Let_def)
qed


text \<open>A database with one account, limited by the sentinel, and one card.\<close>

definition sample_db :: actor_system where
  "sample_db =
     \<lparr>sy_router = router_new\<lparr>rt_accounts := [(1, 1)], rt_cards := [((1, 10), (1, 10))]\<rparr>, sy_router_mail = [],
      sy_accounts = [(1, (account_new 1)\<lparr>ac_limit := Some NO_LIMIT, ac_consumed := f32_one\<rparr>, [])],
      sy_cards = [((1, 10), (card_new 10 1)\<lparr>ca_consumed := f32_one\<rparr>, [])]\<rparr>"

lemma sample_db_settled: "settled sample_db"
proof -
  have a: "hm_get (sy_accounts sample_db) = [1 \<mapsto> ((account_new 1)\<lparr>ac_limit := Some NO_LIMIT, ac_consumed := f32_one\<rparr>, [])]"
    and c: "hm_get (sy_cards sample_db) = [(1, 10) \<mapsto> ((card_new 10 1)\<lparr>ca_consumed := f32_one\<rparr>, [])]"
    by (simp_all add: sample_db_def hm_get_def fun_eq_iff)
  have r: "hm_get (rt_accounts (sy_router sample_db)) = [1 \<mapsto> 1]"
    "hm_get (rt_cards (sy_router sample_db)) = [(1, 10) \<mapsto> (1, 10)]"
    by (simp_all add: sample_db_def hm_get_def fun_eq_iff)
  have "actors_ok {} sample_db"
    unfolding actors_ok_def a c
    by (auto simp: account_new_def card_new_def card_state_ok_def card_settled_def own_key_def awaiting_def sample_db_def)
  moreover have "router_maps_wf (sy_router sample_db)"
    by (simp add: router_maps_wf_def hm_wf_def sample_db_def)
  ultimately have "system_ok sample_db"
    unfolding system_ok_def router_keys_ok_def known_accounts_def known_cards_def a c r by auto
  then show ?thesis
    unfolding settled_def a c by (auto simp: sample_db_def card_new_def)
qed


section \<open>A replica that joins between two entries\<close>

lemma election_log: "rp_operations (fst (fst (replica_start_election (self, w)))) = rp_operations self"
proof -
  have "rp_operations (fst (fst (replica_anounce_coordinator (self', w')))) = rp_operations self'" for self' w'
  proof -
    obtain w2 r2 where "announce_to_peers (rp_id self') (Coordinator (rp_id self') (rp_address self'))
        (rp_cluster self') w' = (w2, r2)"
      by (rule prod.exhaust)
    then show ?thesis
      by (cases r2) (simp_all add: replica_anounce_coordinator_def replica_handle_coordinator_def on_world_def Let_def)
  qed
  moreover obtain w1 r where "send_elections (rp_id self) (Election (rp_id self) (rp_address self)) (rp_cluster self) False w = (w1, r)"
    by (rule prod.exhaust)
  ultimately show ?thesis
    by (cases r) (auto simp: replica_start_election_def on_world_def)
qed

lemma view_keeps_log:
  "rp_operations (fst (fst (replica_handle_cluster_view hash members leader_addr d (self, u)))) = rp_operations self"
  using election_log [of "self\<lparr>rp_cluster := cluster_of members, rp_leader_addr := leader_addr\<rparr>"]
  by (simp add: replica_handle_cluster_view_def Let_def)

lemma join_keeps_operations:
  "ld_operations (fst (fst (leader_handle_join hash addr (l, v)))) = ld_operations l"
  by (simp add: leader_handle_join_def on_world_def Let_def split_def)

lemma of_nat_u32_ne: "i < 2 ^ 32 \<Longrightarrow> j < 2 ^ 32 \<Longrightarrow> i \<noteq> j \<Longrightarrow> (of_nat i :: u32) \<noteq> of_nat j"
proof
  assume b: "i < 2 ^ 32" "j < 2 ^ 32" "i \<noteq> j" and "(of_nat i :: u32) = of_nat j"
  then have "unat (of_nat i :: u32) = unat (of_nat j :: u32)" by simp
  with b show False by (simp only: unat_of_nat) simp
qed

lemma executes_elem:
  "cmd \<in> set (executes n ops) \<Longrightarrow> \<exists>i op. n \<le> i \<and> i < n + length ops \<and> cmd = RouterCommand (Execute (of_nat i) op)"
proof (induction ops arbitrary: n)
  case (Cons op ops)
  from Cons.prems consider "cmd = RouterCommand (Execute (of_nat n) op)" | "cmd \<in> set (executes (Suc n) ops)" by auto
  then show ?case
  proof cases
    case 2
    from Cons.IH [OF this] show ?thesis by (metis Suc_leD add_Suc add_Suc_right length_Cons)
  qed auto
qed simp

lemma logs_from_gap:
  assumes "1 \<le> n" "n + length ops < 2 ^ 32 - 1" "ops \<noteq> []" "rp_operations self = []"
  shows "\<exists>self' w'. replica_logs (of_nat (Suc n)) ops (self, w) = (self', w') \<and>
    db_mail w' = db_mail w @ executes (Suc n) (butlast ops) \<and> sent w' = sent w"
proof -
  obtain op rest where ops: "ops = op # rest" using assms(3) by (cases ops) auto
  let ?m = "of_nat (Suc n) :: u32"
  have m: "?m \<noteq> 0" "?m \<noteq> 1"
    using of_nat_u32_ne [of "Suc n" 0] of_nat_u32_ne [of "Suc n" 1, unfolded of_nat_1] assms(1,2) by (simp_all del: of_nat_Suc)
  obtain self1 where one: "replica_handle_log ?m op (self, w) = ((self1, w), Ok ())"
    "hm_get (rp_operations self1) ?m = Some op"
    using late_joiner_sends_no_ack [OF m, of self op w] assms(4) by auto
  have l: "1 \<le> Suc n" "Suc n + length rest < 2 ^ 32 - 1" using assms(2) ops by simp_all
  obtain self' w' where "replica_logs (of_nat (Suc (Suc n))) rest (self1, w) = (self', w')"
    "db_mail w' = db_mail w @ executes (Suc n) (butlast (op # rest))" "sent w' = sent w"
    using replica_logs_later [OF l one(2), of w] by auto
  moreover have "?m + 1 = of_nat (Suc (Suc n))" by simp
  ultimately show ?thesis using one(1) ops by (simp only: replica_logs.simps fst_conv) auto
qed


end
