(* ===== verification/ActorProgress.thy ===== *)
theory ActorProgress
  imports ActorSystem
begin

text \<open>
  The database actors come to rest: every schedule that always delivers a message that is there ends
  after a number of deliveries that the state bounds, and then no card is busy. What a message can
  still cause is counted in advance: a task of a card, its charge at the account, the reply and
  the completion; a query, a bill and a snapshot ask every actor the router will know by then.
\<close>

section \<open>What is left to do\<close>

fun card_input_work :: "card_input \<Rightarrow> nat" where
  "card_input_work (CardCommand m) = 5"
| "card_input_work (CardChargeReply r) = 2"

fun account_msg_work :: "account_msg \<Rightarrow> nat" where
  "account_msg_work (ApplyChargeFromCard i x c off k) = 3"
| "account_msg_work m = 2"

definition card_work :: "card_actor \<Rightarrow> nat" where
  "card_work self = (if ca_current_task self = None then 0 else 1) + 4 * length (ca_queue self)"

fun card_output_work :: "card_output \<Rightarrow> nat" where
  "card_output_work (CardToRouter m) = 1"
| "card_output_work (CardToAccount m) = account_msg_work m"

fun account_output_work :: "account_output \<Rightarrow> nat" where
  "account_output_work (AccountToRouter m) = 1"
| "account_output_work (AccountToCard k r) = 2"

fun router_output_work :: "router_output \<Rightarrow> nat" where
  "router_output_work (SpawnAccount a) = 0"
| "router_output_work (SpawnCard k) = 0"
| "router_output_work (TellAccount a m) = 5"
| "router_output_work (TellCard k m) = 5"

text \<open>Something counted over all mailboxes, and over the states of the cards.\<close>

definition accounts_sum :: "(account_msg \<Rightarrow> nat) \<Rightarrow> (u64, account_actor \<times> account_msg list) hash_map \<Rightarrow> nat" where
  "accounts_sum f m = sum_list (map (\<lambda>(a, acc, mail). sum_list (map f mail)) m)"

definition cards_sum :: "(card_actor \<Rightarrow> nat) \<Rightarrow> (card_input \<Rightarrow> nat) \<Rightarrow>
    (card_key, card_actor \<times> card_input list) hash_map \<Rightarrow> nat" where
  "cards_sum g f m = sum_list (map (\<lambda>(k, self, mail). g self + sum_list (map f mail)) m)"

text \<open>The actors a command can create, and how many the router knows at the end.\<close>

fun cmd_room :: "router_input \<Rightarrow> nat" where
  "cmd_room (RouterCommand (Execute i (ReplaceDatabase d))) = 2 * (length (ds_accounts d) + length (ds_cards d))"
| "cmd_room (RouterCommand cmd) = 2"
| "cmd_room (RouterInternal m) = 0"

definition router_size :: "actor_router \<Rightarrow> nat" where
  "router_size rt = hm_len (rt_accounts rt) + hm_len (rt_cards rt)"

definition system_room :: "actor_system \<Rightarrow> nat" where
  "system_room sys = router_size (sy_router sys) + sum_list (map cmd_room (sy_router_mail sys))"

fun router_input_work :: "nat \<Rightarrow> router_input \<Rightarrow> nat" where
  "router_input_work room (RouterCommand cmd) = 10 * room + 6"
| "router_input_work room (RouterInternal m) = 1"

definition actors_work :: "actor_system \<Rightarrow> nat" where
  "actors_work sys = accounts_sum account_msg_work (sy_accounts sys) + cards_sum card_work card_input_work (sy_cards sys)"

definition system_work :: "actor_system \<Rightarrow> nat" where
  "system_work sys =
     sum_list (map (router_input_work (system_room sys)) (sy_router_mail sys)) + actors_work sys"

section \<open>The handlers do less than they were asked\<close>

lemma start_finish_work:
  "card_work (fst (start_current_task self)) + sum_list (map card_output_work (snd (start_current_task self)))
     \<le> 4 + 4 * length (ca_queue self)"
  "card_work (fst (finish_current_task i b e self)) +
     sum_list (map card_output_work (snd (finish_current_task i b e self))) \<le> 1 + 4 * length (ca_queue self)"
  by (rule start_finish_induct [where
      P = "\<lambda>s r. card_work (fst r) + sum_list (map card_output_work (snd r)) \<le> 4 + 4 * length (ca_queue s)" and
      Q = "\<lambda>i b e s r. card_work (fst r) + sum_list (map card_output_work (snd r)) \<le> 1 + 4 * length (ca_queue s)"];
    simp add: card_work_def)+

lemma card_handle_work:
  "card_work (fst (card_handle m self)) + sum_list (map card_output_work (snd (card_handle m self)))
     < card_input_work m + card_work self"
proof (cases m)
  case (CardCommand c)
  have submit: "card_work (fst (submit_task t self)) + sum_list (map card_output_work (snd (submit_task t self)))
      < 5 + card_work self" for t
    using start_finish_work(1) [of "self\<lparr>ca_current_task := Some t\<rparr>"]
    by (simp add: submit_task_def card_work_def)
  have "card_work (self\<lparr>ca_consumed := x\<rparr>) = card_work self" "card_work (self\<lparr>ca_limit := l, ca_consumed := x,
      ca_current_task := None, ca_queue := []\<rparr>) = 0" for x l
    by (simp_all add: card_work_def)
  with submit CardCommand show ?thesis by (cases c) auto
next
  case (CardChargeReply r)
  have "card_work (fst (finish_current_task (re_op_id r) (re_success r) (re_error r) s)) +
      sum_list (map card_output_work (snd (finish_current_task (re_op_id r) (re_success r) (re_error r) s)))
      < 2 + card_work self"
    if "ca_current_task self \<noteq> None" "ca_queue s = ca_queue self" for s
    using start_finish_work(2) [of "re_op_id r" "re_success r" "re_error r" s] that
    by (simp add: card_work_def)
  with CardChargeReply show ?thesis
    by (auto simp: card_handle_reply_def split: option.split card_task.split)
qed

lemma account_handle_work:
  "sum_list (map account_output_work (snd (account_handle m acc))) < account_msg_work m"
  by (cases m) (auto simp: account_handler_defs Let_def split: option.split sum.split failure.split)


section \<open>Posting a message\<close>

lemma sum_update:
  "map_of m k = Some v \<Longrightarrow> sum_list (map g (AList.update k v' m)) + g (k, v) = sum_list (map g m) + (g (k, v') :: nat)"
  "map_of m k = None \<Longrightarrow> sum_list (map g (AList.update k v' m)) = sum_list (map g m) + g (k, v')"
  by (induction m) (auto split: if_splits)

lemma length_update_le: "length (AList.update k v m) \<le> Suc (length m)"
  by (induction m) auto

lemma accounts_sum_insert:
  "hm_get m a = Some (acc, mail) \<Longrightarrow>
     accounts_sum f (hm_insert a (acc', mail') m) + sum_list (map f mail) = accounts_sum f m + sum_list (map f mail')"
  "hm_get m a = None \<Longrightarrow> accounts_sum f (hm_insert a (acc', mail') m) = accounts_sum f m + sum_list (map f mail')"
  using sum_update(1) [of m a "(acc, mail)" "\<lambda>(a, acc, mail). sum_list (map f mail)" "(acc', mail')"]
    sum_update(2) [of m a "\<lambda>(a, acc, mail). sum_list (map f mail)" "(acc', mail')"]
  by (auto simp: accounts_sum_def hm_get_def hm_insert_def)

lemma cards_sum_insert:
  "hm_get m k = Some (self, mail) \<Longrightarrow> cards_sum g f (hm_insert k (self', mail') m) + (g self + sum_list (map f mail)) =
     cards_sum g f m + (g self' + sum_list (map f mail'))"
  "hm_get m k = None \<Longrightarrow>
     cards_sum g f (hm_insert k (self', mail') m) = cards_sum g f m + (g self' + sum_list (map f mail'))"
  using sum_update(1) [of m k "(self, mail)" "\<lambda>(k, self, mail). g self + sum_list (map f mail)" "(self', mail')"]
    sum_update(2) [of m k "\<lambda>(k, self, mail). g self + sum_list (map f mail)" "(self', mail')"]
  by (auto simp: cards_sum_def hm_get_def hm_insert_def)

lemma spawn_work:
  "accounts_sum f (hm_insert a (account_new a, []) m) \<le> accounts_sum f m"
  "cards_sum card_work h (hm_insert k (card_new c b, []) n) \<le> cards_sum card_work h n"
proof -
  show "accounts_sum f (hm_insert a (account_new a, []) m) \<le> accounts_sum f m"
  proof (cases "hm_get m a")
    case (Some p)
    then show ?thesis using accounts_sum_insert(1) [of m a "fst p" "snd p" f "account_new a" "[]"] by simp
  qed (simp add: accounts_sum_insert(2))
  have z: "card_work (card_new c b) = 0" by (simp add: card_work_def card_new_def)
  show "cards_sum card_work h (hm_insert k (card_new c b, []) n) \<le> cards_sum card_work h n"
  proof (cases "hm_get n k")
    case (Some p)
    then show ?thesis using cards_sum_insert(1) [of n k "fst p" "snd p" card_work h "card_new c b" "[]"] by (simp add: z)
  qed (simp add: cards_sum_insert(2) z)
qed

lemma post_account_work:
  "actors_work (post_account a m sys) \<le> actors_work sys + account_msg_work m"
proof (cases "hm_get (sy_accounts sys) a")
  case (Some p)
  then show ?thesis
    using accounts_sum_insert(1) [of "sy_accounts sys" a "fst p" "snd p" account_msg_work "fst p" "snd p @ [m]"]
    by (cases p) (simp add: post_account_def actors_work_def)
qed (simp add: post_account_def)

lemma post_card_work:
  "actors_work (post_card k m sys) \<le> actors_work sys + card_input_work m"
proof (cases "hm_get (sy_cards sys) k")
  case (Some p)
  then show ?thesis
    using cards_sum_insert(1) [of "sy_cards sys" k "fst p" "snd p" card_work card_input_work "fst p" "snd p @ [m]"]
    by (cases p) (simp add: post_card_def actors_work_def)
qed (simp add: post_card_def)

lemma account_msg_work_bound: "account_msg_work m \<le> 5" by (cases m) simp_all

lemma router_outputs_work:
  "actors_work (fold perform_router_output out sys) \<le> actors_work sys + sum_list (map router_output_work out) \<and>
   sy_router (fold perform_router_output out sys) = sy_router sys \<and>
   sy_router_mail (fold perform_router_output out sys) = sy_router_mail sys"
proof (induction out arbitrary: sys)
  case (Cons x out)
  have "actors_work (perform_router_output x sys) \<le> actors_work sys + router_output_work x \<and>
      sy_router (perform_router_output x sys) = sy_router sys \<and>
      sy_router_mail (perform_router_output x sys) = sy_router_mail sys"
  proof (cases x)
    case (TellAccount a m)
    then show ?thesis
      using post_account_work [of a m sys] account_msg_work_bound [of m] by (simp_all add: post_account_get)
  next
    case (TellCard k m)
    then show ?thesis
      using post_card_work [of k "CardCommand m" sys] by (simp_all add: post_card_get)
  qed (simp_all add: actors_work_def spawn_work)
  with Cons [of "perform_router_output x sys"] show ?case by simp
qed simp

text \<open>The outputs of an account or a card: what reaches the router is there counted one.\<close>

lemma post_router_work:
  "system_room (post_router (RouterInternal m) sys) = system_room sys"
  "system_work (post_router (RouterInternal m) sys) = Suc (system_work sys)"
  by (simp_all add: system_room_def system_work_def post_router_def actors_work_def)

lemma post_room:
  "system_room (post_account a m sys) = system_room sys" "system_room (post_card k c sys) = system_room sys"
  by (simp_all add: system_room_def post_account_get post_card_get)

lemma post_work:
  "system_work (post_account a m sys) \<le> system_work sys + account_msg_work m"
  "system_work (post_card k c sys) \<le> system_work sys + card_input_work c"
  using post_account_work [of a m sys] post_card_work [of k c sys]
  by (simp_all add: system_work_def post_room post_account_get post_card_get)

lemma account_outputs_work:
  "system_work (fold perform_account_output out sys) \<le> system_work sys + sum_list (map account_output_work out)"
proof (induction out arbitrary: sys)
  case (Cons x out)
  have "system_work (perform_account_output x sys) \<le> system_work sys + account_output_work x"
    using post_work(2) [of _ "CardChargeReply _" sys] by (cases x) (simp_all add: post_router_work)
  with Cons [of "perform_account_output x sys"] show ?case by simp
qed simp

lemma card_outputs_work:
  "system_work (fold (perform_card_output a) out sys) \<le> system_work sys + sum_list (map card_output_work out)"
proof (induction out arbitrary: sys)
  case (Cons x out)
  have "system_work (perform_card_output a x sys) \<le> system_work sys + card_output_work x"
    using post_work(1) by (cases x) (simp_all add: post_router_work)
  with Cons [of "perform_card_output a x sys"] show ?case by simp
qed simp

section \<open>Every delivery leaves less to do\<close>

lemma deliver_account_work:
  assumes "hm_get (sy_accounts sys) a = Some (acc, m # mail)"
  shows "system_work (deliver_account a sys) < system_work sys"
proof -
  obtain acc' out where h: "account_handle m acc = (acc', out)" by (rule prod.exhaust)
  let ?sys = "sys\<lparr>sy_accounts := hm_insert a (acc', mail) (sy_accounts sys)\<rparr>"
  have "system_work ?sys + account_msg_work m = system_work sys"
    using accounts_sum_insert(1) [OF assms, of account_msg_work acc' mail]
    by (simp add: system_work_def system_room_def actors_work_def)
  moreover have "sum_list (map account_output_work out) < account_msg_work m"
    using account_handle_work [of m acc] h by simp
  moreover have "deliver_account a sys = fold perform_account_output out ?sys"
    using assms h by (simp add: deliver_account_def)
  ultimately show ?thesis using account_outputs_work [of out ?sys] by simp
qed

lemma deliver_card_work:
  assumes "hm_get (sy_cards sys) k = Some (self, m # mail)"
  shows "system_work (deliver_card k sys) < system_work sys"
proof -
  obtain self' out where h: "card_handle m self = (self', out)" by (rule prod.exhaust)
  let ?sys = "sys\<lparr>sy_cards := hm_insert k (self', mail) (sy_cards sys)\<rparr>"
  have "system_work ?sys + (card_input_work m + card_work self) = system_work sys + card_work self'"
    using cards_sum_insert(1) [OF assms, of card_work card_input_work self' mail]
    by (simp add: system_work_def system_room_def actors_work_def)
  moreover have "card_work self' + sum_list (map card_output_work out) < card_input_work m + card_work self"
    using card_handle_work [of m self] h by simp
  moreover have "deliver_card k sys = fold (perform_card_output (ca_account_id self)) out ?sys"
    using assms h by (simp add: deliver_card_def)
  ultimately show ?thesis using card_outputs_work [of "ca_account_id self" out ?sys] by simp
qed


text \<open>A command tells each actor the router knows at most once, and one more.\<close>

lemma created_size:
  "get_or_create_account a rt = (acc, rt', out) \<Longrightarrow> router_size rt' \<le> Suc (router_size rt) \<and>
     sum_list (map router_output_work out) = 0"
  "get_or_create_card a c rt = (crd, rt'', out') \<Longrightarrow> router_size rt'' \<le> router_size rt + 2 \<and>
     sum_list (map router_output_work out') = 0"
  using length_update_le [of a a "rt_accounts rt"] length_update_le [of "(a, c)" "(a, c)" "rt_cards rt"]
  by (auto simp: get_or_create_account_def get_or_create_card_def router_size_def hm_len_def hm_insert_def
      Let_def split: option.splits)

lemma emit_size [simp]: "router_size (emit ev rt) = router_size rt"
  by (simp add: emit_def router_size_def)

lemma query_cards_work:
  "sum_list (map router_output_work (query_cards i a r cards ks)) \<le> 5 * length ks"
  by (induction ks) (auto split: option.split)

lemma cards_of_account_length: "length (cards_of_account a rt) \<le> router_size rt"
  by (simp add: cards_of_account_def hm_keys_def router_size_def hm_len_def le_SucI trans_le_add2)

lemma replace_work:
  "router_size (fst (replace_accounts ss rt)) \<le> router_size rt + length ss \<and>
     sum_list (map router_output_work (snd (replace_accounts ss rt))) \<le> 5 * length ss"
  "router_size (fst (replace_cards cs rt)) \<le> router_size rt + 2 * length cs \<and>
     sum_list (map router_output_work (snd (replace_cards cs rt))) \<le> 5 * length cs"
proof -
  show "router_size (fst (replace_accounts ss rt)) \<le> router_size rt + length ss \<and>
     sum_list (map router_output_work (snd (replace_accounts ss rt))) \<le> 5 * length ss"
  proof (induction ss arbitrary: rt)
    case (Cons s ss)
    obtain a rt' out where g: "get_or_create_account (as_account_id s) rt = (a, rt', out)" by (metis surj_pair)
    from created_size(1) [OF g] Cons.IH [of rt'] g show ?case by (auto simp: split_def Let_def simp del: sum_list_eq_0_iff)
  qed simp
  show "router_size (fst (replace_cards cs rt)) \<le> router_size rt + 2 * length cs \<and>
     sum_list (map router_output_work (snd (replace_cards cs rt))) \<le> 5 * length cs"
  proof (induction cs arbitrary: rt)
    case (Cons s cs)
    obtain a rt' out where g: "get_or_create_card (cs_account_id s) (cs_card_id s) rt = (a, rt', out)"
      by (metis surj_pair)
    from created_size(2) [OF g] Cons.IH [of rt'] g show ?case by (auto simp: split_def Let_def simp del: sum_list_eq_0_iff)
  qed simp
qed

lemma execute_work:
  assumes "execute_operation i op rt = (rt', out)"
  shows "router_size rt' \<le> router_size rt + cmd_room (RouterCommand (Execute i op)) \<and>
    sum_list (map router_output_work out) \<le> 5 + 5 * (router_size rt + cmd_room (RouterCommand (Execute i op)))"
proof (cases op)
  case (Charge a c x off)
  obtain k rt1 out1 where g: "get_or_create_card a c rt = (k, rt1, out1)" by (metis surj_pair)
  from created_size(2) [OF g] g assms Charge show ?thesis by (auto simp: execute_charge_def simp del: sum_list_eq_0_iff)
next
  case (LimitAccount a l)
  obtain k rt1 out1 where g: "get_or_create_account a rt = (k, rt1, out1)" by (metis surj_pair)
  from created_size(1) [OF g] g assms LimitAccount show ?thesis by (auto simp: execute_limit_account_def simp del: sum_list_eq_0_iff)
next
  case (LimitCard a c l)
  obtain k rt1 out1 where g: "get_or_create_card a c rt = (k, rt1, out1)" by (metis surj_pair)
  from created_size(2) [OF g] g assms LimitCard show ?thesis by (auto simp: execute_limit_card_def simp del: sum_list_eq_0_iff)
next
  case (AccountQuery a)
  obtain k rt1 out1 where g: "get_or_create_account a rt = (k, rt1, out1)" by (metis surj_pair)
  from created_size(1) [OF g] g assms AccountQuery cards_of_account_length [of a rt1]
    query_cards_work [of i a False "rt_cards rt1" "cards_of_account a rt1"]
  show ?thesis by (auto simp: execute_account_query_def Let_def simp del: sum_list_eq_0_iff)
next
  case (Bill a p)
  obtain k rt1 out1 where g: "get_or_create_account a rt = (k, rt1, out1)" by (metis surj_pair)
  from created_size(1) [OF g] g assms Bill cards_of_account_length [of a rt1]
    query_cards_work [of i a True "rt_cards rt1" "cards_of_account a rt1"]
  show ?thesis by (auto simp: execute_bill_def Let_def simp del: sum_list_eq_0_iff)
next
  case (GetDatabase addr)
  then have "rt' = emit (OperationResult i op (ResDatabaseSnapshot \<lparr>ds_addr = addr, ds_accounts = [], ds_cards = []\<rparr>) True None) rt \<and> out = [] \<or>
      rt_accounts rt' = rt_accounts rt \<and> rt_cards rt' = rt_cards rt \<and>
      out = map (\<lambda>a. TellAccount a (AccountGetSnapshot i)) (hm_values (rt_accounts rt)) @
        map (\<lambda>c. TellCard c (CardGetSnapshot i)) (hm_values (rt_cards rt))"
    using assms by (auto simp: execute_get_database_def Let_def split: if_splits)
  then show ?thesis
    using GetDatabase by (auto simp: router_size_def hm_len_def hm_values_def sum_list_triv comp_def)
next
  case (ReplaceDatabase d)
  obtain rt1 out1 where a: "replace_accounts (ds_accounts d) rt = (rt1, out1)" by (metis surj_pair)
  obtain rt2 out2 where c: "replace_cards (ds_cards d) rt1 = (rt2, out2)" by (metis surj_pair)
  from replace_work(1) [of "ds_accounts d" rt] replace_work(2) [of "ds_cards d" rt1] assms ReplaceDatabase a c
  show ?thesis by (auto simp: execute_replace_database_def simp del: sum_list_eq_0_iff)
qed

lemma router_cmd_work:
  assumes "router_handle_cmd cmd rt = (rt', out)"
  shows "router_size rt' \<le> router_size rt + cmd_room (RouterCommand cmd) \<and>
    sum_list (map router_output_work out) \<le> 5 + 5 * (router_size rt + cmd_room (RouterCommand cmd))"
proof (cases cmd)
  case (Execute i op)
  have "router_size (rt\<lparr>rt_operations := m\<rparr>) = router_size rt" for m by (simp add: router_size_def)
  with execute_work [of i op "rt\<lparr>rt_operations := hm_insert i op (rt_operations rt)\<rparr>" rt' out] assms Execute
  show ?thesis by simp
qed (use assms in auto)

lemma router_internal_size:
  "router_handle_internal m rt = Ok rt' \<Longrightarrow> router_size rt' = router_size rt"
proof -
  have s: "router_size (rt\<lparr>rt_pending_db_snapshots := p\<rparr>) = router_size rt" for p rt
    by (simp add: router_size_def)
  then have "router_size (try_complete_db_snapshot i rt) = router_size rt" for i rt
    by (simp add: try_complete_db_snapshot_def Let_def split: option.split)
  with s show "router_handle_internal m rt = Ok rt' \<Longrightarrow> router_size rt' = router_size rt"
    by (cases m) (auto simp: handle_operation_completed_def handle_account_query_completed_def
        handle_account_snapshot_def handle_card_snapshot_def and_then_Ok_iff s split: option.splits)
qed

lemma router_input_work_mono: "r \<le> r' \<Longrightarrow> router_input_work r m \<le> router_input_work r' m"
  by (cases m) simp_all

lemma mail_work_mono:
  "r \<le> r' \<Longrightarrow> sum_list (map (router_input_work r) ms) \<le> sum_list (map (router_input_work r') ms)"
  by (intro sum_list_mono router_input_work_mono)

lemma deliver_router_work:
  assumes "sy_router_mail sys = m # mail" "deliver_router sys = Ok sys'"
  shows "system_work sys' < system_work sys"
proof -
  obtain rt out where h: "router_handle m (sy_router sys) = Ok (rt, out)"
    using assms by (cases "router_handle m (sy_router sys)") (auto simp: deliver_router_def)
  let ?sys = "sys\<lparr>sy_router := rt, sy_router_mail := mail\<rparr>"
  have sys': "sys' = fold perform_router_output out ?sys" using assms h by (simp add: deliver_router_def)
  have rt: "router_size rt \<le> router_size (sy_router sys) + cmd_room m"
    "sum_list (map router_output_work out) < router_input_work (system_room sys) m"
  proof -
    have room: "router_size (sy_router sys) + cmd_room m \<le> system_room sys"
      using assms(1) by (simp add: system_room_def)
    show "router_size rt \<le> router_size (sy_router sys) + cmd_room m"
      "sum_list (map router_output_work out) < router_input_work (system_room sys) m"
      using h room router_cmd_work [of _ "sy_router sys" rt out] router_internal_size [of _ "sy_router sys" rt]
      by (cases m; cases "router_handle_internal (case m of RouterInternal x \<Rightarrow> x) (sy_router sys)"; fastforce)+
  qed
  have "actors_work sys' \<le> actors_work sys + sum_list (map router_output_work out)"
    "sy_router sys' = rt" "sy_router_mail sys' = mail"
    using router_outputs_work [of out ?sys] sys' by (simp_all add: actors_work_def)
  moreover have "system_room sys' \<le> system_room sys"
    using calculation(2,3) rt(1) assms(1) by (simp add: system_room_def)
  ultimately show ?thesis
    using rt(2) mail_work_mono [of "system_room sys'" "system_room sys" mail] assms(1)
    by (simp add: system_work_def)
qed


section \<open>Coming to rest\<close>

fun has_mail :: "actor_id \<Rightarrow> actor_system \<Rightarrow> bool" where
  "has_mail RouterId sys \<longleftrightarrow> sy_router_mail sys \<noteq> []"
| "has_mail (AccountId a) sys \<longleftrightarrow> account_mail a sys \<noteq> []"
| "has_mail (CardId k) sys \<longleftrightarrow> card_mail k sys \<noteq> []"

text \<open>A schedule of which every step delivers a message.\<close>

fun productive :: "actor_id list \<Rightarrow> actor_system \<Rightarrow> bool" where
  "productive [] sys \<longleftrightarrow> True"
| "productive (i # is) sys \<longleftrightarrow> has_mail i sys \<and> (case deliver i sys of Inr sys' \<Rightarrow> productive is sys' | Inl f \<Rightarrow> False)"

lemma deliver_work:
  assumes "has_mail i sys" "deliver i sys = Ok sys'"
  shows "system_work sys' < system_work sys"
proof (cases i)
  case RouterId
  with assms deliver_router_work show ?thesis by (cases "sy_router_mail sys") auto
next
  case (AccountId a)
  with assms(1) obtain acc m mail where "hm_get (sy_accounts sys) a = Some (acc, m # mail)"
    by (auto simp: account_mail_def neq_Nil_conv split: option.splits)
  with deliver_account_work [OF this] assms(2) AccountId show ?thesis by simp
next
  case (CardId k)
  with assms(1) obtain self m mail where "hm_get (sy_cards sys) k = Some (self, m # mail)"
    by (auto simp: card_mail_def neq_Nil_conv split: option.splits)
  with deliver_card_work [OF this] assms(2) CardId show ?thesis by simp
qed

lemma productive_bounded: "productive is sys \<Longrightarrow> length is \<le> system_work sys"
proof (induction "is" arbitrary: sys)
  case (Cons i "is")
  then obtain sys' where "deliver i sys = Ok sys'" "productive is sys'" "has_mail i sys"
    by (auto split: sum.splits)
  with Cons.IH [of sys'] deliver_work [of i sys sys'] show ?case by simp
qed simp

subsection \<open>An actor per key\<close>

definition actors_wf :: "actor_system \<Rightarrow> bool" where
  "actors_wf sys \<longleftrightarrow> hm_wf (sy_accounts sys) \<and> hm_wf (sy_cards sys)"

lemma post_wf [simp]:
  "actors_wf (post_router m sys) = actors_wf sys"
  "actors_wf sys \<Longrightarrow> actors_wf (post_account a am sys)"
  "actors_wf sys \<Longrightarrow> actors_wf (post_card k cm sys)"
  by (auto simp: actors_wf_def post_router_def post_account_def post_card_def hm.wf_insert split: option.split)

lemma perform_router_wf: "actors_wf sys \<Longrightarrow> actors_wf (perform_router_output r sys)"
  by (cases r) (simp_all, simp_all add: actors_wf_def hm.wf_insert)

lemma perform_account_wf: "actors_wf sys \<Longrightarrow> actors_wf (perform_account_output r sys)"
  by (cases r) simp_all

lemma perform_card_wf: "actors_wf sys \<Longrightarrow> actors_wf (perform_card_output b r sys)"
  by (cases r) simp_all

lemma fold_wf: "(\<And>x sys. actors_wf sys \<Longrightarrow> actors_wf (f x sys)) \<Longrightarrow> actors_wf sys \<Longrightarrow> actors_wf (fold f out sys)"
  by (induction out arbitrary: sys) auto

lemma deliver_wf:
  assumes "actors_wf sys" "deliver i sys = Ok sys'"
  shows "actors_wf sys'"
proof -
  have up: "actors_wf (sys\<lparr>sy_router := rt, sy_router_mail := mail\<rparr>)"
    "actors_wf (sys\<lparr>sy_accounts := hm_insert a x (sy_accounts sys)\<rparr>)"
    "actors_wf (sys\<lparr>sy_cards := hm_insert k y (sy_cards sys)\<rparr>)" for rt mail a x k y
    using assms(1) by (simp_all add: actors_wf_def hm.wf_insert)
  show ?thesis
  proof (cases i)
    case RouterId
    with assms up(1) show ?thesis
      by (auto simp: deliver_router_def and_then_Ok_iff intro!: fold_wf perform_router_wf split: list.splits)
  next
    case (AccountId a)
    have "actors_wf (deliver_account a sys)"
      unfolding deliver_account_def
      by (simp add: split_def Let_def split: option.split list.split)
        (intro conjI allI impI fold_wf perform_account_wf up(2) assms(1))
    with assms(2) AccountId show ?thesis by simp
  next
    case (CardId k)
    have "actors_wf (deliver_card k sys)"
      unfolding deliver_card_def
      by (simp add: split_def Let_def split: option.split list.split)
        (intro conjI allI impI fold_wf perform_card_wf up(3) assms(1))
    with assms(2) CardId show ?thesis by simp
  qed
qed

lemma system_run_wf: "system_run es sys = Ok sys' \<Longrightarrow> actors_wf sys \<Longrightarrow> actors_wf sys'"
proof (induction es arbitrary: sys)
  case (Cons e es)
  then obtain sys1 where s: "system_step e sys = Ok sys1" "system_run es sys1 = Ok sys'"
    by (auto simp: and_then_Ok_iff)
  have "actors_wf sys1"
  proof (cases e)
    case (SysDeliver i)
    with s(1) deliver_wf [OF Cons.prems(2)] show ?thesis by simp
  qed (use s(1) Cons.prems(2) in \<open>auto simp: database_send_def database_recv_def actors_wf_def post_router_def
      split: list.splits\<close>)
  with Cons.IH s(2) show ?case by blast
qed simp

lemma someone_has_mail:
  assumes "actors_wf sys" "\<not> mailboxes_empty sys"
  shows "\<exists>i. has_mail i sys"
proof -
  from assms(2) consider "sy_router_mail sys \<noteq> []"
    | (acc) a acc mail where "(a, acc, mail) \<in> set (sy_accounts sys)" "mail \<noteq> []"
    | (crd) k self mail where "(k, self, mail) \<in> set (sy_cards sys)" "mail \<noteq> []"
    unfolding mailboxes_empty_def list_all_iff by fastforce
  then show ?thesis
  proof cases
    case 1
    then show ?thesis by (intro exI [of _ RouterId]) simp
  next
    case acc
    then show ?thesis
      using assms(1) by (intro exI [of _ "AccountId a"]) (simp add: account_mail_def actors_wf_def hm.entries_get)
  next
    case crd
    then show ?thesis
      using assms(1) by (intro exI [of _ "CardId k"]) (simp add: card_mail_def actors_wf_def hm.entries_get)
  qed
qed

lemma deliveries_end:
  "system_ok sys \<Longrightarrow> actors_wf sys \<Longrightarrow>
     \<exists>is sys'. productive is sys \<and> system_run (map SysDeliver is) sys = Ok sys' \<and> mailboxes_empty sys'"
proof (induction "system_work sys" arbitrary: sys rule: less_induct)
  case less
  show ?case
  proof (cases "mailboxes_empty sys")
    case True
    then show ?thesis by (intro exI [of _ "[]"]) simp
  next
    case False
    then obtain i where i: "has_mail i sys" using someone_has_mail less.prems(2) by blast
    obtain sys1 where d: "deliver i sys = Ok sys1" "system_ok sys1"
      using system_step_ok [OF less.prems(1), of "SysDeliver i"] by auto
    from less.hyps [OF deliver_work [OF i d(1)] d(2) deliver_wf [OF less.prems(2) d(1)]]
    obtain is' sys' where "productive is' sys1" "system_run (map SysDeliver is') sys1 = Ok sys'" "mailboxes_empty sys'"
      by blast
    with i d(1) show ?thesis by (intro exI [of _ "i # is'"] exI [of _ sys']) simp
  qed
qed

text \<open>C7: The database always comes to rest: from every state it can reach, a schedule that never
  delivers from an empty mailbox ends after at most \<open>system_work\<close> deliveries, wherever it stops
  either some mailbox can be served or all are empty, and when all are empty no card is
  waiting or has work queued.\<close>

theorem database_comes_to_rest:
  assumes "system_run es system_new = Ok sys"
  shows "(\<forall>is. productive is sys \<longrightarrow> length is \<le> system_work sys) \<and>
    (\<forall>is sys'. system_run (map SysDeliver is) sys = Ok sys' \<longrightarrow>
       (\<exists>i. has_mail i sys') \<or> mailboxes_empty sys' \<and>
         (\<forall>k self mail. hm_get (sy_cards sys') k = Some (self, mail) \<longrightarrow>
            ca_current_task self = None \<and> ca_queue self = [])) \<and>
    (\<exists>is sys'. productive is sys \<and> system_run (map SysDeliver is) sys = Ok sys' \<and> mailboxes_empty sys')"
proof -
  have ok: "system_ok sys" "actors_wf sys"
    using system_run_ok [OF system_new_ok, of es] system_run_wf [OF assms] assms
    by (simp_all add: actors_wf_def system_new_def)
  have "(\<exists>i. has_mail i sys') \<or> mailboxes_empty sys' \<and>
      (\<forall>k self mail. hm_get (sy_cards sys') k = Some (self, mail) \<longrightarrow> ca_current_task self = None \<and> ca_queue self = [])"
    if r: "system_run (map SysDeliver is) sys = Ok sys'" for "is" sys'
  proof (cases "mailboxes_empty sys'")
    case True
    have "system_ok sys'" using system_run_ok [OF ok(1)] r by (metis Inr_inject)
    with True quiescent_cards_idle show ?thesis by blast
  next
    case False
    with someone_has_mail system_run_wf [OF r ok(2)] show ?thesis by blast
  qed
  with productive_bounded deliveries_end [OF ok] show ?thesis by blast
qed

theorem database_comes_to_rest_witness:
  "\<exists>sys. system_run [SysSend 1 (Charge 3 5 f32_one False)] system_new = Ok sys \<and> system_work sys = 26 \<and>
    (\<exists>is sys'. productive is sys \<and> is \<noteq> [] \<and> system_run (map SysDeliver is) sys = Ok sys' \<and> mailboxes_empty sys')"
proof -
  let ?sys = "database_send 1 (Charge 3 5 f32_one False) system_new"
  have run: "system_run [SysSend 1 (Charge 3 5 f32_one False)] system_new = Ok ?sys" by simp
  have w: "system_work ?sys = 26" "\<not> mailboxes_empty ?sys"
    by (simp_all add: database_send_def post_router_def system_new_def router_new_def system_work_def
        system_room_def router_size_def actors_work_def accounts_sum_def cards_sum_def hm_len_def mailboxes_empty_def)
  from database_comes_to_rest [OF run] obtain "is" sys' where
    "productive is ?sys" "system_run (map SysDeliver is) ?sys = Ok sys'" "mailboxes_empty sys'" by blast
  moreover from this w(2) have "is \<noteq> []" by auto
  ultimately show ?thesis using run w(1) by blast
qed

end
