(* ===== verification/ActorAnswers.thy ===== *)
theory ActorAnswers
  imports ActorProgress DatabaseSpec
begin

text \<open>
  Every charge and limit change is answered once. The open ones are counted wherever they can be: a
  command the router has not read, a message to an account or a card, the task or the queue of a
  card, a completion on its way back. A delivery moves one, a completion turns it into an event.
\<close>

section \<open>The open updates\<close>

fun account_token :: "u32 \<Rightarrow> account_msg \<Rightarrow> nat" where
  "account_token i (ApplyAccountLimit j l) = of_bool (j = i)"
| "account_token i m = 0"

definition task_tokens :: "u32 \<Rightarrow> card_actor \<Rightarrow> nat" where
  "task_tokens i self = count_list (pending_ops self) i"

definition card_token :: "u32 \<Rightarrow> card_input \<Rightarrow> nat" where
  "card_token i m = count_list (new_op m) i"

fun router_token :: "u32 \<Rightarrow> router_input \<Rightarrow> nat" where
  "router_token i (RouterCommand (Execute j op)) = of_bool (j = i \<and> updates op)"
| "router_token i (RouterInternal (OperationCompleted j success e)) = of_bool (j = i)"
| "router_token i m = 0"

definition actor_tokens :: "u32 \<Rightarrow> actor_system \<Rightarrow> nat" where
  "actor_tokens i sys =
     accounts_sum (account_token i) (sy_accounts sys) + cards_sum (task_tokens i) (card_token i) (sy_cards sys)"

definition open_updates :: "u32 \<Rightarrow> actor_system \<Rightarrow> nat" where
  "open_updates i sys = sum_list (map (router_token i) (sy_router_mail sys)) + actor_tokens i sys"

text \<open>The answers the node reads or finds in the channel.\<close>

fun update_result :: "operation_result \<Rightarrow> bool" where
  "update_result (ResCharge r) = True"
| "update_result (ResLimitAccount r) = True"
| "update_result (ResLimitCard r) = True"
| "update_result res = False"

fun answers_update :: "u32 \<Rightarrow> actor_event \<Rightarrow> bool" where
  "answers_update i (OperationResult j op res success e) \<longleftrightarrow> j = i \<and> update_result res"
| "answers_update i ActorDebug \<longleftrightarrow> False"

definition answers :: "u32 \<Rightarrow> actor_event list \<Rightarrow> nat" where
  "answers i evs = length (filter (answers_update i) evs)"

fun events_read :: "system_event list \<Rightarrow> actor_system \<Rightarrow> actor_event list" where
  "events_read [] sys = []"
| "events_read (e # es) sys =
     (if e = SysRecv then (case snd (database_recv sys) of Some ev \<Rightarrow> [ev] | None \<Rightarrow> []) else []) @
     (case system_step e sys of Inr sys' \<Rightarrow> events_read es sys' | Inl f \<Rightarrow> [])"

text \<open>The node reads its events often enough: the channel has room when the router runs.\<close>

definition channel_room :: "actor_system \<Rightarrow> bool" where
  "channel_room sys \<longleftrightarrow> rt_events_open (sy_router sys) \<and> length (rt_events (sy_router sys)) < EVENT_CHANNEL_CAPACITY"

fun events_fit :: "system_event list \<Rightarrow> actor_system \<Rightarrow> bool" where
  "events_fit [] sys \<longleftrightarrow> True"
| "events_fit (e # es) sys \<longleftrightarrow> (e = SysDeliver RouterId \<longrightarrow> channel_room sys) \<and>
     (case system_step e sys of Inr sys' \<Rightarrow> events_fit es sys' | Inl f \<Rightarrow> True)"

section \<open>The handlers keep the count\<close>

lemma account_handle_tokens:
  "sum_list (map (\<lambda>x. case x of AccountToRouter m \<Rightarrow> router_token i (RouterInternal m) | AccountToCard k r \<Rightarrow> 0)
     (snd (account_handle m acc))) = account_token i m"
  by (cases m) (auto simp: account_handler_defs Let_def split: option.split sum.split failure.split)

fun card_output_token :: "u32 \<Rightarrow> card_output \<Rightarrow> nat" where
  "card_output_token i (CardToRouter m) = router_token i (RouterInternal m)"
| "card_output_token i (CardToAccount m) = account_token i m"

text \<open>A card never changes the limit of its account.\<close>

fun asks_no_limit :: "card_output \<Rightarrow> bool" where
  "asks_no_limit (CardToAccount (ApplyAccountLimit j l)) = False"
| "asks_no_limit out = True"

lemma start_finish_asks:
  "list_all asks_no_limit (snd (start_current_task self))"
  "list_all asks_no_limit (snd (finish_current_task i b e self))"
  by (rule start_finish_induct [where P = "\<lambda>s r. list_all asks_no_limit (snd r)" and
      Q = "\<lambda>i b e s r. list_all asks_no_limit (snd r)"]; simp)+

lemma card_handle_asks: "list_all asks_no_limit (snd (card_handle m self))"
proof (cases m)
  case (CardCommand c)
  then show ?thesis by (cases c) (auto simp: submit_task_def start_finish_asks)
next
  case (CardChargeReply r)
  then show ?thesis
    by (auto simp: card_handle_reply_def start_finish_asks split: option.split card_task.split)
qed

lemma completed_op_token: "asks_no_limit out \<Longrightarrow> count_list (completed_op out) i = card_output_token i out"
proof (cases out)
  case (CardToRouter m)
  then show ?thesis by (cases m) simp_all
next
  case (CardToAccount m)
  then show "asks_no_limit out \<Longrightarrow> ?thesis" by (cases m) simp_all
qed

lemma completed_ops_tokens:
  "list_all asks_no_limit outs \<Longrightarrow> count_list (completed_ops outs) i = sum_list (map (card_output_token i) outs)"
  by (induction outs) (simp_all add: completed_op_token)

lemma card_handle_tokens:
  assumes "card_settled self" "addressed_to (own_key self) m" "\<not> replaces_state m"
  shows "task_tokens i (fst (card_handle m self)) + sum_list (map (card_output_token i) (snd (card_handle m self))) =
    task_tokens i self + card_token i m"
  using arg_cong [OF card_handle_fifo(2) [OF assms], of "\<lambda>xs. count_list xs i"]
    completed_ops_tokens [OF card_handle_asks, where i = i]
  by (simp add: task_tokens_def card_token_def)


section \<open>Posting keeps the count\<close>

lemma post_account_tokens:
  "hm_get (sy_accounts sys) a \<noteq> None \<Longrightarrow> actor_tokens i (post_account a m sys) = actor_tokens i sys + account_token i m"
  "account_token i m = 0 \<Longrightarrow> actor_tokens i (post_account a m sys) = actor_tokens i sys"
proof -
  have *: "actor_tokens i (post_account a m sys) = actor_tokens i sys + account_token i m"
    if "hm_get (sy_accounts sys) a = Some p" for p
    using that accounts_sum_insert(1) [of "sy_accounts sys" a "fst p" "snd p" "account_token i" "fst p" "snd p @ [m]"]
    by (cases p) (simp add: post_account_def actor_tokens_def)
  then show "hm_get (sy_accounts sys) a \<noteq> None \<Longrightarrow> actor_tokens i (post_account a m sys) = actor_tokens i sys + account_token i m"
    by blast
  show "account_token i m = 0 \<Longrightarrow> actor_tokens i (post_account a m sys) = actor_tokens i sys"
    using * by (cases "hm_get (sy_accounts sys) a") (simp add: post_account_def, simp)
qed

lemma post_card_tokens:
  "hm_get (sy_cards sys) k \<noteq> None \<Longrightarrow> actor_tokens i (post_card k m sys) = actor_tokens i sys + card_token i m"
  "card_token i m = 0 \<Longrightarrow> actor_tokens i (post_card k m sys) = actor_tokens i sys"
proof -
  have *: "actor_tokens i (post_card k m sys) = actor_tokens i sys + card_token i m"
    if "hm_get (sy_cards sys) k = Some p" for p
    using that cards_sum_insert(1) [of "sy_cards sys" k "fst p" "snd p" "task_tokens i" "card_token i" "fst p" "snd p @ [m]"]
    by (cases p) (simp add: post_card_def actor_tokens_def)
  then show "hm_get (sy_cards sys) k \<noteq> None \<Longrightarrow> actor_tokens i (post_card k m sys) = actor_tokens i sys + card_token i m"
    by blast
  show "card_token i m = 0 \<Longrightarrow> actor_tokens i (post_card k m sys) = actor_tokens i sys"
    using * by (cases "hm_get (sy_cards sys) k") (simp add: post_card_def, simp)
qed

lemma post_router_tokens [simp]: "actor_tokens i (post_router m sys) = actor_tokens i sys"
  by (simp add: actor_tokens_def post_router_def)

lemma post_open:
  "open_updates i (post_router m sys) = open_updates i sys + router_token i m"
  "account_token i am = 0 \<Longrightarrow> open_updates i (post_account a am sys) = open_updates i sys"
  "card_token i cm = 0 \<Longrightarrow> open_updates i (post_card k cm sys) = open_updates i sys"
  by (simp_all add: open_updates_def post_account_tokens(2) post_card_tokens(2) post_account_get post_card_get
      post_router_tokens)
    (simp add: post_router_def)

lemma account_outputs_tokens:
  "open_updates i (fold perform_account_output out sys) = open_updates i sys +
     sum_list (map (\<lambda>x. case x of AccountToRouter m \<Rightarrow> router_token i (RouterInternal m) | AccountToCard k r \<Rightarrow> 0) out)"
proof (induction out arbitrary: sys)
  case (Cons x out)
  then show ?case
    by (cases x) (simp_all add: post_open card_token_def)
qed simp

lemma card_outputs_tokens:
  "list_all asks_no_limit out \<Longrightarrow> open_updates i (fold (perform_card_output a) out sys) = open_updates i sys +
     sum_list (map (card_output_token i) out)"
proof (induction out arbitrary: sys)
  case (Cons x out)
  show ?case
  proof (cases x)
    case (CardToRouter m)
    with Cons show ?thesis by (simp add: post_open)
  next
    case (CardToAccount m)
    with Cons.prems have "account_token i m = 0" by (cases m) simp_all
    with CardToAccount Cons show ?thesis
      by (simp add: post_open)
  qed
qed simp

fun router_output_token :: "u32 \<Rightarrow> router_output \<Rightarrow> nat" where
  "router_output_token i (TellAccount a m) = account_token i m"
| "router_output_token i (TellCard k m) = card_token i (CardCommand m)"
| "router_output_token i out = 0"

lemma spawn_tokens:
  "hm_get (sy_accounts sys) a = None \<Longrightarrow> actor_tokens i (perform_router_output (SpawnAccount a) sys) = actor_tokens i sys"
  "hm_get (sy_cards sys) k = None \<Longrightarrow> actor_tokens i (perform_router_output (SpawnCard k) sys) = actor_tokens i sys"
  by (simp_all add: actor_tokens_def accounts_sum_insert(2) cards_sum_insert(2) task_tokens_def pending_ops_def card_new_def)

lemma router_outputs_tokens:
  "well_routed (dom (hm_get (sy_accounts sys)), dom (hm_get (sy_cards sys))) outs AC \<Longrightarrow>
     actor_tokens i (fold perform_router_output outs sys) = actor_tokens i sys + sum_list (map (router_output_token i) outs)"
proof (induction outs arbitrary: sys)
  case (Cons out outs)
  show ?case
  proof (cases out)
    case (SpawnAccount a)
    with Cons.prems have "hm_get (sy_accounts sys) a = None" by (cases AC) (simp add: domIff del: not_Some_eq not_None_eq)
    with SpawnAccount Cons.prems Cons.IH [of "perform_router_output out sys"] spawn_tokens(1) [OF this, of i]
    show ?thesis by (cases AC) (simp add: hm.dom_insert del: hm_get_insert_upd)
  next
    case (SpawnCard k)
    with Cons.prems have "hm_get (sy_cards sys) k = None" by (cases AC) (simp add: domIff del: not_Some_eq not_None_eq)
    with SpawnCard Cons.prems Cons.IH [of "perform_router_output out sys"] spawn_tokens(2) [OF this, of i]
    show ?thesis by (cases AC) (simp add: hm.dom_insert del: hm_get_insert_upd)
  next
    case (TellAccount a m)
    with Cons.prems have "hm_get (sy_accounts sys) a \<noteq> None" by (cases AC) (simp add: domIff del: not_Some_eq not_None_eq)
    with TellAccount Cons.prems Cons.IH [of "perform_router_output out sys"] post_account_tokens(1) [OF this, of i m]
    show ?thesis by (cases AC) (simp add: post_account_dom post_account_get(2))
  next
    case (TellCard k m)
    with Cons.prems have "hm_get (sy_cards sys) k \<noteq> None" by (cases AC) (simp add: domIff del: not_Some_eq not_None_eq)
    with TellCard Cons.prems Cons.IH [of "perform_router_output out sys"]
      post_card_tokens(1) [OF this, of i "CardCommand m"]
    show ?thesis by (cases AC) (simp add: post_card_dom post_card_get(2))
  qed
qed simp


section \<open>The router\<close>

fun replaces :: "router_input \<Rightarrow> bool" where
  "replaces (RouterCommand (Execute j (ReplaceDatabase d))) = True"
| "replaces m = False"

lemma created_tokens:
  "get_or_create_account a rt = (acc, rt', out) \<Longrightarrow> sum_list (map (router_output_token i) out) = 0 \<and>
     rt_operations rt' = rt_operations rt \<and> rt_events rt' = rt_events rt"
  "get_or_create_card a c rt = (crd, rt'', out') \<Longrightarrow> sum_list (map (router_output_token i) out') = 0 \<and>
     rt_operations rt'' = rt_operations rt \<and> rt_events rt'' = rt_events rt"
  by (auto simp: get_or_create_account_def get_or_create_card_def Let_def split: option.splits)

lemma query_cards_tokens: "sum_list (map (router_output_token i) (query_cards j a r cards ks)) = 0"
  by (induction ks) (auto simp: card_token_def split: option.split)

lemma emit_answers:
  "answers i (rt_events (emit ev rt)) = answers i (rt_events rt) +
     of_bool (answers_update i ev \<and> rt_events_open rt \<and> length (rt_events rt) < EVENT_CHANNEL_CAPACITY)"
  by (simp add: emit_def answers_def)

lemma execute_tokens:
  assumes "execute_operation j op rt = (rt', out)" "\<not> replaces (RouterCommand (Execute j op))"
  shows "sum_list (map (router_output_token i) out) = of_bool (j = i \<and> updates op) \<and>
    rt_operations rt' = rt_operations rt \<and> answers i (rt_events rt') = answers i (rt_events rt)"
proof (cases op)
  case (Charge a c x off)
  obtain k rt1 out1 where g: "get_or_create_card a c rt = (k, rt1, out1)" by (metis surj_pair)
  from created_tokens(2) [OF g, of i] g assms Charge show ?thesis
    by (auto simp: execute_charge_def card_token_def simp del: sum_list_eq_0_iff)
next
  case (LimitAccount a l)
  obtain k rt1 out1 where g: "get_or_create_account a rt = (k, rt1, out1)" by (metis surj_pair)
  from created_tokens(1) [OF g, of i] g assms LimitAccount show ?thesis
    by (auto simp: execute_limit_account_def simp del: sum_list_eq_0_iff)
next
  case (LimitCard a c l)
  obtain k rt1 out1 where g: "get_or_create_card a c rt = (k, rt1, out1)" by (metis surj_pair)
  from created_tokens(2) [OF g, of i] g assms LimitCard show ?thesis
    by (auto simp: execute_limit_card_def card_token_def simp del: sum_list_eq_0_iff)
next
  case (AccountQuery a)
  obtain k rt1 out1 where g: "get_or_create_account a rt = (k, rt1, out1)" by (metis surj_pair)
  from created_tokens(1) [OF g, of i] g assms AccountQuery query_cards_tokens
  show ?thesis by (auto simp: execute_account_query_def Let_def simp del: sum_list_eq_0_iff)
next
  case (Bill a p)
  obtain k rt1 out1 where g: "get_or_create_account a rt = (k, rt1, out1)" by (metis surj_pair)
  from created_tokens(1) [OF g, of i] g assms Bill query_cards_tokens
  show ?thesis by (auto simp: execute_bill_def Let_def simp del: sum_list_eq_0_iff)
next
  case (GetDatabase addr)
  with assms show ?thesis
    by (auto simp: execute_get_database_def Let_def emit_answers card_token_def comp_def split: if_splits)
qed (use assms in simp)

lemma router_cmd_tokens:
  assumes "router_handle_cmd cmd rt = (rt', out)" "\<not> replaces (RouterCommand cmd)"
  shows "sum_list (map (router_output_token i) out) = router_token i (RouterCommand cmd) \<and>
    answers i (rt_events rt') = answers i (rt_events rt) \<and>
    rt_operations rt' = (case cmd of Execute j op \<Rightarrow> hm_insert j op (rt_operations rt) | GetLog \<Rightarrow> rt_operations rt)"
proof (cases cmd)
  case (Execute j op)
  with assms execute_tokens [of j op "rt\<lparr>rt_operations := hm_insert j op (rt_operations rt)\<rparr>" rt' out i]
  show ?thesis by simp
qed (use assms in \<open>auto simp: emit_answers\<close>)

lemma update_completion:
  "updates op \<Longrightarrow> completion_result op success e = Ok res \<Longrightarrow> update_result res"
  by (cases op) (auto simp: and_then_Ok_iff)

lemma snapshot_answers:
  "rt_operations (try_complete_db_snapshot j rt) = rt_operations rt \<and>
     answers i (rt_events (try_complete_db_snapshot j rt)) = answers i (rt_events rt)"
  by (auto simp: try_complete_db_snapshot_def Let_def emit_answers split: option.split)

lemma router_internal_tokens:
  assumes "router_handle_internal m rt = Ok rt'"
    and "rt_events_open rt" "length (rt_events rt) < EVENT_CHANNEL_CAPACITY"
    and "0 < router_token i (RouterInternal m) \<Longrightarrow> \<exists>op. hm_get (rt_operations rt) i = Some op \<and> updates op"
    and "\<And>op. hm_get (rt_operations rt) i = Some op \<Longrightarrow> updates op"
  shows "rt_operations rt' = rt_operations rt \<and>
    answers i (rt_events rt') = answers i (rt_events rt) + router_token i (RouterInternal m)"
proof (cases m)
  case (OperationCompleted j success e)
  show ?thesis
  proof (cases "hm_get (rt_operations rt) j")
    case None
    with assms(1,4) OperationCompleted show ?thesis
      by (auto simp: handle_operation_completed_def emit_answers)
  next
    case (Some op)
    then obtain res where r: "completion_result op success e = Ok res" "rt' = emit (OperationResult j op res success e) rt"
      using assms(1) OperationCompleted by (auto simp: handle_operation_completed_def and_then_Ok_iff)
    with OperationCompleted assms(2,3) Some assms(5) [of op] update_completion [OF _ r(1)] show ?thesis
      by (auto simp: emit_answers)
  qed
qed (use assms(1) snapshot_answers in \<open>auto simp: handle_account_query_completed_def handle_account_snapshot_def
    handle_card_snapshot_def emit_answers split: option.splits\<close>)


section \<open>The run\<close>

text \<open>No database is replaced, and every command under number \<open>i\<close> is an update that the table of the
  router holds as long as it is open.\<close>

definition no_replace :: "actor_system \<Rightarrow> bool" where
  "no_replace sys \<longleftrightarrow> list_all (\<lambda>m. \<not> replaces m) (sy_router_mail sys) \<and>
     (\<forall>k self mail. hm_get (sy_cards sys) k = Some (self, mail) \<longrightarrow> list_all (\<lambda>m. \<not> replaces_state m) mail)"

fun pending_token :: "u32 \<Rightarrow> router_input \<Rightarrow> nat" where
  "pending_token i (RouterCommand cmd) = 0"
| "pending_token i m = router_token i m"

fun only_updates :: "u32 \<Rightarrow> router_input \<Rightarrow> bool" where
  "only_updates i (RouterCommand (Execute j op)) \<longleftrightarrow> (j = i \<longrightarrow> updates op)"
| "only_updates i m \<longleftrightarrow> True"

definition update_ops :: "u32 \<Rightarrow> actor_system \<Rightarrow> bool" where
  "update_ops i sys \<longleftrightarrow> list_all (only_updates i) (sy_router_mail sys) \<and>
     (\<forall>op. hm_get (rt_operations (sy_router sys)) i = Some op \<longrightarrow> updates op) \<and>
     (0 < sum_list (map (pending_token i) (sy_router_mail sys)) + actor_tokens i sys \<longrightarrow>
        hm_get (rt_operations (sy_router sys)) i \<noteq> None)"

text \<open>Accounts and cards add internal messages to the router's mailbox.\<close>

lemma no_replaceI:
  assumes "\<And>m. m \<in> set (sy_router_mail sys) \<Longrightarrow> \<not> replaces m"
    and "\<And>k self mail m. hm_get (sy_cards sys) k = Some (self, mail) \<Longrightarrow> m \<in> set mail \<Longrightarrow> \<not> replaces_state m"
  shows "no_replace sys"
  unfolding no_replace_def list_all_iff using assms by blast

lemma no_replaceD:
  assumes "no_replace sys"
  shows "m \<in> set (sy_router_mail sys) \<Longrightarrow> \<not> replaces m"
    and "hm_get (sy_cards sys) k = Some (self, mail) \<Longrightarrow> m' \<in> set mail \<Longrightarrow> \<not> replaces_state m'"
  using assms unfolding no_replace_def list_all_iff by blast+

lemma post_no_replace:
  assumes "no_replace sys"
  shows "no_replace (post_router (RouterInternal m) sys)" and "no_replace (post_account a am sys)"
    and "\<not> replaces_state cm \<Longrightarrow> no_replace (post_card k cm sys)"
proof -
  note D = no_replaceD [OF assms]
  show "no_replace (post_router (RouterInternal m) sys)"
    by (rule no_replaceI) (use D in \<open>auto simp: post_router_def\<close>)
  show "no_replace (post_account a am sys)"
    by (rule no_replaceI) (use D in \<open>simp_all add: post_account_get\<close>)
  show "no_replace (post_card k cm sys)" if "\<not> replaces_state cm"
  proof (rule no_replaceI)
    show "\<not> replaces x" if "x \<in> set (sy_router_mail (post_card k cm sys))" for x
      using that D(1) by (simp add: post_card_get)
  next
    fix k' self mail x
    assume g: "hm_get (sy_cards (post_card k cm sys)) k' = Some (self, mail)" and x: "x \<in> set mail"
    show "\<not> replaces_state x"
    proof (cases "k' = k")
      case True
      with g obtain mail0 where "hm_get (sy_cards sys) k = Some (self, mail0)" "mail = mail0 @ [cm]"
        by (auto simp: post_card_get)
      with D(2) [of k self mail0 x] x \<open>\<not> replaces_state cm\<close> show ?thesis by auto
    next
      case False
      with g D(2) x show ?thesis by (simp add: post_card_get)
    qed
  qed
qed

lemma account_outputs_router_mail:
  "\<exists>ms. sy_router_mail (fold perform_account_output out sys) = sy_router_mail sys @ map RouterInternal ms \<and>
     sy_router (fold perform_account_output out sys) = sy_router sys \<and>
     (no_replace sys \<longrightarrow> no_replace (fold perform_account_output out sys))"
proof (induction out arbitrary: sys)
  case Nil
  show ?case by (intro exI [of _ "[]"]) simp
next
  case (Cons x out)
  from Cons.IH [of "perform_account_output x sys"] obtain ms where
    ms: "sy_router_mail (fold perform_account_output (x # out) sys) =
        sy_router_mail (perform_account_output x sys) @ map RouterInternal ms"
      "sy_router (fold perform_account_output (x # out) sys) = sy_router (perform_account_output x sys)"
      "no_replace (perform_account_output x sys) \<longrightarrow> no_replace (fold perform_account_output (x # out) sys)" by auto
  show ?case
  proof (cases x)
    case (AccountToRouter m)
    with ms show ?thesis by (intro exI [of _ "m # ms"]) (simp add: post_router_def post_no_replace(1) [unfolded post_router_def])
  next
    case (AccountToCard k r)
    with ms show ?thesis
      by (intro exI [of _ ms]) (simp add: post_card_get post_no_replace)
  qed
qed

lemma card_outputs_router_mail:
  "\<exists>ms. sy_router_mail (fold (perform_card_output a) out sys) = sy_router_mail sys @ map RouterInternal ms \<and>
     sy_router (fold (perform_card_output a) out sys) = sy_router sys \<and>
     (no_replace sys \<longrightarrow> no_replace (fold (perform_card_output a) out sys))"
proof (induction out arbitrary: sys)
  case Nil
  show ?case by (intro exI [of _ "[]"]) simp
next
  case (Cons x out)
  from Cons.IH [of "perform_card_output a x sys"] obtain ms where
    ms: "sy_router_mail (fold (perform_card_output a) (x # out) sys) =
        sy_router_mail (perform_card_output a x sys) @ map RouterInternal ms"
      "sy_router (fold (perform_card_output a) (x # out) sys) = sy_router (perform_card_output a x sys)"
      "no_replace (perform_card_output a x sys) \<longrightarrow> no_replace (fold (perform_card_output a) (x # out) sys)" by auto
  show ?case
  proof (cases x)
    case (CardToRouter m)
    with ms show ?thesis by (intro exI [of _ "m # ms"]) (simp add: post_router_def post_no_replace(1) [unfolded post_router_def])
  next
    case (CardToAccount m)
    with ms show ?thesis by (intro exI [of _ ms]) (simp add: post_account_get post_no_replace)
  qed
qed

text \<open>A step that only adds internal messages and keeps the count keeps the rest.\<close>

lemma update_ops_kept:
  assumes "update_ops i sys" "sy_router_mail sys' = sy_router_mail sys @ map RouterInternal ms"
    and "sy_router sys' = sy_router sys" "open_updates i sys' = open_updates i sys"
  shows "update_ops i sys'"
proof -
  have split: "open_updates i x = sum_list (map (\<lambda>m. router_token i m - pending_token i m) (sy_router_mail x)) +
      (sum_list (map (pending_token i) (sy_router_mail x)) + actor_tokens i x)" for x
  proof -
    have "router_token i m = (router_token i m - pending_token i m) + pending_token i m" for m
      by (cases m) simp_all
    then have "map (router_token i) ms = map (\<lambda>m. (router_token i m - pending_token i m) + pending_token i m) ms" for ms
      by simp
    then show ?thesis unfolding open_updates_def by (simp only: sum_list_addf)
  qed
  have "sum_list (map (\<lambda>m. router_token i m - pending_token i m) (sy_router_mail sys')) =
      sum_list (map (\<lambda>m. router_token i m - pending_token i m) (sy_router_mail sys))"
    by (simp add: assms(2) comp_def)
  with assms(4) split have "sum_list (map (pending_token i) (sy_router_mail sys')) + actor_tokens i sys' =
      sum_list (map (pending_token i) (sy_router_mail sys)) + actor_tokens i sys"
    by (metis add_left_cancel)
  moreover have "list_all (only_updates i) (sy_router_mail sys') = list_all (only_updates i) (sy_router_mail sys)"
    by (auto simp: assms(2) list_all_iff ball_Un)
  ultimately show ?thesis using assms(1) unfolding update_ops_def assms(3) by metis
qed

lemma deliver_account_tokens:
  assumes "no_replace sys" "update_ops i sys"
  shows "no_replace (deliver_account a sys) \<and> update_ops i (deliver_account a sys) \<and>
    open_updates i (deliver_account a sys) = open_updates i sys \<and>
    sy_router (deliver_account a sys) = sy_router sys"
proof (cases "\<exists>acc m mail. hm_get (sy_accounts sys) a = Some (acc, m # mail)")
  case False
  then have "deliver_account a sys = sys"
    by (auto simp: deliver_account_def split: option.split list.split)
  with assms show ?thesis by simp
next
  case True
  then obtain acc m mail where get: "hm_get (sy_accounts sys) a = Some (acc, m # mail)" by blast
  obtain acc' out where h: "account_handle m acc = (acc', out)" by (rule prod.exhaust)
  let ?sys = "sys\<lparr>sy_accounts := hm_insert a (acc', mail) (sy_accounts sys)\<rparr>"
  have eq: "deliver_account a sys = fold perform_account_output out ?sys"
    using get h by (simp add: deliver_account_def)
  have "open_updates i ?sys + account_token i m = open_updates i sys"
    using accounts_sum_insert(1) [OF get, of "account_token i" acc' mail]
    by (simp add: open_updates_def actor_tokens_def)
  then have kept: "open_updates i (deliver_account a sys) = open_updates i sys"
    using account_outputs_tokens [of i out ?sys] account_handle_tokens [of i m acc] h eq by simp
  obtain ms where ms: "sy_router_mail (deliver_account a sys) = sy_router_mail ?sys @ map RouterInternal ms"
    "sy_router (deliver_account a sys) = sy_router ?sys" "no_replace ?sys \<longrightarrow> no_replace (deliver_account a sys)"
    using account_outputs_router_mail [of out ?sys] eq by auto
  with kept assms update_ops_kept [OF assms(2), of "deliver_account a sys" ms] show ?thesis
    by (simp add: no_replace_def)
qed

lemma deliver_card_tokens:
  assumes "system_ok sys" "no_replace sys" "update_ops i sys"
  shows "no_replace (deliver_card k sys) \<and> update_ops i (deliver_card k sys) \<and>
    open_updates i (deliver_card k sys) = open_updates i sys \<and>
    sy_router (deliver_card k sys) = sy_router sys"
proof (cases "\<exists>self m mail. hm_get (sy_cards sys) k = Some (self, m # mail)")
  case False
  then have "deliver_card k sys = sys"
    by (auto simp: deliver_card_def split: option.split list.split)
  with assms show ?thesis by simp
next
  case True
  then obtain self m mail where get: "hm_get (sy_cards sys) k = Some (self, m # mail)" by blast
  obtain self' out where h: "card_handle m self = (self', out)" by (rule prod.exhaust)
  let ?sys = "sys\<lparr>sy_cards := hm_insert k (self', mail) (sy_cards sys)\<rparr>"
  have eq: "deliver_card k sys = fold (perform_card_output (ca_account_id self)) out ?sys"
    using get h by (simp add: deliver_card_def)
  have "actors_ok {} sys" using assms(1) by (simp add: system_ok_def)
  note st = actors_okD(2) [OF this get, unfolded card_state_ok_def]
  have "\<not> replaces_state m" using no_replaceD(2) [OF assms(2) get] by simp
  then have tok: "task_tokens i self' + sum_list (map (card_output_token i) out) = task_tokens i self + card_token i m"
    using card_handle_tokens [of self m i] st h by simp
  have "open_updates i ?sys + (task_tokens i self + card_token i m) = open_updates i sys + task_tokens i self'"
    using cards_sum_insert(1) [OF get, of "task_tokens i" "card_token i" self' mail]
    by (simp add: open_updates_def actor_tokens_def)
  then have kept: "open_updates i (deliver_card k sys) = open_updates i sys"
    using card_outputs_tokens [of out i "ca_account_id self" ?sys] card_handle_asks [of m self] h eq tok by simp
  obtain ms where ms: "sy_router_mail (deliver_card k sys) = sy_router_mail ?sys @ map RouterInternal ms"
    "sy_router (deliver_card k sys) = sy_router ?sys" "no_replace ?sys \<longrightarrow> no_replace (deliver_card k sys)"
    using card_outputs_router_mail [of "ca_account_id self" out ?sys] eq by auto
  have "no_replace ?sys"
  proof (rule no_replaceI)
    show "\<not> replaces x" if "x \<in> set (sy_router_mail ?sys)" for x
      using that no_replaceD(1) [OF assms(2)] by simp
  next
    fix k' s' mail' x
    assume g: "hm_get (sy_cards ?sys) k' = Some (s', mail')" and x: "x \<in> set mail'"
    show "\<not> replaces_state x"
    proof (cases "k' = k")
      case True
      with g x no_replaceD(2) [OF assms(2) get, of x] show ?thesis by simp
    next
      case False
      with g x no_replaceD(2) [OF assms(2), of k' s' mail' x] show ?thesis by simp
    qed
  qed
  with ms kept update_ops_kept [OF assms(3), of "deliver_card k sys" ms] show ?thesis by simp
qed


text \<open>Only a replacement tells an actor to take a state.\<close>

fun tells_replace :: "router_output \<Rightarrow> bool" where
  "tells_replace (TellCard k m) = replaces_state (CardCommand m)"
| "tells_replace out = False"

lemma created_tells:
  "get_or_create_account a rt = (acc, rt', out) \<Longrightarrow> list_all (\<lambda>x. \<not> tells_replace x) out"
  "get_or_create_card a c rt = (crd, rt'', out') \<Longrightarrow> list_all (\<lambda>x. \<not> tells_replace x) out'"
  by (auto simp: get_or_create_account_def get_or_create_card_def Let_def split: option.splits)

lemma query_cards_tells: "list_all (\<lambda>x. \<not> tells_replace x) (query_cards j a r cards ks)"
  by (induction ks) (auto split: option.split)

lemma router_cmd_tells:
  assumes "router_handle_cmd cmd rt = (rt', out)" "\<not> replaces (RouterCommand cmd)"
  shows "list_all (\<lambda>x. \<not> tells_replace x) out"
proof (cases cmd)
  case (Execute j op)
  let ?rt = "rt\<lparr>rt_operations := hm_insert j op (rt_operations rt)\<rparr>"
  have x: "execute_operation j op ?rt = (rt', out)" using assms(1) Execute by simp
  show ?thesis
  proof (cases op)
    case (Charge a c y off)
    with x show ?thesis
      by (auto simp: execute_charge_def split: prod.splits dest: created_tells)
  next
    case (LimitAccount a l)
    with x show ?thesis
      by (auto simp: execute_limit_account_def split: prod.splits dest: created_tells)
  next
    case (LimitCard a c l)
    with x show ?thesis
      by (auto simp: execute_limit_card_def split: prod.splits dest: created_tells)
  next
    case (AccountQuery a)
    with x show ?thesis
      by (auto simp: execute_account_query_def Let_def query_cards_tells split: prod.splits dest: created_tells)
  next
    case (Bill a p)
    with x show ?thesis
      by (auto simp: execute_bill_def Let_def query_cards_tells split: prod.splits dest: created_tells)
  next
    case (GetDatabase addr)
    with x show ?thesis
      by (auto simp: execute_get_database_def Let_def list_all_iff split: if_splits)
  qed (use assms(2) Execute in simp)
qed (use assms in auto)

lemma router_outputs_no_replace:
  "no_replace sys \<Longrightarrow> list_all (\<lambda>x. \<not> tells_replace x) out \<Longrightarrow> no_replace (fold perform_router_output out sys)"
proof (induction out arbitrary: sys)
  case (Cons x out)
  have "no_replace (perform_router_output x sys)"
  proof (cases x)
    case (SpawnCard k)
    show ?thesis
    proof (rule no_replaceI)
      fix k' self mail m
      assume "hm_get (sy_cards (perform_router_output x sys)) k' = Some (self, mail)" "m \<in> set mail"
      with SpawnCard no_replaceD(2) [OF Cons.prems(1), of k' self mail m] show "\<not> replaces_state m"
        by (cases "k' = k") simp_all
    qed (use no_replaceD(1) [OF Cons.prems(1)] SpawnCard in simp)
  next
    case (SpawnAccount a)
    with Cons.prems(1) show ?thesis by (simp add: no_replace_def)
  qed (use Cons.prems post_no_replace [OF Cons.prems(1)] in simp_all)
  with Cons show ?case by simp
qed simp

lemma deliver_router_tokens:
  assumes ok: "system_ok sys" and nr: "no_replace sys" and up: "update_ops i sys" and room: "channel_room sys"
    and d: "deliver_router sys = Ok sys'"
  shows "no_replace sys' \<and> update_ops i sys' \<and>
    answers i (rt_events (sy_router sys')) + open_updates i sys' = answers i (rt_events (sy_router sys)) + open_updates i sys"
proof (cases "sy_router_mail sys")
  case Nil
  with d nr up show ?thesis by (simp add: deliver_router_def)
next
  case (Cons m mail)
  let ?rt = "sy_router sys"
  show ?thesis
  proof (cases m)
    case (RouterCommand cmd)
    obtain rt' out where r: "router_handle_cmd cmd ?rt = (rt', out)" by (rule prod.exhaust)
    let ?sys = "sys\<lparr>sy_router := rt', sy_router_mail := mail\<rparr>"
    have sys': "sys' = fold perform_router_output out ?sys" using d Cons RouterCommand r by (simp add: deliver_router_def)
    have m: "\<not> replaces (RouterCommand cmd)" using no_replaceD(1) [OF nr, of m] Cons RouterCommand by simp
    note t = router_cmd_tokens [OF r m, of i]
    have "routes ?rt (rt', out)"
      using router_cmd_routes [OF _ _ r] ok by (simp add: system_ok_def)
    then have "well_routed (dom (hm_get (sy_accounts ?sys)), dom (hm_get (sy_cards ?sys))) out (known_accounts rt', known_cards rt')"
      using ok by (simp add: routes_def system_ok_def)
    from router_outputs_tokens [OF this, of i] have tok: "actor_tokens i sys' = actor_tokens i sys + router_token i m"
      using t sys' RouterCommand by (simp add: actor_tokens_def)
    have same: "sy_router sys' = rt'" "sy_router_mail sys' = mail"
      using router_outputs_work [of out ?sys] sys' by simp_all
    have "no_replace ?sys"
      by (rule no_replaceI) (use no_replaceD [OF nr] Cons in auto)
    then have nr': "no_replace sys'" using router_outputs_no_replace router_cmd_tells [OF r m] sys' by blast
    have "update_ops i sys'"
    proof (cases cmd)
      case (Execute j op)
      have "j = i \<longrightarrow> updates op" using up Cons RouterCommand Execute by (simp add: update_ops_def)
      moreover have "rt_operations rt' = hm_insert j op (rt_operations ?rt)" using t Execute by simp
      ultimately show ?thesis
        using up Cons RouterCommand Execute unfolding update_ops_def same tok
        by (cases "j = i") simp_all
    next
      case GetLog
      with up Cons RouterCommand t show ?thesis unfolding update_ops_def same tok by simp
    qed
    moreover have "open_updates i sys' = open_updates i sys"
      using Cons by (simp add: open_updates_def same tok)
    ultimately show ?thesis using nr' t same(1) by simp
  next
    case (RouterInternal msg)
    obtain rt' where r: "router_handle_internal msg ?rt = Ok rt'"
      and sys': "sys' = sys\<lparr>sy_router := rt', sy_router_mail := mail\<rparr>"
      using d Cons RouterInternal by (auto simp: deliver_router_def and_then_Ok_iff)
    have p: "pending_token i m = router_token i m" using RouterInternal by simp
    have held: "\<exists>op. hm_get (rt_operations ?rt) i = Some op \<and> updates op" if "0 < router_token i (RouterInternal msg)"
      using up that Cons RouterInternal p by (auto simp: update_ops_def)
    have t: "rt_operations rt' = rt_operations ?rt \<and>
        answers i (rt_events rt') = answers i (rt_events ?rt) + router_token i (RouterInternal msg)"
      by (rule router_internal_tokens [OF r _ _ held])
        (use room up in \<open>simp_all add: channel_room_def update_ops_def\<close>)
    have a: "actor_tokens i sys' = actor_tokens i sys" by (simp add: sys' actor_tokens_def)
    have "no_replace sys'"
      unfolding sys' by (rule no_replaceI) (use no_replaceD [OF nr] Cons in auto)
    moreover have "update_ops i sys'"
      using up Cons unfolding update_ops_def a by (auto simp: sys' t)
    ultimately show ?thesis
      using Cons t a RouterInternal by (simp add: open_updates_def sys')
  qed
qed

section \<open>Answered once\<close>

lemma answers_recv:
  "answers i (rt_events (sy_router sys)) =
     answers i (case snd (database_recv sys) of Some ev \<Rightarrow> [ev] | None \<Rightarrow> []) +
     answers i (rt_events (sy_router (fst (database_recv sys))))"
  by (simp add: database_recv_def answers_def split: list.split)

lemma system_step_tokens:
  assumes "system_ok sys" "no_replace sys" "update_ops i sys" and step: "system_step e sys = Ok sys'"
    and "e = SysDeliver RouterId \<Longrightarrow> channel_room sys"
    and "\<And>j op. e = SysSend j op \<Longrightarrow> \<not> replaces (RouterCommand (Execute j op)) \<and> (j = i \<longrightarrow> updates op)"
  shows "no_replace sys' \<and> update_ops i sys' \<and>
    answers i (if e = SysRecv then (case snd (database_recv sys) of Some ev \<Rightarrow> [ev] | None \<Rightarrow> []) else []) +
      answers i (rt_events (sy_router sys')) + open_updates i sys' =
    answers i (rt_events (sy_router sys)) + open_updates i sys + (case e of SysSend j op \<Rightarrow> of_bool (j = i) | _ \<Rightarrow> 0)"
proof (cases e)
  case (SysSend j op)
  have sys': "sys' = post_router (RouterCommand (Execute j op)) sys"
    using step SysSend by (simp add: database_send_def)
  have op: "\<not> replaces (RouterCommand (Execute j op))" "j = i \<longrightarrow> updates op" using assms(6) SysSend by auto
  have "no_replace sys'"
    unfolding sys' by (rule no_replaceI) (use no_replaceD [OF assms(2)] op(1) in \<open>auto simp: post_router_def\<close>)
  moreover have "update_ops i sys'"
    using assms(3) op(2) unfolding update_ops_def sys'
    by (simp add: post_router_tokens) (simp add: post_router_def)
  moreover have "answers i [] = 0" by (simp add: answers_def)
  ultimately show ?thesis
    using op(2) SysSend post_open(1) [of i "RouterCommand (Execute j op)" sys]
    by (auto simp: sys' post_router_def)
next
  case (SysDeliver x)
  have "no_replace sys' \<and> update_ops i sys' \<and>
    answers i (rt_events (sy_router sys')) + open_updates i sys' = answers i (rt_events (sy_router sys)) + open_updates i sys"
  proof (cases x)
    case RouterId
    with assms SysDeliver show ?thesis by (intro deliver_router_tokens) auto
  next
    case (AccountId a)
    with deliver_account_tokens [OF assms(2,3), of a] step SysDeliver show ?thesis by auto
  next
    case (CardId k)
    with deliver_card_tokens [OF assms(1-3), of k] step SysDeliver show ?thesis by auto
  qed
  with SysDeliver show ?thesis by (simp add: answers_def)
next
  case SysRecv
  then have sys': "sys' = fst (database_recv sys)" using step by simp
  have same: "sy_router_mail sys' = sy_router_mail sys" "sy_accounts sys' = sy_accounts sys" "sy_cards sys' = sy_cards sys"
    "rt_operations (sy_router sys') = rt_operations (sy_router sys)"
    by (simp_all add: sys' database_recv_def split: list.split)
  have "no_replace sys'" "update_ops i sys'" "open_updates i sys' = open_updates i sys"
    using assms(2,3) by (simp_all add: no_replace_def update_ops_def open_updates_def actor_tokens_def same)
  with SysRecv answers_recv [of i sys] sys' show ?thesis by simp
qed

lemma system_run_tokens:
  assumes "system_ok sys" "no_replace sys" "update_ops i sys" "system_run es sys = Ok sys'" "events_fit es sys"
    and "\<forall>(j, op) \<in> set (submitted es). \<not> replaces (RouterCommand (Execute j op)) \<and> (j = i \<longrightarrow> updates op)"
  shows "answers i (events_read es sys) + answers i (rt_events (sy_router sys')) + open_updates i sys' =
    answers i (rt_events (sy_router sys)) + open_updates i sys + count_list (map fst (submitted es)) i"
  using assms
proof (induction es arbitrary: sys)
  case Nil
  then show ?case by (simp add: answers_def)
next
  case (Cons e es)
  obtain sys1 where s: "system_step e sys = Ok sys1" "system_run es sys1 = Ok sys'"
    using Cons.prems(4) by (auto simp: and_then_Ok_iff)
  have fit: "e = SysDeliver RouterId \<longrightarrow> channel_room sys" "events_fit es sys1" using Cons.prems(5) s(1) by simp_all
  have sub: "submitted (e # es) = (case e of SysSend j op \<Rightarrow> [(j, op)] | _ \<Rightarrow> []) @ submitted es" by (cases e) simp_all
  have ok1: "system_ok sys1" using system_step_ok [OF Cons.prems(1), of e] s(1) by auto
  have "\<not> replaces (RouterCommand (Execute j op)) \<and> (j = i \<longrightarrow> updates op)" if "e = SysSend j op" for j op
    using Cons.prems(6) that by simp
  note t = system_step_tokens [OF Cons.prems(1-3) s(1) fit(1) [rule_format] this]
  have "\<forall>(j, op) \<in> set (submitted es). \<not> replaces (RouterCommand (Execute j op)) \<and> (j = i \<longrightarrow> updates op)"
    using Cons.prems(6) unfolding sub by auto
  from Cons.IH [OF ok1 _ _ s(2) fit(2) this] t have
    "answers i (events_read es sys1) + answers i (rt_events (sy_router sys')) + open_updates i sys' =
      answers i (rt_events (sy_router sys1)) + open_updates i sys1 + count_list (map fst (submitted es)) i" by simp
  moreover have "answers i (xs @ ys) = answers i xs + answers i ys" for xs ys by (simp add: answers_def)
  moreover have "count_list (map fst (submitted (e # es))) i =
      (case e of SysSend j op \<Rightarrow> of_bool (j = i) | _ \<Rightarrow> 0) + count_list (map fst (submitted es)) i"
    by (cases e) simp_all
  ultimately show ?case using t s(1) by simp
qed



definition limit_schedule :: "system_event list" where
  "limit_schedule = [SysSend 1 (LimitAccount 3 None), SysSend 2 (AccountQuery 3), SysDeliver RouterId, SysDeliver RouterId,
     SysDeliver (AccountId 3), SysDeliver (AccountId 3), SysDeliver RouterId, SysRecv, SysDeliver RouterId]"


end
