(* ===== verification/SocketText.thy ===== *)
theory SocketText
  imports CommandText "HOL-Library.Monad_Syntax"
begin

text \<open>
  \<open>SocketAddr::from_str\<close> of the standard library, with which the two clients read the
  addresses of their command lines: a descent over the text, each function taking the text
  that is left and returning it after what it read. The scope of an IPv6 address is read and
  dropped, as an address of the model has none.
\<close>

section \<open>Characters and numbers\<close>

type_synonym 'a reader = "string \<Rightarrow> ('a \<times> string) option"

definition read_given_char :: "char \<Rightarrow> unit reader" where
  "read_given_char c s = (case s of [] \<Rightarrow> None | d # t \<Rightarrow> if d = c then Some ((), t) else None)"

text \<open>\<open>char::to_digit\<close>, for a radix of at most 16.\<close>

definition to_digit :: "nat \<Rightarrow> char \<Rightarrow> nat option" where
  "to_digit radix c =
     (let n = of_char c :: nat;
          d = (if 48 \<le> n \<and> n \<le> 57 then n - 48
               else if 97 \<le> n \<and> n \<le> 102 then n - 87
               else if 65 \<le> n \<and> n \<le> 70 then n - 55 else radix)
      in if d < radix then Some d else None)"

fun read_digits :: "nat \<Rightarrow> string \<Rightarrow> nat list \<times> string" where
  "read_digits radix [] = ([], [])"
| "read_digits radix (c # cs) =
     (case to_digit radix c of
        None \<Rightarrow> ([], c # cs)
      | Some d \<Rightarrow> (let (ds, rest) = read_digits radix cs in (d # ds, rest)))"

definition digits_number :: "nat \<Rightarrow> nat list \<Rightarrow> nat" where
  "digits_number radix ds = foldl (\<lambda>n d. radix * n + d) 0 ds"

text \<open>\<open>read_number\<close>: \<open>bound\<close> is one more than the largest value of the integer type read.\<close>

definition read_number :: "nat \<Rightarrow> nat option \<Rightarrow> bool \<Rightarrow> nat \<Rightarrow> nat reader" where
  "read_number radix max_digits allow_zero_prefix bound s =
     (let (ds, rest) = read_digits radix s
      in if ds = [] \<or> (case max_digits of None \<Rightarrow> False | Some m \<Rightarrow> m < length ds) \<or>
            (\<not> allow_zero_prefix \<and> hd ds = 0 \<and> 1 < length ds) \<or> bound \<le> digits_number radix ds
         then None else Some (digits_number radix ds, rest))"

text \<open>\<open>read_separator\<close>: every part but the first comes after the separator.\<close>

definition read_separator :: "char \<Rightarrow> nat \<Rightarrow> 'a reader \<Rightarrow> 'a reader" where
  "read_separator sep index inner s =
     (if 0 < index then do { (_, t) \<leftarrow> read_given_char sep s; inner t } else inner s)"

section \<open>Addresses\<close>

definition read_octet :: "nat \<Rightarrow> nat reader" where
  "read_octet i = read_separator CHR ''.'' i (read_number 10 (Some 3) False 256)"

definition read_ipv4_addr :: "(nat \<times> nat \<times> nat \<times> nat) reader" where
  "read_ipv4_addr s = do {
     (a, s) \<leftarrow> read_octet 0 s;
     (b, s) \<leftarrow> read_octet 1 s;
     (c, s) \<leftarrow> read_octet 2 s;
     (d, s) \<leftarrow> read_octet 3 s;
     Some ((a, b, c, d), s) }"

text \<open>
  \<open>read_groups\<close>: the groups read, whether the last two come from an embedded IPv4 address,
  and the text after them. \<open>n\<close> is the number of groups there is room for, \<open>i\<close> that of the
  groups before.
\<close>

fun read_groups :: "nat \<Rightarrow> nat \<Rightarrow> string \<Rightarrow> nat list \<times> bool \<times> string" where
  "read_groups 0 i s = ([], False, s)"
| "read_groups (Suc n) i s =
     (case (if n = 0 then None else read_separator CHR '':'' i read_ipv4_addr s) of
        Some ((a, b, c, d), t) \<Rightarrow> ([256 * a + b, 256 * c + d], True, t)
      | None \<Rightarrow>
          (case read_separator CHR '':'' i (read_number 16 (Some 4) True (2 ^ 16)) s of
             None \<Rightarrow> ([], False, s)
           | Some (g, t) \<Rightarrow>
               (let (gs, v4, u) = read_groups n (Suc i) t in (g # gs, v4, u))))"

definition groups_word :: "nat list \<Rightarrow> 128 word" where
  "groups_word gs = foldl (\<lambda>w g. w * 65536 + of_nat g) 0 gs"

definition read_ipv6_addr :: "128 word reader" where
  "read_ipv6_addr s =
     (let (head, head_ipv4, s1) = read_groups 8 0 s
      in if length head = 8 then Some (groups_word head, s1)
         else if head_ipv4 then None
         else do {
           (_, s2) \<leftarrow> read_given_char CHR '':'' s1;
           (_, s3) \<leftarrow> read_given_char CHR '':'' s2;
           let (tail, _, s4) = read_groups (7 - length head) 0 s3;
           Some (groups_word (head @ replicate (8 - length head - length tail) 0 @ tail), s4) })"

definition read_port :: "u16 reader" where
  "read_port s = do {
     (_, s) \<leftarrow> read_given_char CHR '':'' s;
     (n, s) \<leftarrow> read_number 10 None True (2 ^ 16) s;
     Some (of_nat n, s) }"

definition read_scope_id :: "nat reader" where
  "read_scope_id s = do {
     (_, s) \<leftarrow> read_given_char CHR ''%'' s;
     read_number 10 None True (2 ^ 32) s }"

definition read_socket_addr_v4 :: "socket_addr reader" where
  "read_socket_addr_v4 s = do {
     ((a, b, c, d), s) \<leftarrow> read_ipv4_addr s;
     (port, s) \<leftarrow> read_port s;
     Some (SocketAddr (V4 (of_nat a) (of_nat b) (of_nat c) (of_nat d)) port, s) }"

definition read_socket_addr_v6 :: "socket_addr reader" where
  "read_socket_addr_v6 s = do {
     (_, s) \<leftarrow> read_given_char CHR ''['' s;
     (ip, s) \<leftarrow> read_ipv6_addr s;
     let s = (case read_scope_id s of None \<Rightarrow> s | Some (_, t) \<Rightarrow> t);
     (_, s) \<leftarrow> read_given_char CHR '']'' s;
     (port, s) \<leftarrow> read_port s;
     Some (SocketAddr (V6 ip) port, s) }"

text \<open>The whole text must be read.\<close>

definition parse_socket_addr :: "string \<Rightarrow> socket_addr option" where
  "parse_socket_addr s =
     (case (case read_socket_addr_v4 s of None \<Rightarrow> read_socket_addr_v6 s | r \<Rightarrow> r) of
        Some (addr, []) \<Rightarrow> Some addr
      | _ \<Rightarrow> None)"

section \<open>Printed addresses are read back\<close>

definition show_ipv4 :: "u8 \<Rightarrow> u8 \<Rightarrow> u8 \<Rightarrow> u8 \<Rightarrow> u16 \<Rightarrow> string" where
  "show_ipv4 a b c d port =
     show_nat (unat a) @ ''.'' @ show_nat (unat b) @ ''.'' @ show_nat (unat c) @ ''.'' @
     show_nat (unat d) @ '':'' @ show_nat (unat port)"

lemma read_digits_append:
  assumes "\<forall>c \<in> set u. to_digit radix c \<noteq> None" "s = [] \<or> to_digit radix (hd s) = None"
  shows "read_digits radix (u @ s) = (map (the \<circ> to_digit radix) u, s)"
  using assms by (induction u) (cases s, auto)+

lemma to_digit_10 [simp]: "to_digit 10 = digit_value"
  by (rule ext) (auto simp: to_digit_def digit_value_def Let_def)

lemma digits_value_number:
  "\<forall>c \<in> set s. digit_value c \<noteq> None \<Longrightarrow>
     digits_value acc s = Some (foldl (\<lambda>n d. 10 * n + d) acc (map (the \<circ> digit_value) s))"
  by (induction s arbitrary: acc) auto

lemma show_nat_number [simp]: "digits_number 10 (map (the \<circ> digit_value) (show_nat n)) = n"
  using digits_value_number [of "show_nat n" 0] show_nat_digits [of n]
  by (simp add: digits_value_show digits_number_def list_all_iff)

lemma show_nat_hd: "hd (map (the \<circ> digit_value) (show_nat n)) = 0 \<Longrightarrow> n = 0"
proof (induction n rule: show_nat.induct)
  case (1 n)
  show ?case
  proof (cases "n < 10")
    case True
    then show ?thesis using "1.prems" by (subst (asm) show_nat.simps) simp
  next
    case False
    then have "hd (map (the \<circ> digit_value) (show_nat (n div 10))) = 0"
      using "1.prems" by (subst (asm) show_nat.simps) (simp add: hd_map)
    with "1.IH" False have "n div 10 = 0" by blast
    then show ?thesis using False by simp
  qed
qed

lemma length_show_nat: "n < 10 ^ Suc k \<Longrightarrow> length (show_nat n) \<le> Suc k"
proof (induction k arbitrary: n)
  case 0
  then show ?case by (subst show_nat.simps) simp
next
  case (Suc k)
  show ?case
  proof (cases "n < 10")
    case True
    then show ?thesis by (subst show_nat.simps) simp
  next
    case False
    have "n div 10 < 10 ^ Suc k" using Suc.prems by (simp add: div_less_iff_less_mult mult.commute)
    then show ?thesis using Suc.IH False by (subst show_nat.simps) simp
  qed
qed

lemma read_number_show:
  assumes "n < bound" "s = [] \<or> digit_value (hd s) = None"
    and "\<And>m. max_digits = Some m \<Longrightarrow> length (show_nat n) \<le> m"
  shows "read_number 10 max_digits zero bound (show_nat n @ s) = Some (n, s)"
proof -
  have "read_digits 10 (show_nat n @ s) = (map (the \<circ> digit_value) (show_nat n), s)"
    using read_digits_append [of "show_nat n" 10 s] assms(2) show_nat_digits [of n]
    by (simp add: list_all_iff)
  moreover have "n = 0 \<Longrightarrow> length (show_nat n) = 1" by (simp add: show_nat.simps)
  ultimately show ?thesis
    using assms(1,3) show_nat_hd [of n]
    by (auto simp: read_number_def Let_def split: option.splits)
qed

lemma read_octet_show:
  assumes "s = [] \<or> digit_value (hd s) = None"
  shows "read_octet 0 (show_nat (unat (a :: u8)) @ s) = Some (unat a, s)"
    and "0 < i \<Longrightarrow> read_octet i (CHR ''.'' # show_nat (unat a) @ s) = Some (unat a, s)"
proof -
  have "unat a < 256" using unsigned_less [of a, where 'a = nat] by simp
  then have "read_number 10 (Some 3) False 256 (show_nat (unat a) @ s) = Some (unat a, s)"
    using assms length_show_nat [of "unat a" 2] by (intro read_number_show) auto
  then show "read_octet 0 (show_nat (unat a) @ s) = Some (unat a, s)"
    and "0 < i \<Longrightarrow> read_octet i (CHR ''.'' # show_nat (unat a) @ s) = Some (unat a, s)"
    by (simp_all add: read_octet_def read_separator_def read_given_char_def)
qed

lemma digit_value_colon [simp]: "digit_value CHR '':'' = None"
  by (simp add: digit_value_def)

lemma parse_show_ipv4:
  "parse_socket_addr (show_ipv4 a b c d port) = Some (SocketAddr (V4 a b c d) port)"
proof -
  let ?rest = "CHR '':'' # show_nat (unat port)"
  have "read_ipv4_addr (show_ipv4 a b c d port) = Some ((unat a, unat b, unat c, unat d), ?rest)"
    using read_octet_show(2) [of ?rest 3 d]
      read_octet_show(2) [of "CHR ''.'' # show_nat (unat d) @ ?rest" 2 c]
      read_octet_show(2) [of "CHR ''.'' # show_nat (unat c) @ CHR ''.'' # show_nat (unat d) @ ?rest" 1 b]
      read_octet_show(1) [of "CHR ''.'' # show_nat (unat b) @ CHR ''.'' # show_nat (unat c) @
        CHR ''.'' # show_nat (unat d) @ ?rest" a]
    by (simp add: read_ipv4_addr_def show_ipv4_def)
  moreover have "read_number 10 None True (2 ^ 16) (show_nat (unat port) @ []) = Some (unat port, [])"
    using unsigned_less [of port, where 'a = nat] by (intro read_number_show) auto
  ultimately have "read_socket_addr_v4 (show_ipv4 a b c d port) =
      Some (SocketAddr (V4 a b c d) port, [])"
    by (simp add: read_socket_addr_v4_def read_port_def read_given_char_def)
  then show ?thesis by (simp add: parse_socket_addr_def)
qed

end
