(* ===== verification/Administrator.thy ===== *)
theory Administrator
  imports CommandText Roundtrip Connection
begin

text \<open>
  The administrator (\<open>client/src/administrator/administrator.rs\<close>, \<open>main.rs\<close>): commands typed
  for one account become operations, each is sent to one node, and the answer under its
  number is printed.
\<close>

section \<open>Commands\<close>

datatype admin_command =
    AdminLimitAccount u64 f32
  | AdminLimitCard u64 u64 f32
  | AdminAccountQuery u64
  | AdminBill u64 "rust_string option"

text \<open>The error texts of a line, with the words they quote.\<close>

datatype admin_line_error =
    EmptyLine
  | UsageLimitAccount
  | UsageLimitCard
  | UsageAccountQuery
  | UsageBill
  | AdminInvalidAmount string
  | AdminInvalidCardId string
  | UnknownCommand string

definition bytes_of :: "string \<Rightarrow> rust_string" where
  "bytes_of s = map (\<lambda>c. of_nat (of_char c)) s"

definition parse_line_to_command :: "string \<Rightarrow> u64 \<Rightarrow> (admin_line_error, admin_command) result" where
  "parse_line_to_command line account_id =
     (case split_whitespace line of
        [] \<Rightarrow> Error EmptyLine
      | cmd # args \<Rightarrow>
          if cmd = ''limit-account'' then
            (case args of
               [a] \<Rightarrow> (case parse_f32 a of
                          None \<Rightarrow> Error (AdminInvalidAmount a)
                        | Some amount \<Rightarrow> Ok (AdminLimitAccount account_id amount))
             | _ \<Rightarrow> Error UsageLimitAccount)
          else if cmd = ''limit-card'' then
            (case args of
               [c, a] \<Rightarrow> (case parse_u64 c of
                             None \<Rightarrow> Error (AdminInvalidCardId c)
                           | Some card_id \<Rightarrow>
                               (case parse_f32 a of
                                  None \<Rightarrow> Error (AdminInvalidAmount a)
                                | Some amount \<Rightarrow> Ok (AdminLimitCard account_id card_id amount)))
             | _ \<Rightarrow> Error UsageLimitCard)
          else if cmd = ''account-query'' then
            (if args \<noteq> [] then Error UsageAccountQuery else Ok (AdminAccountQuery account_id))
          else if cmd = ''bill'' then
            (case args of
               [] \<Rightarrow> Ok (AdminBill account_id None)
             | [p] \<Rightarrow> Ok (AdminBill account_id (Some (bytes_of p)))
             | _ \<Rightarrow> Error UsageBill)
          else Error (UnknownCommand cmd))"

section \<open>Operations\<close>

record administrator =
  ad_bind_addr :: socket_addr
  ad_target_node :: socket_addr
  ad_account_id :: u64
  ad_connection :: connection
  ad_next_req_id :: u32

text \<open>\<open>Administrator::new\<close>: its connection holds at most 16 handlers.\<close>

definition administrator_new :: "nat \<Rightarrow> (socket_addr \<Rightarrow> bool) \<Rightarrow> bool \<Rightarrow> socket_addr \<Rightarrow> socket_addr \<Rightarrow>
    u64 \<Rightarrow> administrator app_result" where
  "administrator_new now reachable can_bind bind_addr target_node account_id =
     and_then (connection_start now reachable can_bind bind_addr 16) (\<lambda>conn.
       Ok \<lparr>ad_bind_addr = bind_addr, ad_target_node = target_node, ad_account_id = account_id,
           ad_connection = conn, ad_next_req_id = 1\<rparr>)"

text \<open>\<open>if amount > 0.0 { Some(amount) } else { None }\<close>\<close>

definition limit_of_amount :: "f32 \<Rightarrow> f32 option" where
  "limit_of_amount amount = (if 0 < amount then Some amount else None)"

text \<open>The \<open>assert_eq!\<close> of the two limit commands panics.\<close>

fun build_operation :: "administrator \<Rightarrow> admin_command \<Rightarrow> operation app_result" where
  "build_operation self (AdminLimitAccount account_id amount) =
     (if account_id \<noteq> ad_account_id self then Panicked
      else Ok (LimitAccount account_id (limit_of_amount amount)))"
| "build_operation self (AdminLimitCard account_id card_id amount) =
     (if account_id \<noteq> ad_account_id self then Panicked
      else Ok (LimitCard account_id card_id (limit_of_amount amount)))"
| "build_operation self (AdminAccountQuery account_id) = Ok (AccountQuery account_id)"
| "build_operation self (AdminBill account_id period) = Ok (Bill account_id period)"

section \<open>Answers\<close>

fun describe_verify_error :: "verify_error \<Rightarrow> string" where
  "describe_verify_error (ChargeLimit CardLimitExceeded) = ''card limit exceeded''"
| "describe_verify_error (ChargeLimit AccountLimitExceeded) = ''account limit exceeded''"
| "describe_verify_error (LimitUpdate BelowCurrentUsage) = ''new limit is below current usage''"

text \<open>The printed lines; an amount is kept as its value, not as its digits.\<close>

datatype admin_line =
    AdminText string
  | AdminAccountId u64
  | AdminTotal f32
  | AdminNoCards
  | AdminCard u64 f32

fun handle_op_result :: "operation_result \<Rightarrow> admin_line list app_result" where
  "handle_op_result (ResCharge ChargeOk) = Ok [AdminText ''CHARGE: OK'']"
| "handle_op_result (ResCharge (ChargeFailed err)) =
     Ok [AdminText (''CHARGE: ERROR - '' @ describe_verify_error err)]"
| "handle_op_result (ResLimitAccount LimitOk) = Ok [AdminText ''LIMIT_ACCOUNT: OK'']"
| "handle_op_result (ResLimitAccount (LimitFailed err)) =
     Ok [AdminText (''LIMIT_ACCOUNT: ERROR - '' @ describe_verify_error err)]"
| "handle_op_result (ResLimitCard LimitOk) = Ok [AdminText ''LIMIT_CARD: OK'']"
| "handle_op_result (ResLimitCard (LimitFailed err)) =
     Ok [AdminText (''LIMIT_CARD: ERROR - '' @ describe_verify_error err)]"
| "handle_op_result (ResAccountQuery q) =
     Ok ([AdminText ''ACCOUNT_QUERY: OK'', AdminAccountId (aq_account_id q),
          AdminTotal (aq_total_spent q)] @
         (if aq_per_card_spent q = [] then [AdminNoCards]
          else map (\<lambda>(c, spent). AdminCard c spent) (sort_key fst (aq_per_card_spent q))))"
| "handle_op_result (ResDatabaseSnapshot d) = Panicked"
| "handle_op_result ResReplaceDatabase = Panicked"

text \<open>
  The loop that waits for the answer: every other message is skipped, an error ends it, and
  \<open>None\<close> says that it is waiting for a message that has not arrived.
\<close>

lemma connection_recv_shrinks:
  "connection_recv conn = (conn', Some (Inr m)) \<Longrightarrow> length (cn_inbox conn') < length (cn_inbox conn)"
  by (auto simp: connection_recv_def split: if_splits list.splits)

function await_response :: "u32 \<Rightarrow> connection \<Rightarrow> connection \<times> operation_result app_result option" where
  "await_response req_id conn =
     (case connection_recv conn of
        (conn', None) \<Rightarrow> (conn', None)
      | (conn', Some (Inl f)) \<Rightarrow> (conn', Some (Inl f))
      | (conn', Some (Inr (Response r op_result))) \<Rightarrow>
          if r = req_id then (conn', Some (Ok op_result)) else await_response req_id conn'
      | (conn', Some (Inr other)) \<Rightarrow> await_response req_id conn')"
  by auto
termination
  by (relation "measure (\<lambda>(i, conn). length (cn_inbox conn))")
    (auto dest: connection_recv_shrinks [OF sym])

declare await_response.simps [simp del]

text \<open>\<open>None\<close>: waiting for the answer.\<close>

definition handle_command :: "admin_command \<Rightarrow> administrator \<Rightarrow>
    administrator \<times> admin_line list app_result option" where
  "handle_command cmd self =
     (case build_operation self cmd of
        Inl f \<Rightarrow> (self, Some (Inl f))
      | Inr op \<Rightarrow>
          (let req_id = ad_next_req_id self; self1 = self\<lparr>ad_next_req_id := req_id + 1\<rparr>;
               (conn, r) = connection_send (Request req_id op (ad_bind_addr self1))
                             (ad_target_node self1) (ad_connection self1)
           in case r of
                Inl f \<Rightarrow> (self1\<lparr>ad_connection := conn\<rparr>, Some (Inl f))
              | Inr u \<Rightarrow>
                  (case await_response req_id conn of
                     (conn', None) \<Rightarrow> (self1\<lparr>ad_connection := conn'\<rparr>, None)
                   | (conn', Some (Inl f)) \<Rightarrow> (self1\<lparr>ad_connection := conn'\<rparr>, Some (Inl f))
                   | (conn', Some (Inr op_result)) \<Rightarrow>
                       (self1\<lparr>ad_connection := conn'\<rparr>, Some (handle_op_result op_result)))))"

section \<open>The command loop\<close>

text \<open>
  \<open>read_line\<close>: a line, or an error. At the end of the input it succeeds and leaves the line
  empty.
\<close>

datatype admin_read = ReadLine string | ReadEof | ReadError

datatype admin_print =
    PrintAnswer "admin_line list"
  | PrintFailure app_error
  | PrintBadLine admin_line_error
  | PrintHelp
  | PrintExit
  | PrintReadError

datatype admin_status = AdminRunning | AdminWaiting | AdminExited | AdminPanicked

definition admin_take_line :: "string \<Rightarrow> administrator \<Rightarrow> administrator \<times> admin_print list \<times> admin_status" where
  "admin_take_line input self =
     (let line = trim input in
      if line = [] then (self, [], AdminRunning)
      else if eq_ignore_ascii_case line ''exit'' \<or> eq_ignore_ascii_case line ''quit''
      then (self, [PrintExit], AdminExited)
      else if eq_ignore_ascii_case line ''help'' then (self, [PrintHelp], AdminRunning)
      else (case parse_line_to_command line (ad_account_id self) of
              Inl (Err e) \<Rightarrow> (self, [PrintBadLine e], AdminRunning)
            | Inl Panic \<Rightarrow> (self, [], AdminPanicked)
            | Inr cmd \<Rightarrow>
                (case handle_command cmd self of
                   (self', None) \<Rightarrow> (self', [], AdminWaiting)
                 | (self', Some (Inr lines)) \<Rightarrow> (self', [PrintAnswer lines], AdminRunning)
                 | (self', Some (Inl (Err e))) \<Rightarrow> (self', [PrintFailure e], AdminRunning)
                 | (self', Some (Inl Panic)) \<Rightarrow> (self', [], AdminPanicked))))"

fun admin_step :: "admin_read \<Rightarrow> administrator \<Rightarrow> administrator \<times> admin_print list \<times> admin_status" where
  "admin_step (ReadLine line) self = admin_take_line line self"
| "admin_step ReadEof self = admin_take_line [] self"
| "admin_step ReadError self = (self, [PrintReadError], AdminExited)"

fun admin_run :: "admin_read list \<Rightarrow> administrator \<Rightarrow> administrator \<times> admin_print list \<times> admin_status" where
  "admin_run [] self = (self, [], AdminRunning)"
| "admin_run (rd # rds) self =
     (case admin_step rd self of
        (self', out, AdminRunning) \<Rightarrow>
          (let (self'', out', st) = admin_run rds self' in (self'', out @ out', st))
      | r \<Rightarrow> r)"

section \<open>Properties\<close>

fun operation_account :: "operation \<Rightarrow> u64 option" where
  "operation_account (Charge a c x off) = Some a"
| "operation_account (LimitAccount a l) = Some a"
| "operation_account (LimitCard a c l) = Some a"
| "operation_account (AccountQuery a) = Some a"
| "operation_account (Bill a p) = Some a"
| "operation_account (GetDatabase addr) = None"
| "operation_account (ReplaceDatabase d) = None"

definition sample_administrator :: administrator where
  "sample_administrator =
     \<lparr>ad_bind_addr = SocketAddr (V4 127 0 0 1) 9000, ad_target_node = SocketAddr (V4 127 0 0 1) 5000,
      ad_account_id = 7, ad_connection = sample_connection, ad_next_req_id = 1\<rparr>"

text \<open>A limit that is set is positive, so it is never the \<open>NO_LIMIT\<close> sentinel.\<close>

lemma no_limit_negative: "\<not> 0 < NO_LIMIT"
  by (simp add: NO_LIMIT_def less_f32_def f32_lt_def f32_key_def f32_neg_def f32_mag_def
      sign_bit_def zero_f32_def)

lemma limit_of_amount_lossless: "limit_lossless (limit_of_amount amount)"
  using no_limit_negative by (auto simp: limit_of_amount_def)

lemma parsed_command_account:
  assumes "parse_line_to_command line a = Ok cmd"
  shows "(\<exists>x. cmd = AdminLimitAccount a x) \<or> (\<exists>c x. cmd = AdminLimitCard a c x) \<or>
    cmd = AdminAccountQuery a \<or> (\<exists>p. cmd = AdminBill a p)"
  using assms
  by (auto simp: parse_line_to_command_def split: list.splits option.splits if_splits)



text \<open>The administrator prints its own answer: whatever other messages and answers under other
  numbers arrived before it, they are skipped, the answer under the request's number is taken,
  and what arrived after it stays.\<close>

theorem administrator_takes_its_answer:
  assumes "cn_connected conn"
    and "cn_inbox conn = map Ok others @ Ok (Response req_id op_result) # rest"
    and "\<forall>m \<in> set others. \<forall>r. m \<noteq> Response req_id r"
  shows "await_response req_id conn = (conn\<lparr>cn_inbox := rest\<rparr>, Some (Ok op_result))"
  using assms
proof (induction others arbitrary: conn)
  case Nil
  then show ?case by (subst await_response.simps) (simp add: connection_recv_def)
next
  case (Cons m others)
  let ?conn = "conn\<lparr>cn_inbox := map Ok others @ Ok (Response req_id op_result) # rest\<rparr>"
  have "connection_recv conn = (?conn, Some (Ok m))"
    using Cons.prems by (simp add: connection_recv_def)
  moreover have "await_response req_id ?conn = (conn\<lparr>cn_inbox := rest\<rparr>, Some (Ok op_result))"
    using Cons.IH [of ?conn] Cons.prems by simp
  ultimately show ?case
    using Cons.prems by (subst await_response.simps) (cases m; simp)
qed

theorem administrator_takes_its_answer_witness:
  "snd (await_response 1 (sample_connection\<lparr>cn_inbox :=
     [Ok (Ack 4), Ok (Response 9 (ResCharge ChargeOk)), Ok (Response 1 (ResLimitAccount LimitOk))]\<rparr>))
   = Some (Ok (ResLimitAccount LimitOk))"
  using administrator_takes_its_answer [of "sample_connection\<lparr>cn_inbox :=
      [Ok (Ack 4), Ok (Response 9 (ResCharge ChargeOk)), Ok (Response 1 (ResLimitAccount LimitOk))]\<rparr>"
      "[Ack 4, Response 9 (ResCharge ChargeOk)]" 1 "ResLimitAccount LimitOk" "[]"]
  by (simp add: sample_connection_def)

text \<open>At the end of its input the administrator goes on asking for commands for ever.\<close>

lemma administrator_spins_at_eof: "admin_run (replicate n ReadEof) self = (self, [], AdminRunning)"
  by (induction n) (simp_all add: admin_take_line_def trim_def trim_start.simps)

end
