(* ===== verification/EntryPoints.thy ===== *)
theory EntryPoints
  imports SocketText NodeRuntime Station NodeClient Administrator
begin

text \<open>
  How the three programs start (\<open>server/src/main.rs\<close> with \<open>Leader::start\<close> and
  \<open>Replica::start\<close>, \<open>client/src/node_client/main.rs\<close>, \<open>client/src/administrator/main.rs\<close>):
  from the command line to the state their loops run in, or to the exit code; and a whole
  process, the loop of the node beside its connection, its database and its station.
\<close>

section \<open>Ways a program ends\<close>

text \<open>\<open>Serving\<close>: the program has started and its loop runs.\<close>

datatype exit_code = ExitSuccess | ExitFailure | ExitPanicked

datatype 'p program = Serving 'p | Exited exit_code

text \<open>\<open>main\<close>: \<open>Ok(None)\<close> is a \<open>run\<close> that returned before its loop.\<close>

fun main_of :: "'p option app_result \<Rightarrow> 'p program" where
  "main_of (Inr (Some p)) = Serving p"
| "main_of (Inr None) = Exited ExitSuccess"
| "main_of (Inl (Err e)) = Exited ExitFailure"
| "main_of (Inl Panic) = Exited ExitPanicked"

text \<open>The network a program is started in: the time, who answers, and whether the own address is free.\<close>

record net_env =
  ne_now :: nat
  ne_reachable :: "socket_addr \<Rightarrow> bool"
  ne_can_bind :: bool

definition connect_in :: "net_env \<Rightarrow> socket_addr \<Rightarrow> nat \<Rightarrow> connection app_result" where
  "connect_in env address max_conns =
     connection_start (ne_now env) (ne_reachable env) (ne_can_bind env) address max_conns"

section \<open>The server\<close>

record server_process =
  sp_runtime :: node_runtime
  sp_world :: node_world
  sp_status :: node_status
  sp_station :: station_sim
  sp_station_status :: sim_status

text \<open>
  A station that has ended, as one without pumps does at once, has closed both channels.
\<close>

definition new_world :: "actor_system \<Rightarrow> station_sim \<times> sim_status \<Rightarrow> connection \<Rightarrow> node_world" where
  "new_world db station conn =
     \<lparr>nw_conn = conn, nw_db = db, nw_to_station = [],
      nw_to_station_open = (snd station = SimRunning), nw_from_station = [],
      nw_from_station_open = (snd station = SimRunning)\<rparr>"

definition enter_loop :: "node_runtime \<Rightarrow> node_world \<Rightarrow> station_sim \<times> sim_status \<Rightarrow> server_process"
  where
  "enter_loop rt w station =
     \<lparr>sp_runtime = rt, sp_world = w, sp_status = NodeRunning, sp_station = fst station,
      sp_station_status = snd station\<rparr>"

definition leader_start :: "(socket_addr \<Rightarrow> u64) \<Rightarrow> net_env \<Rightarrow> socket_addr \<Rightarrow> u64 \<times> u64 \<Rightarrow> nat \<Rightarrow> nat \<Rightarrow>
    server_process app_result" where
  "leader_start hash env address coords max_conns pumps =
     (let db = system_new; station = station_start pumps in
      and_then (connect_in env address max_conns) (\<lambda>conn.
        Ok (enter_loop (RunLeader (leader_start_state hash address coords))
              (new_world db station conn) station)))"

text \<open>The result of the first \<open>Join\<close> is dropped, a panic on the way is not.\<close>

definition replica_start :: "(socket_addr \<Rightarrow> u64) \<Rightarrow> net_env \<Rightarrow> socket_addr \<Rightarrow> socket_addr \<Rightarrow> u64 \<times> u64 \<Rightarrow>
    nat \<Rightarrow> nat \<Rightarrow> server_process app_result" where
  "replica_start hash env address leader_addr coords max_conns pumps =
     (let db = system_new; station = station_start pumps in
      and_then (connect_in env address max_conns) (\<lambda>conn.
        let replica = replica_start_state hash address leader_addr coords (ne_now env);
            (w, r) = ignore_error (net_send (Join (rp_address replica)) (rp_leader_addr replica)
                       (new_world db station conn))
        in and_then r (\<lambda>_. Ok (enter_loop (RunReplica replica) w station))))"

datatype role_args =
    ArgStation socket_addr
  | ArgLeader nat
  | ArgReplica socket_addr nat

text \<open>What \<open>clap\<close> makes of the command line.\<close>

record args =
  ar_address :: socket_addr
  ar_coords :: "u64 list"
  ar_pumps :: nat
  ar_role :: role_args

definition server_run :: "(socket_addr \<Rightarrow> u64) \<Rightarrow> net_env \<Rightarrow> args \<Rightarrow> server_process app_result" where
  "server_run hash env a =
     (case ar_coords a of
        lat # lon # _ \<Rightarrow>
          (case ar_role a of
             ArgLeader max_conns \<Rightarrow>
               leader_start hash env (ar_address a) (lat, lon) max_conns (ar_pumps a)
           | ArgReplica leader_addr max_conns \<Rightarrow>
               replica_start hash env (ar_address a) leader_addr (lat, lon) max_conns (ar_pumps a)
           | ArgStation leader_addr \<Rightarrow> Panicked)
      | _ \<Rightarrow> Panicked)"

definition server_main :: "(socket_addr \<Rightarrow> u64) \<Rightarrow> net_env \<Rightarrow> args \<Rightarrow> server_process program" where
  "server_main hash env a = main_of (and_then (server_run hash env a) (\<lambda>p. Ok (Some p)))"

text \<open>The exit code of a server whose loop has ended.\<close>

fun node_exit :: "node_status \<Rightarrow> exit_code option" where
  "node_exit NodeRunning = None"
| "node_exit (NodeStopped None) = Some ExitSuccess"
| "node_exit (NodeStopped (Some e)) = Some ExitFailure"
| "node_exit NodePanicked = Some ExitPanicked"

section \<open>The forwarding client\<close>

definition parse_arg :: "'a option \<Rightarrow> 'a app_result" where
  "parse_arg r = (case r of None \<Rightarrow> Error Config | Some x \<Rightarrow> Ok x)"

fun parse_known_nodes :: "string list \<Rightarrow> socket_addr list app_result" where
  "parse_known_nodes [] = Ok []"
| "parse_known_nodes (raw # raws) =
     and_then (parse_arg (parse_socket_addr raw)) (\<lambda>addr.
     and_then (parse_known_nodes raws) (\<lambda>known_nodes. Ok (addr # known_nodes)))"

record client_process =
  cp_client :: node_client
  cp_world :: client_world
  cp_station :: station_sim
  cp_station_status :: sim_status

definition new_client_world :: "station_sim \<times> sim_status \<Rightarrow> connection \<Rightarrow> client_world" where
  "new_client_world station conn =
     \<lparr>cw_conn = conn, cw_to_station = [], cw_to_station_open = (snd station = SimRunning),
      cw_from_station = [], cw_from_station_open = (snd station = SimRunning)\<rparr>"

text \<open>The usage text names the program, \<open>args[0]\<close>.\<close>

definition node_client_run :: "net_env \<Rightarrow> string list \<Rightarrow> client_process option app_result" where
  "node_client_run env a =
     (if length a < 5 then (if a = [] then Panicked else Ok None)
      else
        and_then (parse_arg (parse_socket_addr (a ! 1))) (\<lambda>bind_addr.
        and_then (parse_arg (parse_usize (a ! 2))) (\<lambda>max_connections.
        and_then (parse_arg (parse_usize (a ! 3))) (\<lambda>num_pumps.
        and_then (parse_known_nodes (drop 4 a)) (\<lambda>known_nodes.
          if known_nodes = [] then Ok None
          else and_then (connect_in env bind_addr max_connections) (\<lambda>connection.
            let station = station_start num_pumps in
            Ok (Some \<lparr>cp_client = client_new bind_addr known_nodes,
                      cp_world = new_client_world station connection,
                      cp_station = fst station, cp_station_status = snd station\<rparr>)))))))"

definition node_client_main :: "net_env \<Rightarrow> string list \<Rightarrow> client_process program" where
  "node_client_main env a = main_of (node_client_run env a)"

section \<open>The administrator\<close>

definition administrator_run :: "net_env \<Rightarrow> string list \<Rightarrow> administrator option app_result" where
  "administrator_run env a =
     (if length a \<noteq> 4 then (if a = [] then Panicked else Ok None)
      else
        and_then (parse_arg (parse_socket_addr (a ! 1))) (\<lambda>bind_addr.
        and_then (parse_arg (parse_socket_addr (a ! 2))) (\<lambda>target_node.
        and_then (parse_arg (parse_u64 (a ! 3))) (\<lambda>account_id.
        and_then (administrator_new (ne_now env) (ne_reachable env) (ne_can_bind env)
                    bind_addr target_node account_id) (\<lambda>admin. Ok (Some admin))))))"

definition administrator_main :: "net_env \<Rightarrow> string list \<Rightarrow> administrator program" where
  "administrator_main env a = main_of (administrator_run env a)"

section \<open>A server process\<close>

text \<open>
  The station's end of the channels after one of its events: what it said is waiting for the
  node, and a station that has ended has closed them.
\<close>

definition settle_station :: "station_sim \<times> sim_status \<Rightarrow> server_process \<Rightarrow> server_process" where
  "settle_station station p =
     (let (sim, st) = station; w = sp_world p in
      p\<lparr>sp_station := sim\<lparr>ss_to_node := []\<rparr>, sp_station_status := st,
        sp_world := w\<lparr>nw_from_station := nw_from_station w @ ss_to_node sim,
          nw_from_station_open := (st = SimRunning),
          nw_to_station_open := (st = SimRunning)\<rparr>\<rparr>)"

text \<open>
  What can happen to a running process: a turn of the node's loop, a step of its connection or
  of its database, a line typed at its station, and its station reading what the node told it.
\<close>

inductive process_step :: "(socket_addr \<Rightarrow> u64) \<Rightarrow> server_process \<Rightarrow> server_process \<Rightarrow> bool" for hash
  where
  node_turn: "sp_status p = NodeRunning \<Longrightarrow>
    runtime_turn hash source (sp_runtime p) (sp_world p) = (rt, w, st) \<Longrightarrow>
    process_step hash p (p\<lparr>sp_runtime := rt, sp_world := w, sp_status := st\<rparr>)"
| network: "sp_status p = NodeRunning \<Longrightarrow> connection_step (nw_conn (sp_world p)) conn \<Longrightarrow>
    process_step hash p (p\<lparr>sp_world := (sp_world p)\<lparr>nw_conn := conn\<rparr>\<rparr>)"
| actors: "sp_status p = NodeRunning \<Longrightarrow> system_step e (nw_db (sp_world p)) = Ok db \<Longrightarrow>
    process_step hash p (p\<lparr>sp_world := (sp_world p)\<lparr>nw_db := db\<rparr>\<rparr>)"
| typed: "sp_status p = NodeRunning \<Longrightarrow> sp_station_status p = SimRunning \<Longrightarrow>
    e \<in> {StdinLine input draws, StdinEof, StdinError} \<Longrightarrow>
    station_step e (sp_station p) = Some station \<Longrightarrow>
    process_step hash p (settle_station station p)"
| told: "sp_status p = NodeRunning \<Longrightarrow> sp_station_status p = SimRunning \<Longrightarrow>
    nw_to_station (sp_world p) = m # ms \<Longrightarrow>
    station_step (NodeEvent m) (sp_station p) = Some station \<Longrightarrow>
    process_step hash p
      (settle_station station (p\<lparr>sp_world := (sp_world p)\<lparr>nw_to_station := ms\<rparr>\<rparr>))"

inductive_cases process_stepE: "process_step hash p p'"

section \<open>Every server process is in order\<close>

definition process_ok :: "server_process \<Rightarrow> bool" where
  "process_ok p \<longleftrightarrow> runtime_ok (sp_runtime p) \<and> world_ok (sp_world p) \<and> station_ok (sp_station p) \<and>
     sp_station_status p \<noteq> SimPanicked \<and>
     (sp_station_status p = SimRunning \<longrightarrow> 0 < ss_num_pumps (sp_station p))"

lemma connect_in_Ok:
  "connect_in env address max_conns = Ok conn \<longleftrightarrow> ne_can_bind env \<and>
     conn = \<lparr>cn_active = [], cn_acceptor_alive = True, cn_inbox = [], cn_max_conns = max_conns,
       cn_address = address, cn_connected = True, cn_now = ne_now env,
       cn_reachable = ne_reachable env, cn_can_bind = ne_can_bind env, cn_sent = []\<rparr>"
  by (auto simp: connect_in_def connection_start_def)

lemma new_world_ok: "connect_in env address max_conns = Ok conn \<Longrightarrow> world_ok (new_world system_new st conn)"
  using system_new_ok
  by (simp add: connect_in_Ok world_ok_def new_world_def connection_ok_def active_ok_def hm_len_def)

lemma enter_loop_ok:
  "runtime_ok rt \<Longrightarrow> world_ok w \<Longrightarrow>
     process_ok (enter_loop rt w (station_start pumps)) \<and>
     sp_status (enter_loop rt w (station_start pumps)) = NodeRunning"
  using station_start_ok [of pumps]
  by (simp add: process_ok_def enter_loop_def) (simp add: station_start_def)

lemma leader_start_Ok:
  "leader_start hash env address coords max_conns pumps = Ok p \<longleftrightarrow>
     (\<exists>conn. connect_in env address max_conns = Ok conn \<and>
        p = enter_loop (RunLeader (leader_start_state hash address coords))
              (new_world system_new (station_start pumps) conn) (station_start pumps))"
  by (auto simp: leader_start_def and_then_Ok_iff Let_def)

lemma leader_start_ok:
  assumes "leader_start hash env address coords max_conns pumps = Ok p"
  shows "process_ok p \<and> sp_status p = NodeRunning"
proof -
  have "runtime_ok (RunLeader (leader_start_state hash address coords))"
    by (simp add: leader_ok_def leader_start_state_def hm_wf_def)
  with assms show ?thesis
    unfolding leader_start_Ok using new_world_ok enter_loop_ok by blast
qed

lemma replica_start_Ok:
  "replica_start hash env address leader_addr coords max_conns pumps = Ok p \<longleftrightarrow>
     (\<exists>conn w r. connect_in env address max_conns = Ok conn \<and>
        net_send (Join address) leader_addr (new_world system_new (station_start pumps) conn) = (w, r) \<and>
        r \<noteq> Panicked \<and>
        p = enter_loop
              (RunReplica (replica_start_state hash address leader_addr coords (ne_now env)))
              w (station_start pumps))"
proof -
  have a: "rp_address (replica_start_state hash address leader_addr coords now) = address"
    "rp_leader_addr (replica_start_state hash address leader_addr coords now) = leader_addr" for now
    by (simp_all add: replica_start_state_def)
  show ?thesis
  proof (cases "connect_in env address max_conns")
    case (Inr conn)
    obtain w r where n: "net_send (Join address) leader_addr
        (new_world system_new (station_start pumps) conn) = (w, r)" by force
    show ?thesis
      using Inr n by (cases "(w, r)" rule: ignore_error.cases) (auto simp: replica_start_def a)
  qed (simp add: replica_start_def)
qed

lemma replica_start_ok:
  assumes "replica_start hash env address leader_addr coords max_conns pumps = Ok p"
  shows "process_ok p \<and> sp_status p = NodeRunning"
proof -
  from assms obtain conn w r where c: "connect_in env address max_conns = Ok conn"
    "net_send (Join address) leader_addr (new_world system_new (station_start pumps) conn) = (w, r)"
    "p = enter_loop (RunReplica (replica_start_state hash address leader_addr coords (ne_now env)))
           w (station_start pumps)"
    unfolding replica_start_Ok by blast
  have w: "w = fst (net_send (Join address) leader_addr
      (new_world system_new (station_start pumps) conn))" by (simp add: c(2))
  have "runtime_ok (RunReplica (replica_start_state hash address leader_addr coords (ne_now env)))"
    by (simp add: replica_ok_def replica_start_state_def hm_wf_def)
  then show ?thesis
    unfolding c(3) w
    by (rule enter_loop_ok) (rule net_send_world_ok [OF new_world_ok [OF c(1)]])
qed

lemma server_run_ok: "server_run hash env a = Ok p \<Longrightarrow> process_ok p \<and> sp_status p = NodeRunning"
  by (auto simp: server_run_def leader_start_ok replica_start_ok
      split: list.splits role_args.splits)

lemma settle_station_ok:
  assumes "process_ok p" "sp_station_status p = SimRunning"
    and "station_step e (sp_station p) = Some station"
  shows "process_ok (settle_station station p)"
proof -
  obtain sim st where s: "station = (sim, st)" by force
  have "st \<noteq> SimPanicked \<and> station_ok sim \<and> ss_num_pumps sim = ss_num_pumps (sp_station p)"
    using assms by (intro station_step_ok [of "sp_station p" e]) (auto simp: process_ok_def s)
  moreover have "station_ok (sim\<lparr>ss_to_node := []\<rparr>) = station_ok sim"
    by (simp add: station_ok_def)
  moreover have "world_ok (w\<lparr>nw_from_station := ms, nw_from_station_open := b, nw_to_station_open := b\<rparr>)
      = world_ok w" for w :: node_world and ms b
    by (simp add: world_ok_def)
  ultimately show ?thesis
    using assms(1,2) unfolding process_ok_def settle_station_def s Let_def by simp
qed

lemma process_step_ok:
  assumes "process_step hash p p'" and ok: "process_ok p"
  shows "process_ok p'"
  using assms(1)
proof cases
  case (node_turn source rt w st)
  with ok runtime_turn_ok [of "sp_runtime p" "sp_world p" hash source rt w st] show ?thesis
    by (simp add: process_ok_def)
next
  case (network conn)
  with ok connection_step_ok [of "nw_conn (sp_world p)" conn] show ?thesis
    by (simp add: process_ok_def world_ok_def)
next
  case (actors e db)
  with ok system_step_ok [of "nw_db (sp_world p)" e] show ?thesis
    by (simp add: process_ok_def world_ok_def)
next
  case (typed e input draws station)
  with ok show ?thesis by (simp add: settle_station_ok)
next
  case (told m ms station)
  let ?p = "p\<lparr>sp_world := (sp_world p)\<lparr>nw_to_station := ms\<rparr>\<rparr>"
  have "process_ok ?p" using ok by (simp add: process_ok_def world_ok_def)
  with told settle_station_ok [of ?p "NodeEvent m" station] show ?thesis by simp
qed

text \<open>C17: Whatever its command line, a server that starts keeps its parts in order for as long as it runs,
  whatever arrives, is typed, fails or changes its role: its connection table stays bounded,
  its database actors keep their invariant and never panic, the tables of its role stay maps,
  its station never panics and the pumps and the open requests of the station agree.\<close>

theorem server_process_in_order:
  assumes "server_main hash env a = Serving p" and "(process_step hash)\<^sup>*\<^sup>* p p'"
  shows "connection_ok (nw_conn (sp_world p')) \<and> system_ok (nw_db (sp_world p')) \<and>
    runtime_ok (sp_runtime p') \<and> station_ok (sp_station p') \<and> sp_station_status p' \<noteq> SimPanicked"
proof -
  have "server_run hash env a = Ok p"
    using assms(1) unfolding server_main_def
    by (cases "and_then (server_run hash env a) (\<lambda>p. Ok (Some p))" rule: main_of.cases)
      (auto simp: and_then_Ok_iff)
  then have "process_ok p" using server_run_ok by blast
  with assms(2) have "process_ok p'"
    by (induction rule: rtranclp_induct) (auto intro: process_step_ok)
  then show ?thesis by (simp add: process_ok_def world_ok_def)
qed

definition sample_env :: net_env where
  "sample_env = \<lparr>ne_now = 0, ne_reachable = (\<lambda>a. True), ne_can_bind = True\<rparr>"

definition sample_args :: "role_args \<Rightarrow> nat \<Rightarrow> args" where
  "sample_args role pumps =
     \<lparr>ar_address = SocketAddr (V4 127 0 0 1) 5001, ar_coords = [0, 0], ar_pumps = pumps,
      ar_role = role\<rparr>"

lemma server_main_Serving:
  "server_main hash env a = Serving p \<longleftrightarrow> server_run hash env a = Ok p"
  unfolding server_main_def
  by (cases "and_then (server_run hash env a) (\<lambda>p. Ok (Some p))" rule: main_of.cases;
      cases "server_run hash env a") auto

theorem server_process_in_order_witness:
  "\<exists>p p'. server_main (\<lambda>a. 0) sample_env (sample_args (ArgLeader 2) 1) = Serving p \<and>
     process_step (\<lambda>a. 0) p p' \<and> sp_station_status p' = SimStopped \<and> station_ok (sp_station p')"
proof -
  obtain p where p: "server_main (\<lambda>a. 0) sample_env (sample_args (ArgLeader 2) 1) = Serving p"
    and st: "sp_status p = NodeRunning" "sp_station_status p = SimRunning"
    by (auto simp: server_main_Serving server_run_def sample_args_def leader_start_Ok connect_in_Ok
        sample_env_def enter_loop_def station_start_def)
  let ?p' = "settle_station (say LineEof (sp_station p), SimStopped) p"
  have s: "process_step (\<lambda>a. 0) p ?p'"
    by (rule process_step.typed [OF st, of StdinEof "[]" "[]"]) simp_all
  have "sp_station_status ?p' = SimStopped" by (simp add: settle_station_def Let_def)
  moreover have "(process_step (\<lambda>a. 0))\<^sup>*\<^sup>* p ?p'" using s by blast
  ultimately show ?thesis using p s server_process_in_order [OF p] by blast
qed

section \<open>A start and its first message\<close>

lemma first_send:
  assumes "connect_in env address max_conns = Ok conn"
  shows "\<exists>w r. net_send m peer (new_world db st conn) = (w, r) \<and>
    r = (if \<not> ne_reachable env peer then Error ConnectionRefused
         else if is_ipv4 address then Ok () else Panicked) \<and>
    sent w = (if is_ok r then [(m, peer)] else [])"
proof (cases "ne_reachable env peer")
  case False
  with assms show ?thesis
    by (simp add: connect_in_Ok net_send_def connection_send_def ensure_handler_def hm_contains_def
        handler_start_def new_world_def)
next
  case True
  show ?thesis
  proof (cases "is_ipv4 address")
    case i: True
    then obtain a b c d p where "address = SocketAddr (V4 a b c d) p"
      by (cases address rule: is_ipv4.cases) auto
    with True assms show ?thesis
      by (simp add: connect_in_Ok net_send_def connection_send_def ensure_handler_def hm_contains_def
          handler_start_def new_world_def send_handler_first_message_def add_handler_from_def
          hm_len_def remove_last_recently_used_def handler_new_def new_handler_task_def ph_send_def
          ph_alive_def Let_def)
  next
    case i: False
    then obtain v p where "address = SocketAddr (V6 v) p"
      by (cases address rule: is_ipv4.cases) auto
    with True assms show ?thesis
      by (simp add: connect_in_Ok net_send_def connection_send_def ensure_handler_def hm_contains_def
          handler_start_def new_world_def send_handler_first_message_def)
  qed
qed

text \<open>A replica announces itself to its leader once, when it starts, and only then: if the leader
  answers, the one message sent is the \<open>Join\<close> with the replica's address; if it does not, the
  error is dropped and the replica runs without having told anybody; and an IPv6 address of
  its own, which the command line accepts, panics the start. In the first two cases the
  replica follows the leader it was given, knows only that member and has an empty log.\<close>

theorem replica_start_announces:
  assumes "ne_can_bind env"
  shows "if ne_reachable env leader_addr \<and> \<not> is_ipv4 address
    then replica_start hash env address leader_addr coords max_conns pumps = Panicked
    else \<exists>p rp. replica_start hash env address leader_addr coords max_conns pumps = Ok p \<and>
      sent (sp_world p) = (if ne_reachable env leader_addr then [(Join address, leader_addr)] else []) \<and>
      sp_runtime p = RunReplica rp \<and> rp_leader_addr rp = leader_addr \<and> rp_operations rp = [] \<and>
      rp_cluster rp = [(get_id_given_addr hash leader_addr, leader_addr)]"
proof -
  obtain conn where c: "connect_in env address max_conns = Ok conn"
    using assms by (simp add: connect_in_Ok)
  let ?w0 = "new_world system_new (station_start pumps) conn"
  obtain w r where n: "net_send (Join address) leader_addr ?w0 = (w, r)" and
    r: "r = (if \<not> ne_reachable env leader_addr then Error ConnectionRefused
         else if is_ipv4 address then Ok () else Panicked)"
    and s: "sent w = (if is_ok r then [(Join address, leader_addr)] else [])"
    using first_send [OF c, of "Join address" leader_addr system_new "station_start pumps"] by blast
  have a: "rp_address (replica_start_state hash address leader_addr coords t) = address"
    "rp_leader_addr (replica_start_state hash address leader_addr coords t) = leader_addr" for t
    by (simp_all add: replica_start_state_def)
  show ?thesis
  proof (cases "ne_reachable env leader_addr \<and> \<not> is_ipv4 address")
    case True
    with c n r show ?thesis by (simp add: replica_start_def a)
  next
    case False
    then have "r \<noteq> Panicked" using r by auto
    with c n have "replica_start hash env address leader_addr coords max_conns pumps =
        Ok (enter_loop (RunReplica (replica_start_state hash address leader_addr coords (ne_now env)))
          w (station_start pumps))"
      unfolding replica_start_Ok by blast
    with False r s show ?thesis
      by (auto simp: enter_loop_def replica_start_state_def)
  qed
qed

theorem replica_start_announces_witness:
  "\<exists>p. replica_start (\<lambda>a. 0) sample_env (SocketAddr (V4 127 0 0 1) 5001)
      (SocketAddr (V4 127 0 0 1) 5000) (0, 0) 16 4 = Ok p \<and>
    sent (sp_world p) = [(Join (SocketAddr (V4 127 0 0 1) 5001), SocketAddr (V4 127 0 0 1) 5000)] \<and>
    replica_start (\<lambda>a. 0) sample_env (SocketAddr (V6 1) 5001)
      (SocketAddr (V4 127 0 0 1) 5000) (0, 0) 16 4 = Panicked"
  using replica_start_announces [of sample_env "SocketAddr (V4 127 0 0 1) 5000"
      "SocketAddr (V4 127 0 0 1) 5001" "\<lambda>a. 0" "(0, 0)" 16 4]
    replica_start_announces [of sample_env "SocketAddr (V4 127 0 0 1) 5000"
      "SocketAddr (V6 1) 5001" "\<lambda>a. 0" "(0, 0)" 16 4]
  by (auto simp: sample_env_def)

section \<open>Stations without pumps\<close>

lemma node_client_Serving: "node_client_main env a = Serving p \<longleftrightarrow> node_client_run env a = Ok (Some p)"
  unfolding node_client_main_def by (cases "node_client_run env a" rule: main_of.cases) auto

lemma net_send_station:
  "nw_from_station (fst (net_send m a w)) = nw_from_station w"
  "nw_from_station_open (fst (net_send m a w)) = nw_from_station_open w"
  by (simp_all add: net_send_def split: prod.splits)

lemma server_station:
  assumes "server_run hash env a = Ok p"
  shows "nw_from_station (sp_world p) = []" "nw_from_station_open (sp_world p) = (0 < ar_pumps a)"
proof -
  have "nw_from_station (sp_world p) = [] \<and> nw_from_station_open (sp_world p) = (0 < ar_pumps a)"
    using assms
    by (auto simp: server_run_def leader_start_Ok replica_start_Ok enter_loop_def
        split: list.splits role_args.splits)
       (simp_all add: new_world_def station_start_def split: if_splits, 
        (metis fst_conv net_send_station node_world.select_convs(5,6))+)
  then show "nw_from_station (sp_world p) = []" "nw_from_station_open (sp_world p) = (0 < ar_pumps a)"
    by simp_all
qed

lemma runtime_turn_closed:
  "nw_from_station w = [] \<Longrightarrow> \<not> nw_from_station_open w \<Longrightarrow>
     runtime_turn hash StationReady rt w = (rt, w, NodePanicked)"
  by (cases rt) (simp_all add: node_turn_def node_select_def after_select_def after_run_def)

text \<open>Without pumps the station ends at once. A server started so serves nothing: as soon as its loop
  looks at the station it panics, in either role; a forwarding client started so leaves its
  loop and ends with success.\<close>

theorem no_pumps_no_node:
  assumes "server_main hash env a = Serving p" and "ar_pumps a = 0"
    and "node_client_main env' b = Serving q" and "parse_usize (b ! 3) = Some 0"
  shows "runtime_turn hash StationReady (sp_runtime p) (sp_world p) =
      (sp_runtime p, sp_world p, NodePanicked) \<and>
    node_exit NodePanicked = Some ExitPanicked \<and>
    client_turn hash ClientStation (cp_client q, cp_world q) =
      ((cp_client q, cp_world q), ClientStopped None)"
proof -
  note S = server_station [OF assms(1) [unfolded server_main_Serving]]
  have "cw_from_station (cp_world q) = [] \<and> \<not> cw_from_station_open (cp_world q)"
    using assms(3,4) unfolding node_client_Serving
    by (auto simp: node_client_run_def parse_arg_def and_then_Ok_iff new_client_world_def
        station_start_def split: if_splits)
  then show ?thesis
    using S assms(2) by (simp add: runtime_turn_closed client_turn_def)
qed

section \<open>Command lines\<close>

lemma parse_arg_simps [simp]:
  "parse_arg (Some x) = Ok x" "parse_arg None = Error Config"
  by (simp_all add: parse_arg_def)

lemma parse_known_nodes_those:
  "parse_known_nodes raws = parse_arg (those (map parse_socket_addr raws))"
proof (induction raws)
  case (Cons raw raws)
  then show ?case
    by (cases "parse_socket_addr raw"; cases "those (map parse_socket_addr raws)") simp_all
qed simp

lemma those_None: "those xs = None \<longleftrightarrow> None \<in> set xs"
  by (induction xs) (auto split: option.splits)

lemma those_Some_length: "those xs = Some ys \<Longrightarrow> length ys = length xs"
  by (induction xs arbitrary: ys) (auto split: option.splits)

lemma client_outcome:
  assumes "5 \<le> length a"
  shows "if parse_socket_addr (a ! 1) = None \<or> parse_usize (a ! 2) = None \<or> parse_usize (a ! 3) = None \<or>
       (\<exists>raw \<in> set (drop 4 a). parse_socket_addr raw = None) \<or> \<not> ne_can_bind env
     then node_client_run env a = Error Config \<or> node_client_run env a = Error ConnectionRefused
     else \<exists>p. node_client_run env a = Ok (Some p)"
proof (cases "those (map parse_socket_addr (drop 4 a))")
  case None
  then have "\<exists>raw \<in> set (drop 4 a). parse_socket_addr raw = None" by (force simp: those_None)
  with None assms show ?thesis
    by (cases "parse_socket_addr (a ! 1)"; cases "parse_usize (a ! 2)"; cases "parse_usize (a ! 3)")
      (simp_all add: node_client_run_def parse_known_nodes_those)
next
  case (Some known)
  then have "\<forall>raw \<in> set (drop 4 a). parse_socket_addr raw \<noteq> None"
    by (metis image_eqI list.set_map option.distinct(1) those_None)
  moreover have "known \<noteq> []" using those_Some_length [OF Some] assms by auto
  ultimately show ?thesis
    using Some assms
    by (cases "parse_socket_addr (a ! 1)"; cases "parse_usize (a ! 2)"; cases "parse_usize (a ! 3)")
      (auto simp: node_client_run_def parse_known_nodes_those connect_in_def connection_start_def Let_def)
qed

text \<open>C39: A forwarding client given enough arguments fails to start exactly when an address or a number
  does not parse or its own address cannot be bound; otherwise it serves. With fewer arguments
  it prints its usage and reports success. (So the check for an empty list of known nodes
  never takes effect.)\<close>

theorem client_start_fails_iff:
  "node_client_main env a = Exited code \<longleftrightarrow>
     code = (if a = [] then ExitPanicked else if length a < 5 then ExitSuccess else ExitFailure) \<and>
     (length a < 5 \<or> parse_socket_addr (a ! 1) = None \<or> parse_usize (a ! 2) = None \<or>
      parse_usize (a ! 3) = None \<or> (\<exists>raw \<in> set (drop 4 a). parse_socket_addr raw = None) \<or>
      \<not> ne_can_bind env)"
proof (cases "length a < 5")
  case True
  then show ?thesis by (auto simp: node_client_main_def node_client_run_def)
next
  case False
  with client_outcome [of a env] show ?thesis
    unfolding node_client_main_def by (auto split: if_splits)
qed

theorem client_start_fails_iff_witness:
  "node_client_main sample_env [''node_client'', ''127.0.0.1:9000'', ''10'', ''two'', ''127.0.0.1:5000''] =
     Exited ExitFailure"
proof -
  have "parse_usize ''two'' = None" by code_simp
  then show ?thesis
    using client_start_fails_iff [of sample_env
      "[''node_client'', ''127.0.0.1:9000'', ''10'', ''two'', ''127.0.0.1:5000'']" ExitFailure]
    by simp
qed

text \<open>An address as it is written.\<close>

definition printed :: "u8 \<times> u8 \<times> u8 \<times> u8 \<times> u16 \<Rightarrow> string" where
  "printed = (\<lambda>(a, b, c, d, port). show_ipv4 a b c d port)"

definition ipv4 :: "u8 \<times> u8 \<times> u8 \<times> u8 \<times> u16 \<Rightarrow> socket_addr" where
  "ipv4 = (\<lambda>(a, b, c, d, port). SocketAddr (V4 a b c d) port)"

lemma parse_printed [simp]: "parse_socket_addr (printed x) = Some (ipv4 x)"
  by (cases x) (simp add: printed_def ipv4_def parse_show_ipv4)

lemma those_printed [simp]: "those (map (parse_socket_addr \<circ> printed) nodes) = Some (map ipv4 nodes)"
  by (induction nodes) simp_all

text \<open>Addresses and numbers written in decimal on the command line are the ones the programs run
  with: the forwarding client binds and forwards to exactly those addresses, in order, with
  that many pumps and connections, and the administrator asks that node about that account.\<close>

theorem command_lines_read_back:
  assumes "ne_can_bind env" "nodes \<noteq> []" "max_conns < 2 ^ 64" "pumps < 2 ^ 64"
  shows "\<exists>p q. node_client_main env ([prog, printed own, show_nat max_conns, show_nat pumps] @
        map printed nodes) = Serving p \<and>
      cp_client p = client_new (ipv4 own) (map ipv4 nodes) \<and>
      cn_address (cw_conn (cp_world p)) = ipv4 own \<and> cn_max_conns (cw_conn (cp_world p)) = max_conns \<and>
      length (ss_in_flight (cp_station p)) = pumps \<and>
    administrator_main env [prog, printed own, printed target, show_nat (unat account)] = Serving q \<and>
      ad_bind_addr q = ipv4 own \<and> ad_target_node q = ipv4 target \<and> ad_account_id q = account"
  using assms
  by (simp add: node_client_main_def node_client_run_def parse_usize_show parse_known_nodes_those
      administrator_main_def administrator_run_def parse_u64_show administrator_new_def
      connect_in_def connection_start_def Let_def station_start_def new_client_world_def)

theorem command_lines_read_back_witness:
  "\<exists>p. node_client_main sample_env [''node_client'', printed (127, 0, 0, 1, 6000), show_nat 128,
      show_nat 4, printed (127, 0, 0, 1, 5000)] = Serving p \<and>
    nc_known_nodes (cp_client p) = [SocketAddr (V4 127 0 0 1) 5000]"
  using command_lines_read_back [of sample_env "[(127, 0, 0, 1, 5000)]" 128 4 "''node_client''"
      "(127, 0, 0, 1, 6000)" "(127, 0, 0, 1, 5000)" 7]
  by (auto simp: sample_env_def client_new_def ipv4_def)

theorem no_pumps_no_node_witness:
  "\<exists>p. server_main (\<lambda>a. 0) sample_env (sample_args (ArgLeader 2) 0) = Serving p \<and>
    snd (snd (runtime_turn (\<lambda>a. 0) StationReady (sp_runtime p) (sp_world p))) = NodePanicked"
proof -
  have bind: "ne_can_bind sample_env" by (simp add: sample_env_def)
  obtain p where p: "server_main (\<lambda>a. 0) sample_env (sample_args (ArgLeader 2) 0) = Serving p"
    using bind by (auto simp: server_main_Serving server_run_def sample_args_def leader_start_Ok connect_in_Ok)
  let ?args = "[''c'', printed (127, 0, 0, 1, 6000), show_nat 128, show_nat 0, printed (127, 0, 0, 1, 5000)]"
  obtain q where q: "node_client_main sample_env ?args = Serving q"
    using bind
    by (simp add: node_client_main_def node_client_run_def parse_usize_show parse_known_nodes_those
        connect_in_def connection_start_def Let_def)
  have "parse_usize (?args ! 3) = Some 0" by (simp add: parse_usize_show)
  with no_pumps_no_node [OF p _ q] p show ?thesis by (auto simp: sample_args_def)
qed

end
