(* ===== verification/WireTyping.thy ===== *)
theory WireTyping
  imports Streams
begin

text \<open>
  What the reader of the wire format can produce and how long a message is. The first part types
  \<open>deserialize_message\<close>: whatever bytes arrive in a frame, a value it returns is one that
  \<open>serialize_message\<close> accepts. The second part gives the exact size of every message and when
  it fits the 16-bit length of a frame.
\<close>

section \<open>The type of what is read\<close>

text \<open>Rewrites \<open>reader bytes = Ok x\<close> into the checks the reader made on the way.\<close>

lemma slice_from_Ok_iff: "slice_from xs i = Ok ys \<longleftrightarrow> i \<le> length xs \<and> ys = drop i xs"
  by (auto simp: slice_from_def)

lemma index0_Ok_iff: "index0 xs = Ok x \<longleftrightarrow> (\<exists>ys. xs = x # ys)"
  by (cases xs) auto

lemmas read_iff = and_then_Ok_iff slice_from_Ok_iff index0_Ok_iff

lemma read_addr_ipv4: "deserialize_socket_address_srl bytes = Ok a \<Longrightarrow> is_ipv4 a"
  by (auto simp: deserialize_socket_address_srl_def read_iff split: if_splits)

lemma read_limit_lossless: "deserialize_limit bytes = Ok l \<Longrightarrow> limit_lossless l"
  by (auto simp: deserialize_limit_def read_iff f32_eq_NO_LIMIT split: if_splits)

lemma read_vec:
  "deserialize_vec dec width n bytes ptr = Ok (xs, ptr') \<Longrightarrow> (\<And>bs x. dec bs = Ok x \<Longrightarrow> P x) \<Longrightarrow>
     length xs = n \<and> list_all P xs \<and> ptr' = ptr + width * n"
proof (induction n arbitrary: ptr xs ptr')
  case 0
  then show ?case by simp
next
  case (Suc n)
  then obtain x zs where "deserialize_vec dec width n bytes (ptr + width) = Ok (zs, ptr')"
      and "xs = x # zs" and "P x"
    by (auto simp: read_iff)
  with Suc.IH [of "ptr + width" zs ptr'] Suc.prems(2) show ?case by simp
qed

lemma read_vec_length:
  "deserialize_vec dec width n bytes ptr = Ok (xs, ptr') \<Longrightarrow> 0 < width \<Longrightarrow>
     n \<le> Suc (length bytes)"
proof -
  assume d: "deserialize_vec dec width n bytes ptr = Ok (xs, ptr')" and w: "0 < width"
  have "n = 0 \<or> ptr + width * (n - 1) \<le> length bytes"
    using d
  proof (induction n arbitrary: ptr xs)
    case (Suc n)
    then obtain zs where "deserialize_vec dec width n bytes (ptr + width) = Ok (zs, ptr')"
        and "ptr \<le> length bytes"
      by (auto simp: read_iff)
    with Suc.IH [of "ptr + width" zs] show ?case
      by (cases n) (auto simp: algebra_simps)
  qed simp
  moreover have "n - 1 \<le> width * (n - 1)" using w by simp
  ultimately show ?thesis by linarith
qed

lemma read_vec_ok:
  "deserialize_vec dec width n bytes ptr = Ok (xs, ptr') \<Longrightarrow> 0 < width \<Longrightarrow>
     length bytes < 65536 \<Longrightarrow> vec_ok xs"
  using read_vec_length [of dec width n bytes ptr xs ptr']
    read_vec [of dec width n bytes ptr xs ptr' "\<lambda>_. True"]
  by (simp add: vec_ok_def)

lemma read_account_lossless:
  "deserialize_account_snapshot bytes = Ok a \<Longrightarrow> limit_lossless (as_limit a)"
  by (auto simp: deserialize_account_snapshot_def read_iff simp del: limit_lossless.simps
      dest: read_limit_lossless)

lemma read_card_lossless:
  "deserialize_card_snapshot bytes = Ok c \<Longrightarrow> limit_lossless (cs_limit c)"
  by (auto simp: deserialize_card_snapshot_def read_iff simp del: limit_lossless.simps
      dest: read_limit_lossless)

lemma read_member_ok: "deserialize_member bytes = Ok m \<Longrightarrow> member_ok m"
  by (auto simp: deserialize_member_def read_iff member_ok_def dest: read_addr_ipv4)

lemma read_database:
  assumes "deserialize_database_snapshot bytes = Ok d" and "length bytes < 65536"
  shows "database_ok d \<and> database_lossless d"
proof -
  from assms(1) obtain addr n accounts p m cards q
    where a: "deserialize_socket_address_srl bytes = Ok addr"
      and n: "deserialize_vec deserialize_account_snapshot ACC_SNAPSHOT_SRL_LEN n bytes 14 =
        Ok (accounts, p)"
      and m: "deserialize_vec deserialize_card_snapshot CARD_SNAPSHOT_SRL_LEN m bytes (p + 8) =
        Ok (cards, q)"
      and d: "d = \<lparr>ds_addr = addr, ds_accounts = accounts, ds_cards = cards\<rparr>"
    by (auto simp: deserialize_database_snapshot_def read_iff Let_def)
  show ?thesis
    using read_addr_ipv4 [OF a] read_vec_ok [OF n _ assms(2)] read_vec_ok [OF m _ assms(2)]
      read_vec [OF n read_account_lossless] read_vec [OF m read_card_lossless]
    by (simp add: d database_ok_def del: limit_lossless.simps)
qed

subsection \<open>Operations and results\<close>

text \<open>The one operation whose readable values are not all writable back: a bill with a period that
  is empty, or whose length modulo 256 needs the top bit of the length byte.\<close>

fun period_short :: "operation \<Rightarrow> bool" where
  "period_short (Bill a (Some p)) \<longleftrightarrow> p \<noteq> [] \<and> length p mod 256 < 128"
| "period_short op \<longleftrightarrow> True"

fun message_period_short :: "message \<Rightarrow> bool" where
  "message_period_short (Request req_id op addr) \<longleftrightarrow> period_short op"
| "message_period_short (Log op_id op) \<longleftrightarrow> period_short op"
| "message_period_short m \<longleftrightarrow> True"

text \<open>The first byte of what is read as a period is dropped: it was a whole character.\<close>

lemma utf8_valid_drop_first:
  assumes "utf8_valid (b # c # cs)" and "\<not> utf8_cont c"
  shows "utf8_valid (c # cs)"
proof -
  have "b < 0x80 \<or> utf8_cont c"
    using assms(1) by (subst (asm) utf8_valid.simps(2)) (auto simp del: utf8_valid.simps split: if_splits list.splits)
  with assms(2) have "b < 0x80" by simp
  with assms(1) show ?thesis by (subst (asm) utf8_valid.simps(2)) simp
qed

lemma read_bill:
  assumes "deserialize_bill_operation bytes = Ok op"
  shows "operation_ok op \<and> (operation_lossless op \<longleftrightarrow> period_short op)"
proof -
  have period: "utf8_valid s" if "utf8_valid bs" "str_slice_from_1 bs = Ok s" for bs s
    using that utf8_valid_drop_first
    by (auto simp: str_slice_from_1_def simp del: utf8_valid.simps split: list.splits if_splits)
      (simp add: utf8_valid.simps(1))
  from assms period show ?thesis
    by (auto simp: deserialize_bill_operation_def read_iff simp del: utf8_valid.simps
        split: if_splits)
qed

lemma read_operation:
  assumes "deserialize_operation bytes = Ok op" and "length bytes < 65536"
  shows "operation_ok op \<and> (operation_lossless op \<longleftrightarrow> period_short op)"
proof -
  have db: "database_ok d \<and> database_lossless d" if "deserialize_database_snapshot (drop 1 bytes) = Ok d"
    for d using read_database [OF that] assms(2) by simp
  note defs = deserialize_charge_operation_def deserialize_limit_account_operation_def
    deserialize_limit_card_operation_def deserialize_query_account_operation_def
    deserialize_get_database_operation_def deserialize_replace_database_operation_def
  from assms(1) db read_bill read_addr_ipv4 read_limit_lossless show ?thesis
    by (auto simp: deserialize_operation_def read_iff defs
        simp del: limit_lossless.simps database_lossless.simps split: if_splits)
qed

lemma read_operation_result:
  assumes "deserialize_operation_result bytes = Ok r" and "length bytes < 65536"
  shows "operation_result_ok r \<and> operation_result_lossless r"
proof -
  have q: "operation_result_ok r' \<and> operation_result_lossless r'"
    if "deserialize_account_query_result (drop 1 bytes) = Ok r'" for r'
    using that assms(2) read_vec_ok [of deserialize_card_spent CARD_SPENT_LEN _ "drop 1 bytes"]
    by (auto simp: deserialize_account_query_result_def read_iff Let_def)
  from assms(1) q show ?thesis
    by (auto simp: deserialize_operation_result_def read_iff deserialize_charge_result_def
        deserialize_limit_account_result_def deserialize_limit_card_result_def split: if_splits)
qed

subsection \<open>Messages\<close>

lemma read_cluster_view:
  assumes "deserialize_cluster_view_message bytes = Ok m" and "length bytes < 65536"
  shows "message_ok m \<and> message_lossless m"
proof -
  from assms(1) obtain n ms p addr d
    where v: "deserialize_vec deserialize_member MEMBER_SRL_LEN n bytes 8 = Ok (ms, p)"
      and a: "deserialize_socket_address_srl (drop p bytes) = Ok addr"
      and d: "deserialize_database_snapshot (drop (p + SOCKET_ADDR_LEN) bytes) = Ok d"
      and m: "m = ClusterView ms addr d"
    by (auto simp: deserialize_cluster_view_message_def read_iff split: if_splits)
  show ?thesis
    using read_vec_ok [OF v _ assms(2)] read_vec [OF v read_member_ok] read_addr_ipv4 [OF a]
      read_database [OF d] assms(2)
    by (simp add: m del: database_lossless.simps)
qed

lemma read_message:
  assumes "deserialize_message bytes = Ok m" and "length bytes < 65536"
  shows "message_ok m \<and> (message_lossless m \<longleftrightarrow> message_period_short m)"
proof -
  have view: "message_ok m' \<and> message_lossless m' \<and> (\<exists>ms a d. m' = ClusterView ms a d)"
    if "deserialize_cluster_view_message (drop 1 bytes) = Ok m'" for m'
    using read_cluster_view [OF that] assms(2) that
    by (auto simp: deserialize_cluster_view_message_def read_iff split: if_splits)
  have op: "operation_ok op \<and> (operation_lossless op \<longleftrightarrow> period_short op)"
    if "deserialize_operation (drop n bytes) = Ok op" for op n
    using read_operation [OF that] assms(2) by simp
  have res: "operation_result_ok r \<and> operation_result_lossless r"
    if "deserialize_operation_result (drop n bytes) = Ok r" for r n
    using read_operation_result [OF that] assms(2) by simp
  obtain t bs where b: "bytes = t # bs" and "index0 bytes = Ok t" and "slice_from bytes 1 = (Ok bs :: u8 list app_result)"
    using assms(1) by (auto simp: deserialize_message_def read_iff)
  note defs = deserialize_request_message_def deserialize_log_message_def
    deserialize_ack_message_def deserialize_join_message_def deserialize_cluster_update_message_def
    deserialize_response_message_def deserialize_role_query_message_def
    deserialize_coordinator_message_def deserialize_election_message_def
    deserialize_election_ok_message_def
  have op': "operation_ok op \<and> (operation_lossless op \<longleftrightarrow> period_short op)"
    if "deserialize_operation (drop n bs) = Ok op" for op n
    using op [of "Suc n" op] that b by simp
  have res': "operation_result_ok r \<and> operation_result_lossless r"
    if "deserialize_operation_result (drop n bs) = Ok r" for r n
    using res [of "Suc n" r] that b by simp
  from assms(1) b view op' res' read_addr_ipv4 read_member_ok show ?thesis
    by (auto simp: deserialize_message_def read_iff defs simp del: database_lossless.simps
        split: if_splits)
qed

section \<open>The size of what is written\<close>

definition database_size :: "database_snapshot \<Rightarrow> nat" where
  "database_size d = 22 + 16 * length (ds_accounts d) + 24 * length (ds_cards d)"

fun operation_size :: "operation \<Rightarrow> nat" where
  "operation_size (Charge a c x off) = 22"
| "operation_size (LimitAccount a l) = 13"
| "operation_size (LimitCard a c l) = 21"
| "operation_size (AccountQuery a) = 9"
| "operation_size (Bill a period) = 10 + (case period of None \<Rightarrow> 0 | Some p \<Rightarrow> length p)"
| "operation_size (GetDatabase addr) = 7"
| "operation_size (ReplaceDatabase d) = 1 + database_size d"

fun operation_result_size :: "operation_result \<Rightarrow> nat" where
  "operation_result_size (ResCharge r) = (if r = ChargeOk then 2 else 4)"
| "operation_result_size (ResLimitAccount r) = (if r = LimitOk then 2 else 4)"
| "operation_result_size (ResLimitCard r) = (if r = LimitOk then 2 else 4)"
| "operation_result_size (ResAccountQuery q) = 21 + 12 * length (aq_per_card_spent q)"
| "operation_result_size (ResDatabaseSnapshot d) = 1 + database_size d"
| "operation_result_size ResReplaceDatabase = 1"

fun message_size :: "message \<Rightarrow> nat" where
  "message_size (Request req_id op addr) = 11 + operation_size op"
| "message_size (Response req_id r) = 5 + operation_result_size r"
| "message_size (Log op_id op) = 5 + operation_size op"
| "message_size (Ack op_id) = 5"
| "message_size (Election i addr) = 15"
| "message_size (ElectionOk i) = 9"
| "message_size (Coordinator i addr) = 15"
| "message_size (Join addr) = 7"
| "message_size (ClusterView ms addr d) = 15 + 14 * length ms + database_size d"
| "message_size (ClusterUpdate m) = 15"
| "message_size (RoleQuery addr) = 7"
| "message_size (RoleResponse i r) = 10"

lemma length_database_bytes: "database_ok d \<Longrightarrow> length (database_bytes d) = database_size d"
  using account_codec.enc_all_width [of "ds_accounts d"] card_codec.enc_all_width [of "ds_cards d"]
  by (simp add: database_bytes_def database_ok_def database_size_def list_all_iff)

lemma length_verify_error: "length (serialize_verify_error e) = 2"
proof (cases e)
  case (ChargeLimit x)
  then show ?thesis by (cases x) simp_all
next
  case (LimitUpdate x)
  then show ?thesis by (cases x) simp
qed

lemma length_operation_bytes: "operation_ok op \<Longrightarrow> length (operation_bytes op) = operation_size op"
  by (cases op) (simp_all add: length_database_bytes serialize_charge_operation_def
      serialize_limit_account_operation_def serialize_limit_card_operation_def
      serialize_query_account_operation_def serialize_bill_operation_def split: option.splits)

lemma length_operation_result_bytes:
  "operation_result_ok r \<Longrightarrow> length (operation_result_bytes r) = operation_result_size r"
proof (cases r)
  case (ResCharge x)
  then show ?thesis by (cases x) (simp_all add: length_verify_error)
next
  case (ResLimitAccount x)
  then show ?thesis
    by (cases x) (simp_all add: length_verify_error serialize_limit_account_result_def)
next
  case (ResLimitCard x)
  then show ?thesis
    by (cases x) (simp_all add: length_verify_error serialize_limit_card_result_def)
next
  case (ResAccountQuery q)
  then show ?thesis using card_spent_codec.enc_all_width [of "aq_per_card_spent q"]
    by (simp add: serialize_account_query_result_def list_all_iff)
next
  case (ResDatabaseSnapshot d)
  moreover assume "operation_result_ok r"
  ultimately show ?thesis by (simp add: length_database_bytes)
qed (simp add: serialize_replace_database_result_def)

lemma length_message_bytes: "message_ok m \<Longrightarrow> length (message_bytes m) = message_size m"
proof (cases m)
  case (ClusterView ms addr d)
  moreover assume "message_ok m"
  ultimately show ?thesis
    using member_codec.enc_all_width [of ms] by (simp add: length_database_bytes)
qed (simp_all add: length_operation_bytes length_operation_result_bytes member_codec.enc_width
    serialize_role_response_message_def)

section \<open>Properties\<close>

text \<open>C19: Typing of the reader: whatever bytes a frame holds, a message the reader returns for them
  is one a node can write - its addresses are IPv4, its vectors have the length that was announced
  and can exist, its period is UTF-8 - so serialising it does not panic, and the reader gives it
  back unchanged except for a bill whose period is empty or needs the top bit of its length byte.\<close>

theorem reader_output_well_typed:
  assumes "deserialize_message bytes = Ok m" and "length bytes < 65536"
  shows "message_ok m \<and> serialize_message m = Ok (message_bytes m) \<and>
    (and_then (serialize_message m) deserialize_message = Ok m \<longleftrightarrow> message_period_short m)"
proof -
  have ok: "message_ok m" using read_message [OF assms] by simp
  then have ser: "serialize_message m = Ok (message_bytes m)" by (rule serialize_message_bytes)
  then show ?thesis
    using ok message_read [OF ok] message_image_id [of m] read_message [OF assms]
    by (simp del: serialize_message.simps message_bytes.simps)
qed

text \<open>An acknowledgement followed by a stray byte: the reader accepts it and writes it back without.\<close>

theorem reader_output_well_typed_witness:
  "deserialize_message [MSG_TYPE_ACK, 0, 0, 1, 2, 77] = Ok (Ack 258) \<and>
   serialize_message (Ack 258) = Ok [MSG_TYPE_ACK, 0, 0, 1, 2] \<and>
   and_then (serialize_message (Ack 258)) deserialize_message = Ok (Ack 258)"
proof -
  have r: "deserialize_message [MSG_TYPE_ACK, 0, 0, 1, 2, 77] = Ok (Ack 258)"
    by (simp add: deserialize_message_def deserialize_ack_message_def deserialize_op_id_def
        slice_def slice_from_def from_be_bytes_def nat_of_be_def)
  note t = reader_output_well_typed [OF r]
  have be: "be_of_nat 4 258 = [0, 0, 1, 2]" by code_simp
  have b: "message_bytes (Ack 258) = [MSG_TYPE_ACK, 0, 0, 1, 2]"
    using be by (simp add: to_be_bytes_def)
  from t have "serialize_message (Ack 258) = Ok [MSG_TYPE_ACK, 0, 0, 1, 2]"
      and "and_then (serialize_message (Ack 258)) deserialize_message = Ok (Ack 258)"
    by (simp_all add: b del: message_bytes.simps) auto
  with r show ?thesis by (simp only: simp_thms)
qed

text \<open>C40: Bounds of a frame: a message a node can write takes exactly the bytes its members,
  accounts, cards and period add up to, never fewer than five, and the receiver takes the whole of
  its frame off the stream if and only if that is less than 65536.\<close>

theorem message_fits_frame_iff:
  assumes "message_ok m" and "rx_progress rx = ReadingLen []"
    and "rx_inbuf rx = frame (message_bytes m)"
  shows "length (message_bytes m) = message_size m \<and> 5 \<le> message_size m \<and>
    (rx_inbuf (fst (receiver_recv rx)) = [] \<longleftrightarrow> message_size m < 65536)"
proof -
  have n: "length (message_bytes m) = message_size m" by (rule length_message_bytes) fact
  have five: "5 \<le> message_size m" using message_bytes_length [OF assms(1)] n by simp
  have k: "rx_inbuf (fst (recv_classify bs r)) = rx_inbuf r" for bs r
    by (simp add: recv_classify_def split: sum.splits)
  have "receiver_recv rx = recv_classify (take (message_size m mod 65536) (message_bytes m))
      (rx\<lparr>rx_inbuf := drop (message_size m mod 65536) (message_bytes m)\<rparr>)"
    using recv_frame_prefix [of rx "message_bytes m" "[]"] assms(2,3) n
    by (simp del: message_bytes.simps message_size.simps)
  then have "rx_inbuf (fst (receiver_recv rx)) = [] \<longleftrightarrow> message_size m \<le> message_size m mod 65536"
    by (simp add: k n del: message_bytes.simps message_size.simps)
  moreover have "message_size m mod 65536 < 65536" by simp
  moreover have "message_size m mod 65536 = message_size m" if "message_size m < 65536"
    using that by simp
  ultimately have "rx_inbuf (fst (receiver_recv rx)) = [] \<longleftrightarrow> message_size m < 65536" by linarith
  with n five show ?thesis by blast
qed

text \<open>A cluster view with 4100 accounts no longer fits.\<close>

definition big_view :: message where
  "big_view = ClusterView [(1, SocketAddr (V4 127 0 0 1) 5000)] (SocketAddr (V4 127 0 0 1) 5000)
     \<lparr>ds_addr = SocketAddr (V4 127 0 0 1) 5000,
      ds_accounts = replicate 4100 \<lparr>as_account_id = 1, as_limit = None, as_consumed = f32_one\<rparr>,
      ds_cards = []\<rparr>"

theorem message_fits_frame_iff_witness:
  "message_size big_view = 65651 \<and>
   rx_inbuf (fst (receiver_recv ((ht_rx (fresh_handler (SocketAddr (V4 127 0 0 1) 5000) []))
     \<lparr>rx_inbuf := frame (message_bytes big_view)\<rparr>))) \<noteq> []"
proof -
  have ok: "message_ok big_view"
    by (simp add: big_view_def vec_ok_def member_ok_def database_ok_def)
  have n: "message_size big_view = 65651" by (simp add: big_view_def database_size_def)
  show ?thesis
    using message_fits_frame_iff [OF ok, of "(ht_rx (fresh_handler (SocketAddr (V4 127 0 0 1) 5000) []))
      \<lparr>rx_inbuf := frame (message_bytes big_view)\<rparr>"] n
    by (simp add: fresh_handler_fields)
qed

end
