(* ===== verification/Spec2Isabelle.thy ===== *)
theory Spec2Isabelle
  imports ClusterFaults ClusterSettles Election PumpTrip Snapshots ActorAnswers EntryPoints WireTyping
begin

text \<open>
  The YPF fuel network: service stations whose pumps charge cards of customer accounts against a
  replicated database, and an administrator that sets limits and asks for consumption.

  \<^bold>\<open>The program.\<close> Every node process (\<open>server/\<close>) holds a TCP connection manager, a station
  simulator (the pumps, typed on stdin) and a database of actix actors: one account actor per
  account, one card actor per card, a router in front. A node is the leader or a replica. Operations
  reach the leader, which numbers them, sends each to all replicas as a log entry, executes it when
  enough replicas acknowledged, and answers the station or client it came from. A replica
  acknowledges an entry when it executes the one before. Leaders are elected by the bully algorithm.
  A node that goes offline grants its pumps' charges at once and queues them for later. Two more
  processes speak the same wire format: a forwarding client that has only a station, and the
  administrator.

  \<^bold>\<open>Theories.\<close>
  \<^item> \<open>Prelude\<close>: results with errors and panics, the named collections, hash maps as association
    lists with their laws stated as a locale and interpreted, outcomes of stateful code.
  \<^item> \<open>F32\<close>: the \<open>f32\<close> type by its 32 bits: comparison, rounding addition, conversion from integers,
    NaN and the infinities.
  \<^item> \<open>Domain\<close>: \<open>common/src/operation.rs\<close>, \<open>operation_result.rs\<close>, \<open>errors.rs\<close>, \<open>node_role.rs\<close>,
    \<open>network/message.rs\<close>; the texts in errors are dropped.
  \<^item> \<open>Serialization\<close>, \<open>Deserialization\<close>, \<open>Roundtrip\<close>: \<open>common/src/network/serials/\<close>, byte for byte. The
    reader yields a value, an error, or a panic (a slice out of range, a \<open>todo!()\<close>).
    \<open>WireTyping\<close>: what the reader can return and how many bytes a message takes.
  \<^item> \<open>Streams\<close>: \<open>network/handler/\<close>: frames, the reader that a \<open>select!\<close> may drop half way, the heartbeat and
    its time-out.
  \<^item> \<open>Connection\<close>: \<open>network/connection.rs\<close>, \<open>active_helpers.rs\<close>, \<open>acceptor.rs\<close>: the bounded table of handlers.
  \<^item> \<open>ActorMessages\<close>, \<open>AccountActor\<close>, \<open>CardActor\<close>, \<open>ActorRouter\<close>, \<open>ActorSystem\<close>: \<open>server/src/node/actors/\<close> and
    \<open>database.rs\<close>; each actor has a mailbox and any schedule runs them.
    \<open>DatabaseSpec\<close> is the sequential ledger that it implements; \<open>ActorProgress\<close> bounds the messages that
    it still has to deliver and \<open>ActorAnswers\<close> counts its answers.
  \<^item> \<open>Node\<close>, \<open>Leader\<close>, \<open>Replica\<close>, \<open>NodeRuntime\<close>: \<open>node.rs\<close> (the trait's default methods and the event loop),
    \<open>leader.rs\<close>, \<open>replica.rs\<close>, \<open>utils.rs\<close>, \<open>pending_operation.rs\<close>, and the changes of role.
  \<^item> \<open>Cluster\<close>, \<open>ClusterProgress\<close>, \<open>ClusterFaults\<close>: a leader and its replicas as one step relation over their
    handlers, linked by first-in first-out channels; no code of its own. \<open>ClusterLinks\<close>, \<open>ClusterSettles\<close>:
    the same over links that stay up, and how far it is from rest. \<open>Election\<close>: the same for the
    nodes that a lost leader leaves, over the whole turns of their event loops.
  \<^item> \<open>CommandText\<close>, \<open>SocketText\<close>, \<open>Station\<close>: the library functions on text that the command lines use
    (numbers, socket addresses), and \<open>common/src/station.rs\<close>.
  \<^item> \<open>NodeClient\<close>, \<open>Administrator\<close>: \<open>client/src/\<close>.
  \<^item> \<open>PumpTrip\<close>: one charge on its way through station, client, leader and database and back; no code of its own.
  \<^item> \<open>Snapshots\<close>: a replica that joins: the snapshot of the leader's actors, its \<open>ClusterView\<close> on the wire,
    the joiner's actors; no code of its own.
  \<^item> \<open>EntryPoints\<close>: the three \<open>main\<close>s with \<open>Leader::start\<close> and \<open>Replica::start\<close>, from the command line to
    the running process, and a server process as a step relation over its loop, its connection, its
    actors and its station.
  \<^item> this theory: properties of several components together.

  \<^bold>\<open>What the lemmas show.\<close> Wire: serialising is total on IPv4 addresses, every message that a node
  builds is read back as itself or as a stated image, and one message makes the reader panic; what the
  reader returns for any bytes is a message a node can write; a message has a stated size and fits
  its frame if and only if that is less than 65536.
  Streams: queued messages arrive in order and unchanged unless a read is interrupted. Connection:
  the table of handlers keeps its bound and evicts a least recently used peer. Actors: under every
  schedule no actor panics, no card is stuck, each card finishes its operations in order and limits
  are never exceeded (but for a NaN amount); a schedule that delivers comes to rest after a bounded
  number of messages, with each charge and limit change answered exactly once, but a query or bill
  that starts while another of its account waits is the end of the first; run serially they are the
  ledger. Leader and replica:
  execution on the quorum's acknowledgement, which computed in floats is the majority rule,
  replication to all peers before it, execution of the
  log one entry behind, answers to station and client exactly once, outcome of an election. Cluster:
  without failures all members replicate one log, what the leader executes is on a majority, and
  when nothing is left to deliver every replica has caught up; over links that stay up that point is
  reached after a bounded number of deliveries, with every request answered; a
  peer lost while an entry is sent forks the log, and the same log can leave two databases different
  when its operations reach the actors at different times. Election: after the leader is lost only
  the highest survivor ever leads, and when the messages are delivered all follow it; an answer
  slower than the time-out kills the higher node. Station:
  its two tables are one table of pumps, and a line is read back as printed. Client: every charge is
  forwarded or granted and queued, and the queue loses and doubles none; a forwarded one is settled by
  the ledger of the leader and its pump freed. Joining: a replica that joins gets the leader's
  ledger, but an entry that was pending then is missing from it for good. Processes: a command line
  is turned into the process it describes or into an exit code, and a running server stays in order
  whatever its parts do.

  \<^bold>\<open>Bounds and fuel.\<close> No definition takes fuel. A loop over an input that arrives is a function of the
  list of what arrived (\<open>handler_run\<close>, \<open>station_run\<close>, \<open>admin_run\<close>, \<open>system_run\<close>); the wait for an answer
  is a recursion on the inbox and the loop that draws a request number one on the draws, and both
  say when they are still waiting. Integers keep their widths as words; an overflow that panics in
  the debug build panics here, \<open>wrapping_add\<close> wraps.

  \<^bold>\<open>Parameters.\<close> \<open>hash\<close> is \<open>DefaultHasher\<close> on an address; \<open>cn_reachable\<close> and \<open>cn_can_bind\<close> say which connects
  and binds the network grants; \<open>draws\<close> is what \<open>rand\<close> returns; the clock is a field of the connection;
  \<open>args\<close> is what \<open>clap\<close> makes of the server's command line.

  \<^bold>\<open>Not modelled.\<close> What \<open>clap\<close> does with the text of the server's options; the scope and the flow of an
  IPv6 address, which nothing reads; the
  blocking of a full channel (only the actors' event channel, whose \<open>try_send\<close> drops an event, has a
  bound); the ends of threads and tasks on drop; the digits of printed amounts; \<open>get_status\<close>,
  \<open>ApplyError\<close>, \<open>LimitScope\<close> and the two structs of \<open>replica.rs\<close> that nothing uses; the simulation, the
  scripts and the documents, which are not Rust.
\<close>

section \<open>A pump of an offline node\<close>

text \<open>C23: A pump of an offline node is served: the charge its line becomes is granted by the leader in
  one turn of its loop and queued as an offline charge, and the grant, delivered to the
  station, leaves every pump as it was before the line.\<close>

theorem offline_pump_served:
  assumes "station_ok sim" "0 < ss_num_pumps sim" "ss_to_node_open sim"
    and "handle_line draws input sim = Some (sim1, SimRunning)"
    and "ss_to_node sim1 = ss_to_node sim @ [ChargeRequest a c x r]"
    and "ld_is_offline l" "nw_from_station w = [ChargeRequest a c x r]" "nw_to_station_open w"
  shows "\<exists>l' w' sim2. node_turn (leader_ops hash) StationReady (l, w) = (l', w', None) \<and>
    ld_offline_queue l' = ld_offline_queue l @ [Charge a c x True] \<and>
    nw_to_station w' = nw_to_station w @ [StationChargeResult r True None] \<and>
    station_step (NodeEvent (StationChargeResult r True None)) sim1 = Some (sim2, SimRunning) \<and>
    pumps_of sim2 = pumps_of sim"
proof -
  have line: "station_ok sim1" "map (\<lambda>p. if waits_for r p then None else p) (pumps_of sim1) = pumps_of sim"
    using charge_line [OF assms(1-5)] by simp_all
  obtain sim2 where "station_step (NodeEvent (StationChargeResult r True None)) sim1 = Some (sim2, SimRunning)"
      "pumps_of sim2 = pumps_of sim"
    using charge_answer [OF line] by blast
  moreover have "\<exists>l' w'. node_turn (leader_ops hash) StationReady (l, w) = (l', w', None) \<and>
      ld_offline_queue l' = ld_offline_queue l @ [Charge a c x True] \<and>
      nw_to_station w' = nw_to_station w @ [StationChargeResult r True None]"
    using assms(6-8)
    by (simp add: node_turn_def node_select_def after_select_def handle_charge_request_def
        leader_ops_def on_world_def station_send_def Let_def)
  ultimately show ?thesis by blast
qed

theorem offline_pump_served_witness:
  "\<exists>sim1 l' w' sim2. handle_line [9] ''0 1 10 5'' (fst (station_start 1)) = Some (sim1, SimRunning) \<and>
    node_turn (leader_ops (\<lambda>a. 0)) StationReady ((fst alone)\<lparr>ld_is_offline := True\<rparr>,
      (snd alone)\<lparr>nw_from_station := ss_to_node sim1\<rparr>) = (l', w', None) \<and>
    ld_offline_queue l' = [Charge 1 10 (f32_of_usize 5) True] \<and>
    station_step (NodeEvent (StationChargeResult 9 True None)) sim1 = Some (sim2, SimRunning) \<and>
    pumps_of sim2 = [None]"
proof -
  obtain sim1 where s: "handle_line [9] ''0 1 10 5'' (fst (station_start 1)) = Some (sim1, SimRunning)"
    "ss_to_node sim1 = [ChargeRequest 1 10 (f32_of_usize 5) 9]"
    using sample_line_charge by blast
  have "ss_to_node sim1 = ss_to_node (fst (station_start 1)) @ [ChargeRequest 1 10 (f32_of_usize 5) 9]"
    "pumps_of (fst (station_start 1)) = [None]" "ld_offline_queue (fst alone) = []"
    "0 < ss_num_pumps (fst (station_start 1))" "ss_to_node_open (fst (station_start 1))"
    "nw_to_station_open (snd alone)"
    using s(2) by (simp_all add: station_start_def pumps_of_def alone_def leader_start_state_def pair_cluster_def)
  with offline_pump_served [OF station_start_ok _ _ s(1), of 1 10 "f32_of_usize 5" 9
      "(fst alone)\<lparr>ld_is_offline := True\<rparr>" "(snd alone)\<lparr>nw_from_station := ss_to_node sim1\<rparr>" "\<lambda>a. 0"] s
  show ?thesis by simp blast
qed

section \<open>A refused card limit\<close>

lemma refusal_panics_reader:
  assumes "serialize_message (Response req_id (ResLimitCard (LimitFailed e))) = Ok bytes"
    and "rx_progress rx = ReadingLen []" "rx_inbuf rx = frame bytes @ rest"
  shows "receiver_recv rx = (rx\<lparr>rx_inbuf := rest\<rparr>, Some Panicked)"
proof -
  let ?m = "Response req_id (ResLimitCard (LimitFailed e))"
  have ok: "message_ok ?m" by simp
  then have bytes: "bytes = message_bytes ?m"
    using serialize_message_bytes [OF ok] unfolding assms(1) by (simp only: sum.inject)
  have "deserialize_message bytes = Panicked"
    using message_read [OF ok] by (simp add: bytes del: message_bytes.simps)
  moreover have len: "1 < length bytes" "length bytes < 65536"
    using length_verify_error [of e] unfolding bytes
    by (simp_all add: serialize_limit_card_result_def)
  ultimately show ?thesis
    using recv_frame_prefix [OF assms(2,3)] by (auto simp: recv_classify_def)
qed

text \<open>The answer to a refused card limit change is never seen: when its frame reaches a process that
  waits for it, the reading task dies in the reader's \<open>todo!()\<close>, nothing is handed on, and an
  administrator whose inbox was empty goes on waiting.\<close>

theorem refused_card_limit_never_answered:
  assumes "serialize_message (Response req_id (ResLimitCard (LimitFailed e))) = Ok bytes"
    and "cn_connected conn" "cn_inbox conn = []"
    and "hm_get (cn_active conn) a = Some h" "ph_alive h"
    and "rx_progress (ht_rx (ph_task h)) = ReadingLen []" "rx_out (ht_rx (ph_task h)) = []"
    and "rx_inbuf (ht_rx (ph_task h)) = frame bytes @ rest"
  shows "\<exists>h'. hm_get (cn_active (connection_task a RecvReady conn)) a = Some h' \<and>
    ht_status (ph_task h') = Died \<and>
    await_response req_id (connection_task a RecvReady conn) = (connection_task a RecvReady conn, None)"
proof -
  let ?t = "handler_step (cn_now conn) RecvReady (ph_task h)"
  have "?t = (ph_task h)\<lparr>ht_rx := (ht_rx (ph_task h))\<lparr>rx_inbuf := rest\<rparr>, ht_status := Died\<rparr>"
    using refusal_panics_reader [OF assms(1,6,8)]
    by (simp add: handle_recv_result_def after_event_def)
  then have c: "connection_task a RecvReady conn = conn\<lparr>cn_active := hm_insert a
      (h\<lparr>ph_task := ?t\<lparr>ht_rx := (ht_rx ?t)\<lparr>rx_out := []\<rparr>\<rparr>\<rparr>) (cn_active conn)\<rparr>"
    "ht_status ?t = Died"
    using assms(3-5,7) by (simp_all add: connection_task_def Let_def)
  have "connection_recv (connection_task a RecvReady conn) = (connection_task a RecvReady conn, None)"
    using assms(2,3) c(1) by (simp add: connection_recv_def)
  then have "await_response req_id (connection_task a RecvReady conn) =
      (connection_task a RecvReady conn, None)"
    by (subst await_response.simps) simp
  moreover have "hm_get (cn_active (connection_task a RecvReady conn)) a =
      Some (h\<lparr>ph_task := ?t\<lparr>ht_rx := (ht_rx ?t)\<lparr>rx_out := []\<rparr>\<rparr>\<rparr>)"
    unfolding c(1) by simp
  moreover have "ht_status (ph_task (h\<lparr>ph_task := ?t\<lparr>ht_rx := (ht_rx ?t)\<lparr>rx_out := []\<rparr>\<rparr>\<rparr>)) = Died"
    using c(2) by (simp del: handler_step.simps)
  ultimately show ?thesis by blast
qed

lemma refused_limit_bytes: "\<exists>bs. serialize_message (Response 1 (ResLimitCard (LimitFailed (LimitUpdate BelowCurrentUsage)))) = Ok bs"
  using serialize_message_bytes [of "Response 1 (ResLimitCard (LimitFailed (LimitUpdate BelowCurrentUsage)))"]
  by (simp del: serialize_message.simps)
theorem refused_card_limit_never_answered_witness:
  "\<exists>bytes conn. serialize_message (Response 1 (ResLimitCard (LimitFailed (LimitUpdate BelowCurrentUsage)))) = Ok bytes \<and>
     rx_inbuf (ht_rx (ph_task (the (hm_get (cn_active conn) (SocketAddr (V4 127 0 0 1) 1))))) = frame bytes \<and>
     await_response 1 (connection_task (SocketAddr (V4 127 0 0 1) 1) RecvReady conn) =
       (connection_task (SocketAddr (V4 127 0 0 1) 1) RecvReady conn, None)"
proof -
  obtain bytes where b: "serialize_message (Response 1 (ResLimitCard (LimitFailed (LimitUpdate BelowCurrentUsage)))) = Ok bytes"
    using refused_limit_bytes by blast
  define h where "h = handler_new 0 [] (frame bytes) (SocketAddr (V4 127 0 0 1) 1)"
  let ?conn = "sample_connection\<lparr>cn_active := [(SocketAddr (V4 127 0 0 1) 1, h)]\<rparr>"
  have "hm_get (cn_active ?conn) (SocketAddr (V4 127 0 0 1) 1) = Some h" "rx_inbuf (ht_rx (ph_task h)) = frame bytes"
    "ph_alive h" "rx_progress (ht_rx (ph_task h)) = ReadingLen []" "rx_out (ht_rx (ph_task h)) = []"
    "cn_connected ?conn" "cn_inbox ?conn = []"
    by (simp_all add: hm_get_def h_def handler_new_def new_handler_task_def ph_alive_def sample_connection_def)
  then show ?thesis
    using refused_card_limit_never_answered [OF b, of ?conn "SocketAddr (V4 127 0 0 1) 1" h "[]"] b
    by (intro exI [of _ bytes] exI [of _ ?conn]) auto
qed

end
